(* ===== verification/C2sql_Prelude.thy ===== *)
theory C2sql_Prelude
  imports Main "HOL-Library.Word" "HOL-Library.Monad_Syntax"
begin

text \<open>
  Shared material of the development: the conventions under which the C code of libc2sql is
  modelled, and the generic definitions and lemmas every component uses.

  \<^item> A C function that may exhibit undefined behaviour (an out-of-bounds access, a null or
    dangling pointer) or may never return has a result of type \<open>'a option\<close>: \<open>None\<close> stands
    for that, \<open>Some r\<close> for a normal return of \<open>r\<close>. Memory safety and termination are
    therefore theorems of the form \<open>\<exists>r. f x = Some r\<close>.
  \<^item> Every allocation (\<open>malloc\<close>, \<open>calloc\<close>, \<open>realloc\<close>, \<open>strdup\<close>) asks the allocation
    oracle of type \<open>mem\<close> whether it succeeds; the code's out-of-memory branches are thus part of
    the model. The empty oracle answers that every allocation succeeds.
  \<^item> A byte of memory is a \<open>char\<close>; a C string is the list of its bytes before the
    terminating NUL. An optional pointer argument is an \<open>option\<close>, \<open>None\<close> being \<open>NULL\<close>.
\<close>

named_theorems c2sql_simps \<open>equations that unfold the building blocks of the model\<close>

section \<open>The allocation oracle\<close>

type_synonym mem = "bool list"

fun alloc :: "mem \<Rightarrow> bool \<times> mem" where
  "alloc [] = (True, [])"
| "alloc (ok # m) = (ok, m)"

section \<open>The option monad of possibly undefined computations\<close>

lemma bind_Some_iff [c2sql_simps]:
  "Option.bind x f = Some y \<longleftrightarrow> (\<exists>a. x = Some a \<and> f a = Some y)"
  by (cases x) auto

text \<open>
  A partial-correctness calculus for such computations: \<open>ensures x P\<close> says that \<open>P\<close> holds of
  the result of \<open>x\<close> if it has one. The simplifier reduces \<open>ensures\<close> over the monad's
  operations; the rules collected in \<open>wp\<close> supply what is known of the calls in between.
\<close>

named_theorems wp \<open>rules for the calls of a computation\<close>

definition ensures :: "'a option \<Rightarrow> ('a \<Rightarrow> bool) \<Rightarrow> bool" where
  "ensures x P \<longleftrightarrow> (\<forall>a. x = Some a \<longrightarrow> P a)"

lemma ensures_simps [simp]:
  "ensures (Some a) P \<longleftrightarrow> P a" "ensures None P" "ensures (Option.bind x f) P \<longleftrightarrow> ensures x (\<lambda>a. ensures (f a) P)"
  "ensures (map_option g x) P \<longleftrightarrow> ensures x (\<lambda>a. P (g a))"
  by (auto simp: ensures_def bind_Some_iff)

lemma ensures_any: "(\<And>a. P a) \<Longrightarrow> ensures x P"
  by (simp add: ensures_def)

lemma ensures_mono: "ensures x P \<Longrightarrow> (\<And>a. P a \<Longrightarrow> Q a) \<Longrightarrow> ensures x Q"
  by (simp add: ensures_def)

lemma ensuresI: "(\<And>a. x = Some a \<Longrightarrow> P a) \<Longrightarrow> ensures x P"
  by (simp add: ensures_def)

lemma ensuresD: "ensures x P \<Longrightarrow> x = Some a \<Longrightarrow> P a"
  by (simp add: ensures_def)

lemma ensures_both: "ensures x P \<Longrightarrow> ensures x Q \<Longrightarrow> ensures x (\<lambda>a. P a \<and> Q a)"
  by (simp add: ensures_def)

lemma ensures_bindI: "ensures x (\<lambda>a. ensures (f a) P) \<Longrightarrow> ensures (Option.bind x f) P"
  by simp

lemma ensures_if: "(b \<Longrightarrow> ensures x P) \<Longrightarrow> (\<not> b \<Longrightarrow> ensures y P) \<Longrightarrow> ensures (if b then x else y) P"
  by simp

lemma ensures_option:
  "(x = None \<Longrightarrow> ensures f P) \<Longrightarrow> (\<And>a. x = Some a \<Longrightarrow> ensures (g a) P) \<Longrightarrow>
     ensures (case x of None \<Rightarrow> f | Some a \<Rightarrow> g a) P"
  by (cases x) auto

lemma ensures_prod:
  "(\<And>a b. p = (a, b) \<Longrightarrow> ensures (f a b) P) \<Longrightarrow> ensures (case p of (a, b) \<Rightarrow> f a b) P"
  by (cases p) auto

lemma ensures_Let: "(\<And>a. a = x \<Longrightarrow> ensures (f a) P) \<Longrightarrow> ensures (Let x f) P"
  by simp

lemma case_prodI3: "(\<And>a b c. p = (a, b, c) \<Longrightarrow> P a b c) \<Longrightarrow> case p of (a, b, c) \<Rightarrow> P a b c"
  by (cases p) auto

section \<open>Characters and strings of the C library\<close>

abbreviation NUL :: char where
  "NUL \<equiv> CHR 0x00"

abbreviation DQ :: char where
  "DQ \<equiv> CHR 0x22"

text \<open>A \<open>%s\<close> between single quotes, as the error messages print names.\<close>

definition squote :: "string \<Rightarrow> string" where
  "squote s = CHR 0x27 # s @ [CHR 0x27]"

definition ord_char :: "char \<Rightarrow> nat" where
  "ord_char c = of_char c"

definition isupper :: "char \<Rightarrow> bool" where
  "isupper c \<longleftrightarrow> 65 \<le> ord_char c \<and> ord_char c \<le> 90"

definition islower :: "char \<Rightarrow> bool" where
  "islower c \<longleftrightarrow> 97 \<le> ord_char c \<and> ord_char c \<le> 122"

definition isdigit :: "char \<Rightarrow> bool" where
  "isdigit c \<longleftrightarrow> 48 \<le> ord_char c \<and> ord_char c \<le> 57"

definition isalpha :: "char \<Rightarrow> bool" where
  "isalpha c \<longleftrightarrow> isupper c \<or> islower c"

definition isalnum :: "char \<Rightarrow> bool" where
  "isalnum c \<longleftrightarrow> isalpha c \<or> isdigit c"

definition toupper :: "char \<Rightarrow> char" where
  "toupper c = (if islower c then char_of (ord_char c - 32) else c)"

text \<open>The characters of SQL identifiers the library accepts.\<close>

definition ident_char :: "char \<Rightarrow> bool" where
  "ident_char c \<longleftrightarrow> isalnum c \<or> c = CHR ''_''"

abbreviation ident_chars :: "string \<Rightarrow> bool" where
  "ident_chars s \<equiv> list_all ident_char s"

lemmas char_class_defs =
  ident_char_def isalnum_def isalpha_def isupper_def islower_def isdigit_def ord_char_def

lemma ident_chars_notin: "ident_chars s \<Longrightarrow> \<not> ident_char c \<Longrightarrow> c \<notin> set s"
  by (auto simp: list_all_iff)

text \<open>\<open>strstr(s, pat) != NULL\<close>: \<open>pat\<close> occurs in \<open>s\<close>.\<close>

fun strstr :: "string \<Rightarrow> string \<Rightarrow> bool" where
  "strstr [] pat \<longleftrightarrow> pat = []"
| "strstr (c # s) pat \<longleftrightarrow> take (length pat) (c # s) = pat \<or> strstr s pat"

lemma strstr_append: "strstr (xs @ pat @ ys) pat"
proof (induction xs)
  case Nil
  have "take (length pat) (pat @ ys) = pat" by simp
  then show ?case by (cases "pat @ ys") (simp_all del: append_eq_conv_conj)
next
  case (Cons x xs)
  then show ?case by simp
qed

section \<open>Decimal printing (\<open>%d\<close>, \<open>%zu\<close>)\<close>

definition digit_char :: "nat \<Rightarrow> char" where
  "digit_char d = char_of (48 + d)"

fun dec_of_nat :: "nat \<Rightarrow> string" where
  "dec_of_nat n = (if n < 10 then [digit_char n] else dec_of_nat (n div 10) @ [digit_char (n mod 10)])"

declare dec_of_nat.simps [simp del]

definition dec_of_int :: "int \<Rightarrow> string" where
  "dec_of_int i = (if i < 0 then CHR ''-'' # dec_of_nat (nat (- i)) else dec_of_nat (nat i))"

fun nat_of_dec :: "nat \<Rightarrow> string \<Rightarrow> nat" where
  "nat_of_dec v [] = v"
| "nat_of_dec v (c # cs) = nat_of_dec (v * 10 + (ord_char c - 48)) cs"

lemma nat_of_dec_append: "nat_of_dec v (xs @ ys) = nat_of_dec (nat_of_dec v xs) ys"
  by (induction v xs rule: nat_of_dec.induct) auto

lemma ord_digit_char [simp]: "d < 10 \<Longrightarrow> ord_char (digit_char d) = 48 + d"
  by (simp add: ord_char_def digit_char_def)

lemma isdigit_digit_char [simp]: "d < 10 \<Longrightarrow> isdigit (digit_char d)"
  by (simp add: isdigit_def)

lemma dec_of_nat_isdigit: "c \<in> set (dec_of_nat n) \<Longrightarrow> isdigit c"
proof (induction n rule: dec_of_nat.induct)
  case (1 n)
  then show ?case
    by (cases "n < 10") (auto simp: dec_of_nat.simps [of n])
qed

lemma dec_of_nat_nonempty [simp]: "dec_of_nat n \<noteq> []"
  by (subst dec_of_nat.simps) simp

lemma nat_of_dec_dec_of_nat [simp]: "nat_of_dec 0 (dec_of_nat n) = n"
proof (induction n rule: dec_of_nat.induct)
  case (1 n)
  then show ?case
    by (cases "n < 10") (simp_all add: dec_of_nat.simps [of n] nat_of_dec_append)
qed

lemma dec_of_nat_inject [simp]: "dec_of_nat m = dec_of_nat n \<longleftrightarrow> m = n"
  by (metis nat_of_dec_dec_of_nat)

section \<open>Integers in memory (little endian)\<close>

fun le_nat :: "char list \<Rightarrow> nat" where
  "le_nat [] = 0"
| "le_nat (b # bs) = ord_char b + 256 * le_nat bs"

fun le_of_nat :: "nat \<Rightarrow> nat \<Rightarrow> char list" where
  "le_of_nat 0 x = []"
| "le_of_nat (Suc n) x = char_of (x mod 256) # le_of_nat n (x div 256)"

definition le_word :: "char list \<Rightarrow> 'a::len word" where
  "le_word bs = word_of_nat (le_nat bs)"

definition le_bytes :: "nat \<Rightarrow> 'a::len word \<Rightarrow> char list" where
  "le_bytes n w = le_of_nat n (unat w)"

lemma ord_char_less [simp]: "ord_char c < 256"
  by (simp add: ord_char_def)

lemma length_le_of_nat [simp]: "length (le_of_nat n x) = n"
  by (induction n x rule: le_of_nat.induct) auto

lemma length_le_bytes [simp]: "length (le_bytes n w) = n"
  by (simp add: le_bytes_def)

lemma le_nat_less: "le_nat bs < 256 ^ length bs"
proof (induction bs)
  case (Cons b bs)
  have "ord_char b + 256 * le_nat bs < 256 * (1 + le_nat bs)"
    using ord_char_less [of b] by simp
  also have "\<dots> \<le> 256 * 256 ^ length bs"
    using Cons by (intro mult_le_mono2) simp
  finally show ?case by simp
qed simp

lemma le_of_nat_le_nat: "length bs = n \<Longrightarrow> le_of_nat n (le_nat bs) = bs"
proof (induction n arbitrary: bs)
  case (Suc n)
  then obtain b cs where bs: "bs = b # cs" "length cs = n" by (cases bs) auto
  have "char_of (ord_char b) = b" by (simp add: ord_char_def)
  with Suc bs show ?case by (simp add: mod_mult_self2 del: char_of_nat)
qed simp

lemma le_nat_le_of_nat: "x < 256 ^ n \<Longrightarrow> le_nat (le_of_nat n x) = x"
proof (induction n arbitrary: x)
  case (Suc n)
  have "x div 256 < 256 ^ n" using Suc.prems by (simp add: less_mult_imp_div_less mult.commute)
  then show ?case using Suc.IH by (simp add: ord_char_def)
qed simp

lemma le_bytes_le_word:
  assumes "length bs = n" and "8 * n \<le> LENGTH('a)"
  shows "le_bytes n (le_word bs :: 'a::len word) = bs"
proof -
  have "le_nat bs < 256 ^ n" using le_nat_less [of bs] assms(1) by simp
  also have "\<dots> = 2 ^ (8 * n)" by (simp add: power_mult)
  also have "\<dots> \<le> 2 ^ LENGTH('a)" using assms(2) by simp
  finally have "unat (word_of_nat (le_nat bs) :: 'a word) = le_nat bs"
    by (simp add: unat_of_nat)
  with assms(1) show ?thesis by (simp add: le_bytes_def le_word_def le_of_nat_le_nat)
qed

lemma le_word_le_bytes:
  fixes w :: "'a::len word"
  assumes "LENGTH('a) \<le> 8 * n"
  shows "le_word (le_bytes n w) = w"
proof -
  have "unat w < 2 ^ LENGTH('a)" by (rule unsigned_less)
  also have "\<dots> \<le> 2 ^ (8 * n)" using assms by simp
  also have "\<dots> = 256 ^ n" by (simp add: power_mult)
  finally show ?thesis by (simp add: le_bytes_def le_word_def le_nat_le_of_nat)
qed

section \<open>Bounds-checked memory accesses\<close>

definition read_bytes :: "char list \<Rightarrow> nat \<Rightarrow> nat \<Rightarrow> char list option" where
  "read_bytes buf off n = (if off + n \<le> length buf then Some (take n (drop off buf)) else None)"

definition write_bytes :: "char list \<Rightarrow> nat \<Rightarrow> char list \<Rightarrow> char list option" where
  "write_bytes buf off bs =
     (if off + length bs \<le> length buf then Some (take off buf @ bs @ drop (off + length bs) buf)
      else None)"

lemma read_bytes_length: "read_bytes buf off n = Some bs \<Longrightarrow> length bs = n"
  by (auto simp: read_bytes_def split: if_splits)

lemma write_bytes_length: "write_bytes buf off bs = Some buf' \<Longrightarrow> length buf' = length buf"
  by (auto simp: write_bytes_def split: if_splits)

lemma read_write_same:
  "write_bytes buf off bs = Some buf' \<Longrightarrow> read_bytes buf' off (length bs) = Some bs"
  by (auto simp: write_bytes_def read_bytes_def split: if_splits)

lemma read_write_disjoint:
  assumes "write_bytes buf off bs = Some buf'"
    and "o2 + n \<le> off \<or> off + length bs \<le> o2"
  shows "read_bytes buf' o2 n = read_bytes buf o2 n"
proof (cases "o2 + n \<le> length buf")
  case True
  have b: "off + length bs \<le> length buf"
    and buf': "buf' = take off buf @ bs @ drop (off + length bs) buf"
    using assms(1) by (auto simp: write_bytes_def split: if_splits)
  have "take n (drop o2 buf') = take n (drop o2 buf)"
  proof (rule nth_equalityI)
    show "length (take n (drop o2 buf')) = length (take n (drop o2 buf))"
      using write_bytes_length [OF assms(1)] by simp
  next
    fix i assume "i < length (take n (drop o2 buf'))"
    then have i: "i < n" "o2 + i < length buf" using write_bytes_length [OF assms(1)] by auto
    show "take n (drop o2 buf') ! i = take n (drop o2 buf) ! i"
      using i b assms(2) True by (auto simp: buf' nth_append)
  qed
  then show ?thesis using True write_bytes_length [OF assms(1)] by (simp add: read_bytes_def)
next
  case False
  with write_bytes_length [OF assms(1)] show ?thesis by (simp add: read_bytes_def)
qed

section \<open>List lemmas\<close>

lemma count_list_concat_map:
  "count_list (concat (map f xs)) c = sum_list (map (\<lambda>x. count_list (f x) c) xs)"
  by (induction xs) auto

lemma count_list_notin [simp]: "c \<notin> set xs \<Longrightarrow> count_list xs c = 0"
  by (induction xs) auto

text \<open>Array indexing with the bounds that C leaves to the caller.\<close>

definition nth_opt :: "'a list \<Rightarrow> nat \<Rightarrow> 'a option" where
  "nth_opt xs i = (if i < length xs then Some (xs ! i) else None)"

text \<open>The linear search \<^verbatim>\<open>for (i = 0; i < n; i++) if (P(a[i])) ...\<close>.\<close>

fun find_index :: "('a \<Rightarrow> bool) \<Rightarrow> 'a list \<Rightarrow> nat option" where
  "find_index P [] = None"
| "find_index P (x # xs) = (if P x then Some 0 else map_option Suc (find_index P xs))"

lemma find_index_None: "find_index P xs = None \<longleftrightarrow> (\<forall>x \<in> set xs. \<not> P x)"
  by (induction xs) auto

lemma find_index_Some:
  "find_index P xs = Some i \<longleftrightarrow> i < length xs \<and> P (xs ! i) \<and> (\<forall>j < i. \<not> P (xs ! j))"
proof (induction xs arbitrary: i)
  case (Cons x xs)
  show ?case
  proof (cases i)
    case 0
    then show ?thesis by auto
  next
    case (Suc k)
    then show ?thesis using Cons.IH [of k] by (auto simp: less_Suc_eq_0_disj)
  qed
qed simp

lemma find_index_append:
  "find_index P (xs @ ys) =
     (case find_index P xs of Some i \<Rightarrow> Some i | None \<Rightarrow> map_option (\<lambda>i. length xs + i) (find_index P ys))"
proof (induction xs)
  case Nil
  show ?case by (cases "find_index P ys") auto
next
  case (Cons x xs)
  then show ?case by (cases "find_index P ys") (auto split: option.splits)
qed

text \<open>The length of a blob that fits an \<^verbatim>\<open>int\<close> survives the cast to it.\<close>

lemma blob_length: "n < 2 ^ 31 \<Longrightarrow> sint (word_of_nat n :: 32 word) = int n"
  using int_word_sint [where x = "int n" and 'a = 32] by simp

end
