(* ===== verification/C2sql_Types.thy ===== *)
theory C2sql_Types
  imports C2sql_Prelude
begin

text \<open>
  The public data types of \<^verbatim>\<open>include/c2sql.h\<close>, the driver vtable of
  \<^verbatim>\<open>src/db_driver.h\<close>, and the three small services embedded in a handle: the error
  context (\<^verbatim>\<open>src/error_ctx.c\<close>), the logger (\<^verbatim>\<open>src/logger.c\<close>) and the mutex wrapper
  (\<^verbatim>\<open>src/mutex.c\<close>).
\<close>

unbundle bit_operations_syntax

section \<open>Result codes\<close>

datatype SqlRDBResult =
    SQL_RDB_OK
  | SQL_RDB_WARN_TRUNCATED
  | SQL_RDB_ERR_INVALID_ARG
  | SQL_RDB_ERR_INVALID_HANDLE
  | SQL_RDB_ERR_INVALID_NAME
  | SQL_RDB_ERR_DB_OPEN
  | SQL_RDB_ERR_NO_MEMORY
  | SQL_RDB_ERR_DUPLICATE_SCHEMA
  | SQL_RDB_ERR_DUPLICATE_COLUMN
  | SQL_RDB_ERR_TOO_MANY_COLUMNS
  | SQL_RDB_ERR_UNKNOWN_STRUCT
  | SQL_RDB_ERR_UNKNOWN_COLUMN
  | SQL_RDB_ERR_SCHEMA_MISMATCH
  | SQL_RDB_ERR_NOT_FOUND
  | SQL_RDB_ERR_MULTIPLE_ROWS
  | SQL_RDB_ERR_NOT_NULL_VIOLATION
  | SQL_RDB_ERR_CAPACITY_EXCEEDED
  | SQL_RDB_ERR_NO_ACTIVE_TX
  | SQL_RDB_ERR_NESTED_TX
  | SQL_RDB_ERR_DRIVER
  | SQL_RDB_ERR_INTERNAL

fun result_code :: "SqlRDBResult \<Rightarrow> int" where
  "result_code SQL_RDB_OK = 0"
| "result_code SQL_RDB_WARN_TRUNCATED = 1"
| "result_code SQL_RDB_ERR_INVALID_ARG = -1"
| "result_code SQL_RDB_ERR_INVALID_HANDLE = -2"
| "result_code SQL_RDB_ERR_INVALID_NAME = -3"
| "result_code SQL_RDB_ERR_DB_OPEN = -10"
| "result_code SQL_RDB_ERR_NO_MEMORY = -11"
| "result_code SQL_RDB_ERR_DUPLICATE_SCHEMA = -20"
| "result_code SQL_RDB_ERR_DUPLICATE_COLUMN = -21"
| "result_code SQL_RDB_ERR_TOO_MANY_COLUMNS = -22"
| "result_code SQL_RDB_ERR_UNKNOWN_STRUCT = -23"
| "result_code SQL_RDB_ERR_UNKNOWN_COLUMN = -24"
| "result_code SQL_RDB_ERR_SCHEMA_MISMATCH = -25"
| "result_code SQL_RDB_ERR_NOT_FOUND = -30"
| "result_code SQL_RDB_ERR_MULTIPLE_ROWS = -31"
| "result_code SQL_RDB_ERR_NOT_NULL_VIOLATION = -32"
| "result_code SQL_RDB_ERR_CAPACITY_EXCEEDED = -33"
| "result_code SQL_RDB_ERR_NO_ACTIVE_TX = -40"
| "result_code SQL_RDB_ERR_NESTED_TX = -41"
| "result_code SQL_RDB_ERR_DRIVER = -50"
| "result_code SQL_RDB_ERR_INTERNAL = -99"

lemma result_code_inject: "result_code a = result_code b \<Longrightarrow> a = b"
  by (cases a; cases b; simp)

text \<open>Results are ordered by their numeric code: the errors are the results below \<open>SQL_RDB_OK\<close>.\<close>

instantiation SqlRDBResult :: linorder
begin

definition less_eq_SqlRDBResult :: "SqlRDBResult \<Rightarrow> SqlRDBResult \<Rightarrow> bool" where
  "a \<le> b \<longleftrightarrow> result_code a \<le> result_code b"

definition less_SqlRDBResult :: "SqlRDBResult \<Rightarrow> SqlRDBResult \<Rightarrow> bool" where
  "a < b \<longleftrightarrow> result_code a < result_code b"

instance
  by standard (auto simp: less_eq_SqlRDBResult_def less_SqlRDBResult_def intro: result_code_inject)

end

lemma error_iff: "r < SQL_RDB_OK \<longleftrightarrow> r \<noteq> SQL_RDB_OK \<and> r \<noteq> SQL_RDB_WARN_TRUNCATED"
  by (cases r) (auto simp: less_SqlRDBResult_def)

section \<open>Column types, flags and operators\<close>

text \<open>
  A C enum object may hold any integer; nothing in the library rejects a foreign value of
  \<^verbatim>\<open>SqlRDBType\<close> or \<^verbatim>\<open>SqlRDBOp\<close>, so the models keep one.
\<close>

datatype SqlRDBType =
    SQL_TYPE_INT32
  | SQL_TYPE_INT64
  | SQL_TYPE_REAL
  | SQL_TYPE_TEXT
  | SQL_TYPE_BLOB
  | SQL_TYPE_OTHER int

datatype SqlRDBOp =
    SQL_OP_EQ
  | SQL_OP_NE
  | SQL_OP_LT
  | SQL_OP_LE
  | SQL_OP_GT
  | SQL_OP_GE
  | SQL_OP_OTHER int

definition SqlRDBOp_of_int :: "int \<Rightarrow> SqlRDBOp" where
  "SqlRDBOp_of_int i =
     (if i = 1 then SQL_OP_EQ else if i = 2 then SQL_OP_NE else if i = 3 then SQL_OP_LT
      else if i = 4 then SQL_OP_LE else if i = 5 then SQL_OP_GT else if i = 6 then SQL_OP_GE
      else SQL_OP_OTHER i)"

definition SQL_COL_FLAG_PRIMARY_KEY :: "32 word" where
  "SQL_COL_FLAG_PRIMARY_KEY = push_bit 0 1"

definition SQL_COL_FLAG_NULLABLE :: "32 word" where
  "SQL_COL_FLAG_NULLABLE = push_bit 1 1"

definition SQL_COL_FLAG_UNIQUE :: "32 word" where
  "SQL_COL_FLAG_UNIQUE = push_bit 2 1"

text \<open>
  \<^verbatim>\<open>SqlRDBColumnDef\<close>. The name is a type parameter: \<open>string option\<close> for a definition that
  a caller passes in (the pointer may be \<open>NULL\<close>), \<open>string\<close> for a registered one. Offset and
  size are \<^verbatim>\<open>size_t\<close> values, read as natural numbers below \<open>2 ^ 64\<close>.
\<close>

record 'n SqlRDBColumnDef =
  col_name :: 'n
  col_type :: SqlRDBType
  col_offset :: nat
  col_size :: nat
  col_flags :: "32 word"

abbreviation has_flag :: "'n SqlRDBColumnDef \<Rightarrow> 32 word \<Rightarrow> bool" where
  "has_flag col f \<equiv> col_flags col AND f \<noteq> 0"

definition SQL_RDB_NULL_BITMAP_BYTES :: "nat \<Rightarrow> nat" where
  "SQL_RDB_NULL_BITMAP_BYTES col_count = (col_count + 7) div 8"

record SqlRDBReadOpts =
  allow_multi :: bool
  max_text_len :: nat

record SqlRDBConfig =
  threadsafe :: bool
  stmt_cache_size :: "64 word"
  auto_migrate :: bool
  multirow_default :: int
  require_strict :: bool

text \<open>
  \<^verbatim>\<open>SqlRDBSchema\<close> of \<^verbatim>\<open>src/schema_registry.h\<close>: the owned deep copy of a registered struct
  (\<^verbatim>\<open>col_count\<close> is the length of the column array).
\<close>

type_synonym column = "string SqlRDBColumnDef"

record SqlRDBSchema =
  sch_name :: string
  sch_cols :: "column list"
  pk_index :: int

section \<open>The driver vtable\<close>

datatype C2SqlDialect = C2SQL_DIALECT_SQLITE | C2SQL_DIALECT_POSTGRES

type_synonym ptr = nat \<comment> \<open>an opaque non-null \<^verbatim>\<open>void *\<close>\<close>

text \<open>
  \<^verbatim>\<open>SqlRDBDriver\<close>: one field per function pointer. The world \<open>'w\<close> is everything behind the
  vtable (the database engine and the driver's own heap); a call that is undefined for its
  arguments is \<open>None\<close>. A text or blob argument is the memory its pointer points to; the text
  and blob results are such a pointer (possibly \<open>NULL\<close>) and a length.
\<close>

record 'w SqlRDBDriver =
  drv_name :: string
  drv_dialect :: C2SqlDialect
  drv_open :: "string \<Rightarrow> 'w \<Rightarrow> (SqlRDBResult \<times> ptr option \<times> 'w) option"
  drv_close :: "ptr \<Rightarrow> 'w \<Rightarrow> (SqlRDBResult \<times> 'w) option"
  drv_exec :: "ptr \<Rightarrow> string \<Rightarrow> 'w \<Rightarrow> (SqlRDBResult \<times> 'w) option"
  drv_prepare :: "ptr \<Rightarrow> string \<Rightarrow> 'w \<Rightarrow> (SqlRDBResult \<times> ptr option \<times> 'w) option"
  drv_bind_int64 :: "ptr \<Rightarrow> int \<Rightarrow> 64 word \<Rightarrow> 'w \<Rightarrow> (SqlRDBResult \<times> 'w) option"
  drv_bind_int32 :: "ptr \<Rightarrow> int \<Rightarrow> 32 word \<Rightarrow> 'w \<Rightarrow> (SqlRDBResult \<times> 'w) option"
  drv_bind_real :: "ptr \<Rightarrow> int \<Rightarrow> 64 word \<Rightarrow> 'w \<Rightarrow> (SqlRDBResult \<times> 'w) option"
  drv_bind_text :: "ptr \<Rightarrow> int \<Rightarrow> char list option \<Rightarrow> int \<Rightarrow> 'w \<Rightarrow> (SqlRDBResult \<times> 'w) option"
  drv_bind_blob :: "ptr \<Rightarrow> int \<Rightarrow> char list option \<Rightarrow> nat \<Rightarrow> 'w \<Rightarrow> (SqlRDBResult \<times> 'w) option"
  drv_bind_null :: "ptr \<Rightarrow> int \<Rightarrow> 'w \<Rightarrow> (SqlRDBResult \<times> 'w) option"
  drv_step :: "ptr \<Rightarrow> 'w \<Rightarrow> (SqlRDBResult \<times> bool \<times> 'w) option"
  drv_column_int64 :: "ptr \<Rightarrow> int \<Rightarrow> 'w \<Rightarrow> (SqlRDBResult \<times> 64 word \<times> 'w) option"
  drv_column_int32 :: "ptr \<Rightarrow> int \<Rightarrow> 'w \<Rightarrow> (SqlRDBResult \<times> 32 word \<times> 'w) option"
  drv_column_real :: "ptr \<Rightarrow> int \<Rightarrow> 'w \<Rightarrow> (SqlRDBResult \<times> 64 word \<times> 'w) option"
  drv_column_text :: "ptr \<Rightarrow> int \<Rightarrow> 'w \<Rightarrow> (SqlRDBResult \<times> char list option \<times> nat \<times> 'w) option"
  drv_column_blob :: "ptr \<Rightarrow> int \<Rightarrow> 'w \<Rightarrow> (SqlRDBResult \<times> char list option \<times> nat \<times> 'w) option"
  drv_column_isnull :: "ptr \<Rightarrow> int \<Rightarrow> 'w \<Rightarrow> (SqlRDBResult \<times> bool \<times> 'w) option"
  drv_reset :: "ptr \<Rightarrow> 'w \<Rightarrow> (SqlRDBResult \<times> 'w) option"
  drv_finalize :: "ptr \<Rightarrow> 'w \<Rightarrow> (SqlRDBResult \<times> 'w) option"
  drv_begin :: "ptr \<Rightarrow> 'w \<Rightarrow> (SqlRDBResult \<times> 'w) option"
  drv_commit :: "ptr \<Rightarrow> 'w \<Rightarrow> (SqlRDBResult \<times> 'w) option"
  drv_rollback :: "ptr \<Rightarrow> 'w \<Rightarrow> (SqlRDBResult \<times> 'w) option"
  drv_savepoint :: "ptr \<Rightarrow> string \<Rightarrow> 'w \<Rightarrow> (SqlRDBResult \<times> 'w) option"
  drv_release_sp :: "ptr \<Rightarrow> string \<Rightarrow> 'w \<Rightarrow> (SqlRDBResult \<times> 'w) option"
  drv_rollback_sp :: "ptr \<Rightarrow> string \<Rightarrow> 'w \<Rightarrow> (SqlRDBResult \<times> 'w) option"
  drv_changes :: "ptr \<Rightarrow> 'w \<Rightarrow> (int \<times> 'w) option"

section \<open>Error context\<close>

definition ERR_MESSAGE_SIZE :: nat where
  "ERR_MESSAGE_SIZE = 256"

record SqlRDBErrorCtx =
  err_code :: SqlRDBResult
  err_message :: string

definition c2sql_internal_err_clear :: "SqlRDBErrorCtx \<Rightarrow> SqlRDBErrorCtx" where
  "c2sql_internal_err_clear e = e\<lparr>err_code := SQL_RDB_OK, err_message := []\<rparr>"

text \<open>
  The formatted text arrives already expanded (\<^verbatim>\<open>vsnprintf\<close> keeps its first 255 bytes);
  \<open>None\<close> is a null format.
\<close>

definition c2sql_internal_err_set ::
  "SqlRDBErrorCtx \<Rightarrow> SqlRDBResult \<Rightarrow> string option \<Rightarrow> SqlRDBErrorCtx" where
  "c2sql_internal_err_set e code fmt =
     (case fmt of
        None \<Rightarrow> e\<lparr>err_code := code, err_message := []\<rparr>
      | Some text \<Rightarrow> e\<lparr>err_code := code, err_message := take (ERR_MESSAGE_SIZE - 1) text\<rparr>)"

lemma err_set_code [simp]: "err_code (c2sql_internal_err_set e code fmt) = code"
  by (simp add: c2sql_internal_err_set_def split: option.splits)

lemma err_set_message_bound: "length (err_message (c2sql_internal_err_set e code fmt)) < ERR_MESSAGE_SIZE"
  by (simp add: c2sql_internal_err_set_def ERR_MESSAGE_SIZE_def min_less_iff_disj split: option.splits)

section \<open>Logger\<close>

record 'w SqlRDBLoggerCtx =
  log_fn :: "(ptr option \<Rightarrow> SqlRDBResult \<Rightarrow> string option \<Rightarrow> string option \<Rightarrow> 'w \<Rightarrow> 'w) option"
  log_user :: "ptr option"

definition c2sql_internal_log ::
  "'w SqlRDBLoggerCtx option \<Rightarrow> SqlRDBResult \<Rightarrow> string option \<Rightarrow> string option \<Rightarrow> 'w \<Rightarrow> 'w" where
  "c2sql_internal_log l code sql msg w =
     (case l of None \<Rightarrow> w
      | Some l \<Rightarrow> (case log_fn l of None \<Rightarrow> w | Some fn \<Rightarrow> fn (log_user l) code sql msg w))"

section \<open>Mutex\<close>

text \<open>
  The wrapper of one handle: the \<^verbatim>\<open>threadsafe\<close> switch and whether the underlying mutex is
  held. Locking a mutex that is already held blocks forever in a sequential execution, and
  unlocking one that is not held is undefined: both are \<open>None\<close>.
\<close>

record SqlRDBMutex =
  mtx_threadsafe :: bool
  mtx_locked :: bool

definition c2sql_internal_mutex_init :: "bool \<Rightarrow> mem \<Rightarrow> SqlRDBResult \<times> SqlRDBMutex \<times> mem" where
  "c2sql_internal_mutex_init ts m =
     (if \<not> ts then (SQL_RDB_OK, \<lparr>mtx_threadsafe = False, mtx_locked = False\<rparr>, m)
      else let (ok, m) = alloc m in
        (if ok then SQL_RDB_OK else SQL_RDB_ERR_INTERNAL,
         \<lparr>mtx_threadsafe = True, mtx_locked = False\<rparr>, m))"

definition c2sql_internal_mutex_lock :: "SqlRDBMutex \<Rightarrow> SqlRDBMutex option" where
  "c2sql_internal_mutex_lock mx =
     (if \<not> mtx_threadsafe mx then Some mx
      else if mtx_locked mx then None
      else Some (mx\<lparr>mtx_locked := True\<rparr>))"

definition c2sql_internal_mutex_unlock :: "SqlRDBMutex \<Rightarrow> SqlRDBMutex option" where
  "c2sql_internal_mutex_unlock mx =
     (if \<not> mtx_threadsafe mx then Some mx
      else if \<not> mtx_locked mx then None
      else Some (mx\<lparr>mtx_locked := False\<rparr>))"

text \<open>Destroying a held mutex is undefined.\<close>

definition c2sql_internal_mutex_destroy :: "SqlRDBMutex \<Rightarrow> SqlRDBMutex option" where
  "c2sql_internal_mutex_destroy mx =
     (if \<not> mtx_threadsafe mx then Some mx
      else if mtx_locked mx then None
      else Some mx)"

text \<open>Between two API calls the mutex is free exactly when the wrapper is thread safe.\<close>

definition mutex_idle :: "SqlRDBMutex \<Rightarrow> bool" where
  "mutex_idle mx \<longleftrightarrow> (mtx_threadsafe mx \<longrightarrow> \<not> mtx_locked mx)"

lemma mutex_lock_idle:
  "mutex_idle mx \<Longrightarrow>
     c2sql_internal_mutex_lock mx = Some (mx\<lparr>mtx_locked := (mtx_threadsafe mx \<or> mtx_locked mx)\<rparr>)"
  by (cases mx) (auto simp: mutex_idle_def c2sql_internal_mutex_lock_def)

lemma mutex_lock_unlock:
  assumes "mutex_idle mx" and "c2sql_internal_mutex_lock mx = Some mx'"
  shows "c2sql_internal_mutex_unlock mx' = Some mx"
  using assms
  by (cases mx) (auto simp: mutex_idle_def c2sql_internal_mutex_lock_def c2sql_internal_mutex_unlock_def
      split: if_splits)

end
