(* ===== verification/Stmt_Cache.thy ===== *)
theory Stmt_Cache
  imports C2sql_Types
begin

text \<open>
  The prepared-statement cache of \<^verbatim>\<open>src/stmt_cache.c\<close>: a doubly linked LRU list threaded through
  heap entries that a chained hash table indexes. The entries live in an explicit store, so every
  pointer dereference can fail (\<open>None\<close>): the lemmas of \<^verbatim>\<open>Cache_Refinement\<close> show that none
  does, and that the structure implements an LRU list of bounded length.
\<close>

section \<open>Data\<close>

record SqlRDBStmtCacheEntry =
  ce_sql :: string
  ce_stmt :: ptr
  lru_prev :: "ptr option"
  lru_next :: "ptr option"
  bucket_next :: "ptr option"

text \<open>
  The cache with the part of the C heap that holds its entries: \<open>nodes\<close> maps the address of
  every allocated entry to its contents, \<open>fresh\<close> bounds the addresses handed out so far.
\<close>

record SqlRDBStmtCache =
  capacity :: "64 word"
  size_of :: nat
  lru_head :: "ptr option"
  lru_tail :: "ptr option"
  buckets :: "ptr option list"
  bucket_count :: "64 word"
  nodes :: "ptr \<rightharpoonup> SqlRDBStmtCacheEntry"
  fresh :: ptr

section \<open>Bucket count and hashing\<close>

definition C2SQL_CACHE_MIN_BUCKETS :: "64 word" where
  "C2SQL_CACHE_MIN_BUCKETS = 16"

text \<open>The loop \<^verbatim>\<open>while (r < n) r <<= 1\<close>; it does not return once \<open>r\<close> has wrapped to 0.\<close>

partial_function (option) pow2_loop :: "64 word \<Rightarrow> 64 word \<Rightarrow> 64 word option" where
  "pow2_loop r n = (if r < n then pow2_loop (push_bit 1 r) n else Some r)"

declare pow2_loop.simps [code]

definition next_pow2_at_least :: "64 word \<Rightarrow> 64 word option" where
  "next_pow2_at_least n = pow2_loop 1 n"

definition bucket_count_for :: "64 word \<Rightarrow> 64 word option" where
  "bucket_count_for cap =
     (if cap = 0 then Some 0
      else let want = cap * 2;
               want = (if want < C2SQL_CACHE_MIN_BUCKETS then C2SQL_CACHE_MIN_BUCKETS else want)
           in next_pow2_at_least want)"

definition hash_sql :: "string \<Rightarrow> 64 word" where
  "hash_sql s = foldl (\<lambda>h c. (push_bit 5 h + h) + word_of_nat (ord_char c)) 5381 s"

definition bucket_index :: "SqlRDBStmtCache \<Rightarrow> string \<Rightarrow> nat" where
  "bucket_index c sql = unat (hash_sql sql AND (bucket_count c - 1))"

section \<open>LRU list\<close>

text \<open>\<open>p->field = v\<close> for the entry at address \<open>p\<close>.\<close>

definition upd_entry ::
  "SqlRDBStmtCache \<Rightarrow> ptr \<Rightarrow> (SqlRDBStmtCacheEntry \<Rightarrow> SqlRDBStmtCacheEntry) \<Rightarrow> SqlRDBStmtCache option" where
  "upd_entry c p f =
     (case nodes c p of None \<Rightarrow> None | Some n \<Rightarrow> Some (c\<lparr>nodes := (nodes c)(p \<mapsto> f n)\<rparr>))"

definition lru_unlink :: "SqlRDBStmtCache \<Rightarrow> ptr \<Rightarrow> SqlRDBStmtCache option" where
  "lru_unlink c e =
     do {
       n \<leftarrow> nodes c e;
       c \<leftarrow> (case lru_prev n of
               Some p \<Rightarrow> upd_entry c p (\<lambda>m. m\<lparr>lru_next := lru_next n\<rparr>)
             | None \<Rightarrow> Some (c\<lparr>lru_head := lru_next n\<rparr>));
       n \<leftarrow> nodes c e;
       c \<leftarrow> (case lru_next n of
               Some p \<Rightarrow> upd_entry c p (\<lambda>m. m\<lparr>lru_prev := lru_prev n\<rparr>)
             | None \<Rightarrow> Some (c\<lparr>lru_tail := lru_prev n\<rparr>));
       upd_entry c e (\<lambda>m. m\<lparr>lru_prev := None, lru_next := None\<rparr>)
     }"

definition lru_push_front :: "SqlRDBStmtCache \<Rightarrow> ptr \<Rightarrow> SqlRDBStmtCache option" where
  "lru_push_front c e =
     do {
       c \<leftarrow> upd_entry c e (\<lambda>m. m\<lparr>lru_prev := None, lru_next := lru_head c\<rparr>);
       c \<leftarrow> (case lru_head c of
               Some p \<Rightarrow> upd_entry c p (\<lambda>m. m\<lparr>lru_prev := Some e\<rparr>)
             | None \<Rightarrow> Some c);
       c \<leftarrow> Some (c\<lparr>lru_head := Some e\<rparr>);
       Some (if lru_tail c = None then c\<lparr>lru_tail := Some e\<rparr> else c)
     }"

definition lru_promote :: "SqlRDBStmtCache \<Rightarrow> ptr \<Rightarrow> SqlRDBStmtCache option" where
  "lru_promote c e =
     (if lru_head c = Some e then Some c
      else do { c \<leftarrow> lru_unlink c e; lru_push_front c e })"

section \<open>Buckets\<close>

partial_function (option) bucket_walk ::
  "(ptr \<rightharpoonup> SqlRDBStmtCacheEntry) \<Rightarrow> ptr option \<Rightarrow> string \<Rightarrow> ptr option option" where
  "bucket_walk N e sql =
     (case e of None \<Rightarrow> Some None
      | Some p \<Rightarrow>
          (case N p of None \<Rightarrow> None
           | Some n \<Rightarrow> if ce_sql n = sql then Some (Some p) else bucket_walk N (bucket_next n) sql))"

declare bucket_walk.simps [code]

definition bucket_at :: "SqlRDBStmtCache \<Rightarrow> nat \<Rightarrow> ptr option option" where
  "bucket_at c idx = (if idx < length (buckets c) then Some (buckets c ! idx) else None)"

definition bucket_find :: "SqlRDBStmtCache \<Rightarrow> nat \<Rightarrow> string \<Rightarrow> ptr option option" where
  "bucket_find c idx sql = do { e \<leftarrow> bucket_at c idx; bucket_walk (nodes c) e sql }"

text \<open>
  The pointer-to-pointer \<^verbatim>\<open>pp\<close> of \<^verbatim>\<open>bucket_unlink\<close>: it designates the head of a bucket or
  the \<^verbatim>\<open>bucket_next\<close> field of an entry.
\<close>

datatype slot = SlotBucket nat | SlotEntry ptr

fun read_slot :: "SqlRDBStmtCache \<Rightarrow> slot \<Rightarrow> ptr option option" where
  "read_slot c (SlotBucket i) = bucket_at c i"
| "read_slot c (SlotEntry p) = map_option bucket_next (nodes c p)"

fun write_slot :: "SqlRDBStmtCache \<Rightarrow> slot \<Rightarrow> ptr option \<Rightarrow> SqlRDBStmtCache option" where
  "write_slot c (SlotBucket i) v =
     (if i < length (buckets c) then Some (c\<lparr>buckets := (buckets c)[i := v]\<rparr>) else None)"
| "write_slot c (SlotEntry p) v = upd_entry c p (\<lambda>m. m\<lparr>bucket_next := v\<rparr>)"

partial_function (option) slot_walk :: "SqlRDBStmtCache \<Rightarrow> slot \<Rightarrow> ptr \<Rightarrow> slot option" where
  "slot_walk c pp e =
     (case read_slot c pp of
        None \<Rightarrow> None
      | Some None \<Rightarrow> Some pp
      | Some (Some p) \<Rightarrow> if p = e then Some pp else slot_walk c (SlotEntry p) e)"

declare slot_walk.simps [code]

definition bucket_unlink :: "SqlRDBStmtCache \<Rightarrow> ptr \<Rightarrow> SqlRDBStmtCache option" where
  "bucket_unlink c e =
     do {
       n \<leftarrow> nodes c e;
       pp \<leftarrow> slot_walk c (SlotBucket (bucket_index c (ce_sql n))) e;
       v \<leftarrow> read_slot c pp;
       c \<leftarrow> (if v \<noteq> None then write_slot c pp (bucket_next n) else Some c);
       upd_entry c e (\<lambda>m. m\<lparr>bucket_next := None\<rparr>)
     }"

definition bucket_insert :: "SqlRDBStmtCache \<Rightarrow> ptr \<Rightarrow> SqlRDBStmtCache option" where
  "bucket_insert c e =
     do {
       n \<leftarrow> nodes c e;
       let idx = bucket_index c (ce_sql n);
       v \<leftarrow> bucket_at c idx;
       c \<leftarrow> upd_entry c e (\<lambda>m. m\<lparr>bucket_next := v\<rparr>);
       write_slot c (SlotBucket idx) (Some e)
     }"

section \<open>Entry lifecycle\<close>

definition finalize_if :: "'w SqlRDBDriver option \<Rightarrow> ptr \<Rightarrow> 'w \<Rightarrow> 'w option" where
  "finalize_if drv stmt w =
     (case drv of None \<Rightarrow> Some w | Some d \<Rightarrow> do { (r, w) \<leftarrow> drv_finalize d stmt w; Some w })"

definition entry_finalize_and_free ::
  "SqlRDBStmtCache \<Rightarrow> ptr \<Rightarrow> 'w SqlRDBDriver option \<Rightarrow> 'w \<Rightarrow> (SqlRDBStmtCache \<times> 'w) option" where
  "entry_finalize_and_free c e drv w =
     do {
       n \<leftarrow> nodes c e;
       w \<leftarrow> finalize_if drv (ce_stmt n) w;
       Some (c\<lparr>nodes := (nodes c)(e := None)\<rparr>, w)
     }"

definition evict_lru_tail ::
  "SqlRDBStmtCache \<Rightarrow> 'w SqlRDBDriver option \<Rightarrow> 'w \<Rightarrow> (SqlRDBStmtCache \<times> 'w) option" where
  "evict_lru_tail c drv w =
     (case lru_tail c of
        None \<Rightarrow> Some (c, w)
      | Some victim \<Rightarrow>
          do {
            c \<leftarrow> lru_unlink c victim;
            c \<leftarrow> bucket_unlink c victim;
            c \<leftarrow> Some (c\<lparr>size_of := size_of c - 1\<rparr>);
            entry_finalize_and_free c victim drv w
          })"

section \<open>Public-internal API\<close>

definition empty_cache :: "64 word \<Rightarrow> SqlRDBStmtCache" where
  "empty_cache cap =
     \<lparr>capacity = cap, size_of = 0, lru_head = None, lru_tail = None, buckets = [], bucket_count = 0,
      nodes = Map.empty, fresh = 0\<rparr>"

definition c2sql_internal_cache_init :: "64 word \<Rightarrow> mem \<Rightarrow> (SqlRDBResult \<times> SqlRDBStmtCache \<times> mem) option" where
  "c2sql_internal_cache_init cap m =
     (if cap = 0 then Some (SQL_RDB_OK, empty_cache 0, m)
      else do {
        bcount \<leftarrow> bucket_count_for cap;
        let (ok, m) = alloc m in
        if \<not> ok then Some (SQL_RDB_ERR_NO_MEMORY, empty_cache 0, m)
        else Some (SQL_RDB_OK,
                   (empty_cache cap)\<lparr>buckets := replicate (unat bcount) None, bucket_count := bcount\<rparr>, m)
      })"

text \<open>The result and \<^verbatim>\<open>*out_stmt\<close>.\<close>

definition c2sql_internal_cache_get ::
  "SqlRDBStmtCache \<Rightarrow> string \<Rightarrow> (SqlRDBResult \<times> ptr option \<times> SqlRDBStmtCache) option" where
  "c2sql_internal_cache_get c sql =
     (if capacity c = 0 \<or> size_of c = 0 then Some (SQL_RDB_ERR_NOT_FOUND, None, c)
      else do {
        e \<leftarrow> bucket_find c (bucket_index c sql) sql;
        case e of
          None \<Rightarrow> Some (SQL_RDB_ERR_NOT_FOUND, None, c)
        | Some p \<Rightarrow>
            do {
              c \<leftarrow> lru_promote c p;
              n \<leftarrow> nodes c p;
              Some (SQL_RDB_OK, Some (ce_stmt n), c)
            }
      })"

text \<open>The part of \<^verbatim>\<open>c2sql_internal_cache_put\<close> that stores a new entry.\<close>

definition cache_insert ::
  "SqlRDBStmtCache \<Rightarrow> string \<Rightarrow> ptr \<Rightarrow> 'w SqlRDBDriver option \<Rightarrow> 'w \<Rightarrow> mem
     \<Rightarrow> (SqlRDBResult \<times> SqlRDBStmtCache \<times> 'w \<times> mem) option" where
  "cache_insert c sql stmt drv w m =
     (let (ok_e, m) = alloc m;
          (ok_s, m) = (if ok_e then alloc m else (False, m))
      in if \<not> ok_e \<or> \<not> ok_s then do { w \<leftarrow> finalize_if drv stmt w; Some (SQL_RDB_ERR_NO_MEMORY, c, w, m) }
         else let e = fresh c in
           do {
             c \<leftarrow> Some (c\<lparr>nodes := (nodes c)(e \<mapsto> \<lparr>ce_sql = sql, ce_stmt = stmt, lru_prev = None,
                                                lru_next = None, bucket_next = None\<rparr>),
                         fresh := Suc e\<rparr>);
             c \<leftarrow> bucket_insert c e;
             c \<leftarrow> lru_push_front c e;
             Some (SQL_RDB_OK, c\<lparr>size_of := size_of c + 1\<rparr>, w, m)
           })"

definition c2sql_internal_cache_put ::
  "SqlRDBStmtCache \<Rightarrow> string \<Rightarrow> ptr \<Rightarrow> 'w SqlRDBDriver option \<Rightarrow> 'w \<Rightarrow> mem
     \<Rightarrow> (SqlRDBResult \<times> SqlRDBStmtCache \<times> 'w \<times> mem) option" where
  "c2sql_internal_cache_put c sql stmt drv w m =
     (if capacity c = 0 then do { w \<leftarrow> finalize_if drv stmt w; Some (SQL_RDB_OK, c, w, m) }
      else do {
        existing \<leftarrow> bucket_find c (bucket_index c sql) sql;
        case existing of
          Some p \<Rightarrow>
            do {
              n \<leftarrow> nodes c p;
              w \<leftarrow> finalize_if drv (ce_stmt n) w;
              c \<leftarrow> upd_entry c p (\<lambda>m. m\<lparr>ce_stmt := stmt\<rparr>);
              c \<leftarrow> lru_promote c p;
              Some (SQL_RDB_OK, c, w, m)
            }
        | None \<Rightarrow>
            do {
              (c, w) \<leftarrow> (if unat (capacity c) \<le> size_of c then evict_lru_tail c drv w else Some (c, w));
              cache_insert c sql stmt drv w m
            }
      })"

text \<open>\<^verbatim>\<open>while (c->size > new_capacity) evict_lru_tail(...)\<close>.\<close>

partial_function (option) evict_down_to ::
  "nat \<Rightarrow> SqlRDBStmtCache \<Rightarrow> 'w SqlRDBDriver option \<Rightarrow> 'w \<Rightarrow> (SqlRDBStmtCache \<times> 'w) option" where
  "evict_down_to new_cap c drv w =
     (if new_cap < size_of c
      then do { (c, w) \<leftarrow> evict_lru_tail c drv w; evict_down_to new_cap c drv w }
      else Some (c, w))"

declare evict_down_to.simps [code]

text \<open>The two passes of the rehash over the LRU list.\<close>

partial_function (option) clear_chains :: "ptr option \<Rightarrow> SqlRDBStmtCache \<Rightarrow> SqlRDBStmtCache option" where
  "clear_chains e c =
     (case e of None \<Rightarrow> Some c
      | Some p \<Rightarrow>
          do {
            c \<leftarrow> upd_entry c p (\<lambda>m. m\<lparr>bucket_next := None\<rparr>);
            n \<leftarrow> nodes c p;
            clear_chains (lru_next n) c
          })"

declare clear_chains.simps [code]

partial_function (option) rehash :: "ptr option \<Rightarrow> SqlRDBStmtCache \<Rightarrow> SqlRDBStmtCache option" where
  "rehash e c =
     (case e of None \<Rightarrow> Some c
      | Some p \<Rightarrow>
          do {
            c \<leftarrow> bucket_insert c p;
            n \<leftarrow> nodes c p;
            rehash (lru_next n) c
          })"

declare rehash.simps [code]

definition c2sql_internal_cache_rebuild ::
  "SqlRDBStmtCache \<Rightarrow> 64 word \<Rightarrow> 'w SqlRDBDriver option \<Rightarrow> 'w \<Rightarrow> mem
     \<Rightarrow> (SqlRDBResult \<times> SqlRDBStmtCache \<times> 'w \<times> mem) option" where
  "c2sql_internal_cache_rebuild c new_capacity drv w m =
     do {
       (c, w) \<leftarrow> evict_down_to (unat new_capacity) c drv w;
       if new_capacity = 0
       then Some (SQL_RDB_OK, c\<lparr>buckets := [], bucket_count := 0, capacity := 0\<rparr>, w, m)
       else do {
         want_buckets \<leftarrow> bucket_count_for new_capacity;
         if want_buckets \<noteq> bucket_count c then
           let (ok, m) = alloc m in
           if \<not> ok then Some (SQL_RDB_ERR_NO_MEMORY, c, w, m)
           else do {
             c \<leftarrow> clear_chains (lru_head c) c;
             c \<leftarrow> Some (c\<lparr>buckets := replicate (unat want_buckets) None, bucket_count := want_buckets\<rparr>);
             c \<leftarrow> rehash (lru_head c) c;
             Some (SQL_RDB_OK, c\<lparr>capacity := new_capacity\<rparr>, w, m)
           }
         else Some (SQL_RDB_OK, c\<lparr>capacity := new_capacity\<rparr>, w, m)
       }
     }"

partial_function (option) destroy_walk ::
  "ptr option \<Rightarrow> SqlRDBStmtCache \<Rightarrow> 'w SqlRDBDriver option \<Rightarrow> 'w \<Rightarrow> (SqlRDBStmtCache \<times> 'w) option" where
  "destroy_walk e c drv w =
     (case e of None \<Rightarrow> Some (c, w)
      | Some p \<Rightarrow>
          do {
            n \<leftarrow> nodes c p;
            (c, w) \<leftarrow> entry_finalize_and_free c p drv w;
            destroy_walk (lru_next n) c drv w
          })"

declare destroy_walk.simps [code]

text \<open>
  The final \<^verbatim>\<open>memset\<close> clears the struct; the heap of entries stays as the walk left it.
\<close>

definition c2sql_internal_cache_destroy ::
  "SqlRDBStmtCache \<Rightarrow> 'w SqlRDBDriver option \<Rightarrow> 'w \<Rightarrow> (SqlRDBStmtCache \<times> 'w) option" where
  "c2sql_internal_cache_destroy c drv w =
     do {
       (c, w) \<leftarrow> destroy_walk (lru_head c) c drv w;
       Some ((empty_cache 0)\<lparr>nodes := nodes c, fresh := fresh c\<rparr>, w)
     }"

end
