(* ===== verification/Cache_Refinement.thy ===== *)
theory Cache_Refinement
  imports Stmt_Cache "HOL-Library.Multiset"
begin

text \<open>
  Correctness of the statement cache. The representation invariant \<open>cache_inv c ps\<close> says that the
  entries at the addresses \<open>ps\<close>, most recently used first, are exactly the allocated ones, that
  the LRU links and the bucket chains agree with them, and that no two hold the same SQL text. Every
  operation is shown to be defined under the invariant, to keep it, and to act on the list
  \<open>entries c ps\<close> of (SQL text, statement) pairs as an LRU cache does.
\<close>

section \<open>Linked lists in the store\<close>

type_synonym store = "ptr \<rightharpoonup> SqlRDBStmtCacheEntry"

fun first :: "ptr list \<Rightarrow> ptr option \<Rightarrow> ptr option" where
  "first [] nx = nx"
| "first (p # ps) nx = Some p"

fun last_of :: "ptr option \<Rightarrow> ptr list \<Rightarrow> ptr option" where
  "last_of pr [] = pr"
| "last_of pr (p # ps) = last_of (Some p) ps"

text \<open>The doubly linked list through the entries \<open>ps\<close>, between the links \<open>pr\<close> and \<open>nx\<close>.\<close>

fun linked :: "store \<Rightarrow> ptr option \<Rightarrow> ptr list \<Rightarrow> ptr option \<Rightarrow> bool" where
  "linked N pr [] nx \<longleftrightarrow> True"
| "linked N pr (p # ps) nx \<longleftrightarrow>
     (case N p of None \<Rightarrow> False
      | Some n \<Rightarrow> lru_prev n = pr \<and> lru_next n = first ps nx \<and> linked N (Some p) ps nx)"

text \<open>The bucket chain that starts at \<open>h\<close> runs through the entries \<open>ps\<close>.\<close>

fun chain :: "store \<Rightarrow> ptr option \<Rightarrow> ptr list \<Rightarrow> bool" where
  "chain N h [] \<longleftrightarrow> h = None"
| "chain N h (p # ps) \<longleftrightarrow>
     h = Some p \<and> (case N p of None \<Rightarrow> False | Some n \<Rightarrow> chain N (bucket_next n) ps)"

text \<open>The fields the LRU operations keep, and the fields the bucket operations keep.\<close>

definition keeps_data :: "store \<Rightarrow> store \<Rightarrow> bool" where
  "keeps_data N N' \<longleftrightarrow>
     (\<forall>q. map_option (\<lambda>n. (ce_sql n, ce_stmt n, bucket_next n)) (N' q) =
          map_option (\<lambda>n. (ce_sql n, ce_stmt n, bucket_next n)) (N q))"

definition keeps_links :: "store \<Rightarrow> store \<Rightarrow> bool" where
  "keeps_links N N' \<longleftrightarrow>
     (\<forall>q. map_option (\<lambda>n. (ce_sql n, ce_stmt n, lru_prev n, lru_next n)) (N' q) =
          map_option (\<lambda>n. (ce_sql n, ce_stmt n, lru_prev n, lru_next n)) (N q))"

lemma first_append [simp]: "first (as @ bs) nx = first as (first bs nx)"
  by (cases as) auto

lemma last_of_append [simp]: "last_of pr (as @ bs) = last_of (last_of pr as) bs"
  by (induction as arbitrary: pr) auto

lemma last_of_None: "last_of None ps = None \<longleftrightarrow> ps = []"
proof (induction ps rule: rev_induct)
  case (snoc p ps)
  then show ?case by simp
qed simp

lemma linked_append [simp]:
  "linked N pr (as @ bs) nx \<longleftrightarrow> linked N pr as (first bs nx) \<and> linked N (last_of pr as) bs nx"
  by (induction as arbitrary: pr) (auto split: option.splits)

lemma linked_upd [simp]: "p \<notin> set ps \<Longrightarrow> linked (N(p := x)) pr ps nx = linked N pr ps nx"
  by (induction ps arbitrary: pr) (auto split: option.splits)

lemma linked_allocated: "linked N pr ps nx \<Longrightarrow> p \<in> set ps \<Longrightarrow> \<exists>n. N p = Some n"
  by (induction ps arbitrary: pr) (auto split: option.splits)

lemma linked_frame:
  "linked N pr ps nx \<Longrightarrow> keeps_links N N' \<Longrightarrow> linked N' pr ps nx"
proof (induction ps arbitrary: pr)
  case (Cons p ps)
  have "map_option (\<lambda>n. (ce_sql n, ce_stmt n, lru_prev n, lru_next n)) (N' p) =
        map_option (\<lambda>n. (ce_sql n, ce_stmt n, lru_prev n, lru_next n)) (N p)"
    using Cons.prems(2) by (simp add: keeps_links_def)
  then show ?case using Cons by (auto split: option.splits)
qed simp

lemma chain_upd: "p \<notin> set ps \<Longrightarrow> chain (N(p := x)) h ps = chain N h ps"
  by (induction ps arbitrary: h) (auto split: option.splits)

lemma chain_frame:
  "(\<And>p. p \<in> set ps \<Longrightarrow> map_option bucket_next (N' p) = map_option bucket_next (N p)) \<Longrightarrow>
     chain N h ps \<Longrightarrow> chain N' h ps"
proof (induction ps arbitrary: h)
  case (Cons p ps)
  have eq: "map_option bucket_next (N' p) = map_option bucket_next (N p)" using Cons.prems(1) by simp
  from Cons.prems(2) obtain n where n: "N p = Some n" "h = Some p" "chain N (bucket_next n) ps"
    by (auto split: option.splits)
  with eq obtain n' where "N' p = Some n'" "bucket_next n' = bucket_next n" by auto
  moreover have "chain N' (bucket_next n) ps" using Cons.IH [OF _ n(3)] Cons.prems(1) by simp
  ultimately show ?case using n by simp
qed simp

lemma keeps_data_chain: "keeps_data N N' \<Longrightarrow> chain N h ps \<Longrightarrow> chain N' h ps"
proof (rule chain_frame)
  fix p assume "keeps_data N N'"
  then have "map_option (\<lambda>n. (ce_sql n, ce_stmt n, bucket_next n)) (N' p) =
          map_option (\<lambda>n. (ce_sql n, ce_stmt n, bucket_next n)) (N p)" by (simp add: keeps_data_def)
  then show "map_option bucket_next (N' p) = map_option bucket_next (N p)"
    by (cases "N p"; cases "N' p") auto
qed

lemma chain_allocated: "chain N h ps \<Longrightarrow> p \<in> set ps \<Longrightarrow> \<exists>n. N p = Some n"
  by (induction ps arbitrary: h) (auto split: option.splits)

section \<open>LRU operations\<close>

lemma upd_entry_Some:
  "nodes c p = Some n \<Longrightarrow> upd_entry c p f = Some (c\<lparr>nodes := (nodes c)(p \<mapsto> f n)\<rparr>)"
  by (simp add: upd_entry_def)

text \<open>Redirecting the last \<open>next\<close> link, or the first \<open>prev\<close> link, of a segment.\<close>

lemma linked_set_next:
  "linked N pr (as @ [q]) nx \<Longrightarrow> distinct (as @ [q]) \<Longrightarrow> N q = Some n \<Longrightarrow>
     linked (N(q \<mapsto> n\<lparr>lru_next := nx'\<rparr>)) pr (as @ [q]) nx'"
  by (auto split: option.splits)

lemma linked_set_prev:
  "linked N pr (r # bs) nx \<Longrightarrow> distinct (r # bs) \<Longrightarrow> N r = Some n \<Longrightarrow>
     linked (N(r \<mapsto> n\<lparr>lru_prev := pr'\<rparr>)) pr' (r # bs) nx"
  by (auto split: option.splits)

lemma keeps_data_refl [simp]: "keeps_data N N"
  by (simp add: keeps_data_def)

lemma keeps_data_trans: "keeps_data N N' \<Longrightarrow> keeps_data N' N'' \<Longrightarrow> keeps_data N N''"
  by (simp add: keeps_data_def)

lemma keeps_data_upd:
  "N p = Some n \<Longrightarrow> ce_sql n' = ce_sql n \<Longrightarrow> ce_stmt n' = ce_stmt n \<Longrightarrow> bucket_next n' = bucket_next n \<Longrightarrow>
     keeps_data N (N(p \<mapsto> n'))"
  by (simp add: keeps_data_def)

text \<open>The LRU operations change the links and the two ends of the list only.\<close>

definition only_lru :: "SqlRDBStmtCache \<Rightarrow> SqlRDBStmtCache \<Rightarrow> bool" where
  "only_lru c c' \<longleftrightarrow> capacity c' = capacity c \<and> size_of c' = size_of c \<and> buckets c' = buckets c \<and>
     bucket_count c' = bucket_count c \<and> fresh c' = fresh c \<and> keeps_data (nodes c) (nodes c')"

lemmas lru_defs = lru_unlink_def lru_push_front_def upd_entry_def only_lru_def keeps_data_def

lemma lru_unlink_ok:
  assumes l: "linked (nodes c) None (as @ p # bs) None" and d: "distinct (as @ p # bs)"
    and h: "lru_head c = first (as @ p # bs) None" and t: "lru_tail c = last_of None (as @ p # bs)"
  shows "\<exists>c'. lru_unlink c p = Some c' \<and> only_lru c c' \<and> lru_head c' = first (as @ bs) None \<and>
            lru_tail c' = last_of None (as @ bs) \<and> linked (nodes c') None (as @ bs) None"
proof -
  obtain n where n: "nodes c p = Some n" "lru_prev n = last_of None as" "lru_next n = first bs None"
    using l by (auto split: option.splits)
  show ?thesis
  proof (cases as rule: rev_cases)
    case Nil
    show ?thesis
    proof (cases bs)
      case bNil: Nil
      show ?thesis using n h t Nil bNil
        by (auto simp: lru_defs)
    next
      case (Cons r bs')
      obtain nr where nr: "nodes c r = Some nr" using l Cons by (auto split: option.splits)
      have "r \<noteq> p" using d Cons by auto
      then show ?thesis using n nr l d h t Nil Cons
        by (auto simp: lru_defs split: option.splits)
    qed
  next
    case (snoc as' q)
    obtain nq where nq: "nodes c q = Some nq" using l snoc by (auto split: option.splits)
    have "q \<noteq> p" using d snoc by auto
    show ?thesis
    proof (cases bs)
      case bNil: Nil
      show ?thesis using \<open>q \<noteq> p\<close> n nq l d h t snoc bNil
        by (auto simp: lru_defs split: option.splits)
    next
      case (Cons r bs')
      obtain nr where nr: "nodes c r = Some nr" using l Cons by (auto split: option.splits)
      have "r \<noteq> p" "r \<noteq> q" using d snoc Cons by auto
      then show ?thesis using \<open>q \<noteq> p\<close> n nq nr l d h t snoc Cons
        by (auto simp: lru_defs split: option.splits)
    qed
  qed
qed

lemma lru_push_front_ok:
  assumes "linked (nodes c) None ps None" and "distinct (e # ps)" and "nodes c e = Some n"
    and "lru_head c = first ps None" and "lru_tail c = last_of None ps"
  shows "\<exists>c'. lru_push_front c e = Some c' \<and> only_lru c c' \<and> lru_head c' = Some e \<and>
            lru_tail c' = last_of None (e # ps) \<and> linked (nodes c') None (e # ps) None"
proof (cases ps)
  case Nil
  then show ?thesis using assms by (auto simp: lru_defs)
next
  case (Cons r bs)
  then obtain nr where "nodes c r = Some nr" using assms(1) by (auto split: option.splits)
  moreover have "last_of (Some r) bs \<noteq> None" by (cases bs rule: rev_cases) auto
  ultimately show ?thesis using assms Cons by (auto simp: lru_defs split: option.splits)
qed

lemma only_lru_trans: "only_lru c c' \<Longrightarrow> only_lru c' c'' \<Longrightarrow> only_lru c c''"
  by (auto simp: only_lru_def intro: keeps_data_trans)

lemma keeps_data_allocated: "keeps_data N N' \<Longrightarrow> N p = Some n \<Longrightarrow>
    \<exists>n'. N' p = Some n' \<and> ce_sql n' = ce_sql n \<and> ce_stmt n' = ce_stmt n \<and> bucket_next n' = bucket_next n"
  by (auto simp: keeps_data_def dest!: spec [of _ p])

lemma lru_promote_ok:
  assumes l: "linked (nodes c) None (as @ p # bs) None" and d: "distinct (as @ p # bs)"
    and h: "lru_head c = first (as @ p # bs) None" and t: "lru_tail c = last_of None (as @ p # bs)"
  shows "\<exists>c'. lru_promote c p = Some c' \<and> only_lru c c' \<and> lru_head c' = Some p \<and>
            lru_tail c' = last_of None (p # as @ bs) \<and> linked (nodes c') None (p # as @ bs) None"
proof (cases "lru_head c = Some p")
  case True
  then have "as = []" using h d by (cases as) auto
  then show ?thesis using True assms by (auto simp: lru_promote_def only_lru_def)
next
  case False
  obtain c1 where c1: "lru_unlink c p = Some c1" "only_lru c c1" "lru_head c1 = first (as @ bs) None"
    "lru_tail c1 = last_of None (as @ bs)" "linked (nodes c1) None (as @ bs) None"
    using lru_unlink_ok [OF assms] by blast
  obtain n where "nodes c p = Some n" using l by (auto split: option.splits)
  then obtain n1 where n1: "nodes c1 p = Some n1"
    using c1(2) keeps_data_allocated by (fastforce simp: only_lru_def)
  have "distinct (p # as @ bs)" using d by auto
  from lru_push_front_ok [OF c1(5) this n1 c1(3,4)] show ?thesis
    using False c1(1,2) by (auto simp: lru_promote_def intro: only_lru_trans)
qed

section \<open>Bucket operations\<close>

definition sql_at :: "store \<Rightarrow> ptr \<Rightarrow> string" where
  "sql_at N p = ce_sql (the (N p))"

definition stmt_at :: "store \<Rightarrow> ptr \<Rightarrow> ptr" where
  "stmt_at N p = ce_stmt (the (N p))"

text \<open>The hash table indexes exactly the entries \<open>S\<close>.\<close>

definition indexed :: "SqlRDBStmtCache \<Rightarrow> ptr set \<Rightarrow> bool" where
  "indexed c S \<longleftrightarrow>
     length (buckets c) = unat (bucket_count c) \<and> S \<subseteq> dom (nodes c) \<and>
     (\<forall>i < length (buckets c). \<exists>ch. chain (nodes c) (buckets c ! i) ch \<and> distinct ch \<and>
        set ch = {p \<in> S. bucket_index c (sql_at (nodes c) p) = i})"

definition only_buckets :: "SqlRDBStmtCache \<Rightarrow> SqlRDBStmtCache \<Rightarrow> bool" where
  "only_buckets c c' \<longleftrightarrow> capacity c' = capacity c \<and> size_of c' = size_of c \<and> lru_head c' = lru_head c \<and>
     lru_tail c' = lru_tail c \<and> bucket_count c' = bucket_count c \<and> fresh c' = fresh c \<and>
     keeps_links (nodes c) (nodes c')"

lemma bucket_index_less: "bucket_count c \<noteq> 0 \<Longrightarrow> bucket_index c sql < unat (bucket_count c)"
proof -
  assume nz: "bucket_count c \<noteq> 0"
  have "hash_sql sql AND (bucket_count c - 1) \<le> bucket_count c - 1" by (rule word_and_le1)
  then have "bucket_index c sql \<le> unat (bucket_count c - 1)" by (simp add: bucket_index_def word_le_nat_alt)
  also have "\<dots> = unat (bucket_count c) - 1" using nz by (rule unat_minus_one)
  also have "\<dots> < unat (bucket_count c)" using nz unat_gt_0 [of "bucket_count c"] by simp
  finally show ?thesis .
qed

lemma bucket_walk_chain:
  "chain N h ps \<Longrightarrow> bucket_walk N h sql = Some (List.find (\<lambda>p. sql_at N p = sql) ps)"
proof (induction ps arbitrary: h)
  case Nil
  then show ?case by (subst bucket_walk.simps) simp
next
  case (Cons p ps)
  then obtain n where "N p = Some n" "h = Some p" "chain N (bucket_next n) ps" by (auto split: option.splits)
  with Cons.IH [of "bucket_next n"] show ?case
    by (subst bucket_walk.simps) (simp add: sql_at_def)
qed

lemma bucket_find_indexed:
  assumes ix: "indexed c S" and nz: "bucket_count c \<noteq> 0"
  shows "\<exists>r. bucket_find c (bucket_index c sql) sql = Some r \<and>
           (r = None \<longrightarrow> (\<forall>p \<in> S. sql_at (nodes c) p \<noteq> sql)) \<and>
           (\<forall>p. r = Some p \<longrightarrow> p \<in> S \<and> sql_at (nodes c) p = sql)"
proof -
  let ?i = "bucket_index c sql"
  have i: "?i < length (buckets c)" using ix bucket_index_less [OF nz] by (simp add: indexed_def)
  then obtain ch where ch: "chain (nodes c) (buckets c ! ?i) ch"
    "set ch = {p \<in> S. bucket_index c (sql_at (nodes c) p) = ?i}" using ix by (auto simp: indexed_def)
  have "bucket_find c ?i sql = Some (List.find (\<lambda>p. sql_at (nodes c) p = sql) ch)"
    using i bucket_walk_chain [OF ch(1)] by (simp add: bucket_find_def bucket_at_def)
  then show ?thesis using ch(2)
    by (auto simp: find_None_iff find_Some_iff)
qed

lemma keeps_links_upd:
  "N p = Some n \<Longrightarrow> ce_sql n' = ce_sql n \<Longrightarrow> ce_stmt n' = ce_stmt n \<Longrightarrow> lru_prev n' = lru_prev n \<Longrightarrow>
     lru_next n' = lru_next n \<Longrightarrow> keeps_links N (N(p \<mapsto> n'))"
  by (simp add: keeps_links_def)

lemma keeps_links_trans: "keeps_links N N' \<Longrightarrow> keeps_links N' N'' \<Longrightarrow> keeps_links N N''"
  by (simp add: keeps_links_def)

lemma keeps_links_at:
  assumes "keeps_links N N'"
  shows "dom N' = dom N" and "sql_at N' = sql_at N" and "stmt_at N' = stmt_at N"
proof -
  have eq: "map_option (\<lambda>n. (ce_sql n, ce_stmt n, lru_prev n, lru_next n)) (N' q) =
          map_option (\<lambda>n. (ce_sql n, ce_stmt n, lru_prev n, lru_next n)) (N q)" for q
    using assms by (simp add: keeps_links_def)
  have "(N' q = None) = (N q = None)" for q using eq [of q] by (cases "N q"; cases "N' q") auto
  then show "dom N' = dom N" by (simp add: dom_def)
  have "sql_at N' q = sql_at N q" "stmt_at N' q = stmt_at N q" for q
    using eq [of q] by (cases "N q"; cases "N' q"; simp add: sql_at_def stmt_at_def)+
  then show "sql_at N' = sql_at N" "stmt_at N' = stmt_at N" by (simp_all add: fun_eq_iff)
qed

lemma keeps_data_at:
  assumes "keeps_data N N'"
  shows "dom N' = dom N" and "sql_at N' = sql_at N" and "stmt_at N' = stmt_at N"
proof -
  have eq: "map_option (\<lambda>n. (ce_sql n, ce_stmt n, bucket_next n)) (N' q) =
          map_option (\<lambda>n. (ce_sql n, ce_stmt n, bucket_next n)) (N q)" for q
    using assms by (simp add: keeps_data_def)
  have "(N' q = None) = (N q = None)" for q using eq [of q] by (cases "N q"; cases "N' q") auto
  then show "dom N' = dom N" by (simp add: dom_def)
  have "sql_at N' q = sql_at N q" "stmt_at N' q = stmt_at N q" for q
    using eq [of q] by (cases "N q"; cases "N' q"; simp add: sql_at_def stmt_at_def)+
  then show "sql_at N' = sql_at N" "stmt_at N' = stmt_at N" by (simp_all add: fun_eq_iff)
qed

lemma only_buckets_index: "only_buckets c c' \<Longrightarrow> bucket_index c' sql = bucket_index c sql"
  by (simp add: only_buckets_def bucket_index_def)

lemma bucket_insert_ok:
  assumes ix: "indexed c S" and nz: "bucket_count c \<noteq> 0" and n: "nodes c p = Some n" and p: "p \<notin> S"
  shows "\<exists>c'. bucket_insert c p = Some c' \<and> only_buckets c c' \<and> indexed c' (insert p S)"
proof -
  let ?i = "bucket_index c (ce_sql n)"
  let ?N = "(nodes c)(p \<mapsto> n\<lparr>bucket_next := buckets c ! ?i\<rparr>)"
  let ?c = "c\<lparr>nodes := ?N, buckets := (buckets c)[?i := Some p]\<rparr>"
  have i: "?i < length (buckets c)" using ix bucket_index_less [OF nz] by (simp add: indexed_def)
  have run: "bucket_insert c p = Some ?c"
    using i n by (simp add: bucket_insert_def bucket_at_def upd_entry_def Let_def)
  have kl: "keeps_links (nodes c) ?N" by (rule keeps_links_upd [where n = n]) (use n in simp_all)
  have sql: "sql_at ?N q = sql_at (nodes c) q" for q using n by (simp add: sql_at_def)
  have bi: "bucket_index ?c s = bucket_index c s" for s by (simp add: bucket_index_def)
  have "\<exists>ch. chain ?N (buckets ?c ! j) ch \<and> distinct ch \<and>
          set ch = {q \<in> insert p S. bucket_index ?c (sql_at ?N q) = j}" if j: "j < length (buckets ?c)" for j
  proof -
    obtain ch where ch: "chain (nodes c) (buckets c ! j) ch" "distinct ch"
      "set ch = {q \<in> S. bucket_index c (sql_at (nodes c) q) = j}" using ix j by (auto simp: indexed_def)
    have pn: "p \<notin> set ch" using ch(3) p by auto
    have sp: "sql_at (nodes c) p = ce_sql n" using n by (simp add: sql_at_def)
    show ?thesis
    proof (cases "j = ?i")
      case True
      have "chain ?N (buckets c ! ?i) ch" using ch(1) pn True by (simp add: chain_upd del: fun_upd_apply)
      then have "chain ?N (buckets ?c ! j) (p # ch)" using i True by simp
      moreover have "bucket_index c (sql_at (nodes c) p) = j" by (simp only: sp True)
      then have "set (p # ch) = {q \<in> insert p S. bucket_index ?c (sql_at ?N q) = j}"
        unfolding bi sql list.set(2) ch(3) by blast
      moreover have "distinct (p # ch)" using ch(2) pn by simp
      ultimately show ?thesis by blast
    next
      case False
      then have "chain ?N (buckets ?c ! j) ch" using ch(1) pn by (simp add: chain_upd del: fun_upd_apply)
      moreover have "set ch = {q \<in> insert p S. bucket_index ?c (sql_at ?N q) = j}"
        unfolding bi sql using ch(3) sp False by auto
      ultimately show ?thesis using ch(2) by blast
    qed
  qed
  then have "indexed ?c (insert p S)" using ix n by (auto simp: indexed_def)
  with run kl show ?thesis by (auto simp: only_buckets_def)
qed

lemma slot_walk_chain:
  "chain (nodes c) h (as @ p # bs) \<Longrightarrow> p \<notin> set as \<Longrightarrow> read_slot c pp = Some h \<Longrightarrow>
     slot_walk c pp p = Some (if as = [] then pp else SlotEntry (last as))"
proof (induction as arbitrary: h pp)
  case Nil
  then show ?case by (subst slot_walk.simps) simp
next
  case (Cons a as)
  then obtain n where n: "nodes c a = Some n" "h = Some a" "chain (nodes c) (bucket_next n) (as @ p # bs)"
    by (auto split: option.splits)
  have "slot_walk c (SlotEntry a) p = Some (if as = [] then SlotEntry a else SlotEntry (last as))"
    using Cons.IH [OF n(3)] Cons.prems(2) n(1) by simp
  then show ?case using Cons.prems(2,3) n by (subst slot_walk.simps) auto
qed

lemma chain_remove:
  "chain N h (as @ q # p # bs) \<Longrightarrow> distinct (as @ q # p # bs) \<Longrightarrow> N q = Some nq \<Longrightarrow> N p = Some n \<Longrightarrow>
     chain (N(q \<mapsto> nq\<lparr>bucket_next := bucket_next n\<rparr>)) h (as @ q # bs)"
proof (induction as arbitrary: h)
  case Nil
  have "q \<notin> set bs" using Nil.prems(2) by simp
  then have "chain (N(q \<mapsto> nq\<lparr>bucket_next := bucket_next n\<rparr>)) (bucket_next n) bs = chain N (bucket_next n) bs"
    by (rule chain_upd)
  then show ?case using Nil.prems by (simp del: fun_upd_apply) (simp split: option.splits)
next
  case (Cons a as)
  then show ?case by (auto split: option.splits)
qed

lemma chain_next: "chain N h (as @ q # p # bs) \<Longrightarrow> N q = Some nq \<Longrightarrow> bucket_next nq = Some p"
  by (induction as arbitrary: h) (auto split: option.splits)

lemma keeps_links_refl [simp]: "keeps_links N N"
  by (simp add: keeps_links_def)

text \<open>Taking an entry out of its chain and clearing its link.\<close>

lemma bucket_unlink_chain:
  assumes ch: "chain (nodes c) (buckets c ! i) ch" "distinct ch" "p \<in> set ch"
    and n: "nodes c p = Some n" and i: "i < length (buckets c)" and bi: "bucket_index c (ce_sql n) = i"
  shows "\<exists>c'. bucket_unlink c p = Some c' \<and> only_buckets c c' \<and> chain (nodes c') (buckets c' ! i) (remove1 p ch) \<and>
            (\<forall>j. j \<noteq> i \<longrightarrow> buckets c' ! j = buckets c ! j) \<and> length (buckets c') = length (buckets c) \<and>
            (\<forall>q. q \<notin> set ch \<longrightarrow> nodes c' q = nodes c q)"
proof -
  obtain as bs where ab: "ch = as @ p # bs" using ch(3) by (meson split_list)
  have pa: "p \<notin> set as" "p \<notin> set bs" using ch(2) ab by auto
  have rm: "remove1 p ch = as @ bs" using pa ab by (simp add: remove1_append)
  have walk: "slot_walk c (SlotBucket i) p = Some (if as = [] then SlotBucket i else SlotEntry (last as))"
    by (rule slot_walk_chain [where h = "buckets c ! i" and bs = bs]) (use ch(1) ab pa i in \<open>simp_all add: bucket_at_def\<close>)
  show ?thesis
  proof (cases as rule: rev_cases)
    case Nil
    have "chain (nodes c) (bucket_next n) bs" and "buckets c ! i = Some p" using ch(1) ab Nil n by auto
    moreover have "keeps_links (nodes c) ((nodes c)(p \<mapsto> n\<lparr>bucket_next := None\<rparr>))" by (rule keeps_links_upd [where n = n]) (use n in simp_all)
    ultimately show ?thesis using walk n i bi Nil ab rm pa
      by (simp add: bucket_unlink_def bucket_at_def upd_entry_def only_buckets_def chain_upd del: fun_upd_apply) simp
  next
    case (snoc as' q)
    have qp: "q \<noteq> p" "q \<in> set ch" using ch(2) ab snoc by auto
    obtain nq where nq: "nodes c q = Some nq" using chain_allocated [OF ch(1) qp(2)] by blast
    let ?N = "(nodes c)(q \<mapsto> nq\<lparr>bucket_next := bucket_next n\<rparr>)"
    have "chain ?N (buckets c ! i) (as' @ q # bs)"
      by (rule chain_remove [OF _ _ nq n]) (use ch ab snoc in auto)
    then have c1: "chain (?N(p \<mapsto> n\<lparr>bucket_next := None\<rparr>)) (buckets c ! i) (as @ bs)"
      using pa snoc qp by (simp add: chain_upd del: fun_upd_apply)
    have k: "keeps_links (nodes c) (?N(p \<mapsto> n\<lparr>bucket_next := None\<rparr>))"
      by (rule keeps_links_trans [OF keeps_links_upd [where n = nq] keeps_links_upd [where n = n]])
        (use n nq qp in simp_all)
    have "bucket_next nq = Some p"
      by (rule chain_next [of "nodes c" "buckets c ! i" as' q p bs]) (use ch(1) ab snoc nq in simp_all)
    then have "bucket_unlink c p = Some (c\<lparr>nodes := ?N(p \<mapsto> n\<lparr>bucket_next := None\<rparr>)\<rparr>)"
      using walk n nq bi snoc qp by (simp add: bucket_unlink_def upd_entry_def)
    then show ?thesis using c1 k rm ab qp by (auto simp: only_buckets_def)
  qed
qed

lemma bucket_unlink_ok:
  assumes ix: "indexed c S" and nz: "bucket_count c \<noteq> 0" and p: "p \<in> S"
  shows "\<exists>c'. bucket_unlink c p = Some c' \<and> only_buckets c c' \<and> indexed c' (S - {p})"
proof -
  obtain n where n: "nodes c p = Some n" using ix p by (auto simp: indexed_def)
  let ?i = "bucket_index c (ce_sql n)"
  have sp: "sql_at (nodes c) p = ce_sql n" using n by (simp add: sql_at_def)
  have i: "?i < length (buckets c)" using ix bucket_index_less [OF nz] by (simp add: indexed_def)
  obtain ch where ch: "chain (nodes c) (buckets c ! ?i) ch" "distinct ch"
    "set ch = {q \<in> S. bucket_index c (sql_at (nodes c) q) = ?i}" using ix i by (auto simp: indexed_def)
  have "p \<in> set ch" using ch(3) p sp by simp
  from bucket_unlink_chain [OF ch(1,2) this n i refl] obtain c' where c': "bucket_unlink c p = Some c'"
    "only_buckets c c'" "chain (nodes c') (buckets c' ! ?i) (remove1 p ch)"
    "\<And>j. j \<noteq> ?i \<Longrightarrow> buckets c' ! j = buckets c ! j" "length (buckets c') = length (buckets c)"
    "\<And>q. q \<notin> set ch \<Longrightarrow> nodes c' q = nodes c q" by blast
  have k: "keeps_links (nodes c) (nodes c')" using c'(2) by (simp add: only_buckets_def)
  have "\<exists>ch'. chain (nodes c') (buckets c' ! j) ch' \<and> distinct ch' \<and>
          set ch' = {q \<in> S - {p}. bucket_index c' (sql_at (nodes c') q) = j}" if j: "j < length (buckets c')" for j
  proof (cases "j = ?i")
    case True
    have "set (remove1 p ch) = {q \<in> S - {p}. bucket_index c' (sql_at (nodes c') q) = j}"
      unfolding keeps_links_at (2) [OF k] only_buckets_index [OF c'(2)] True set_remove1_eq [OF ch(2)] ch(3) by blast
    moreover have "distinct (remove1 p ch)" using ch(2) by (rule distinct_remove1)
    moreover have "chain (nodes c') (buckets c' ! j) (remove1 p ch)" using c'(3) by (simp only: True)
    ultimately show ?thesis by blast
  next
    case False
    obtain ch' where ch': "chain (nodes c) (buckets c ! j) ch'" "distinct ch'"
      "set ch' = {q \<in> S. bucket_index c (sql_at (nodes c) q) = j}"
      using ix j c'(5) by (auto simp: indexed_def)
    have "chain (nodes c') (buckets c' ! j) ch'"
      unfolding c'(4) [OF False] by (rule chain_frame [OF _ ch'(1)]) (use c'(6) ch(3) ch'(3) False in auto)
    moreover have "set ch' = {q \<in> S - {p}. bucket_index c' (sql_at (nodes c') q) = j}"
      unfolding keeps_links_at (2) [OF k] only_buckets_index [OF c'(2)] ch'(3) using sp False by auto
    ultimately show ?thesis using ch'(2) by blast
  qed
  moreover have "S - {p} \<subseteq> dom (nodes c')" using ix keeps_links_at(1) [OF k] by (auto simp: indexed_def)
  ultimately have "indexed c' (S - {p})"
    using ix c'(2,5) by (simp add: indexed_def only_buckets_def)
  with c' show ?thesis by blast
qed

lemma indexed_frame:
  assumes ix: "indexed c S"
    and b: "buckets c' = buckets c" "bucket_count c' = bucket_count c" "dom (nodes c') = dom (nodes c)"
      "sql_at (nodes c') = sql_at (nodes c)"
    and ch: "\<And>h ps. chain (nodes c) h ps \<Longrightarrow> chain (nodes c') h ps"
  shows "indexed c' S"
proof -
  have bi: "bucket_index c' s = bucket_index c s" for s using b(2) by (simp add: bucket_index_def)
  have "\<exists>ch. chain (nodes c') (buckets c' ! j) ch \<and> distinct ch \<and>
          set ch = {q \<in> S. bucket_index c' (sql_at (nodes c') q) = j}" if j: "j < length (buckets c')" for j
    unfolding b(4) bi b(1) using ix j ch unfolding indexed_def b(1) by blast
  then show ?thesis using ix b(1,2,3) by (simp add: indexed_def)
qed

lemma indexed_only_lru: "only_lru c c' \<Longrightarrow> indexed c S \<Longrightarrow> indexed c' S"
  by (erule indexed_frame) (auto simp: only_lru_def keeps_data_at keeps_data_chain)

text \<open>Entries outside the index may be allocated or freed.\<close>

lemma indexed_outside:
  assumes ix: "indexed c S" and p: "p \<notin> S"
    and b: "buckets c' = buckets c" "bucket_count c' = bucket_count c" "nodes c' = (nodes c)(p := x)"
  shows "indexed c' S"
proof -
  have sql: "sql_at (nodes c') q = sql_at (nodes c) q" if "q \<in> S" for q using p b(3) that by (auto simp: sql_at_def)
  have "bucket_index c' s = bucket_index c s" for s using b(2) by (simp add: bucket_index_def)
  then have eq: "{q \<in> S. bucket_index c' (sql_at (nodes c') q) = j} = {q \<in> S. bucket_index c (sql_at (nodes c) q) = j}" for j
    using sql by auto
  have "\<exists>ch. chain (nodes c') (buckets c' ! j) ch \<and> distinct ch \<and>
          set ch = {q \<in> S. bucket_index c' (sql_at (nodes c') q) = j}" if j: "j < length (buckets c')" for j
  proof -
    obtain ch where ch: "chain (nodes c) (buckets c ! j) ch" "distinct ch"
      "set ch = {q \<in> S. bucket_index c (sql_at (nodes c) q) = j}"
      using ix j [unfolded b(1)] unfolding indexed_def by blast
    have "p \<notin> set ch" using ch(3) p by auto
    then have "chain (nodes c') (buckets c' ! j) ch" using ch(1) b by (simp add: chain_upd del: fun_upd_apply)
    then show ?thesis using ch(2,3) unfolding eq by blast
  qed
  moreover have "S \<subseteq> dom (nodes c')" using ix p b(3) by (auto simp: indexed_def)
  ultimately show ?thesis using ix b(1,2) by (simp add: indexed_def)
qed

section \<open>Representation invariant and abstraction\<close>

definition cache_inv :: "SqlRDBStmtCache \<Rightarrow> ptr list \<Rightarrow> bool" where
  "cache_inv c ps \<longleftrightarrow>
     distinct ps \<and> dom (nodes c) = set ps \<and> (\<forall>p \<in> set ps. p < fresh c) \<and>
     linked (nodes c) None ps None \<and> lru_head c = first ps None \<and> lru_tail c = last_of None ps \<and>
     size_of c = length ps \<and> length ps \<le> unat (capacity c) \<and>
     distinct (map (sql_at (nodes c)) ps) \<and> indexed c (set ps) \<and>
     (capacity c = 0 \<longleftrightarrow> bucket_count c = 0)"

definition entries :: "SqlRDBStmtCache \<Rightarrow> ptr list \<Rightarrow> (string \<times> ptr) list" where
  "entries c ps = map (\<lambda>p. (sql_at (nodes c) p, stmt_at (nodes c) p)) ps"

text \<open>The cache \<open>c\<close> holds the entries \<open>es\<close>, most recently used first.\<close>

definition represents :: "SqlRDBStmtCache \<Rightarrow> (string \<times> ptr) list \<Rightarrow> bool" where
  "represents c es \<longleftrightarrow> (\<exists>ps. cache_inv c ps \<and> entries c ps = es)"

lemma cache_invD:
  assumes "cache_inv c ps"
  shows "distinct ps" "dom (nodes c) = set ps" "\<And>p. p \<in> set ps \<Longrightarrow> p < fresh c"
    "linked (nodes c) None ps None" "lru_head c = first ps None" "lru_tail c = last_of None ps"
    "size_of c = length ps" "length ps \<le> unat (capacity c)" "distinct (map (sql_at (nodes c)) ps)"
    "indexed c (set ps)" "capacity c = 0 \<longleftrightarrow> bucket_count c = 0"
  using assms by (simp_all add: cache_inv_def)

lemma evict_lru_tail_ok:
  assumes inv: "cache_inv c (ps @ [p])"
  shows "\<exists>c'. (\<forall>drv w. evict_lru_tail c drv w =
                 do { w \<leftarrow> finalize_if drv (stmt_at (nodes c) p) w; Some (c', w) }) \<and>
              cache_inv c' ps \<and> entries c' ps = entries c ps \<and> capacity c' = capacity c \<and>
              bucket_count c' = bucket_count c"
proof -
  note I = cache_invD [OF inv]
  have nz: "bucket_count c \<noteq> 0" using I(8,11) by auto
  obtain c1 where c1: "lru_unlink c p = Some c1" "only_lru c c1" "lru_head c1 = first ps None"
    "lru_tail c1 = last_of None ps" "linked (nodes c1) None ps None"
    using lru_unlink_ok [of c ps p "[]"] I(1,4,5,6) by auto
  have k1: "keeps_data (nodes c) (nodes c1)" and f1: "bucket_count c1 = bucket_count c" "fresh c1 = fresh c"
    "capacity c1 = capacity c" "size_of c1 = size_of c" using c1(2) by (simp_all add: only_lru_def)
  have ix1: "indexed c1 (set (ps @ [p]))" using indexed_only_lru [OF c1(2) I(10)] .
  have nz1: "bucket_count c1 \<noteq> 0" using nz f1 by simp
  obtain c2 where c2: "bucket_unlink c1 p = Some c2" "only_buckets c1 c2" "indexed c2 (set (ps @ [p]) - {p})"
    using bucket_unlink_ok [OF ix1 nz1, of p] by auto
  have k2: "keeps_links (nodes c1) (nodes c2)" using c2(2) by (simp add: only_buckets_def)
  have pn: "p \<notin> set ps" using I(1) by simp
  have sp: "set (ps @ [p]) - {p} = set ps" using pn by auto
  have dom2: "dom (nodes c2) = insert p (set ps)"
    using I(2) keeps_data_at(1) [OF k1] keeps_links_at(1) [OF k2] by simp
  then obtain n2 where n2: "nodes c2 p = Some n2" by auto
  have st: "ce_stmt n2 = stmt_at (nodes c) p"
    unfolding keeps_data_at(3) [OF k1, symmetric] keeps_links_at(3) [OF k2, symmetric] using n2 by (simp add: stmt_at_def)
  let ?c = "c2\<lparr>size_of := size_of c2 - 1, nodes := (nodes c2)(p := None)\<rparr>"
  have run: "evict_lru_tail c drv w = do { w \<leftarrow> finalize_if drv (stmt_at (nodes c) p) w; Some (?c, w) }" for drv w
    using I(6) c1(1) c2(1) n2 st by (simp add: evict_lru_tail_def entry_finalize_and_free_def)
  have at: "sql_at (nodes ?c) q = sql_at (nodes c) q" "stmt_at (nodes ?c) q = stmt_at (nodes c) q"
    if "q \<in> set ps" for q
    using that pn keeps_data_at(2,3) [OF k1] keeps_links_at(2,3) [OF k2]
    by (auto simp: sql_at_def stmt_at_def fun_eq_iff)
  have ix: "indexed ?c (set ps)"
    by (rule indexed_outside [OF c2(3) [unfolded sp] pn]) simp_all
  have lk: "linked (nodes ?c) None ps None"
    using linked_frame [OF c1(5) k2] pn by (simp del: fun_upd_apply)
  have dm: "dom (nodes ?c) = set ps" using dom2 pn by auto
  have "map (sql_at (nodes ?c)) ps = map (sql_at (nodes c)) ps" using at(1) by simp
  moreover have "distinct (map (sql_at (nodes c)) ps)" using I(9) by simp
  ultimately have "distinct (map (sql_at (nodes ?c)) ps)" by (simp only:)
  then have "cache_inv ?c ps"
    using I f1 c1(3,4) c2(2) ix lk dm unfolding cache_inv_def only_buckets_def by (simp del: fun_upd_apply)
  moreover have "entries ?c ps = entries c ps" using at by (simp add: entries_def)
  moreover have "capacity ?c = capacity c" "bucket_count ?c = bucket_count c"
    using f1 c2(2) by (simp_all add: only_buckets_def)
  ultimately show ?thesis using run by blast
qed

section \<open>The abstract LRU cache\<close>

text \<open>A lookup moves the entry it finds to the front.\<close>

definition lru_touch :: "string \<Rightarrow> (string \<times> ptr) list \<Rightarrow> (string \<times> ptr) list" where
  "lru_touch sql es =
     (case map_of es sql of None \<Rightarrow> es | Some stmt \<Rightarrow> (sql, stmt) # filter (\<lambda>e. fst e \<noteq> sql) es)"

text \<open>
  Storing a statement in a cache of the given capacity: the statements that are finalized, in order,
  the new entries, the result and the rest of the allocation oracle.
\<close>

definition lru_put ::
  "nat \<Rightarrow> string \<Rightarrow> ptr \<Rightarrow> (string \<times> ptr) list \<Rightarrow> mem
     \<Rightarrow> ptr list \<times> (string \<times> ptr) list \<times> SqlRDBResult \<times> mem" where
  "lru_put cap sql stmt es m =
     (if cap = 0 then ([stmt], es, SQL_RDB_OK, m)
      else case map_of es sql of
        Some old \<Rightarrow> ([old], (sql, stmt) # filter (\<lambda>e. fst e \<noteq> sql) es, SQL_RDB_OK, m)
      | None \<Rightarrow>
          let full = (cap \<le> length es);
              victims = (if full then [snd (last es)] else []);
              kept = (if full then butlast es else es);
              (ok_e, m) = alloc m;
              (ok_s, m) = (if ok_e then alloc m else (False, m))
          in if ok_e \<and> ok_s then (victims, (sql, stmt) # kept, SQL_RDB_OK, m)
             else (victims @ [stmt], kept, SQL_RDB_ERR_NO_MEMORY, m))"

fun finalize_all :: "'w SqlRDBDriver option \<Rightarrow> ptr list \<Rightarrow> 'w \<Rightarrow> 'w option" where
  "finalize_all drv [] w = Some w"
| "finalize_all drv (s # ss) w = do { w \<leftarrow> finalize_if drv s w; finalize_all drv ss w }"

lemma finalize_all_append:
  "finalize_all drv (ss @ ts) w = do { w \<leftarrow> finalize_all drv ss w; finalize_all drv ts w }"
proof (induction ss arbitrary: w)
  case (Cons s ss)
  then show ?case by (cases "finalize_if drv s w") simp_all
qed simp

lemma map_of_entries:
  "distinct (map (sql_at (nodes c)) ps) \<Longrightarrow> p \<in> set ps \<Longrightarrow>
     map_of (entries c ps) (sql_at (nodes c) p) = Some (stmt_at (nodes c) p)"
  by (induction ps) (auto simp: entries_def image_iff)

lemma map_of_entries_None:
  "map_of (entries c ps) sql = None \<longleftrightarrow> (\<forall>p \<in> set ps. sql_at (nodes c) p \<noteq> sql)"
  by (induction ps) (auto simp: entries_def)

lemma filter_entries:
  "distinct (map (sql_at (nodes c)) (as @ p # bs)) \<Longrightarrow>
     filter (\<lambda>e. fst e \<noteq> sql_at (nodes c) p) (entries c (as @ p # bs)) = entries c (as @ bs)"
proof -
  assume "distinct (map (sql_at (nodes c)) (as @ p # bs))"
  then have "filter (\<lambda>q. sql_at (nodes c) q \<noteq> sql_at (nodes c) p) (as @ bs) = as @ bs"
    by (intro filter_True) (auto simp: image_iff)
  then show ?thesis by (simp add: entries_def filter_map o_def) (metis map_append)
qed

text \<open>Promoting an entry of a well-formed cache.\<close>

lemma promote_inv:
  assumes inv: "cache_inv c (as @ p # bs)"
  shows "\<exists>c'. lru_promote c p = Some c' \<and> cache_inv c' (p # as @ bs) \<and>
           entries c' (p # as @ bs) = entries c (p # as @ bs) \<and> only_lru c c'"
proof -
  note I = cache_invD [OF inv]
  obtain c' where c': "lru_promote c p = Some c'" "only_lru c c'" "lru_head c' = Some p"
    "lru_tail c' = last_of None (p # as @ bs)" "linked (nodes c') None (p # as @ bs) None"
    using lru_promote_ok [OF I(4,1,5,6)] by blast
  have k: "keeps_data (nodes c) (nodes c')" and f: "capacity c' = capacity c" "size_of c' = size_of c"
    "bucket_count c' = bucket_count c" "fresh c' = fresh c" using c'(2) by (simp_all add: only_lru_def)
  have s: "set (p # as @ bs) = set (as @ p # bs)" by auto
  have d: "distinct (map (sql_at (nodes c')) (p # as @ bs))" "distinct (p # as @ bs)"
    unfolding keeps_data_at(2) [OF k] using I(1,9) by auto
  have "cache_inv c' (p # as @ bs)"
    unfolding cache_inv_def s keeps_data_at(1) [OF k]
    using I(2,3,7,8,11) f d c'(3,4,5) indexed_only_lru [OF c'(2) I(10)] by simp
  moreover have "entries c' (p # as @ bs) = entries c (p # as @ bs)"
    by (simp add: entries_def keeps_data_at(2,3) [OF k])
  ultimately show ?thesis using c'(1,2) by blast
qed

lemma cache_get_refines:
  assumes "represents c es"
  shows "\<exists>c'. c2sql_internal_cache_get c sql =
             Some (if map_of es sql = None then SQL_RDB_ERR_NOT_FOUND else SQL_RDB_OK, map_of es sql, c') \<and>
           represents c' (lru_touch sql es) \<and> capacity c' = capacity c"
proof -
  obtain ps where inv: "cache_inv c ps" and es: "es = entries c ps" using assms by (auto simp: represents_def)
  note I = cache_invD [OF inv]
  show ?thesis
  proof (cases "capacity c = 0 \<or> size_of c = 0")
    case True
    then have "ps = []" using I(7,8) by auto
    then show ?thesis using True assms es
      by (simp add: c2sql_internal_cache_get_def entries_def lru_touch_def)
  next
    case False
    then have nz: "bucket_count c \<noteq> 0" using I(11) by simp
    from bucket_find_indexed [OF I(10) nz] obtain r where
      r: "bucket_find c (bucket_index c sql) sql = Some r"
        "r = None \<Longrightarrow> \<forall>p \<in> set ps. sql_at (nodes c) p \<noteq> sql"
        "\<And>p. r = Some p \<Longrightarrow> p \<in> set ps \<and> sql_at (nodes c) p = sql" by metis
    show ?thesis
    proof (cases r)
      case None
      then have "map_of es sql = None" using r(2) es map_of_entries_None by simp
      then show ?thesis using False None r(1) assms by (simp add: c2sql_internal_cache_get_def lru_touch_def)
    next
      case (Some p)
      then have p: "p \<in> set ps" "sql_at (nodes c) p = sql" using r(3) by auto
      then obtain as bs where ab: "ps = as @ p # bs" by (meson split_list)
      obtain c' where c': "lru_promote c p = Some c'" "cache_inv c' (p # as @ bs)"
        "entries c' (p # as @ bs) = entries c (p # as @ bs)" "only_lru c c'"
        using promote_inv [OF inv [unfolded ab]] by blast
      obtain n where n: "nodes c' p = Some n" using cache_invD(2) [OF c'(2)] by auto
      have st: "ce_stmt n = stmt_at (nodes c) p" using c'(3) n by (simp add: entries_def stmt_at_def)
      have m: "map_of es sql = Some (stmt_at (nodes c) p)" using map_of_entries [OF I(9) p(1)] p(2) es by simp
      have "lru_touch sql es = entries c (p # as @ bs)"
        using m filter_entries [OF I(9) [unfolded ab]] p(2) es ab by (simp add: lru_touch_def entries_def)
      then have "represents c' (lru_touch sql es)" using c'(2,3) by (auto simp: represents_def)
      moreover have "c2sql_internal_cache_get c sql = Some (SQL_RDB_OK, Some (stmt_at (nodes c) p), c')"
        using False r(1) Some c'(1) n st by (simp add: c2sql_internal_cache_get_def)
      ultimately show ?thesis using m c'(4) by (simp add: only_lru_def)
    qed
  qed
qed

text \<open>Storing a new entry in a cache that has room for it.\<close>

lemma insert_inv:
  assumes inv: "cache_inv c ps" and room: "length ps < unat (capacity c)"
    and new: "\<forall>p \<in> set ps. sql_at (nodes c) p \<noteq> sql"
    and ok: "alloc m = (True, m1)" "alloc m1 = (True, m2)"
  shows "\<exists>c'. (\<forall>drv w. cache_insert c sql stmt drv w m = Some (SQL_RDB_OK, c', w, m2)) \<and>
           capacity c' = capacity c \<and> represents c' ((sql, stmt) # entries c ps)"
proof -
  note I = cache_invD [OF inv]
  let ?e = "fresh c"
  let ?n = "\<lparr>ce_sql = sql, ce_stmt = stmt, lru_prev = None, lru_next = None, bucket_next = None\<rparr>"
  let ?new = "c\<lparr>nodes := (nodes c)(?e \<mapsto> ?n), fresh := Suc ?e\<rparr>"
  have e: "?e \<notin> set ps" using I(3) by auto
  have nz: "bucket_count ?new \<noteq> 0" using room I(11) by auto
  have ix0: "indexed ?new (set ps)" by (rule indexed_outside [OF I(10) e]) simp_all
  have n0: "nodes ?new ?e = Some ?n" by simp
  obtain c1 where c1: "bucket_insert ?new ?e = Some c1" "only_buckets ?new c1" "indexed c1 (insert ?e (set ps))"
    using bucket_insert_ok [OF ix0 nz n0 e] by blast
  have k1: "keeps_links (nodes ?new) (nodes c1)" using c1(2) by (simp add: only_buckets_def)
  have dom1: "dom (nodes c1) = insert ?e (set ps)" using keeps_links_at(1) [OF k1] I(2) by simp
  have "linked (nodes ?new) None ps None" using I(4) e by (simp del: fun_upd_apply)
  then have l1: "linked (nodes c1) None ps None" using k1 by (rule linked_frame)
  obtain n1 where n1: "nodes c1 ?e = Some n1" using dom1 by auto
  have f1: "lru_head c1 = first ps None" "lru_tail c1 = last_of None ps" "fresh c1 = Suc ?e"
    "capacity c1 = capacity c" "size_of c1 = length ps" "bucket_count c1 = bucket_count c"
    using c1(2) I(5,6,7) by (simp_all add: only_buckets_def)
  have d: "distinct (?e # ps)" using e I(1) by simp
  obtain c2 where c2: "lru_push_front c1 ?e = Some c2" "only_lru c1 c2" "lru_head c2 = Some ?e"
    "lru_tail c2 = last_of None (?e # ps)" "linked (nodes c2) None (?e # ps) None"
    using lru_push_front_ok [OF l1 d n1 f1(1,2)] by blast
  have k2: "keeps_data (nodes c1) (nodes c2)" and f2: "capacity c2 = capacity c1" "size_of c2 = size_of c1"
    "bucket_count c2 = bucket_count c1" "fresh c2 = fresh c1" using c2(2) by (simp_all add: only_lru_def)
  let ?c = "c2\<lparr>size_of := size_of c2 + 1\<rparr>"
  have run: "cache_insert c sql stmt drv w m = Some (SQL_RDB_OK, ?c, w, m2)" for drv w
    using ok c1(1) c2(1) by (simp add: cache_insert_def Let_def)
  have at: "sql_at (nodes ?c) = sql_at (nodes ?new)" "stmt_at (nodes ?c) = stmt_at (nodes ?new)"
    using keeps_data_at(2,3) [OF k2] keeps_links_at(2,3) [OF k1] by simp_all
  have old: "sql_at (nodes ?new) q = sql_at (nodes c) q" "stmt_at (nodes ?new) q = stmt_at (nodes c) q"
    if "q \<in> set ps" for q using that e by (auto simp: sql_at_def stmt_at_def)
  have ae: "sql_at (nodes ?new) ?e = sql" "stmt_at (nodes ?new) ?e = stmt" by (simp_all add: sql_at_def stmt_at_def)
  have "map (sql_at (nodes ?new)) (?e # ps) = sql # map (sql_at (nodes c)) ps" using old(1) ae(1) by simp
  moreover have "distinct (sql # map (sql_at (nodes c)) ps)" using new I(9) by auto
  ultimately have dm: "distinct (map (sql_at (nodes ?c)) (?e # ps))" unfolding at by (simp only:)
  have ix: "indexed ?c (set (?e # ps))"
    using indexed_only_lru [OF c2(2) c1(3)] by (simp add: indexed_def bucket_index_def)
  have "cache_inv ?c (?e # ps)"
    unfolding cache_inv_def using d dm ix c2(3,4,5) f1 f2 room I(11) dom1 keeps_data_at(1) [OF k2] I(3)
    by (auto simp: less_Suc_eq)
  moreover have "entries ?c (?e # ps) = (sql, stmt) # entries c ps"
    unfolding entries_def at using old ae by simp
  ultimately have "represents ?c ((sql, stmt) # entries c ps)" unfolding represents_def by blast
  moreover have "capacity ?c = capacity c" using f1 f2 by simp
  ultimately show ?thesis using run by blast
qed

text \<open>Replacing the statement of an entry.\<close>

lemma replace_stmt_inv:
  assumes inv: "cache_inv c ps" and n: "nodes c p = Some n" and p: "p \<in> set ps"
  shows "cache_inv (c\<lparr>nodes := (nodes c)(p \<mapsto> n\<lparr>ce_stmt := stmt\<rparr>)\<rparr>) ps"
proof -
  let ?N = "(nodes c)(p \<mapsto> n\<lparr>ce_stmt := stmt\<rparr>)"
  note I = cache_invD [OF inv]
  have lk: "linked (nodes c) pr xs nx \<Longrightarrow> linked ?N pr xs nx" for pr xs nx
    by (induction xs arbitrary: pr) (use n in \<open>auto split: option.splits\<close>)
  have sq: "sql_at ?N = sql_at (nodes c)" using n by (auto simp: sql_at_def fun_eq_iff)
  have ch: "chain (nodes c) h xs \<Longrightarrow> chain ?N h xs" for h xs
    by (rule chain_frame) (use n in auto)
  have dm: "dom ?N = set ps" using I(2) p by auto
  have ix: "indexed (c\<lparr>nodes := ?N\<rparr>) (set ps)"
    by (rule indexed_frame [OF I(10)]) (use sq ch dm I(2) in \<open>simp_all del: fun_upd_apply\<close>)
  show ?thesis
    using I dm ix lk [OF I(4)] unfolding cache_inv_def by (simp add: sq del: fun_upd_apply)
qed

text \<open>Storing a statement under a text that is already cached.\<close>

lemma put_existing:
  assumes inv: "cache_inv c ps" and p: "p \<in> set ps"
  shows "\<exists>c'. (\<forall>drv w. do { n \<leftarrow> nodes c p; w \<leftarrow> finalize_if drv (ce_stmt n) w;
                c \<leftarrow> upd_entry c p (\<lambda>m. m\<lparr>ce_stmt := stmt\<rparr>); c \<leftarrow> lru_promote c p; Some (SQL_RDB_OK, c, w, m) } =
              do { w \<leftarrow> finalize_if drv (stmt_at (nodes c) p) w; Some (SQL_RDB_OK, c', w, m) }) \<and>
           capacity c' = capacity c \<and>
           represents c' ((sql_at (nodes c) p, stmt) #
             filter (\<lambda>e. fst e \<noteq> sql_at (nodes c) p) (entries c ps))"
proof -
  note I = cache_invD [OF inv]
  obtain as bs where ab: "ps = as @ p # bs" using p by (meson split_list)
  obtain n where n: "nodes c p = Some n" using I(2) p by auto
  let ?c = "c\<lparr>nodes := (nodes c)(p \<mapsto> n\<lparr>ce_stmt := stmt\<rparr>)\<rparr>"
  have "cache_inv ?c (as @ p # bs)" using replace_stmt_inv [OF inv n p] ab by simp
  from promote_inv [OF this] obtain c' where c': "lru_promote ?c p = Some c'" "cache_inv c' (p # as @ bs)"
    "entries c' (p # as @ bs) = entries ?c (p # as @ bs)" "only_lru ?c c'" by blast
  have "p \<notin> set as" "p \<notin> set bs" using I(1) ab by auto
  then have "entries ?c (p # as @ bs) = (sql_at (nodes c) p, stmt) # entries c (as @ bs)"
    using n by (auto simp: entries_def sql_at_def stmt_at_def)
  then have "represents c' ((sql_at (nodes c) p, stmt) # entries c (as @ bs))"
    using c'(2,3) by (auto simp: represents_def)
  then show ?thesis using filter_entries [OF I(9) [unfolded ab]] ab n c'(1,4)
    by (auto simp: upd_entry_def stmt_at_def only_lru_def)
qed

text \<open>The eviction that precedes an insertion leaves room for one entry.\<close>

lemma make_room:
  fixes drv :: "'w SqlRDBDriver option"
  assumes inv: "cache_inv c ps" and uc: "unat (capacity c) \<noteq> 0"
    and new: "\<forall>p \<in> set ps. sql_at (nodes c) p \<noteq> sql"
  defines "full \<equiv> unat (capacity c) \<le> size_of c"
  shows "\<exists>c1 qs. (\<forall>w. (if full then evict_lru_tail c drv w else Some (c, w)) =
              do { w \<leftarrow> finalize_all drv (if full then [snd (last (entries c ps))] else []) w; Some (c1, w) }) \<and>
           cache_inv c1 qs \<and> entries c1 qs = (if full then butlast (entries c ps) else entries c ps) \<and>
           capacity c1 = capacity c \<and> length qs < unat (capacity c) \<and>
           (\<forall>q \<in> set qs. sql_at (nodes c1) q \<noteq> sql)"
proof (cases full)
  case True
  note I = cache_invD [OF inv]
  obtain qs p where qp: "ps = qs @ [p]" using I(7) uc True by (cases ps rule: rev_cases) (auto simp: full_def)
  obtain c' where c': "\<And>(drv :: 'w SqlRDBDriver option) w. evict_lru_tail c drv w =
      do { w \<leftarrow> finalize_if drv (stmt_at (nodes c) p) w; Some (c', w) }"
    "cache_inv c' qs" "entries c' qs = entries c qs" "capacity c' = capacity c"
    using evict_lru_tail_ok [OF inv [unfolded qp]] by blast
  have "map_of (entries c' qs) sql = None" unfolding c'(3) map_of_entries_None using new qp by auto
  then have q: "\<forall>q \<in> set qs. sql_at (nodes c') q \<noteq> sql" unfolding map_of_entries_None .
  have "entries c ps = entries c qs @ [(sql_at (nodes c) p, stmt_at (nodes c) p)]"
    using qp by (simp add: entries_def)
  moreover have "length qs < unat (capacity c)" using I(8) qp by simp
  ultimately show ?thesis using True c' q by (intro exI [of _ c'] exI [of _ qs]) simp
next
  case False
  then show ?thesis using inv new cache_invD(7) [OF inv]
    by (intro exI [of _ c] exI [of _ ps]) (simp add: full_def)
qed

lemma cache_put_refines:
  fixes drv :: "'w SqlRDBDriver option"
  assumes rep: "represents c es"
    and spec: "lru_put (unat (capacity c)) sql stmt es m = (dead, es', r, m')"
  shows "\<exists>c'. c2sql_internal_cache_put c sql stmt drv w m =
             do { w \<leftarrow> finalize_all drv dead w; Some (r, c', w, m') } \<and>
           represents c' es' \<and> capacity c' = capacity c"
proof (cases "capacity c = 0")
  case True
  then show ?thesis using rep spec by (auto simp: c2sql_internal_cache_put_def lru_put_def)
next
  case False
  obtain ps where inv: "cache_inv c ps" and es: "es = entries c ps" using rep by (auto simp: represents_def)
  note I = cache_invD [OF inv]
  have nz: "bucket_count c \<noteq> 0" and uc: "unat (capacity c) \<noteq> 0" using I(11) False by (simp_all add: unat_eq_0)
  from bucket_find_indexed [OF I(10) nz] obtain f where
    f: "bucket_find c (bucket_index c sql) sql = Some f"
      "f = None \<Longrightarrow> \<forall>p \<in> set ps. sql_at (nodes c) p \<noteq> sql"
      "\<And>p. f = Some p \<Longrightarrow> p \<in> set ps \<and> sql_at (nodes c) p = sql" by metis
  show ?thesis
  proof (cases f)
    case (Some p)
    then have p: "p \<in> set ps" "sql_at (nodes c) p = sql" using f(3) by auto
    have "dead = [stmt_at (nodes c) p]" "es' = (sql, stmt) # filter (\<lambda>e. fst e \<noteq> sql) (entries c ps)"
      "r = SQL_RDB_OK" "m' = m"
      using spec uc map_of_entries [OF I(9) p(1)] p(2) es by (simp_all add: lru_put_def)
    moreover obtain c' where c': "\<And>(drv :: 'w SqlRDBDriver option) w. do { n \<leftarrow> nodes c p; w \<leftarrow> finalize_if drv (ce_stmt n) w;
          c \<leftarrow> upd_entry c p (\<lambda>m. m\<lparr>ce_stmt := stmt\<rparr>); c \<leftarrow> lru_promote c p; Some (SQL_RDB_OK, c, w, m) } =
        do { w \<leftarrow> finalize_if drv (stmt_at (nodes c) p) w; Some (SQL_RDB_OK, c', w, m) }"
      "capacity c' = capacity c" "represents c' ((sql, stmt) # filter (\<lambda>e. fst e \<noteq> sql) (entries c ps))"
      using put_existing [OF inv p(1), of stmt m] unfolding p(2) by blast
    moreover have "c2sql_internal_cache_put c sql stmt drv w m =
        do { w \<leftarrow> finalize_if drv (stmt_at (nodes c) p) w; Some (SQL_RDB_OK, c', w, m) }"
      unfolding c'(1) [symmetric] using False f(1) Some by (simp add: c2sql_internal_cache_put_def)
    ultimately show ?thesis by auto
  next
    case None
    let ?full = "unat (capacity c) \<le> size_of c"
    have new: "\<forall>p \<in> set ps. sql_at (nodes c) p \<noteq> sql" using f(2) None by simp
    have ls: "length es = size_of c" using es I(7) by (simp add: entries_def)
    define victims where "victims = (if ?full then [snd (last es)] else [])"
    define kept where "kept = (if ?full then butlast es else es)"
    obtain c1 qs where c1:
      "\<And>w. (if ?full then evict_lru_tail c drv w else Some (c, w)) =
            do { w \<leftarrow> finalize_all drv victims w; Some (c1, w) }"
      "cache_inv c1 qs" "entries c1 qs = kept" "capacity c1 = capacity c" "length qs < unat (capacity c)"
      "\<forall>q \<in> set qs. sql_at (nodes c1) q \<noteq> sql"
      using make_room [OF inv uc new, of drv] unfolding victims_def kept_def es by blast
    have put: "c2sql_internal_cache_put c sql stmt drv w m =
        do { w \<leftarrow> finalize_all drv victims w; cache_insert c1 sql stmt drv w m }"
      using False f(1) None c1(1) by (simp add: c2sql_internal_cache_put_def Option.bind_assoc)
    have mo: "map_of es sql = None" using map_of_entries_None es new by simp
    obtain ok_e m1 where a1: "alloc m = (ok_e, m1)" by fastforce
    obtain ok_s m2 where a2: "(if ok_e then alloc m1 else (False, m1)) = (ok_s, m2)" by fastforce
    have sp: "(dead, es', r, m') = (if ok_e \<and> ok_s then (victims, (sql, stmt) # kept, SQL_RDB_OK, m2)
                else (victims @ [stmt], kept, SQL_RDB_ERR_NO_MEMORY, m2))"
      using spec uc mo a1 a2 ls by (auto simp: lru_put_def victims_def kept_def Let_def split: if_splits)
    show ?thesis
    proof (cases "ok_e \<and> ok_s")
      case True
      then have "alloc m = (True, m1)" "alloc m1 = (True, m2)" using a1 a2 by auto
      from insert_inv [OF c1(2) c1(5) [folded c1(4)] c1(6) this] obtain c' where
        "\<And>(drv :: 'w SqlRDBDriver option) w. cache_insert c1 sql stmt drv w m = Some (SQL_RDB_OK, c', w, m2)"
        "capacity c' = capacity c1" "represents c' ((sql, stmt) # entries c1 qs)" by blast
      then show ?thesis using put sp True c1(3,4) by auto
    next
      case bad: False
      have "cache_insert c1 sql stmt drv w m =
          do { w \<leftarrow> finalize_if drv stmt w; Some (SQL_RDB_ERR_NO_MEMORY, c1, w, m2) }" for w
        using bad a1 a2 by (auto simp: cache_insert_def)
      moreover have "represents c1 kept" using c1(2,3) by (auto simp: represents_def)
      ultimately show ?thesis using put sp bad c1(4)
        by (auto simp: finalize_all_append Option.bind_assoc)
    qed
  qed
qed

section \<open>Bucket counts\<close>

text \<open>
  \<open>next_pow2_at_least n\<close> returns the least power of two that is at least \<open>n\<close> as long as one
  fits in 64 bits; for a larger \<open>n\<close> the shifted value wraps to 0 and the loop never ends.
\<close>

lemma push_bit_pow2: "k < 63 \<Longrightarrow> push_bit 1 (2 ^ k :: 64 word) = 2 ^ Suc k"
  by (simp add: push_bit_eq_mult)

lemma unat_pow2: "k < 64 \<Longrightarrow> unat (2 ^ k :: 64 word) = 2 ^ k"
proof -
  assume k: "k < 64"
  have "unat (word_of_nat (2 ^ k) :: 64 word) = 2 ^ k mod 2 ^ 64" by (simp only: unat_of_nat) simp
  moreover have "(2::nat) ^ k < 2 ^ 64" using k by (intro power_strict_increasing) auto
  ultimately show ?thesis by simp
qed

lemma pow2_word_less: "k < 64 \<Longrightarrow> (2 ^ k :: 64 word) < n \<longleftrightarrow> 2 ^ k < unat n"
  by (simp add: word_less_nat_alt unat_pow2)

lemma pow2_loop_ok:
  assumes "unat n \<le> 2 ^ 63" and "k \<le> 63"
  shows "\<exists>j. pow2_loop (2 ^ k) n = Some (2 ^ j) \<and> k \<le> j \<and> j \<le> 63 \<and>
             unat n \<le> 2 ^ j \<and> (j = k \<or> 2 ^ (j - 1) < unat n)"
  using assms
proof (induction "63 - k" arbitrary: k)
  case 0
  then have k: "k = 63" by simp
  then have "\<not> (2 ^ k :: 64 word) < n" using 0 pow2_word_less [of k n] by simp
  then have "pow2_loop (2 ^ k) n = Some (2 ^ k)" by (subst pow2_loop.simps) (simp only: if_False)
  then show ?case using 0 k by blast
next
  case (Suc d)
  show ?case
  proof (cases "2 ^ k < unat n")
    case True
    then have "pow2_loop (2 ^ k) n = pow2_loop (2 ^ Suc k) n"
      using Suc.hyps(2) Suc.prems(2) pow2_word_less [of k n] push_bit_pow2 [of k]
      by (subst pow2_loop.simps) (simp add: mult.commute)
    moreover have "d = 63 - Suc k" "Suc k \<le> 63" using Suc.hyps(2) by auto
    ultimately show ?thesis using Suc.hyps(1) [of "Suc k"] Suc.prems(1) True
      by (auto simp del: power_Suc)
  next
    case False
    then show ?thesis using Suc.prems pow2_word_less [of k n]
      by (intro exI [of _ k]) (subst pow2_loop.simps, simp)
  qed
qed

text \<open>Once the shift has wrapped, the loop repeats its state; no iteration from a power of two returns.\<close>

lemma pow2_loop_returns:
  "pow2_loop r n = Some v \<Longrightarrow> 2 ^ 63 < unat n \<longrightarrow> \<not> (r = 0 \<or> (\<exists>k \<le> 63. r = 2 ^ k))"
proof (erule pow2_loop.raw_induct
    [where P = "\<lambda>r n v. 2 ^ 63 < unat n \<longrightarrow> \<not> (r = 0 \<or> (\<exists>k \<le> 63. r = 2 ^ k))", rotated])
  fix rec :: "64 word \<Rightarrow> 64 word \<Rightarrow> 64 word option" and r n v :: "64 word"
  assume IH: "\<And>r n v. rec r n = Some v \<Longrightarrow> 2 ^ 63 < unat n \<longrightarrow> \<not> (r = 0 \<or> (\<exists>k \<le> 63. r = 2 ^ k))"
    and run: "(if r < n then rec (push_bit 1 r) n else Some r) = Some v"
  show "2 ^ 63 < unat n \<longrightarrow> \<not> (r = 0 \<or> (\<exists>k \<le> 63. r = 2 ^ k))"
  proof (intro impI notI)
    assume n: "2 ^ 63 < unat n" and r: "r = 0 \<or> (\<exists>k \<le> 63. r = 2 ^ k)"
    have "r < n \<and> (push_bit 1 r = 0 \<or> (\<exists>k \<le> 63. push_bit 1 r = 2 ^ k))"
      using r
    proof (elim disjE exE conjE)
      assume "r = 0"
      then show ?thesis using n by (simp add: word_less_nat_alt)
    next
      fix k assume k: "k \<le> 63" "r = 2 ^ k"
      have "(2::nat) ^ k \<le> 2 ^ 63" using k(1) by (intro power_increasing) auto
      then have "r < n" using k n pow2_word_less [of k n] by simp
      moreover have "push_bit 1 r = 0 \<or> (\<exists>k \<le> 63. push_bit 1 r = 2 ^ k)"
      proof (cases "k = 63")
        case True
        then show ?thesis using k by simp
      next
        case False
        then show ?thesis using k push_bit_pow2 [of k] by (intro disjI2 exI [of _ "Suc k"]) simp
      qed
      ultimately show ?thesis by blast
    qed
    then show False using IH [of "push_bit 1 r" n v] run n by simp
  qed
qed

lemma next_pow2_diverges: "2 ^ 63 < unat n \<Longrightarrow> next_pow2_at_least n = None"
  using pow2_loop_returns [of 1 n] by (cases "pow2_loop 1 n") (auto simp: next_pow2_at_least_def)

lemma next_pow2_least:
  assumes "unat n \<le> 2 ^ 63"
  shows "\<exists>j \<le> 63. next_pow2_at_least n = Some (2 ^ j) \<and> unat n \<le> 2 ^ j \<and>
           (\<forall>i. unat n \<le> 2 ^ i \<longrightarrow> j \<le> i)"
proof -
  obtain j where j: "pow2_loop 1 n = Some (2 ^ j)" "j \<le> 63" "unat n \<le> 2 ^ j"
    "j = 0 \<or> 2 ^ (j - 1) < unat n" using pow2_loop_ok [OF assms, of 0] by auto
  have "j \<le> i" if i: "unat n \<le> 2 ^ i" for i
  proof (rule ccontr)
    assume "\<not> j \<le> i"
    then have "(2::nat) ^ i \<le> 2 ^ (j - 1)" and "j \<noteq> 0" by (auto intro!: power_increasing)
    then show False using i j(4) by linarith
  qed
  then show ?thesis using j by (auto simp: next_pow2_at_least_def)
qed

text \<open>The bucket count of every capacity up to \<open>2 ^ 62\<close> is a nonzero power of two.\<close>

lemma bucket_count_for_ok:
  assumes "cap \<noteq> 0" and "unat cap \<le> 2 ^ 62"
  shows "\<exists>j. bucket_count_for cap = Some (2 ^ j) \<and> 4 \<le> j \<and> j \<le> 63 \<and> 2 * unat cap \<le> 2 ^ j"
proof -
  let ?want = "if cap * 2 < 16 then 16 else cap * 2"
  have u: "unat (cap * 2) = unat cap * 2" using assms(2) by (simp add: unat_word_ariths)
  then have w: "unat ?want \<le> 2 ^ 63" "16 \<le> unat ?want" "2 * unat cap \<le> unat ?want"
    using assms(2) by (auto simp: word_less_nat_alt)
  obtain j where j: "j \<le> 63" "next_pow2_at_least ?want = Some (2 ^ j)" "unat ?want \<le> 2 ^ j"
    using next_pow2_least [OF w(1)] by blast
  have "4 \<le> j"
  proof (rule ccontr)
    assume "\<not> 4 \<le> j"
    then have "(2::nat) ^ j \<le> 2 ^ 3" by (intro power_increasing) auto
    then show False using w(2) j(3) by simp
  qed
  moreover have "bucket_count_for cap = Some (2 ^ j)"
    using assms(1) j(2) by (simp only: bucket_count_for_def C2SQL_CACHE_MIN_BUCKETS_def Let_def if_False)
  ultimately show ?thesis using j w(3) by (intro exI [of _ j]) linarith
qed

section \<open>Resizing and destruction\<close>

lemma evict_down_to_refines:
  fixes drv :: "'w SqlRDBDriver option"
  assumes "cache_inv c ps"
  shows "\<exists>c'. (\<forall>w. evict_down_to k c drv w =
             do { w \<leftarrow> finalize_all drv (rev (map snd (drop k (entries c ps)))) w; Some (c', w) }) \<and>
           cache_inv c' (take k ps) \<and> entries c' (take k ps) = take k (entries c ps) \<and>
           capacity c' = capacity c \<and> bucket_count c' = bucket_count c"
  using assms
proof (induction ps arbitrary: c rule: rev_induct)
  case Nil
  then have "size_of c = 0" by (simp add: cache_inv_def)
  then show ?case using Nil by (intro exI [of _ c]) (simp add: evict_down_to.simps [of k c] entries_def)
next
  case (snoc p ps)
  have sz: "size_of c = Suc (length ps)" using snoc.prems by (simp add: cache_inv_def)
  show ?case
  proof (cases "k < size_of c")
    case False
    then show ?thesis using snoc.prems sz
      by (intro exI [of _ c]) (simp add: evict_down_to.simps [of k c] entries_def)
  next
    case True
    obtain c1 where c1: "\<And>(drv :: 'w SqlRDBDriver option) w. evict_lru_tail c drv w =
        do { w \<leftarrow> finalize_if drv (stmt_at (nodes c) p) w; Some (c1, w) }"
      "cache_inv c1 ps" "entries c1 ps = entries c ps" "capacity c1 = capacity c" "bucket_count c1 = bucket_count c"
      using evict_lru_tail_ok [OF snoc.prems] by blast
    obtain c' where c': "\<And>w. evict_down_to k c1 drv w =
        do { w \<leftarrow> finalize_all drv (rev (map snd (drop k (entries c1 ps)))) w; Some (c', w) }"
      "cache_inv c' (take k ps)" "entries c' (take k ps) = take k (entries c1 ps)"
      "capacity c' = capacity c1" "bucket_count c' = bucket_count c1"
      using snoc.IH [OF c1(2)] by blast
    have e: "entries c (ps @ [p]) = entries c ps @ [(sql_at (nodes c) p, stmt_at (nodes c) p)]"
      "length (entries c ps) = length ps" by (simp_all add: entries_def)
    have run: "evict_down_to k c drv w =
        do { w \<leftarrow> finalize_all drv (rev (map snd (drop k (entries c (ps @ [p]))))) w; Some (c', w) }" for w
    proof (cases "finalize_if drv (stmt_at (nodes c) p) w")
      case None
      then show ?thesis using True sz c1(1) e by (subst evict_down_to.simps) simp
    next
      case (Some w')
      then show ?thesis using True sz c1(1,3) c'(1) e by (subst evict_down_to.simps) simp
    qed
    show ?thesis using run c' c1(3,4,5) True sz e by (intro exI [of _ c']) simp
  qed
qed

lemma clear_chains_ok:
  "linked (nodes c) pr ps None \<Longrightarrow> distinct ps \<Longrightarrow>
     \<exists>N. clear_chains (first ps None) c = Some (c\<lparr>nodes := N\<rparr>) \<and> keeps_links (nodes c) N"
proof (induction ps arbitrary: c pr)
  case Nil
  then show ?case by (intro exI [of _ "nodes c"]) (simp add: clear_chains.simps)
next
  case (Cons p ps)
  then obtain n where n: "nodes c p = Some n" "lru_next n = first ps None" "linked (nodes c) (Some p) ps None"
    by (auto split: option.splits)
  let ?N = "(nodes c)(p \<mapsto> n\<lparr>bucket_next := None\<rparr>)"
  have k: "keeps_links (nodes c) ?N" by (rule keeps_links_upd [where n = n]) (use n in simp_all)
  have l: "linked (nodes (c\<lparr>nodes := ?N\<rparr>)) (Some p) ps None" using n(3) Cons.prems(2) by (simp del: fun_upd_apply)
  obtain N where N: "clear_chains (first ps None) (c\<lparr>nodes := ?N\<rparr>) = Some (c\<lparr>nodes := N\<rparr>)" "keeps_links ?N N"
    using Cons.IH [OF l] Cons.prems(2) by (auto simp del: fun_upd_apply)
  have "clear_chains (Some p) c = Some (c\<lparr>nodes := N\<rparr>)"
    using n N(1) by (subst clear_chains.simps) (simp add: upd_entry_def)
  then show ?case using keeps_links_trans [OF k N(2)] by auto
qed

lemma rehash_ok:
  "linked (nodes c) pr ps None \<Longrightarrow> distinct ps \<Longrightarrow> set ps \<inter> S = {} \<Longrightarrow> indexed c S \<Longrightarrow> bucket_count c \<noteq> 0 \<Longrightarrow>
     \<exists>c'. rehash (first ps None) c = Some c' \<and> only_buckets c c' \<and> indexed c' (set ps \<union> S)"
proof (induction ps arbitrary: c pr S)
  case Nil
  then show ?case by (intro exI [of _ c]) (simp add: rehash.simps only_buckets_def)
next
  case (Cons p ps)
  then obtain n where n: "nodes c p = Some n" "lru_next n = first ps None" "linked (nodes c) (Some p) ps None"
    by (auto split: option.splits)
  obtain c1 where c1: "bucket_insert c p = Some c1" "only_buckets c c1" "indexed c1 (insert p S)"
    using bucket_insert_ok [OF Cons.prems(4,5) n(1)] Cons.prems(3) by auto
  have k: "keeps_links (nodes c) (nodes c1)" and b: "bucket_count c1 \<noteq> 0"
    using c1(2) Cons.prems(5) by (simp_all add: only_buckets_def)
  have eq: "map_option (\<lambda>n. (ce_sql n, ce_stmt n, lru_prev n, lru_next n)) (nodes c1 p) =
        map_option (\<lambda>n. (ce_sql n, ce_stmt n, lru_prev n, lru_next n)) (nodes c p)"
    using k by (simp add: keeps_links_def)
  obtain n1 where n1: "nodes c1 p = Some n1" "lru_next n1 = first ps None"
    using eq n(1,2) by (cases "nodes c1 p") auto
  have "linked (nodes c1) (Some p) ps None" using n(3) k by (rule linked_frame)
  from Cons.IH [OF this _ _ c1(3) b] obtain c2 where
    c2: "rehash (first ps None) c1 = Some c2" "only_buckets c1 c2" "indexed c2 (set ps \<union> insert p S)"
    using Cons.prems(2,3) by auto
  have "rehash (Some p) c = Some c2" using c1(1) n1 c2(1) by (subst rehash.simps) simp
  moreover have "only_buckets c c2"
    using c1(2) c2(2) keeps_links_trans by (simp add: only_buckets_def) blast
  ultimately show ?case using c2(3) by auto
qed

text \<open>The bucket array is replaced and every entry of the LRU list inserted into it.\<close>

lemma reindex_inv:
  assumes inv: "cache_inv c ps" and b: "b \<noteq> 0" and cap: "cap \<noteq> 0" "length ps \<le> unat cap"
  shows "\<exists>c'. do { c \<leftarrow> clear_chains (lru_head c) c;
                c \<leftarrow> Some (c\<lparr>buckets := replicate (unat b) None, bucket_count := b\<rparr>);
                c \<leftarrow> rehash (lru_head c) c; Some (c\<lparr>capacity := cap\<rparr>) } = Some c' \<and>
           cache_inv c' ps \<and> entries c' ps = entries c ps \<and> capacity c' = cap"
proof -
  note I = cache_invD [OF inv]
  obtain N where N: "clear_chains (lru_head c) c = Some (c\<lparr>nodes := N\<rparr>)" "keeps_links (nodes c) N"
    using clear_chains_ok [OF I(4,1)] I(5) by auto
  let ?ci = "c\<lparr>nodes := N, buckets := replicate (unat b) None, bucket_count := b\<rparr>"
  have l: "linked (nodes ?ci) None ps None" using linked_frame [OF I(4) N(2)] by simp
  have ix: "indexed ?ci {}" by (auto simp: indexed_def intro: exI [of _ "[]"])
  obtain c2 where c2: "rehash (first ps None) ?ci = Some c2" "only_buckets ?ci c2" "indexed c2 (set ps \<union> {})"
    using rehash_ok [OF l I(1) _ ix] b by auto
  have "keeps_links N (nodes c2)" using c2(2) by (simp add: only_buckets_def)
  then have k: "keeps_links (nodes c) (nodes c2)" using keeps_links_trans [OF N(2)] by blast
  let ?c = "c2\<lparr>capacity := cap\<rparr>"
  have "indexed ?c (set ps)" using c2(3) by (simp add: indexed_def bucket_index_def)
  then have "cache_inv ?c ps"
    using I b cap c2(2) linked_frame [OF I(4) k] keeps_links_at(1,2) [OF k]
    by (simp add: cache_inv_def only_buckets_def)
  moreover have "entries ?c ps = entries c ps" using keeps_links_at(2,3) [OF k] by (simp add: entries_def)
  ultimately show ?thesis using N(1) c2(1) I(5) by simp
qed

lemma cache_rebuild_refines:
  fixes drv :: "'w SqlRDBDriver option"
  assumes rep: "represents c es" and cap: "unat cap \<le> 2 ^ 62"
  shows "\<exists>c' r m'. c2sql_internal_cache_rebuild c cap drv w m =
             do { w \<leftarrow> finalize_all drv (rev (map snd (drop (unat cap) es))) w; Some (r, c', w, m') } \<and>
           represents c' (take (unat cap) es) \<and>
           (r = SQL_RDB_OK \<and> capacity c' = cap \<or>
            r = SQL_RDB_ERR_NO_MEMORY \<and> capacity c' = capacity c \<and> \<not> fst (alloc m))"
proof -
  obtain ps where inv: "cache_inv c ps" and es: "es = entries c ps" using rep by (auto simp: represents_def)
  let ?qs = "take (unat cap) ps"
  obtain c1 where c1: "\<And>w. evict_down_to (unat cap) c drv w =
      do { w \<leftarrow> finalize_all drv (rev (map snd (drop (unat cap) es))) w; Some (c1, w) }"
    "cache_inv c1 ?qs" "entries c1 ?qs = take (unat cap) es" "capacity c1 = capacity c"
    using evict_down_to_refines [OF inv, of "unat cap" drv] unfolding es by blast
  note I = cache_invD [OF c1(2)]
  show ?thesis
  proof (cases "cap = 0")
    case True
    then have "cache_inv (c1\<lparr>buckets := [], bucket_count := 0, capacity := 0\<rparr>) []"
      using I by (simp add: cache_inv_def indexed_def)
    then have "represents (c1\<lparr>buckets := [], bucket_count := 0, capacity := 0\<rparr>) []"
      by (auto simp: represents_def entries_def)
    then show ?thesis using True c1(1)
      by (intro exI [of _ "c1\<lparr>buckets := [], bucket_count := 0, capacity := 0\<rparr>"] exI [of _ SQL_RDB_OK] exI [of _ m])
        (simp add: c2sql_internal_cache_rebuild_def)
  next
    case False
    obtain j where j: "bucket_count_for cap = Some (2 ^ j)" "j \<le> 63" using bucket_count_for_ok [OF False cap] by blast
    have nz: "(2 ^ j :: 64 word) \<noteq> 0" using unat_pow2 [of j] j(2) by auto
    have len: "length ?qs \<le> unat cap" by simp
    obtain ok m1 where al: "alloc m = (ok, m1)" by fastforce
    have rep1: "represents c1 (take (unat cap) es)" using c1(2,3) by (auto simp: represents_def)
    consider (same) "2 ^ j = bucket_count c1" | (oom) "2 ^ j \<noteq> bucket_count c1" "\<not> ok"
      | (new) "2 ^ j \<noteq> bucket_count c1" ok by blast
    then show ?thesis
    proof cases
      case same
      have "cache_inv (c1\<lparr>capacity := cap\<rparr>) ?qs"
        using I len False nz same by (simp add: cache_inv_def indexed_def bucket_index_def)
      then have "represents (c1\<lparr>capacity := cap\<rparr>) (take (unat cap) es)"
        unfolding represents_def using c1(3) by (intro exI [of _ ?qs]) (simp add: entries_def)
      then show ?thesis using same False j(1) c1(1)
        by (intro exI [of _ "c1\<lparr>capacity := cap\<rparr>"] exI [of _ SQL_RDB_OK] exI [of _ m])
          (simp add: c2sql_internal_cache_rebuild_def)
    next
      case oom
      then show ?thesis using False j(1) c1(1,4) al rep1
        by (intro exI [of _ c1] exI [of _ SQL_RDB_ERR_NO_MEMORY] exI [of _ m1])
          (simp add: c2sql_internal_cache_rebuild_def)
    next
      case new
      obtain c' where c': "do { c \<leftarrow> clear_chains (lru_head c1) c1;
                c \<leftarrow> Some (c\<lparr>buckets := replicate (unat (2 ^ j :: 64 word)) None, bucket_count := 2 ^ j\<rparr>);
                c \<leftarrow> rehash (lru_head c) c; Some (c\<lparr>capacity := cap\<rparr>) } = Some c'"
        "cache_inv c' ?qs" "entries c' ?qs = entries c1 ?qs" "capacity c' = cap"
        using reindex_inv [OF c1(2) nz False len] by blast
      have "represents c' (take (unat cap) es)" using c'(2,3) c1(3) by (auto simp: represents_def)
      moreover have "c2sql_internal_cache_rebuild c cap drv w m =
          do { w \<leftarrow> finalize_all drv (rev (map snd (drop (unat cap) es))) w; Some (SQL_RDB_OK, c', w, m1) }"
        using new False j(1) c1(1) al c'(1)
        by (simp add: c2sql_internal_cache_rebuild_def) (auto simp: bind_Some_iff)
      ultimately show ?thesis using c'(4) by blast
    qed
  qed
qed

lemma destroy_walk_ok:
  "linked (nodes c) pr ps None \<Longrightarrow> distinct ps \<Longrightarrow>
     destroy_walk (first ps None) c drv w =
       do { w \<leftarrow> finalize_all drv (map (stmt_at (nodes c)) ps) w; Some (c\<lparr>nodes := (nodes c) |` (- set ps)\<rparr>, w) }"
proof (induction ps arbitrary: c pr w)
  case Nil
  then show ?case by (simp add: destroy_walk.simps)
next
  case (Cons p ps)
  then obtain n where n: "nodes c p = Some n" "lru_next n = first ps None" "linked (nodes c) (Some p) ps None"
    by (auto split: option.splits)
  let ?ci = "c\<lparr>nodes := (nodes c)(p := None)\<rparr>"
  have l: "linked (nodes ?ci) (Some p) ps None" using n(3) Cons.prems(2) by (simp del: fun_upd_apply)
  have s: "map (stmt_at (nodes ?ci)) ps = map (stmt_at (nodes c)) ps" using Cons.prems(2) by (auto simp: stmt_at_def)
  have r: "(nodes c)(p := None) |` (- set ps) = (nodes c) |` (- insert p (set ps))" by (auto simp: restrict_map_def)
  have st: "stmt_at (nodes c) p = ce_stmt n" using n(1) by (simp add: stmt_at_def)
  show ?case
  proof (cases "finalize_if drv (ce_stmt n) w")
    case None
    then show ?thesis using n(1) st by (subst first.simps, subst destroy_walk.simps) (simp add: entry_finalize_and_free_def)
  next
    case (Some w')
    have "destroy_walk (Some p) c drv w = destroy_walk (first ps None) ?ci drv w'"
      using n(1,2) Some by (subst destroy_walk.simps) (simp add: entry_finalize_and_free_def)
    also have "\<dots> = do { w \<leftarrow> finalize_all drv (map (stmt_at (nodes ?ci)) ps) w';
        Some (?ci\<lparr>nodes := (nodes ?ci) |` (- set ps)\<rparr>, w) }"
      using Cons.IH [OF l] Cons.prems(2) by (simp del: fun_upd_apply)
    finally show ?thesis unfolding s using r Some st by (simp del: fun_upd_apply)
  qed
qed

lemma cache_destroy_refines:
  assumes "represents c es"
  shows "\<exists>c'. c2sql_internal_cache_destroy c drv w =
             do { w \<leftarrow> finalize_all drv (map snd es) w; Some (c', w) } \<and>
           nodes c' = Map.empty \<and> represents c' [] \<and> capacity c' = 0"
proof -
  obtain ps where inv: "cache_inv c ps" and es: "es = entries c ps" using assms by (auto simp: represents_def)
  note I = cache_invD [OF inv]
  have "map snd es = map (stmt_at (nodes c)) ps" using es by (simp add: entries_def)
  moreover have "(nodes c) |` (- set ps) = Map.empty" using I(2) by (auto simp: restrict_map_def fun_eq_iff dom_def)
  ultimately have "c2sql_internal_cache_destroy c drv w =
      do { w \<leftarrow> finalize_all drv (map snd es) w; Some ((empty_cache 0)\<lparr>nodes := Map.empty, fresh := fresh c\<rparr>, w) }"
    using destroy_walk_ok [OF I(4,1), of drv w] I(5) by (simp add: c2sql_internal_cache_destroy_def)
  moreover have "cache_inv ((empty_cache 0)\<lparr>nodes := Map.empty, fresh := fresh c\<rparr>) []"
    by (simp add: cache_inv_def indexed_def empty_cache_def)
  then have "represents ((empty_cache 0)\<lparr>nodes := Map.empty, fresh := fresh c\<rparr>) []"
    by (auto simp: represents_def entries_def)
  ultimately show ?thesis
    by (intro exI [of _ "(empty_cache 0)\<lparr>nodes := Map.empty, fresh := fresh c\<rparr>"]) (simp add: empty_cache_def)
qed

lemma cache_init_refines:
  assumes "unat cap \<le> 2 ^ 62"
  shows "\<exists>r c m'. c2sql_internal_cache_init cap m = Some (r, c, m') \<and> represents c [] \<and>
           (r = SQL_RDB_OK \<and> capacity c = cap \<or> r = SQL_RDB_ERR_NO_MEMORY \<and> capacity c = 0)"
proof (cases "cap = 0")
  case True
  have "cache_inv (empty_cache 0) []" by (simp add: cache_inv_def indexed_def empty_cache_def)
  then show ?thesis using True
    by (auto simp: c2sql_internal_cache_init_def represents_def entries_def empty_cache_def)
next
  case False
  obtain j where j: "bucket_count_for cap = Some (2 ^ j)" "j \<le> 63" using bucket_count_for_ok [OF False assms] by blast
  obtain ok m1 where al: "alloc m = (ok, m1)" by fastforce
  let ?c = "(empty_cache cap)\<lparr>buckets := replicate (unat (2 ^ j :: 64 word)) None, bucket_count := 2 ^ j\<rparr>"
  have nz: "(2 ^ j :: 64 word) \<noteq> 0" using unat_pow2 [of j] j(2) by auto
  have "indexed ?c {}" by (auto simp: indexed_def empty_cache_def intro: exI [of _ "[]"])
  then have "cache_inv ?c []" using False nz by (simp add: cache_inv_def empty_cache_def)
  then have "represents ?c []" by (auto simp: represents_def entries_def)
  moreover have "cache_inv (empty_cache 0) []" by (simp add: cache_inv_def indexed_def empty_cache_def)
  then have "represents (empty_cache 0) []" by (auto simp: represents_def entries_def)
  ultimately show ?thesis using False j(1) al
    by (cases ok) (auto simp: c2sql_internal_cache_init_def empty_cache_def)
qed

section \<open>The cache as its clients see it\<close>

text \<open>
  Every statement handed to the cache has exactly one owner: it is either held by the cache or it has
  been finalized, once.
\<close>

lemma mset_filter_key:
  "distinct (map fst es) \<Longrightarrow> map_of es k = Some v \<Longrightarrow>
     mset (map snd es) = add_mset v (mset (map snd (filter (\<lambda>e. fst e \<noteq> k) es)))"
proof (induction es)
  case (Cons e es)
  show ?case
  proof (cases "fst e = k")
    case True
    then have "k \<notin> fst ` set es" using Cons.prems(1) by auto
    then have "filter (\<lambda>e. fst e \<noteq> k) es = es" by (intro filter_True) auto
    then show ?thesis using True Cons.prems(2) by (cases e) auto
  next
    case False
    then show ?thesis using Cons by (cases e) auto
  qed
qed simp

lemma lru_put_conserves:
  assumes "lru_put cap sql stmt es m = (dead, es', r, m')" and d: "distinct (map fst es)"
  shows "mset dead + mset (map snd es') = add_mset stmt (mset (map snd es))"
proof (cases "cap = 0 \<or> map_of es sql \<noteq> None")
  case True
  then show ?thesis using assms(1) mset_filter_key [OF d, of sql]
    by (auto simp: lru_put_def split: if_splits option.splits)
next
  case False
  have bl: "cap \<le> length es \<Longrightarrow> mset (map snd es) = add_mset (snd (last es)) (mset (map snd (butlast es)))"
    using False by (cases es rule: rev_cases) auto
  show ?thesis using assms(1) False bl
    by (auto simp: lru_put_def Let_def split: if_splits prod.splits)
qed

lemma lru_touch_conserves:
  "distinct (map fst es) \<Longrightarrow> mset (map snd (lru_touch sql es)) = mset (map snd es)"
  using mset_filter_key [of es sql] by (auto simp: lru_touch_def split: option.splits)

text \<open>
  The contract of a statement cache over an abstract representation relation, and what follows from
  it for \<^verbatim>\<open>get_or_prepare\<close> and \<^verbatim>\<open>release_cached_stmt\<close> in \<^verbatim>\<open>src/c2sql.c\<close>.
\<close>

locale stmt_store =
  fixes rep :: "'c \<Rightarrow> (string \<times> ptr) list \<Rightarrow> bool" and cap :: "'c \<Rightarrow> nat"
    and get :: "'c \<Rightarrow> string \<Rightarrow> (SqlRDBResult \<times> ptr option \<times> 'c) option"
    and put :: "'c \<Rightarrow> string \<Rightarrow> ptr \<Rightarrow> 'w SqlRDBDriver option \<Rightarrow> 'w \<Rightarrow> mem
                  \<Rightarrow> (SqlRDBResult \<times> 'c \<times> 'w \<times> mem) option"
  assumes keys: "rep c es \<Longrightarrow> distinct (map fst es)" and bound: "rep c es \<Longrightarrow> length es \<le> cap c"
    and get_rep: "rep c es \<Longrightarrow>
      \<exists>c'. get c sql = Some (if map_of es sql = None then SQL_RDB_ERR_NOT_FOUND else SQL_RDB_OK, map_of es sql, c') \<and>
           rep c' (lru_touch sql es) \<and> cap c' = cap c"
    and put_rep: "rep c es \<Longrightarrow> lru_put (cap c) sql stmt es m = (dead, es', r, m') \<Longrightarrow>
      \<exists>c'. put c sql stmt drv w m = do { w \<leftarrow> finalize_all drv dead w; Some (r, c', w, m') } \<and>
           rep c' es' \<and> cap c' = cap c"
begin

lemma put_defined:
  assumes "rep c es" and put: "put c sql stmt drv w m = Some (r, c', w', m')"
  shows "\<exists>dead es'. lru_put (cap c) sql stmt es m = (dead, es', r, m') \<and> finalize_all drv dead w = Some w' \<and>
           rep c' es' \<and> cap c' = cap c \<and> mset dead + mset (map snd es') = add_mset stmt (mset (map snd es))"
proof -
  obtain dead es' r1 m1 where l: "lru_put (cap c) sql stmt es m = (dead, es', r1, m1)" by (metis prod_cases4)
  from put_rep [OF assms(1) l, of drv w] obtain c1 where
    c1: "put c sql stmt drv w m = do { w \<leftarrow> finalize_all drv dead w; Some (r1, c1, w, m1) }" "rep c1 es'" "cap c1 = cap c"
    by blast
  obtain w1 where w1: "finalize_all drv dead w = Some w1" using put c1(1) by (cases "finalize_all drv dead w") auto
  then have "r1 = r" "c1 = c'" "w1 = w'" "m1 = m'" using put c1(1) by auto
  then show ?thesis using c1 w1 l lru_put_conserves [OF l keys [OF assms(1)]] by blast
qed

text \<open>A statement that was stored is what the next lookup of its text returns.\<close>

lemma get_after_put:
  assumes "rep c es" and "cap c \<noteq> 0" and "put c sql stmt drv w m = Some (SQL_RDB_OK, c', w', m')"
  shows "\<exists>c''. get c' sql = Some (SQL_RDB_OK, Some stmt, c'')"
proof -
  obtain dead es' where l: "lru_put (cap c) sql stmt es m = (dead, es', SQL_RDB_OK, m')" "rep c' es'"
    using put_defined [OF assms(1,3)] by blast
  have "map_of es' sql = Some stmt"
    using l(1) assms(2) by (auto simp: lru_put_def Let_def split: option.splits if_splits prod.splits)
  then show ?thesis using get_rep [OF l(2), of sql] by auto
qed

text \<open>A lookup changes neither the statements held nor what later lookups return.\<close>

lemma get_keeps:
  assumes "rep c es" and "get c sql = Some (r, s, c')"
  shows "\<exists>es'. rep c' es' \<and> map_of es' = map_of es \<and> mset (map snd es') = mset (map snd es) \<and> s = map_of es sql"
proof -
  have "map_of (filter (\<lambda>e. fst e \<noteq> sql) es) k = map_of es k" if "k \<noteq> sql" for k
    using that by (induction es) auto
  then have "map_of (lru_touch sql es) = map_of es"
    by (auto simp: lru_touch_def fun_eq_iff split: option.splits)
  then show ?thesis using get_rep [OF assms(1), of sql] assms(2) lru_touch_conserves [OF keys [OF assms(1)]] by auto
qed

end

lemma represents_keys: "represents c es \<Longrightarrow> distinct (map fst es)"
  by (auto simp: represents_def entries_def o_def dest: cache_invD(9))

lemma represents_bound: "represents c es \<Longrightarrow> length es \<le> unat (capacity c)"
  by (auto simp: represents_def entries_def dest: cache_invD(8))

interpretation cache: stmt_store represents "\<lambda>c. unat (capacity c)" c2sql_internal_cache_get c2sql_internal_cache_put
proof unfold_locales
  show "represents c es \<Longrightarrow> distinct (map fst es)" for c es by (rule represents_keys)
  show "represents c es \<Longrightarrow> length es \<le> unat (capacity c)" for c es by (rule represents_bound)
next
  fix c es sql assume "represents c es"
  from cache_get_refines [OF this, of sql]
  show "\<exists>c'. c2sql_internal_cache_get c sql =
      Some (if map_of es sql = None then SQL_RDB_ERR_NOT_FOUND else SQL_RDB_OK, map_of es sql, c') \<and>
      represents c' (lru_touch sql es) \<and> unat (capacity c') = unat (capacity c)" by metis
next
  fix c es sql stmt m dead es' r m' and drv :: "'a SqlRDBDriver option" and w
  assume "represents c es" "lru_put (unat (capacity c)) sql stmt es m = (dead, es', r, m')"
  from cache_put_refines [OF this, of drv w]
  show "\<exists>c'. c2sql_internal_cache_put c sql stmt drv w m = do { w \<leftarrow> finalize_all drv dead w; Some (r, c', w, m') } \<and>
      represents c' es' \<and> unat (capacity c') = unat (capacity c)" by metis
qed

end
