(* ===== verification/Cache_Trace.thy ===== *)
theory Cache_Trace
  imports Cache_Refinement
begin

text \<open>
  Whole histories of the statement cache: a sequence of lookups and stores on the linked structure of
  \<^verbatim>\<open>src/stmt_cache.c\<close> gives the answers, and finalizes the statements, of the same sequence on
  the bounded LRU list.
\<close>

datatype cache_op = Cache_Get string | Cache_Put string ptr

fun cache_run ::
  "'w SqlRDBDriver option \<Rightarrow> cache_op list \<Rightarrow> SqlRDBStmtCache \<Rightarrow> 'w \<Rightarrow> mem
     \<Rightarrow> ((SqlRDBResult \<times> ptr option) list \<times> SqlRDBStmtCache \<times> 'w \<times> mem) option" where
  "cache_run drv [] c w m = Some ([], c, w, m)"
| "cache_run drv (Cache_Get sql # ops) c w m =
     do {
       (r, st, c) \<leftarrow> c2sql_internal_cache_get c sql;
       (rs, c, w, m) \<leftarrow> cache_run drv ops c w m;
       Some ((r, st) # rs, c, w, m)
     }"
| "cache_run drv (Cache_Put sql stmt # ops) c w m =
     do {
       (r, c, w, m) \<leftarrow> c2sql_internal_cache_put c sql stmt drv w m;
       (rs, c, w, m) \<leftarrow> cache_run drv ops c w m;
       Some ((r, None) # rs, c, w, m)
     }"

text \<open>The answers, the statements finalized in order, and the list at the end.\<close>

fun lru_run ::
  "nat \<Rightarrow> cache_op list \<Rightarrow> (string \<times> ptr) list \<Rightarrow> mem
     \<Rightarrow> (SqlRDBResult \<times> ptr option) list \<times> ptr list \<times> (string \<times> ptr) list \<times> mem" where
  "lru_run cap [] es m = ([], [], es, m)"
| "lru_run cap (Cache_Get sql # ops) es m =
     (let (rs, dead, es', m) = lru_run cap ops (lru_touch sql es) m
      in ((if map_of es sql = None then SQL_RDB_ERR_NOT_FOUND else SQL_RDB_OK, map_of es sql) # rs, dead, es', m))"
| "lru_run cap (Cache_Put sql stmt # ops) es m =
     (let (dead, es1, r, m) = lru_put cap sql stmt es m;
          (rs, dead', es', m) = lru_run cap ops es1 m
      in ((r, None) # rs, dead @ dead', es', m))"

fun stored :: "cache_op list \<Rightarrow> ptr list" where
  "stored [] = []"
| "stored (Cache_Get sql # ops) = stored ops"
| "stored (Cache_Put sql stmt # ops) = stmt # stored ops"

lemma lru_put_keys:
  assumes "lru_put cap sql stmt es m = (dead, es', r, m')" and "distinct (map fst es)"
  shows "distinct (map fst es')"
proof -
  have "sql \<notin> fst ` set es" if "map_of es sql = None" using that by (simp add: map_of_eq_None_iff)
  moreover from this have "sql \<notin> fst ` set (butlast es)" if "map_of es sql = None"
    using that by (auto dest: in_set_butlastD)
  moreover have "distinct (map fst (butlast es))"
    using assms(2) by (simp add: map_butlast distinct_butlast)
  ultimately show ?thesis using assms
    by (auto simp: lru_put_def Let_def distinct_map_filter split: if_splits option.splits prod.splits)
qed

lemma lru_touch_keys: "distinct (map fst es) \<Longrightarrow> distinct (map fst (lru_touch sql es))"
  by (auto simp: lru_touch_def distinct_map_filter split: option.splits)

lemma cache_run_refines:
  assumes "represents c es" and "lru_run (unat (capacity c)) ops es m = (rs, dead, es', m')"
  shows "\<exists>c'. cache_run drv ops c w m = do { w \<leftarrow> finalize_all drv dead w; Some (rs, c', w, m') } \<and> represents c' es'"
  using assms
proof (induction ops arbitrary: c es w m rs dead es' m')
  case (Cons oper ops)
  show ?case
  proof (cases oper)
    case (Cache_Get sql)
    obtain c1 where g: "c2sql_internal_cache_get c sql =
        Some (if map_of es sql = None then SQL_RDB_ERR_NOT_FOUND else SQL_RDB_OK, map_of es sql, c1)"
      "represents c1 (lru_touch sql es)" "capacity c1 = capacity c"
      using cache_get_refines [OF Cons.prems(1), of sql] by blast
    obtain rs1 where r: "lru_run (unat (capacity c1)) ops (lru_touch sql es) m = (rs1, dead, es', m')"
      "rs = (if map_of es sql = None then SQL_RDB_ERR_NOT_FOUND else SQL_RDB_OK, map_of es sql) # rs1"
      using Cons.prems(2) g(3) by (auto simp: Cache_Get split: prod.splits)
    show ?thesis using Cons.IH [OF g(2) r(1), of w] g(1) r(2) by (auto simp: Cache_Get bind_assoc)
  next
    case (Cache_Put sql stmt)
    obtain d1 es1 r1 m1 where p: "lru_put (unat (capacity c)) sql stmt es m = (d1, es1, r1, m1)"
      by (metis prod_cases4)
    obtain c1 where c1: "c2sql_internal_cache_put c sql stmt drv w m =
        do { w \<leftarrow> finalize_all drv d1 w; Some (r1, c1, w, m1) }" "represents c1 es1" "capacity c1 = capacity c"
      using cache_put_refines [OF Cons.prems(1) p, of drv w] by blast
    obtain rs2 d2 where r: "lru_run (unat (capacity c1)) ops es1 m1 = (rs2, d2, es', m')"
      "rs = (r1, None) # rs2" "dead = d1 @ d2"
      using Cons.prems(2) p c1(3) by (auto simp: Cache_Put split: prod.splits)
    show ?thesis
    proof (cases "finalize_all drv d1 w")
      case None
      then show ?thesis using c1(1) r Cons.IH [OF c1(2) r(1)] by (auto simp: Cache_Put finalize_all_append)
    next
      case (Some w1)
      then show ?thesis using c1(1) r(2,3) Cons.IH [OF c1(2) r(1), of w1]
        by (auto simp: Cache_Put finalize_all_append bind_assoc)
    qed
  qed
qed auto

text \<open>
  Every statement handed to the cache is finalized exactly once or still held at the end.
\<close>

lemma lru_run_conserves:
  assumes "distinct (map fst es)" and "lru_run cap ops es m = (rs, dead, es', m')"
  shows "mset dead + mset (map snd es') = mset (stored ops) + mset (map snd es)"
  using assms
proof (induction ops arbitrary: es m rs dead es' m')
  case (Cons oper ops)
  show ?case
  proof (cases oper)
    case (Cache_Get sql)
    obtain rs1 where r: "lru_run cap ops (lru_touch sql es) m = (rs1, dead, es', m')"
      using Cons.prems(2) by (auto simp: Cache_Get split: prod.splits)
    show ?thesis using Cons.IH [OF lru_touch_keys [OF Cons.prems(1)] r] lru_touch_conserves [OF Cons.prems(1), of sql] by (simp add: Cache_Get)
  next
    case (Cache_Put sql stmt)
    obtain d1 es1 r1 m1 where p: "lru_put cap sql stmt es m = (d1, es1, r1, m1)" by (metis prod_cases4)
    obtain rs2 d2 where r: "lru_run cap ops es1 m1 = (rs2, d2, es', m')" "dead = d1 @ d2"
      using Cons.prems(2) p by (auto simp: Cache_Put split: prod.splits)
    show ?thesis
      using Cons.IH [OF lru_put_keys [OF p Cons.prems(1)] r(1)] lru_put_conserves [OF p Cons.prems(1)] r(2)
      by (simp add: Cache_Put add.assoc)
  qed
qed auto

text \<open>The list never outgrows the capacity.\<close>

lemma lru_put_bounded:
  assumes "lru_put cap sql stmt es m = (dead, es', r, m')" and "length es \<le> cap"
  shows "length es' \<le> cap"
proof (cases "map_of es sql")
  case None
  then show ?thesis using assms by (auto simp: lru_put_def Let_def split: if_splits prod.splits)
next
  case (Some old)
  then have "(sql, old) \<in> set es" by (rule map_of_SomeD)
  from length_filter_less [OF this, of "\<lambda>e. fst e \<noteq> sql"]
  have "length (filter (\<lambda>e. fst e \<noteq> sql) es) < length es" by simp
  then show ?thesis using assms Some by (auto simp: lru_put_def split: if_splits)
qed

lemma lru_touch_length: "distinct (map fst es) \<Longrightarrow> length (lru_touch sql es) = length es"
  using arg_cong [OF lru_touch_conserves [of es sql], of size] by simp

lemma lru_run_bounded:
  assumes "distinct (map fst es)" and "lru_run cap ops es m = (rs, dead, es', m')" and "length es \<le> cap"
  shows "length es' \<le> cap"
  using assms
proof (induction ops arbitrary: es m rs dead)
  case (Cons oper ops)
  show ?case
  proof (cases oper)
    case (Cache_Get sql)
    obtain rs1 where r: "lru_run cap ops (lru_touch sql es) m = (rs1, dead, es', m')"
      using Cons.prems(2) by (auto simp: Cache_Get split: prod.splits)
    show ?thesis using Cons.IH [OF lru_touch_keys [OF Cons.prems(1)] r] lru_touch_length [OF Cons.prems(1), of sql] Cons.prems(3) by simp
  next
    case (Cache_Put sql stmt)
    obtain d1 es1 r1 m1 where p: "lru_put cap sql stmt es m = (d1, es1, r1, m1)" by (metis prod_cases4)
    obtain rs2 d2 where r: "lru_run cap ops es1 m1 = (rs2, d2, es', m')"
      using Cons.prems(2) p by (auto simp: Cache_Put split: prod.splits)
    show ?thesis using Cons.IH [OF lru_put_keys [OF p Cons.prems(1)] r lru_put_bounded [OF p Cons.prems(3)]] .
  qed
qed simp

end
