(* ===== verification/Condition_Ast.thy ===== *)
theory Condition_Ast
  imports C2sql_Types
begin

text \<open>
  The search conditions of \<^verbatim>\<open>src/condition_ast.c\<close>. The constructors build a tree of heap
  nodes and \<^verbatim>\<open>SqlRDBCondFree\<close> releases it, so they are modelled on an explicit heap of
  nodes; the components that only read a condition take the tree itself, a value of the datatype
  \<open>SqlRDBCondition\<close>, related to the heap by \<open>cond_at\<close>.
\<close>

section \<open>Conditions as trees\<close>

text \<open>The union \<^verbatim>\<open>v\<close> of a leaf with its tag \<^verbatim>\<open>value_type\<close> (reals as their bit pattern).\<close>

datatype cond_value =
    CV_int "64 word"
  | CV_real "64 word"
  | CV_text string
  | CV_blob "char list" nat

fun value_type :: "cond_value \<Rightarrow> SqlRDBType" where
  "value_type (CV_int i) = SQL_TYPE_INT64"
| "value_type (CV_real r) = SQL_TYPE_REAL"
| "value_type (CV_text t) = SQL_TYPE_TEXT"
| "value_type (CV_blob p n) = SQL_TYPE_BLOB"

datatype SqlRDBCondition =
    COND_LEAF string SqlRDBOp cond_value
  | COND_AND SqlRDBCondition SqlRDBCondition
  | COND_OR SqlRDBCondition SqlRDBCondition
  | COND_ALL

section \<open>Conditions on the heap\<close>

datatype cond_node =
    NODE_LEAF string SqlRDBOp cond_value
  | NODE_AND ptr ptr
  | NODE_OR ptr ptr
  | NODE_ALL

record cond_heap =
  ch_nodes :: "ptr \<rightharpoonup> cond_node"
  ch_next :: ptr
  ch_mem :: mem

text \<open>
  \<open>alloc_node\<close> returns a fresh address, or \<open>None\<close> when \<^verbatim>\<open>calloc\<close> fails; the constructors
  then store the fields of the node.
\<close>

definition alloc_node :: "cond_heap \<Rightarrow> ptr option \<times> cond_heap" where
  "alloc_node H =
     (let (ok, m) = alloc (ch_mem H)
      in if ok then (Some (ch_next H), H\<lparr>ch_next := Suc (ch_next H), ch_mem := m\<rparr>)
         else (None, H\<lparr>ch_mem := m\<rparr>))"

definition store_node :: "cond_node \<Rightarrow> ptr option \<times> cond_heap \<Rightarrow> ptr option \<times> cond_heap" where
  "store_node n r =
     (case r of (None, H) \<Rightarrow> (None, H)
      | (Some p, H) \<Rightarrow> (Some p, H\<lparr>ch_nodes := (ch_nodes H)(p \<mapsto> n)\<rparr>))"

definition SqlRDBCondInt :: "string option \<Rightarrow> int \<Rightarrow> 64 word \<Rightarrow> cond_heap \<Rightarrow> ptr option \<times> cond_heap" where
  "SqlRDBCondInt col op value H =
     (case col of None \<Rightarrow> (None, H)
      | Some c \<Rightarrow> store_node (NODE_LEAF c (SqlRDBOp_of_int op) (CV_int value)) (alloc_node H))"

definition SqlRDBCondText ::
  "string option \<Rightarrow> int \<Rightarrow> string option \<Rightarrow> cond_heap \<Rightarrow> ptr option \<times> cond_heap" where
  "SqlRDBCondText col op value H =
     (case (col, value) of
        (Some c, Some v) \<Rightarrow> store_node (NODE_LEAF c (SqlRDBOp_of_int op) (CV_text v)) (alloc_node H)
      | _ \<Rightarrow> (None, H))"

definition SqlRDBCondReal :: "string option \<Rightarrow> int \<Rightarrow> 64 word \<Rightarrow> cond_heap \<Rightarrow> ptr option \<times> cond_heap" where
  "SqlRDBCondReal col op value H =
     (case col of None \<Rightarrow> (None, H)
      | Some c \<Rightarrow> store_node (NODE_LEAF c (SqlRDBOp_of_int op) (CV_real value)) (alloc_node H))"

definition SqlRDBCondBlob ::
  "string option \<Rightarrow> int \<Rightarrow> char list option \<Rightarrow> nat \<Rightarrow> cond_heap \<Rightarrow> ptr option \<times> cond_heap" where
  "SqlRDBCondBlob col op bytes len H =
     (case (col, bytes) of
        (Some c, Some b) \<Rightarrow> store_node (NODE_LEAF c (SqlRDBOp_of_int op) (CV_blob b len)) (alloc_node H)
      | _ \<Rightarrow> (None, H))"

definition SqlRDBCondAnd :: "ptr option \<Rightarrow> ptr option \<Rightarrow> cond_heap \<Rightarrow> ptr option \<times> cond_heap" where
  "SqlRDBCondAnd a b H =
     (case (a, b) of
        (Some l, Some r) \<Rightarrow> store_node (NODE_AND l r) (alloc_node H)
      | _ \<Rightarrow> (None, H))"

definition SqlRDBCondOr :: "ptr option \<Rightarrow> ptr option \<Rightarrow> cond_heap \<Rightarrow> ptr option \<times> cond_heap" where
  "SqlRDBCondOr a b H =
     (case (a, b) of
        (Some l, Some r) \<Rightarrow> store_node (NODE_OR l r) (alloc_node H)
      | _ \<Rightarrow> (None, H))"

definition SqlRDBCondAll :: "cond_heap \<Rightarrow> ptr option \<times> cond_heap" where
  "SqlRDBCondAll H = store_node NODE_ALL (alloc_node H)"

text \<open>
  Recursive release. Reading or freeing a node that is not allocated is undefined (\<open>None\<close>),
  and so is a recursion that never ends (a cyclic structure).
\<close>

definition free_node :: "ptr \<Rightarrow> (ptr \<rightharpoonup> cond_node) \<Rightarrow> (ptr \<rightharpoonup> cond_node) option" where
  "free_node p N = (if N p = None then None else Some (N(p := None)))"

partial_function (option) SqlRDBCondFree ::
  "ptr option \<Rightarrow> (ptr \<rightharpoonup> cond_node) \<Rightarrow> (ptr \<rightharpoonup> cond_node) option" where
  "SqlRDBCondFree cond N =
     (case cond of None \<Rightarrow> Some N
      | Some p \<Rightarrow>
         (case N p of
            None \<Rightarrow> None
          | Some (NODE_AND l r) \<Rightarrow>
              do { N \<leftarrow> SqlRDBCondFree (Some l) N; N \<leftarrow> SqlRDBCondFree (Some r) N; free_node p N }
          | Some (NODE_OR l r) \<Rightarrow>
              do { N \<leftarrow> SqlRDBCondFree (Some l) N; N \<leftarrow> SqlRDBCondFree (Some r) N; free_node p N }
          | Some (NODE_LEAF c oper v) \<Rightarrow> free_node p N
          | Some NODE_ALL \<Rightarrow> free_node p N))"

declare SqlRDBCondFree.simps [code]

text \<open>
  \<open>cond_at N p t A\<close>: the pointer \<open>p\<close> represents the tree \<open>t\<close> in the nodes \<open>N\<close>, and \<open>A\<close>
  is the set of its nodes; the two subtrees of a composite node share no node.
\<close>

inductive cond_at :: "(ptr \<rightharpoonup> cond_node) \<Rightarrow> ptr \<Rightarrow> SqlRDBCondition \<Rightarrow> ptr set \<Rightarrow> bool" where
  at_leaf: "N p = Some (NODE_LEAF c oper v) \<Longrightarrow> cond_at N p (COND_LEAF c oper v) {p}"
| at_all: "N p = Some NODE_ALL \<Longrightarrow> cond_at N p COND_ALL {p}"
| at_and: "N p = Some (NODE_AND l r) \<Longrightarrow> cond_at N l t1 A \<Longrightarrow> cond_at N r t2 B \<Longrightarrow>
     A \<inter> B = {} \<Longrightarrow> p \<notin> A \<Longrightarrow> p \<notin> B \<Longrightarrow> cond_at N p (COND_AND t1 t2) (insert p (A \<union> B))"
| at_or: "N p = Some (NODE_OR l r) \<Longrightarrow> cond_at N l t1 A \<Longrightarrow> cond_at N r t2 B \<Longrightarrow>
     A \<inter> B = {} \<Longrightarrow> p \<notin> A \<Longrightarrow> p \<notin> B \<Longrightarrow> cond_at N p (COND_OR t1 t2) (insert p (A \<union> B))"

text \<open>Every allocated node lies below the next fresh address.\<close>

definition cond_heap_ok :: "cond_heap \<Rightarrow> bool" where
  "cond_heap_ok H \<longleftrightarrow> (\<forall>p. ch_nodes H p \<noteq> None \<longrightarrow> p < ch_next H)"

definition clear_nodes :: "ptr set \<Rightarrow> (ptr \<rightharpoonup> cond_node) \<Rightarrow> (ptr \<rightharpoonup> cond_node)" where
  "clear_nodes A N = (\<lambda>q. if q \<in> A then None else N q)"

section \<open>Lemmas\<close>

lemma clear_nodes_simps [simp]:
  "q \<in> A \<Longrightarrow> clear_nodes A N q = None"
  "q \<notin> A \<Longrightarrow> clear_nodes A N q = N q"
  "clear_nodes A (clear_nodes B N) = clear_nodes (A \<union> B) N"
  by (auto simp: clear_nodes_def)

lemma cond_at_frame: "cond_at N p t A \<Longrightarrow> (\<And>q. q \<in> A \<Longrightarrow> N' q = N q) \<Longrightarrow> cond_at N' p t A"
  by (induction rule: cond_at.induct) (auto intro: cond_at.intros)

lemma cond_at_allocated: "cond_at N p t A \<Longrightarrow> q \<in> A \<Longrightarrow> N q \<noteq> None"
  by (induction rule: cond_at.induct) auto

lemma cond_at_root: "cond_at N p t A \<Longrightarrow> p \<in> A"
  by (induction rule: cond_at.induct) auto

lemma free_node_clear: "N p \<noteq> None \<Longrightarrow> free_node p N = Some (clear_nodes {p} N)"
  by (auto simp: free_node_def clear_nodes_def fun_eq_iff)

lemma CondFree_composite:
  assumes n: "N p = Some (NODE_AND l r) \<or> N p = Some (NODE_OR l r)"
    and l: "SqlRDBCondFree (Some l) N = Some (clear_nodes A N)"
    and r: "SqlRDBCondFree (Some r) (clear_nodes A N) = Some (clear_nodes B (clear_nodes A N))"
    and p: "p \<notin> A" "p \<notin> B"
  shows "SqlRDBCondFree (Some p) N = Some (clear_nodes (insert p (A \<union> B)) N)"
proof -
  have "clear_nodes B (clear_nodes A N) p \<noteq> None" using n p by auto
  then have f: "free_node p (clear_nodes B (clear_nodes A N)) = Some (clear_nodes (insert p (A \<union> B)) N)"
    by (simp add: free_node_clear) (simp add: Un_commute)
  show ?thesis
    using n l r f by (subst SqlRDBCondFree.simps) auto
qed

lemma CondFree_frame:
  "cond_at N p t A \<Longrightarrow> (\<And>q. q \<in> A \<Longrightarrow> N' q = N q) \<Longrightarrow>
     SqlRDBCondFree (Some p) N' = Some (clear_nodes A N')"
proof (induction arbitrary: N' rule: cond_at.induct)
  case (at_leaf N p c oper v)
  then show ?case by (subst SqlRDBCondFree.simps) (simp add: free_node_clear)
next
  case (at_all N p)
  then show ?case by (subst SqlRDBCondFree.simps) (simp add: free_node_clear)
next
  case (at_and N p l r t1 A t2 B)
  have "SqlRDBCondFree (Some l) N' = Some (clear_nodes A N')"
    using at_and.prems by (intro at_and.IH(1)) auto
  moreover have "SqlRDBCondFree (Some r) (clear_nodes A N') = Some (clear_nodes B (clear_nodes A N'))"
    using at_and.prems at_and.hyps(4) by (intro at_and.IH(2)) (auto simp: clear_nodes_def)
  ultimately show ?case
    using at_and by (intro CondFree_composite) auto
next
  case (at_or N p l r t1 A t2 B)
  have "SqlRDBCondFree (Some l) N' = Some (clear_nodes A N')"
    using at_or.prems by (intro at_or.IH(1)) auto
  moreover have "SqlRDBCondFree (Some r) (clear_nodes A N') = Some (clear_nodes B (clear_nodes A N'))"
    using at_or.prems at_or.hyps(4) by (intro at_or.IH(2)) (auto simp: clear_nodes_def)
  ultimately show ?case
    using at_or by (intro CondFree_composite) auto
qed

text \<open>What a constructor does to the heap when its allocation succeeds.\<close>

lemma store_alloc_node:
  assumes "cond_heap_ok H" and "store_node n (alloc_node H) = (Some p, H')"
  shows "ch_nodes H p = None" and "ch_nodes H' = (ch_nodes H)(p \<mapsto> n)" and "cond_heap_ok H'"
proof -
  from assms(2) have p: "p = ch_next H" and nodes: "ch_nodes H' = (ch_nodes H)(p \<mapsto> n)"
    and nx: "ch_next H' = Suc (ch_next H)"
    by (auto simp: store_node_def alloc_node_def split: prod.splits if_splits option.splits)
  show "ch_nodes H p = None" using assms(1) p unfolding cond_heap_ok_def by blast
  show "ch_nodes H' = (ch_nodes H)(p \<mapsto> n)" by (rule nodes)
  show "cond_heap_ok H'" using assms(1) p by (auto simp: cond_heap_ok_def nodes nx less_Suc_eq)
qed

lemma store_alloc_node_fail:
  "store_node n (alloc_node H) = (None, H') \<Longrightarrow> ch_nodes H' = ch_nodes H"
  by (auto simp: store_node_def alloc_node_def split: prod.splits if_splits option.splits)

lemma cond_at_store:
  assumes "cond_heap_ok H" and "store_node n (alloc_node H) = (Some p, H')" and "cond_at (ch_nodes H) a t A"
  shows "cond_at (ch_nodes H') a t A" and "p \<notin> A"
proof -
  show "p \<notin> A" using store_alloc_node(1) [OF assms(1,2)] cond_at_allocated [OF assms(3), of p] by auto
  then show "cond_at (ch_nodes H') a t A"
    by (intro cond_at_frame [OF assms(3)]) (auto simp: store_alloc_node(2) [OF assms(1,2)])
qed

lemma clear_nodes_store: "p \<notin> A \<Longrightarrow> N p = None \<Longrightarrow> clear_nodes (insert p A) (N(p \<mapsto> n)) = clear_nodes A N"
  by (auto simp: clear_nodes_def fun_eq_iff)

text \<open>
  Two disjoint trees joined by a constructor: the result represents the composite tree, and
  releasing it removes the nodes of both operands and the new node, and nothing else.
\<close>

lemma composite_lifecycle:
  assumes ok: "cond_heap_ok H"
    and a: "cond_at (ch_nodes H) a t1 A" and b: "cond_at (ch_nodes H) b t2 B" and "A \<inter> B = {}"
    and st: "store_node n (alloc_node H) = (Some p, H')"
    and n: "n = NODE_AND a b \<and> t = COND_AND t1 t2 \<or> n = NODE_OR a b \<and> t = COND_OR t1 t2"
  shows "cond_at (ch_nodes H') p t (insert p (A \<union> B))"
    and "SqlRDBCondFree (Some p) (ch_nodes H') = Some (clear_nodes (A \<union> B) (ch_nodes H))"
proof -
  note H' = store_alloc_node [OF ok st]
  show at: "cond_at (ch_nodes H') p t (insert p (A \<union> B))"
    using n cond_at_store [OF ok st a] cond_at_store [OF ok st b] \<open>A \<inter> B = {}\<close> H'(2)
    by (auto intro: cond_at.at_and cond_at.at_or)
  show "SqlRDBCondFree (Some p) (ch_nodes H') = Some (clear_nodes (A \<union> B) (ch_nodes H))"
    using CondFree_frame [OF at] cond_at_store(2) [OF ok st a] cond_at_store(2) [OF ok st b] H'(1,2)
    by (simp add: clear_nodes_store)
qed

section \<open>A whole expression\<close>

text \<open>A nest of constructor calls, as a client writes it, and the tree it denotes.\<close>

datatype cond_expr =
    E_Int string int "64 word"
  | E_Text string int string
  | E_Real string int "64 word"
  | E_Blob string int "char list" nat
  | E_And cond_expr cond_expr
  | E_Or cond_expr cond_expr
  | E_All

fun build_expr :: "cond_expr \<Rightarrow> cond_heap \<Rightarrow> ptr option \<times> cond_heap" where
  "build_expr (E_Int c i v) H = SqlRDBCondInt (Some c) i v H"
| "build_expr (E_Text c i v) H = SqlRDBCondText (Some c) i (Some v) H"
| "build_expr (E_Real c i v) H = SqlRDBCondReal (Some c) i v H"
| "build_expr (E_Blob c i v n) H = SqlRDBCondBlob (Some c) i (Some v) n H"
| "build_expr (E_And a b) H =
     (let (l, H) = build_expr a H; (r, H) = build_expr b H in SqlRDBCondAnd l r H)"
| "build_expr (E_Or a b) H =
     (let (l, H) = build_expr a H; (r, H) = build_expr b H in SqlRDBCondOr l r H)"
| "build_expr E_All H = SqlRDBCondAll H"

fun tree_of :: "cond_expr \<Rightarrow> SqlRDBCondition" where
  "tree_of (E_Int c i v) = COND_LEAF c (SqlRDBOp_of_int i) (CV_int v)"
| "tree_of (E_Text c i v) = COND_LEAF c (SqlRDBOp_of_int i) (CV_text v)"
| "tree_of (E_Real c i v) = COND_LEAF c (SqlRDBOp_of_int i) (CV_real v)"
| "tree_of (E_Blob c i v n) = COND_LEAF c (SqlRDBOp_of_int i) (CV_blob v n)"
| "tree_of (E_And a b) = COND_AND (tree_of a) (tree_of b)"
| "tree_of (E_Or a b) = COND_OR (tree_of a) (tree_of b)"
| "tree_of E_All = COND_ALL"

text \<open>
  \<open>p\<close> represents \<open>t\<close> on nodes that were free before, and nothing else changed.
\<close>

definition built :: "cond_heap \<Rightarrow> SqlRDBCondition \<Rightarrow> ptr \<Rightarrow> cond_heap \<Rightarrow> bool" where
  "built H t p H' \<longleftrightarrow> cond_heap_ok H' \<and>
     (\<exists>A. cond_at (ch_nodes H') p t A \<and> A \<inter> dom (ch_nodes H) = {} \<and> clear_nodes A (ch_nodes H') = ch_nodes H)"

lemma clear_nodes_disjoint: "clear_nodes A N = M \<Longrightarrow> A \<inter> dom M = {}"
  by (auto simp: clear_nodes_def)

lemma built_ok: "built H t p H' \<Longrightarrow> cond_heap_ok H'"
  by (simp add: built_def)

lemma built_leaf:
  assumes "cond_heap_ok H" and st: "store_node n (alloc_node H) = (Some p, H')"
    and n: "n = NODE_LEAF c oper v \<and> t = COND_LEAF c oper v \<or> n = NODE_ALL \<and> t = COND_ALL"
  shows "built H t p H'"
proof -
  note H' = store_alloc_node [OF assms(1) st]
  have "cond_at (ch_nodes H') p t {p}" using n H'(2) by (auto intro: cond_at.at_leaf cond_at.at_all)
  moreover have "clear_nodes {p} (ch_nodes H') = ch_nodes H" using H'(1,2) by (auto simp: clear_nodes_def fun_eq_iff)
  ultimately show ?thesis unfolding built_def using H'(1,3) by (intro conjI exI [of _ "{p}"]) auto
qed

lemma built_composite:
  assumes "built H t1 a H1" and "built H1 t2 b H2" and st: "store_node n (alloc_node H2) = (Some p, H3)"
    and n: "n = NODE_AND a b \<and> t = COND_AND t1 t2 \<or> n = NODE_OR a b \<and> t = COND_OR t1 t2"
  shows "built H t p H3"
proof -
  obtain A where A: "cond_at (ch_nodes H1) a t1 A" "A \<inter> dom (ch_nodes H) = {}" "clear_nodes A (ch_nodes H1) = ch_nodes H"
    using assms(1) by (auto simp: built_def)
  obtain B where B: "cond_at (ch_nodes H2) b t2 B" "B \<inter> dom (ch_nodes H1) = {}" "clear_nodes B (ch_nodes H2) = ch_nodes H1"
    and ok: "cond_heap_ok H2" using assms(2) by (auto simp: built_def)
  have AB: "A \<inter> B = {}" using cond_at_allocated [OF A(1)] B(2) by blast
  have same: "ch_nodes H2 q = ch_nodes H1 q" if "q \<notin> B" for q using that B(3) by (metis clear_nodes_simps(2))
  have a2: "cond_at (ch_nodes H2) a t1 A" using A(1) AB same by (blast intro: cond_at_frame)
  note at = composite_lifecycle(1) [OF ok a2 B(1) AB st n]
  note H3 = store_alloc_node [OF ok st]
  have "clear_nodes (A \<union> B) (ch_nodes H2) = ch_nodes H"
    using A(3) B(3) by (metis clear_nodes_simps(3))
  then have "clear_nodes (insert p (A \<union> B)) (ch_nodes H3) = ch_nodes H"
    using H3(1,2) cond_at_store(2) [OF ok st a2] cond_at_store(2) [OF ok st B(1)] by (simp add: clear_nodes_store)
  moreover have "insert p (A \<union> B) \<inter> dom (ch_nodes H) = {}"
    using calculation by (metis clear_nodes_disjoint)
  ultimately show ?thesis unfolding built_def using at H3(3) by blast
qed

lemma build_expr_built:
  "cond_heap_ok H \<Longrightarrow> build_expr e H = (Some p, H') \<Longrightarrow> built H (tree_of e) p H'"
proof (induction e arbitrary: H p H')
  case (E_And a b)
  then obtain l r H1 H2 where s: "build_expr a H = (Some l, H1)" "build_expr b H1 = (Some r, H2)"
    "store_node (NODE_AND l r) (alloc_node H2) = (Some p, H')"
    by (auto simp: SqlRDBCondAnd_def split: prod.splits option.splits)
  have "built H (tree_of a) l H1" by (rule E_And.IH(1) [OF E_And.prems(1) s(1)])
  moreover have "built H1 (tree_of b) r H2" by (rule E_And.IH(2) [OF built_ok [OF calculation] s(2)])
  ultimately show ?case using s(3) by (auto intro: built_composite)
next
  case (E_Or a b)
  then obtain l r H1 H2 where s: "build_expr a H = (Some l, H1)" "build_expr b H1 = (Some r, H2)"
    "store_node (NODE_OR l r) (alloc_node H2) = (Some p, H')"
    by (auto simp: SqlRDBCondOr_def split: prod.splits option.splits)
  have "built H (tree_of a) l H1" by (rule E_Or.IH(1) [OF E_Or.prems(1) s(1)])
  moreover have "built H1 (tree_of b) r H2" by (rule E_Or.IH(2) [OF built_ok [OF calculation] s(2)])
  ultimately show ?case using s(3) by (auto intro: built_composite)
qed (auto simp: SqlRDBCondInt_def SqlRDBCondText_def SqlRDBCondReal_def SqlRDBCondBlob_def SqlRDBCondAll_def intro: built_leaf)

lemma built_free: "built H t p H' \<Longrightarrow> SqlRDBCondFree (Some p) (ch_nodes H') = Some (ch_nodes H)"
  using CondFree_frame by (auto simp: built_def)

lemma build_expr_total:
  "ch_mem H = [] \<Longrightarrow> \<exists>p H'. build_expr e H = (Some p, H') \<and> ch_mem H' = []"
proof (induction e arbitrary: H)
  case (E_And a b)
  from E_And.IH(1) [OF E_And.prems] obtain l H1 where 1: "build_expr a H = (Some l, H1)" "ch_mem H1 = []" by blast
  from E_And.IH(2) [OF 1(2)] obtain r H2 where "build_expr b H1 = (Some r, H2)" "ch_mem H2 = []" by blast
  with 1 show ?case by (simp add: SqlRDBCondAnd_def store_node_def alloc_node_def)
next
  case (E_Or a b)
  from E_Or.IH(1) [OF E_Or.prems] obtain l H1 where 1: "build_expr a H = (Some l, H1)" "ch_mem H1 = []" by blast
  from E_Or.IH(2) [OF 1(2)] obtain r H2 where "build_expr b H1 = (Some r, H2)" "ch_mem H2 = []" by blast
  with 1 show ?case by (simp add: SqlRDBCondOr_def store_node_def alloc_node_def)
qed (simp_all add: SqlRDBCondInt_def SqlRDBCondText_def SqlRDBCondReal_def SqlRDBCondBlob_def SqlRDBCondAll_def
      store_node_def alloc_node_def)

end
