(* ===== verification/Query_Builder.thy ===== *)
theory Query_Builder
  imports Condition_Ast
begin

text \<open>
  The SQL generator of \<^verbatim>\<open>src/query_builder.c\<close>: the growable string buffer with its bounds, the
  fragment emitters, one builder per statement and the dispatcher \<^verbatim>\<open>c2sql_internal_qb_build\<close>.
  The second half gives the text each builder is meant to produce (the functions \<open>sql_\<dots>\<close>) and
  shows that the builders produce it, or report that memory ran out, without ever writing outside
  the buffer.
\<close>

section \<open>Dynamic string buffer\<close>

record Buf =
  buf_data :: "char list option"
  buf_len :: nat
  buf_cap :: nat

definition buf_init :: "mem \<Rightarrow> bool \<times> Buf \<times> mem" where
  "buf_init m =
     (let (ok, m) = alloc m
      in if ok then (True, \<lparr>buf_data = Some (replicate 256 NUL), buf_len = 0, buf_cap = 256\<rparr>, m)
         else (False, \<lparr>buf_data = None, buf_len = 0, buf_cap = 0\<rparr>, m))"

text \<open>The doubling loop of \<open>buf_grow\<close>; it does not return when the capacity is 0.\<close>

partial_function (option) grow_cap :: "nat \<Rightarrow> nat \<Rightarrow> nat option" where
  "grow_cap new_cap need = (if new_cap < need then grow_cap (new_cap * 2) need else Some new_cap)"

declare grow_cap.simps [code]

definition buf_grow :: "Buf \<Rightarrow> nat \<Rightarrow> mem \<Rightarrow> (bool \<times> Buf \<times> mem) option" where
  "buf_grow b extra m =
     (if buf_len b + extra + 1 \<le> buf_cap b then Some (True, b, m)
      else do {
        new_cap \<leftarrow> grow_cap (buf_cap b) (buf_len b + extra + 1);
        let (ok, m) = alloc m in
        if ok then do {
          d \<leftarrow> buf_data b;
          Some (True, b\<lparr>buf_data := Some (d @ replicate (new_cap - length d) NUL), buf_cap := new_cap\<rparr>, m)
        } else Some (False, b, m)
      })"

definition buf_append :: "Buf \<Rightarrow> string \<Rightarrow> mem \<Rightarrow> (bool \<times> Buf \<times> mem) option" where
  "buf_append b s m =
     do {
       (ok, b, m) \<leftarrow> buf_grow b (length s) m;
       if \<not> ok then Some (False, b, m)
       else do {
         d \<leftarrow> buf_data b;
         d \<leftarrow> write_bytes d (buf_len b) (s @ [NUL]);
         Some (True, b\<lparr>buf_data := Some d, buf_len := buf_len b + length s\<rparr>, m)
       }
     }"

definition buf_free :: "Buf \<Rightarrow> Buf" where
  "buf_free b = b\<lparr>buf_data := None, buf_len := 0, buf_cap := 0\<rparr>"

section \<open>Emitters\<close>

text \<open>
  An emitter appends to the buffer and may advance the placeholder counter \<^verbatim>\<open>*bind_count\<close>; it
  answers \<open>False\<close> when the buffer could not grow. \<open>emit_all\<close> is the code's chain of
  \<^verbatim>\<open>if (!f(b, ...)) return ...\<close>: the first failing emitter ends it.
\<close>

type_synonym emitter = "Buf \<Rightarrow> nat \<Rightarrow> mem \<Rightarrow> (bool \<times> Buf \<times> nat \<times> mem) option"

definition emit :: "string \<Rightarrow> emitter" where
  "emit s b k m = do { (ok, b, m) \<leftarrow> buf_append b s m; Some (ok, b, k, m) }"

fun emit_all :: "emitter list \<Rightarrow> emitter" where
  "emit_all [] b k m = Some (True, b, k, m)"
| "emit_all (e # es) b k m =
     do {
       (ok, b, k, m) \<leftarrow> e b k m;
       if ok then emit_all es b k m else Some (False, b, k, m)
     }"

declare emit_all.simps [simp del]

text \<open>The loops over the columns put a comma before every item but the first.\<close>

fun comma_list :: "emitter list list \<Rightarrow> emitter list" where
  "comma_list [] = []"
| "comma_list (x # xs) = x @ concat (map (\<lambda>y. emit '','' # y) xs)"

section \<open>Types, placeholders, operators and constraints\<close>

definition type_to_sql_str :: "SqlRDBType \<Rightarrow> C2SqlDialect \<Rightarrow> string" where
  "type_to_sql_str t d =
     (if d = C2SQL_DIALECT_POSTGRES then
        (case t of
           SQL_TYPE_INT32 \<Rightarrow> ''INTEGER''
         | SQL_TYPE_INT64 \<Rightarrow> ''BIGINT''
         | SQL_TYPE_REAL \<Rightarrow> ''DOUBLE PRECISION''
         | SQL_TYPE_TEXT \<Rightarrow> ''TEXT''
         | SQL_TYPE_BLOB \<Rightarrow> ''BYTEA''
         | SQL_TYPE_OTHER _ \<Rightarrow> ''TEXT'')
      else
        (case t of
           SQL_TYPE_INT32 \<Rightarrow> ''INTEGER''
         | SQL_TYPE_INT64 \<Rightarrow> ''INTEGER''
         | SQL_TYPE_REAL \<Rightarrow> ''REAL''
         | SQL_TYPE_TEXT \<Rightarrow> ''TEXT''
         | SQL_TYPE_BLOB \<Rightarrow> ''BLOB''
         | SQL_TYPE_OTHER _ \<Rightarrow> ''ANY''))"

definition append_placeholder :: "C2SqlDialect \<Rightarrow> emitter" where
  "append_placeholder d b k m =
     (if d = C2SQL_DIALECT_POSTGRES then emit (take 15 (CHR ''$'' # dec_of_nat (Suc k))) b (Suc k) m
      else emit ''?'' b (Suc k) m)"

fun op_to_sql_str :: "SqlRDBOp \<Rightarrow> string" where
  "op_to_sql_str SQL_OP_EQ = ''=''"
| "op_to_sql_str SQL_OP_NE = ''!=''"
| "op_to_sql_str SQL_OP_LT = ''<''"
| "op_to_sql_str SQL_OP_LE = ''<=''"
| "op_to_sql_str SQL_OP_GT = ''>''"
| "op_to_sql_str SQL_OP_GE = ''>=''"
| "op_to_sql_str (SQL_OP_OTHER _) = ''=''"

definition append_col_constraints :: "column \<Rightarrow> emitter" where
  "append_col_constraints col =
     (let nullable = has_flag col SQL_COL_FLAG_NULLABLE;
          pk = has_flag col SQL_COL_FLAG_PRIMARY_KEY;
          unique = has_flag col SQL_COL_FLAG_UNIQUE
      in emit_all
           ((if \<not> nullable then [emit '' NOT NULL''] else []) @
            (if pk then [emit '' PRIMARY KEY''] else []) @
            (if unique \<and> \<not> pk then [emit '' UNIQUE''] else [])))"

section \<open>The WHERE clause\<close>

definition schema_has_column :: "SqlRDBSchema \<Rightarrow> string \<Rightarrow> bool" where
  "schema_has_column s col \<longleftrightarrow> list_ex (\<lambda>c. col_name c = col) (sch_cols s)"

fun validate_cond_columns :: "SqlRDBCondition \<Rightarrow> SqlRDBSchema \<Rightarrow> SqlRDBResult" where
  "validate_cond_columns COND_ALL s = SQL_RDB_OK"
| "validate_cond_columns (COND_LEAF col oper v) s =
     (if \<not> schema_has_column s col then SQL_RDB_ERR_UNKNOWN_COLUMN else SQL_RDB_OK)"
| "validate_cond_columns (COND_AND l r) s =
     (let res = validate_cond_columns l s
      in if res \<noteq> SQL_RDB_OK then res else validate_cond_columns r s)"
| "validate_cond_columns (COND_OR l r) s =
     (let res = validate_cond_columns l s
      in if res \<noteq> SQL_RDB_OK then res else validate_cond_columns r s)"

fun append_cond :: "SqlRDBCondition \<Rightarrow> C2SqlDialect \<Rightarrow> emitter" where
  "append_cond COND_ALL d = emit_all []"
| "append_cond (COND_LEAF col oper v) d =
     emit_all [emit ''\"'', emit col, emit ''\" '', emit (op_to_sql_str oper), emit '' '',
               append_placeholder d]"
| "append_cond (COND_AND l r) d =
     emit_all [emit ''('', append_cond l d, emit '' AND '', append_cond r d, emit '')'']"
| "append_cond (COND_OR l r) d =
     emit_all [emit ''('', append_cond l d, emit '' OR '', append_cond r d, emit '')'']"

definition cond_needs_where :: "SqlRDBCondition option \<Rightarrow> bool" where
  "cond_needs_where cond \<longleftrightarrow> cond \<noteq> None \<and> cond \<noteq> Some COND_ALL"

section \<open>Statement builders\<close>

datatype C2SqlQBOp =
    C2SQL_QB_CREATE
  | C2SQL_QB_INSERT
  | C2SQL_QB_UPSERT
  | C2SQL_QB_SELECT
  | C2SQL_QB_COUNT
  | C2SQL_QB_DELETE
  | C2SQL_QB_ALTER_ADD
  | C2SQL_QB_UPDATE_FIELD
  | C2SQL_QB_SELECT_FIELD

record SqlRDBQuerySpec =
  qs_op :: C2SqlQBOp
  qs_schema :: SqlRDBSchema
  qs_cond :: "SqlRDBCondition option"
  qs_new_col :: "column option"
  qs_target_col :: "string option"
  qs_dialect :: C2SqlDialect

type_synonym builder = "Buf \<Rightarrow> nat \<Rightarrow> mem \<Rightarrow> (SqlRDBResult \<times> Buf \<times> nat \<times> mem) option"

text \<open>A chain of emitters inside a builder: failure is \<^verbatim>\<open>SQL_RDB_ERR_NO_MEMORY\<close>.\<close>

definition emit_or_nomem :: "emitter list \<Rightarrow> builder \<Rightarrow> builder" where
  "emit_or_nomem es cont b k m =
     do {
       (ok, b, k, m) \<leftarrow> emit_all es b k m;
       if ok then cont b k m else Some (SQL_RDB_ERR_NO_MEMORY, b, k, m)
     }"

definition build_done :: builder where
  "build_done b k m = Some (SQL_RDB_OK, b, k, m)"

definition quoted :: "string \<Rightarrow> emitter list" where
  "quoted s = [emit ''\"'', emit s, emit ''\"'']"

text \<open>The common tail of the builders with a condition.\<close>

definition build_where :: "SqlRDBQuerySpec \<Rightarrow> builder" where
  "build_where spec b k m =
     (case qs_cond spec of
        None \<Rightarrow> build_done b k m
      | Some cond \<Rightarrow>
          if \<not> cond_needs_where (Some cond) then build_done b k m
          else let vr = validate_cond_columns cond (qs_schema spec)
               in if vr \<noteq> SQL_RDB_OK then Some (vr, b, k, m)
                  else emit_or_nomem [emit '' WHERE '', append_cond cond (qs_dialect spec)] build_done b k m)"

definition build_create :: "SqlRDBQuerySpec \<Rightarrow> builder" where
  "build_create spec =
     (let s = qs_schema spec; d = qs_dialect spec
      in emit_or_nomem
           ([emit ''CREATE TABLE IF NOT EXISTS \"'', emit (sch_name s), emit ''\" (''] @
            comma_list (map (\<lambda>c. [emit ''\"'', emit (col_name c), emit ''\" '',
                                  emit (type_to_sql_str (col_type c) d), append_col_constraints c])
                            (sch_cols s)) @
            [if d = C2SQL_DIALECT_POSTGRES then emit '')'' else emit '') STRICT''])
           build_done)"

definition build_alter_add :: "SqlRDBQuerySpec \<Rightarrow> column \<Rightarrow> builder" where
  "build_alter_add spec col =
     emit_or_nomem
       [emit ''ALTER TABLE \"'', emit (sch_name (qs_schema spec)), emit ''\" ADD COLUMN \"'',
        emit (col_name col), emit ''\" '', emit (type_to_sql_str (col_type col) (qs_dialect spec)),
        append_col_constraints col]
       build_done"

definition insert_emitters :: "SqlRDBQuerySpec \<Rightarrow> emitter list" where
  "insert_emitters spec =
     (let s = qs_schema spec
      in [emit ''INSERT INTO \"'', emit (sch_name s), emit ''\" (''] @
         comma_list (map (\<lambda>c. quoted (col_name c)) (sch_cols s)) @
         [emit '') VALUES (''] @
         comma_list (map (\<lambda>c. [append_placeholder (qs_dialect spec)]) (sch_cols s)) @
         [emit '')''])"

definition build_insert :: "SqlRDBQuerySpec \<Rightarrow> builder" where
  "build_insert spec = emit_or_nomem (insert_emitters spec) build_done"

text \<open>The columns other than the primary key, in order.\<close>

definition non_pk_cols :: "SqlRDBSchema \<Rightarrow> column list" where
  "non_pk_cols s = map snd (filter (\<lambda>(i, c). int i \<noteq> pk_index s) (enumerate 0 (sch_cols s)))"

text \<open>
  The \<^verbatim>\<open>ON CONFLICT\<close> part of \<open>build_upsert\<close>; reading \<^verbatim>\<open>s->cols[s->pk_index]\<close> outside the
  array is undefined.
\<close>

definition upsert_set :: "SqlRDBQuerySpec \<Rightarrow> builder" where
  "upsert_set spec b k m =
     (let s = qs_schema spec
      in if pk_index s < 0 \<or> int (length (sch_cols s)) \<le> pk_index s then None
         else emit_or_nomem
           ([emit '' ON CONFLICT(\"'', emit (col_name (sch_cols s ! nat (pk_index s))),
             emit ''\") DO UPDATE SET ''] @
            comma_list (map (\<lambda>c. [emit ''\"'', emit (col_name c), emit ''\"=excluded.\"'',
                                  emit (col_name c), emit ''\"'']) (non_pk_cols s)))
           build_done b k m)"

definition build_upsert :: "SqlRDBQuerySpec \<Rightarrow> builder" where
  "build_upsert spec b k m =
     do {
       (r, b, k, m) \<leftarrow> build_insert spec b k m;
       if r \<noteq> SQL_RDB_OK then Some (r, b, k, m) else upsert_set spec b k m
     }"

definition build_select :: "SqlRDBQuerySpec \<Rightarrow> builder" where
  "build_select spec =
     (let s = qs_schema spec
      in emit_or_nomem
           ([emit ''SELECT ''] @ comma_list (map (\<lambda>c. quoted (col_name c)) (sch_cols s)) @
            [emit '' FROM \"'', emit (sch_name s), emit ''\"''])
           (build_where spec))"

definition build_count :: "SqlRDBQuerySpec \<Rightarrow> builder" where
  "build_count spec =
     emit_or_nomem [emit ''SELECT COUNT(*) FROM \"'', emit (sch_name (qs_schema spec)), emit ''\"'']
       (build_where spec)"

definition build_update_field :: "SqlRDBQuerySpec \<Rightarrow> string \<Rightarrow> builder" where
  "build_update_field spec col b k m =
     (let s = qs_schema spec
      in if \<not> schema_has_column s col then Some (SQL_RDB_ERR_UNKNOWN_COLUMN, b, k, m)
         else emit_or_nomem
           [emit ''UPDATE \"'', emit (sch_name s), emit ''\" SET \"'', emit col, emit ''\"='',
            append_placeholder (qs_dialect spec)]
           (build_where spec) b k m)"

definition build_select_field :: "SqlRDBQuerySpec \<Rightarrow> string \<Rightarrow> builder" where
  "build_select_field spec col b k m =
     (let s = qs_schema spec
      in if \<not> schema_has_column s col then Some (SQL_RDB_ERR_UNKNOWN_COLUMN, b, k, m)
         else emit_or_nomem
           [emit ''SELECT \"'', emit col, emit ''\" FROM \"'', emit (sch_name s), emit ''\"'']
           (build_where spec) b k m)"

definition build_delete :: "SqlRDBQuerySpec \<Rightarrow> builder" where
  "build_delete spec =
     emit_or_nomem [emit ''DELETE FROM \"'', emit (sch_name (qs_schema spec)), emit ''\"'']
       (build_where spec)"

section \<open>Entry point\<close>

fun build_dispatch :: "C2SqlQBOp \<Rightarrow> SqlRDBQuerySpec \<Rightarrow> builder" where
  "build_dispatch C2SQL_QB_CREATE spec = build_create spec"
| "build_dispatch C2SQL_QB_ALTER_ADD spec =
     (case qs_new_col spec of None \<Rightarrow> (\<lambda>b k m. None) | Some col \<Rightarrow> build_alter_add spec col)"
| "build_dispatch C2SQL_QB_INSERT spec = build_insert spec"
| "build_dispatch C2SQL_QB_UPSERT spec = build_upsert spec"
| "build_dispatch C2SQL_QB_SELECT spec = build_select spec"
| "build_dispatch C2SQL_QB_COUNT spec = build_count spec"
| "build_dispatch C2SQL_QB_DELETE spec = build_delete spec"
| "build_dispatch C2SQL_QB_UPDATE_FIELD spec =
     (case qs_target_col spec of None \<Rightarrow> (\<lambda>b k m. None) | Some col \<Rightarrow> build_update_field spec col)"
| "build_dispatch C2SQL_QB_SELECT_FIELD spec =
     (case qs_target_col spec of None \<Rightarrow> (\<lambda>b k m. None) | Some col \<Rightarrow> build_select_field spec col)"

definition c_string :: "char list \<Rightarrow> string" where
  "c_string d = takeWhile (\<lambda>c. c \<noteq> NUL) d"

text \<open>
  The result, \<^verbatim>\<open>*out_sql\<close> (read as the C string it points to; \<open>None\<close> is \<open>NULL\<close>) and
  \<^verbatim>\<open>*out_bind_count\<close>.
\<close>

definition c2sql_internal_qb_build ::
  "SqlRDBQuerySpec \<Rightarrow> mem \<Rightarrow> (SqlRDBResult \<times> string option \<times> nat \<times> mem) option" where
  "c2sql_internal_qb_build spec m =
     (if qs_op spec = C2SQL_QB_ALTER_ADD \<and> qs_new_col spec = None
      then Some (SQL_RDB_ERR_INVALID_ARG, None, 0, m)
      else if (qs_op spec = C2SQL_QB_UPDATE_FIELD \<or> qs_op spec = C2SQL_QB_SELECT_FIELD)
              \<and> qs_target_col spec = None
      then Some (SQL_RDB_ERR_INVALID_ARG, None, 0, m)
      else
        let (ok, b, m) = buf_init m
        in if \<not> ok then Some (SQL_RDB_ERR_NO_MEMORY, None, 0, m)
           else do {
             (r, b, k, m) \<leftarrow> build_dispatch (qs_op spec) spec b 0 m;
             if r \<noteq> SQL_RDB_OK then Some (r, None, 0, m)
             else do { d \<leftarrow> buf_data b; Some (SQL_RDB_OK, Some (c_string d), k, m) }
           })"

section \<open>The intended text\<close>

definition placeholder :: "C2SqlDialect \<Rightarrow> nat \<Rightarrow> string" where
  "placeholder d k =
     (if d = C2SQL_DIALECT_POSTGRES then take 15 (CHR ''$'' # dec_of_nat k) else ''?'')"

fun leaf_count :: "SqlRDBCondition \<Rightarrow> nat" where
  "leaf_count COND_ALL = 0"
| "leaf_count (COND_LEAF col oper v) = 1"
| "leaf_count (COND_AND l r) = leaf_count l + leaf_count r"
| "leaf_count (COND_OR l r) = leaf_count l + leaf_count r"

fun sql_cond :: "C2SqlDialect \<Rightarrow> SqlRDBCondition \<Rightarrow> nat \<Rightarrow> string" where
  "sql_cond d COND_ALL k = []"
| "sql_cond d (COND_LEAF col oper v) k =
     ''\"'' @ col @ ''\" '' @ op_to_sql_str oper @ '' '' @ placeholder d (Suc k)"
| "sql_cond d (COND_AND l r) k =
     ''('' @ sql_cond d l k @ '' AND '' @ sql_cond d r (k + leaf_count l) @ '')''"
| "sql_cond d (COND_OR l r) k =
     ''('' @ sql_cond d l k @ '' OR '' @ sql_cond d r (k + leaf_count l) @ '')''"

fun join_comma :: "string list \<Rightarrow> string" where
  "join_comma [] = []"
| "join_comma (x # xs) = x @ concat (map (\<lambda>y. CHR '','' # y) xs)"

definition dquote :: "string \<Rightarrow> string" where
  "dquote s = ''\"'' @ s @ ''\"''"

definition sql_constraints :: "column \<Rightarrow> string" where
  "sql_constraints col =
     (if has_flag col SQL_COL_FLAG_NULLABLE then [] else '' NOT NULL'') @
     (if has_flag col SQL_COL_FLAG_PRIMARY_KEY then '' PRIMARY KEY''
      else if has_flag col SQL_COL_FLAG_UNIQUE then '' UNIQUE'' else [])"

definition sql_column :: "C2SqlDialect \<Rightarrow> column \<Rightarrow> string" where
  "sql_column d c = dquote (col_name c) @ '' '' @ type_to_sql_str (col_type c) d @ sql_constraints c"

definition sql_where :: "C2SqlDialect \<Rightarrow> SqlRDBCondition option \<Rightarrow> nat \<Rightarrow> string" where
  "sql_where d cond k =
     (case cond of None \<Rightarrow> []
      | Some c \<Rightarrow> if c = COND_ALL then [] else '' WHERE '' @ sql_cond d c k)"

definition cond_count :: "SqlRDBCondition option \<Rightarrow> nat" where
  "cond_count cond = (case cond of None \<Rightarrow> 0 | Some c \<Rightarrow> leaf_count c)"

definition sql_insert :: "C2SqlDialect \<Rightarrow> SqlRDBSchema \<Rightarrow> string" where
  "sql_insert d s =
     ''INSERT INTO '' @ dquote (sch_name s) @ '' ('' @
     join_comma (map (\<lambda>c. dquote (col_name c)) (sch_cols s)) @ '') VALUES ('' @
     join_comma (map (placeholder d) [1..<Suc (length (sch_cols s))]) @ '')''"

text \<open>The text of every statement, and the number of its placeholders.\<close>

fun sql_text :: "C2SqlQBOp \<Rightarrow> SqlRDBQuerySpec \<Rightarrow> string" where
  "sql_text C2SQL_QB_CREATE spec =
     ''CREATE TABLE IF NOT EXISTS '' @ dquote (sch_name (qs_schema spec)) @ '' ('' @
     join_comma (map (sql_column (qs_dialect spec)) (sch_cols (qs_schema spec))) @
     (if qs_dialect spec = C2SQL_DIALECT_POSTGRES then '')'' else '') STRICT'')"
| "sql_text C2SQL_QB_ALTER_ADD spec =
     ''ALTER TABLE '' @ dquote (sch_name (qs_schema spec)) @ '' ADD COLUMN '' @
     sql_column (qs_dialect spec) (the (qs_new_col spec))"
| "sql_text C2SQL_QB_INSERT spec = sql_insert (qs_dialect spec) (qs_schema spec)"
| "sql_text C2SQL_QB_UPSERT spec =
     sql_insert (qs_dialect spec) (qs_schema spec) @ '' ON CONFLICT('' @
     dquote (col_name (sch_cols (qs_schema spec) ! nat (pk_index (qs_schema spec)))) @
     '') DO UPDATE SET '' @
     join_comma (map (\<lambda>c. dquote (col_name c) @ ''=excluded.'' @ dquote (col_name c))
                     (non_pk_cols (qs_schema spec)))"
| "sql_text C2SQL_QB_SELECT spec =
     ''SELECT '' @ join_comma (map (\<lambda>c. dquote (col_name c)) (sch_cols (qs_schema spec))) @
     '' FROM '' @ dquote (sch_name (qs_schema spec)) @ sql_where (qs_dialect spec) (qs_cond spec) 0"
| "sql_text C2SQL_QB_COUNT spec =
     ''SELECT COUNT(*) FROM '' @ dquote (sch_name (qs_schema spec)) @
     sql_where (qs_dialect spec) (qs_cond spec) 0"
| "sql_text C2SQL_QB_DELETE spec =
     ''DELETE FROM '' @ dquote (sch_name (qs_schema spec)) @ sql_where (qs_dialect spec) (qs_cond spec) 0"
| "sql_text C2SQL_QB_UPDATE_FIELD spec =
     ''UPDATE '' @ dquote (sch_name (qs_schema spec)) @ '' SET '' @ dquote (the (qs_target_col spec)) @
     ''='' @ placeholder (qs_dialect spec) 1 @ sql_where (qs_dialect spec) (qs_cond spec) 1"
| "sql_text C2SQL_QB_SELECT_FIELD spec =
     ''SELECT '' @ dquote (the (qs_target_col spec)) @ '' FROM '' @ dquote (sch_name (qs_schema spec)) @
     sql_where (qs_dialect spec) (qs_cond spec) 0"

fun bind_total :: "C2SqlQBOp \<Rightarrow> SqlRDBQuerySpec \<Rightarrow> nat" where
  "bind_total C2SQL_QB_CREATE spec = 0"
| "bind_total C2SQL_QB_ALTER_ADD spec = 0"
| "bind_total C2SQL_QB_INSERT spec = length (sch_cols (qs_schema spec))"
| "bind_total C2SQL_QB_UPSERT spec = length (sch_cols (qs_schema spec))"
| "bind_total C2SQL_QB_SELECT spec = cond_count (qs_cond spec)"
| "bind_total C2SQL_QB_COUNT spec = cond_count (qs_cond spec)"
| "bind_total C2SQL_QB_DELETE spec = cond_count (qs_cond spec)"
| "bind_total C2SQL_QB_UPDATE_FIELD spec = Suc (cond_count (qs_cond spec))"
| "bind_total C2SQL_QB_SELECT_FIELD spec = cond_count (qs_cond spec)"

text \<open>The result of a builder when memory does not run out.\<close>

definition where_result :: "SqlRDBQuerySpec \<Rightarrow> SqlRDBResult" where
  "where_result spec =
     (case qs_cond spec of None \<Rightarrow> SQL_RDB_OK | Some c \<Rightarrow> validate_cond_columns c (qs_schema spec))"

definition field_result :: "SqlRDBQuerySpec \<Rightarrow> SqlRDBResult" where
  "field_result spec =
     (if schema_has_column (qs_schema spec) (the (qs_target_col spec)) then where_result spec
      else SQL_RDB_ERR_UNKNOWN_COLUMN)"

fun qb_result :: "C2SqlQBOp \<Rightarrow> SqlRDBQuerySpec \<Rightarrow> SqlRDBResult" where
  "qb_result C2SQL_QB_SELECT spec = where_result spec"
| "qb_result C2SQL_QB_COUNT spec = where_result spec"
| "qb_result C2SQL_QB_DELETE spec = where_result spec"
| "qb_result C2SQL_QB_UPDATE_FIELD spec = field_result spec"
| "qb_result C2SQL_QB_SELECT_FIELD spec = field_result spec"
| "qb_result _ spec = SQL_RDB_OK"

text \<open>The specifications the callers build: the operand each operation needs is present.\<close>

fun spec_ok :: "C2SqlQBOp \<Rightarrow> SqlRDBQuerySpec \<Rightarrow> bool" where
  "spec_ok C2SQL_QB_ALTER_ADD spec \<longleftrightarrow> qs_new_col spec \<noteq> None"
| "spec_ok C2SQL_QB_UPDATE_FIELD spec \<longleftrightarrow> qs_target_col spec \<noteq> None"
| "spec_ok C2SQL_QB_SELECT_FIELD spec \<longleftrightarrow> qs_target_col spec \<noteq> None"
| "spec_ok C2SQL_QB_UPSERT spec \<longleftrightarrow>
     0 \<le> pk_index (qs_schema spec) \<and> pk_index (qs_schema spec) < int (length (sch_cols (qs_schema spec)))"
| "spec_ok _ spec \<longleftrightarrow> True"

section \<open>The buffer\<close>

definition buf_inv :: "Buf \<Rightarrow> bool" where
  "buf_inv b \<longleftrightarrow>
     (\<exists>d. buf_data b = Some d \<and> length d = buf_cap b \<and> buf_len b < buf_cap b \<and> d ! buf_len b = NUL)"

definition buf_str :: "Buf \<Rightarrow> string" where
  "buf_str b = take (buf_len b) (the (buf_data b))"

lemma grow_cap_total:
  assumes "0 < c"
  shows "\<exists>n. grow_cap c need = Some n \<and> need \<le> n \<and> c \<le> n \<and> (n = c \<or> n < 2 * need)"
  using assms
proof (induction "need - c" arbitrary: c rule: less_induct)
  case less
  show ?case
  proof (cases "c < need")
    case True
    then have "need - c * 2 < need - c" "0 < c * 2" using less.prems by auto
    from less.hyps [OF this] obtain n where
      "grow_cap (c * 2) need = Some n" "need \<le> n" "c * 2 \<le> n" "n = c * 2 \<or> n < 2 * need" by blast
    then show ?thesis using True by (subst grow_cap.simps) auto
  qed (subst grow_cap.simps, simp)
qed

lemma buf_init_inv: "buf_init m = (True, b, m') \<Longrightarrow> buf_inv b \<and> buf_str b = []"
  by (auto simp: buf_init_def buf_inv_def buf_str_def split: prod.splits if_splits)

lemma buf_grow_ok:
  assumes "buf_inv b"
  shows "\<exists>ok b' m'. buf_grow b n m = Some (ok, b', m') \<and> buf_inv b' \<and> buf_str b' = buf_str b \<and>
           buf_len b' = buf_len b \<and> (ok \<longrightarrow> buf_len b' + n + 1 \<le> buf_cap b') \<and>
           (m = [] \<longrightarrow> ok \<and> m' = [])"
proof -
  obtain d where d: "buf_data b = Some d" "length d = buf_cap b" "buf_len b < buf_cap b"
    "d ! buf_len b = NUL" using assms by (auto simp: buf_inv_def)
  obtain nc where nc: "grow_cap (buf_cap b) (buf_len b + n + 1) = Some nc"
    "buf_len b + n + 1 \<le> nc" "buf_cap b \<le> nc"
    using grow_cap_total [of "buf_cap b" "buf_len b + n + 1"] d(3) by auto
  show ?thesis
  proof (cases "buf_len b + n + 1 \<le> buf_cap b")
    case True
    then show ?thesis using assms by (auto simp: buf_grow_def)
  next
    case False
    then show ?thesis using assms d nc
      by (cases m rule: alloc.cases; cases "hd m")
         (auto simp: buf_grow_def buf_inv_def buf_str_def nth_append)
  qed
qed

lemma buf_append_ok:
  assumes "buf_inv b"
  shows "\<exists>ok b' m'. buf_append b s m = Some (ok, b', m') \<and> buf_inv b' \<and>
           (ok \<longrightarrow> buf_str b' = buf_str b @ s) \<and> (m = [] \<longrightarrow> ok \<and> m' = [])"
proof -
  obtain ok b1 m1 where g: "buf_grow b (length s) m = Some (ok, b1, m1)" "buf_inv b1"
    "buf_str b1 = buf_str b" "ok \<longrightarrow> buf_len b1 + length s + 1 \<le> buf_cap b1" "m = [] \<longrightarrow> ok \<and> m1 = []"
    using buf_grow_ok [OF assms, of "length s" m] by blast
  obtain d where d: "buf_data b1 = Some d" "length d = buf_cap b1" "buf_len b1 < buf_cap b1"
    using g(2) by (auto simp: buf_inv_def)
  show ?thesis
  proof (cases ok)
    case True
    then have w: "write_bytes d (buf_len b1) (s @ [NUL]) =
        Some (take (buf_len b1) d @ (s @ [NUL]) @ drop (buf_len b1 + length (s @ [NUL])) d)"
      using g(4) d(2) by (simp add: write_bytes_def)
    have "buf_str b = take (buf_len b1) d" using g(3) d(1) by (simp add: buf_str_def)
    with True g(1,4,5) d w show ?thesis
      by (auto simp: buf_append_def buf_inv_def buf_str_def nth_append)
  next
    case False
    then show ?thesis using g by (auto simp: buf_append_def)
  qed
qed

lemma buf_c_string:
  assumes "buf_inv b" and "NUL \<notin> set (buf_str b)"
  shows "\<exists>d. buf_data b = Some d \<and> c_string d = buf_str b"
proof -
  obtain d where d: "buf_data b = Some d" "length d = buf_cap b" "buf_len b < buf_cap b" "d ! buf_len b = NUL"
    using assms(1) by (auto simp: buf_inv_def)
  have split: "d = take (buf_len b) d @ NUL # drop (Suc (buf_len b)) d"
    using id_take_nth_drop [of "buf_len b" d] d(2-4) by simp
  have nn: "NUL \<notin> set (take (buf_len b) d)" using assms(2) d(1) by (simp add: buf_str_def)
  have "takeWhile (\<lambda>c. c \<noteq> NUL) (take (buf_len b) d @ NUL # drop (Suc (buf_len b)) d) = take (buf_len b) d"
    using nn by (subst takeWhile_append2) auto
  then have "c_string d = take (buf_len b) d"
    unfolding c_string_def by (simp add: split [symmetric])
  then show ?thesis using d(1) by (simp add: buf_str_def)
qed

section \<open>Emitters and their text\<close>

text \<open>
  The contract every emitter meets: on a well-formed buffer it is defined, keeps the buffer
  well-formed, and unless memory runs out appends the text it stands for and advances the
  counter by the number of placeholders in that text.
\<close>

locale text_emitter =
  fixes e :: emitter and out :: "nat \<Rightarrow> string" and n :: nat
  assumes emits: "buf_inv b \<Longrightarrow>
    \<exists>ok b' k' m'. e b k m = Some (ok, b', k', m') \<and> buf_inv b' \<and>
      (ok \<longrightarrow> buf_str b' = buf_str b @ out k \<and> k' = k + n) \<and> (m = [] \<longrightarrow> ok \<and> m' = [])"
begin

lemma emits_without_failure:
  assumes "buf_inv b"
  shows "\<exists>b'. e b k [] = Some (True, b', k + n, []) \<and> buf_inv b' \<and> buf_str b' = buf_str b @ out k"
  using emits [OF assms, of k "[]"] by auto

end

lemma text_emitter_cong:
  "text_emitter e t n \<Longrightarrow> t = t' \<Longrightarrow> n = n' \<Longrightarrow> text_emitter e t' n'"
  by simp

lemma text_emitter_emit: "text_emitter (emit s) (\<lambda>k. s) 0"
proof
  fix b k m assume "buf_inv b"
  from buf_append_ok [OF this, of s m]
  show "\<exists>ok b' k' m'. emit s b k m = Some (ok, b', k', m') \<and> buf_inv b' \<and>
      (ok \<longrightarrow> buf_str b' = buf_str b @ s \<and> k' = k + 0) \<and> (m = [] \<longrightarrow> ok \<and> m' = [])"
    by (auto simp: emit_def)
qed

lemma text_emitter_Nil: "text_emitter (emit_all []) (\<lambda>k. []) 0"
  by unfold_locales (auto simp: emit_all.simps)

lemma text_emitter_Cons:
  assumes "text_emitter e t n" and "text_emitter (emit_all es) u p"
  shows "text_emitter (emit_all (e # es)) (\<lambda>k. t k @ u (k + n)) (n + p)"
proof
  fix b k m assume "buf_inv b"
  from text_emitter.emits [OF assms(1) this, of k m] obtain ok b1 k1 m1 where
    1: "e b k m = Some (ok, b1, k1, m1)" "buf_inv b1" "ok \<longrightarrow> buf_str b1 = buf_str b @ t k \<and> k1 = k + n"
       "m = [] \<longrightarrow> ok \<and> m1 = []" by blast
  from text_emitter.emits [OF assms(2) 1(2), of k1 m1] obtain ok2 b2 k2 m2 where
    2: "emit_all es b1 k1 m1 = Some (ok2, b2, k2, m2)" "buf_inv b2"
       "ok2 \<longrightarrow> buf_str b2 = buf_str b1 @ u k1 \<and> k2 = k1 + p" "m1 = [] \<longrightarrow> ok2 \<and> m2 = []" by blast
  show "\<exists>ok b' k' m'. emit_all (e # es) b k m = Some (ok, b', k', m') \<and> buf_inv b' \<and>
      (ok \<longrightarrow> buf_str b' = buf_str b @ t k @ u (k + n) \<and> k' = k + (n + p)) \<and> (m = [] \<longrightarrow> ok \<and> m' = [])"
    using 1 2 by (cases ok) (auto simp: emit_all.simps)
qed

lemma emit_all_append:
  "emit_all (xs @ ys) b k m =
     do { (ok, b, k, m) \<leftarrow> emit_all xs b k m; if ok then emit_all ys b k m else Some (False, b, k, m) }"
proof (induction xs arbitrary: b k m)
  case (Cons x xs)
  show ?case by (cases "x b k m") (auto simp: Cons emit_all.simps split: prod.splits)
qed (simp add: emit_all.simps)

lemma text_emitter_append:
  assumes "text_emitter (emit_all xs) t n" and "text_emitter (emit_all ys) u p"
  shows "text_emitter (emit_all (xs @ ys)) (\<lambda>k. t k @ u (k + n)) (n + p)"
proof -
  have "emit_all (xs @ ys) = emit_all (emit_all xs # ys)"
    by (simp add: fun_eq_iff emit_all_append emit_all.simps)
  then show ?thesis using text_emitter_Cons [OF assms] by simp
qed

named_theorems emitters \<open>text produced by the emitters\<close>

lemmas emitter_rules = text_emitter_Cons text_emitter_Nil text_emitter_emit

lemma text_emitter_single: "text_emitter e t n \<Longrightarrow> text_emitter (emit_all [e]) t n"
  using text_emitter_Cons [OF _ text_emitter_Nil] by fastforce

lemma text_emitter_comma_tail:
  assumes "\<And>c. c \<in> set cs \<Longrightarrow> text_emitter (emit_all (E c)) (\<lambda>k. T c) 0"
  shows "text_emitter (emit_all (concat (map (\<lambda>y. emit '','' # y) (map E cs))))
           (\<lambda>k. concat (map (\<lambda>y. CHR '','' # y) (map T cs))) 0"
  using assms
proof (induction cs)
  case Nil
  show ?case by (simp add: text_emitter_Nil)
next
  case (Cons c cs)
  have hd: "text_emitter (emit_all (emit '','' # E c)) (\<lambda>k. '','' @ T c) 0"
    by (rule text_emitter_cong [OF text_emitter_Cons [OF text_emitter_emit Cons.prems]]) auto
  show ?case
    using text_emitter_append [OF hd Cons.IH] Cons.prems by simp
qed

lemma text_emitter_comma:
  assumes "\<And>c. c \<in> set cs \<Longrightarrow> text_emitter (emit_all (E c)) (\<lambda>k. T c) 0"
  shows "text_emitter (emit_all (comma_list (map E cs))) (\<lambda>k. join_comma (map T cs)) 0"
proof (cases cs)
  case (Cons c ds)
  have "text_emitter (emit_all (E c)) (\<lambda>k. T c) 0" using assms Cons by simp
  from text_emitter_append [OF this text_emitter_comma_tail [of ds E T]] assms Cons show ?thesis
    by simp
qed (simp add: text_emitter_Nil)

lemma text_emitter_placeholder: "text_emitter (append_placeholder d) (\<lambda>k. placeholder d (Suc k)) 1"
proof
  fix b k m assume "buf_inv b"
  from text_emitter.emits [OF text_emitter_emit this, of "placeholder d (Suc k)" "Suc k" m]
  show "\<exists>ok b' k' m'. append_placeholder d b k m = Some (ok, b', k', m') \<and> buf_inv b' \<and>
      (ok \<longrightarrow> buf_str b' = buf_str b @ placeholder d (Suc k) \<and> k' = k + 1) \<and> (m = [] \<longrightarrow> ok \<and> m' = [])"
    by (auto simp: append_placeholder_def placeholder_def)
qed

lemma text_emitter_placeholders_tail:
  "text_emitter (emit_all (concat (map (\<lambda>y. emit '','' # y) (map (\<lambda>c. [append_placeholder d]) cs))))
     (\<lambda>k. concat (map (\<lambda>i. CHR '','' # placeholder d i) [Suc k..<Suc k + length cs])) (length cs)"
proof (induction cs)
  case Nil
  show ?case by (simp add: text_emitter_Nil)
next
  case (Cons c cs)
  have hd: "text_emitter (emit_all (emit '','' # [append_placeholder d])) (\<lambda>k. '','' @ placeholder d (Suc k)) 1"
    by (rule text_emitter_cong [OF text_emitter_Cons [OF text_emitter_emit text_emitter_single
          [OF text_emitter_placeholder]]]) auto
  have "(\<lambda>k. ('','' @ placeholder d (Suc k)) @
      concat (map (\<lambda>i. CHR '','' # placeholder d i) [Suc (k + 1)..<Suc (k + 1) + length cs])) =
    (\<lambda>k. concat (map (\<lambda>i. CHR '','' # placeholder d i) [Suc k..<Suc k + length (c # cs)]))"
    by (rule ext) (simp add: upt_conv_Cons del: upt_Suc)
  with text_emitter_append [OF hd Cons.IH] show ?case by simp
qed

lemma text_emitter_placeholders:
  "text_emitter (emit_all (comma_list (map (\<lambda>c. [append_placeholder d]) cs)))
     (\<lambda>k. join_comma (map (placeholder d) [Suc k..<Suc k + length cs])) (length cs)"
proof (cases cs)
  case (Cons c ds)
  have "text_emitter (emit_all [append_placeholder d]) (\<lambda>k. placeholder d (Suc k)) 1"
    by (rule text_emitter_single [OF text_emitter_placeholder])
  note text_emitter_append [OF this text_emitter_placeholders_tail [of d ds]]
  moreover have "(\<lambda>k. placeholder d (Suc k) @
      concat (map (\<lambda>i. CHR '','' # placeholder d i) [Suc (k + 1)..<Suc (k + 1) + length ds])) =
    (\<lambda>k. join_comma (map (placeholder d) [Suc k..<Suc k + length cs]))"
    by (rule ext) (simp add: Cons upt_conv_Cons comp_def del: upt_Suc)
  ultimately show ?thesis by (simp add: Cons)
qed (simp add: text_emitter_Nil)

lemma text_emitter_constraints: "text_emitter (append_col_constraints c) (\<lambda>k. sql_constraints c) 0"
  unfolding append_col_constraints_def Let_def sql_constraints_def
  by (cases "has_flag c SQL_COL_FLAG_NULLABLE"; cases "has_flag c SQL_COL_FLAG_PRIMARY_KEY";
      cases "has_flag c SQL_COL_FLAG_UNIQUE")
     (simp; rule text_emitter_cong, (rule emitter_rules)+; simp)+

lemma text_emitter_cond: "text_emitter (append_cond c d) (sql_cond d c) (leaf_count c)"
proof (induction c d rule: append_cond.induct)
  case (1 d)
  have "sql_cond d COND_ALL = (\<lambda>k. [])" by auto
  then show ?case by (simp add: text_emitter_Nil)
next
  case (2 col oper v d)
  show ?case
    by (rule text_emitter_cong) (simp only: append_cond.simps, (rule emitter_rules text_emitter_placeholder)+, auto)
next
  case (3 l r d)
  show ?case
    by (rule text_emitter_cong) (simp only: append_cond.simps, (rule emitter_rules 3)+, auto)
next
  case (4 l r d)
  show ?case
    by (rule text_emitter_cong) (simp only: append_cond.simps, (rule emitter_rules 4)+, auto)
qed

interpretation literal_emitter: text_emitter "emit s" "\<lambda>k. s" 0 for s
  by (rule text_emitter_emit)

interpretation cond_emitter: text_emitter "append_cond c d" "sql_cond d c" "leaf_count c" for c d
  by (rule text_emitter_cond)

section \<open>Builders and their statements\<close>

text \<open>The contract of the statement builders, with the result expected when memory suffices.\<close>

locale statement_builder =
  fixes B :: builder and res :: SqlRDBResult and out :: "nat \<Rightarrow> string" and n :: nat
  assumes builds: "buf_inv b \<Longrightarrow>
    \<exists>r b' k' m'. B b k m = Some (r, b', k', m') \<and> buf_inv b' \<and> (r = res \<or> r = SQL_RDB_ERR_NO_MEMORY) \<and>
      (r = SQL_RDB_OK \<longrightarrow> buf_str b' = buf_str b @ out k \<and> k' = k + n) \<and> (m = [] \<longrightarrow> r = res \<and> m' = [])"
begin

lemma builds_without_failure:
  assumes "buf_inv b" and "res = SQL_RDB_OK"
  shows "\<exists>b'. B b k [] = Some (SQL_RDB_OK, b', k + n, []) \<and> buf_inv b' \<and> buf_str b' = buf_str b @ out k"
  using builds [OF assms(1), of k "[]"] assms(2) by auto

end

lemma statement_builder_cong:
  "statement_builder B r t n \<Longrightarrow> t = t' \<Longrightarrow> n = n' \<Longrightarrow> statement_builder B r t' n'"
  by simp

lemma statement_builder_done: "statement_builder build_done SQL_RDB_OK (\<lambda>k. []) 0"
  by unfold_locales (auto simp: build_done_def)

lemma statement_builder_error:
  "r \<noteq> SQL_RDB_OK \<Longrightarrow> statement_builder (\<lambda>b k m. Some (r, b, k, m)) r t n"
  by unfold_locales auto

lemma statement_builder_emit:
  assumes "text_emitter (emit_all es) t n" and "statement_builder B r u p"
  shows "statement_builder (emit_or_nomem es B) r (\<lambda>k. t k @ u (k + n)) (n + p)"
proof
  fix b k m assume "buf_inv b"
  from text_emitter.emits [OF assms(1) this, of k m] obtain ok b1 k1 m1 where
    1: "emit_all es b k m = Some (ok, b1, k1, m1)" "buf_inv b1"
       "ok \<longrightarrow> buf_str b1 = buf_str b @ t k \<and> k1 = k + n" "m = [] \<longrightarrow> ok \<and> m1 = []" by blast
  from statement_builder.builds [OF assms(2) 1(2), of k1 m1] obtain r2 b2 k2 m2 where
    2: "B b1 k1 m1 = Some (r2, b2, k2, m2)" "buf_inv b2" "r2 = r \<or> r2 = SQL_RDB_ERR_NO_MEMORY"
       "r2 = SQL_RDB_OK \<longrightarrow> buf_str b2 = buf_str b1 @ u k1 \<and> k2 = k1 + p"
       "m1 = [] \<longrightarrow> r2 = r \<and> m2 = []" by blast
  show "\<exists>r' b' k' m'. emit_or_nomem es B b k m = Some (r', b', k', m') \<and> buf_inv b' \<and>
      (r' = r \<or> r' = SQL_RDB_ERR_NO_MEMORY) \<and>
      (r' = SQL_RDB_OK \<longrightarrow> buf_str b' = buf_str b @ t k @ u (k + n) \<and> k' = k + (n + p)) \<and>
      (m = [] \<longrightarrow> r' = r \<and> m' = [])"
    using 1 2 by (cases ok) (auto simp: emit_or_nomem_def)
qed

lemma validate_ok_or_unknown:
  "validate_cond_columns c s = SQL_RDB_OK \<or> validate_cond_columns c s = SQL_RDB_ERR_UNKNOWN_COLUMN"
  by (induction c s rule: validate_cond_columns.induct) (auto simp: Let_def)

lemma statement_builder_where:
  "statement_builder (build_where spec) (where_result spec)
     (\<lambda>k. sql_where (qs_dialect spec) (qs_cond spec) k) (cond_count (qs_cond spec))"
proof (cases "qs_cond spec")
  case None
  then have "build_where spec = build_done" by (simp add: build_where_def fun_eq_iff)
  then show ?thesis using statement_builder_done None
    by (simp add: where_result_def sql_where_def cond_count_def)
next
  case (Some c)
  consider "c = COND_ALL" | "c \<noteq> COND_ALL" "validate_cond_columns c (qs_schema spec) = SQL_RDB_OK"
    | "c \<noteq> COND_ALL" "validate_cond_columns c (qs_schema spec) \<noteq> SQL_RDB_OK" by blast
  then show ?thesis
  proof cases
    case 1
    then have "build_where spec = build_done" by (simp add: Some build_where_def cond_needs_where_def fun_eq_iff)
    then show ?thesis using statement_builder_done Some 1
      by (simp add: where_result_def sql_where_def cond_count_def)
  next
    case 2
    then have "build_where spec = emit_or_nomem [emit '' WHERE '', append_cond c (qs_dialect spec)] build_done"
      by (simp add: Some build_where_def cond_needs_where_def fun_eq_iff Let_def)
    moreover have "statement_builder (emit_or_nomem [emit '' WHERE '', append_cond c (qs_dialect spec)] build_done)
        SQL_RDB_OK (\<lambda>k. '' WHERE '' @ sql_cond (qs_dialect spec) c k) (leaf_count c)"
      by (rule statement_builder_cong,
          (rule statement_builder_emit statement_builder_done emitter_rules text_emitter_cond)+) auto
    ultimately show ?thesis using 2 by (simp add: Some where_result_def sql_where_def cond_count_def)
  next
    case 3
    then have "build_where spec = (\<lambda>b k m. Some (validate_cond_columns c (qs_schema spec), b, k, m))"
      by (simp add: Some build_where_def cond_needs_where_def fun_eq_iff Let_def)
    then show ?thesis using statement_builder_error [OF 3(2)] by (simp add: Some where_result_def)
  qed
qed

lemma text_emitter_quoted: "text_emitter (emit_all (quoted s)) (\<lambda>k. dquote s) 0"
  unfolding quoted_def by (rule text_emitter_cong, (rule emitter_rules)+) (auto simp: dquote_def)

lemma text_emitter_column:
  "text_emitter (emit_all [emit ''\"'', emit (col_name c), emit ''\" '',
      emit (type_to_sql_str (col_type c) d), append_col_constraints c]) (\<lambda>k. sql_column d c) 0"
  by (rule text_emitter_cong, (rule emitter_rules text_emitter_constraints)+)
     (auto simp: dquote_def sql_column_def)

lemmas builder_rules =
  statement_builder_emit statement_builder_done statement_builder_where
  text_emitter_append text_emitter_comma text_emitter_placeholders text_emitter_column
  text_emitter_quoted text_emitter_placeholder emitter_rules

lemma insert_emitters_text:
  "text_emitter (emit_all (insert_emitters spec))
     (\<lambda>k. ''INSERT INTO '' @ dquote (sch_name (qs_schema spec)) @ '' ('' @
       join_comma (map (\<lambda>c. dquote (col_name c)) (sch_cols (qs_schema spec))) @ '') VALUES ('' @
       join_comma (map (placeholder (qs_dialect spec)) [Suc k..<Suc k + length (sch_cols (qs_schema spec))]) @
       '')'') (length (sch_cols (qs_schema spec)))"
  unfolding insert_emitters_def Let_def
  by (rule text_emitter_cong, (rule builder_rules)+) (auto simp: dquote_def fun_eq_iff)

lemma statement_builder_then:
  assumes "statement_builder B SQL_RDB_OK t n" and "statement_builder C r u p"
  shows "statement_builder (\<lambda>b k m. do { (r, b, k, m) \<leftarrow> B b k m;
            if r \<noteq> SQL_RDB_OK then Some (r, b, k, m) else C b k m }) r (\<lambda>k. t k @ u (k + n)) (n + p)"
proof
  fix b k m assume "buf_inv b"
  from statement_builder.builds [OF assms(1) this, of k m] obtain r1 b1 k1 m1 where
    1: "B b k m = Some (r1, b1, k1, m1)" "buf_inv b1" "r1 = SQL_RDB_OK \<or> r1 = SQL_RDB_ERR_NO_MEMORY"
       "r1 = SQL_RDB_OK \<longrightarrow> buf_str b1 = buf_str b @ t k \<and> k1 = k + n"
       "m = [] \<longrightarrow> r1 = SQL_RDB_OK \<and> m1 = []" by blast
  from statement_builder.builds [OF assms(2) 1(2), of k1 m1] obtain r2 b2 k2 m2 where
    2: "C b1 k1 m1 = Some (r2, b2, k2, m2)" "buf_inv b2" "r2 = r \<or> r2 = SQL_RDB_ERR_NO_MEMORY"
       "r2 = SQL_RDB_OK \<longrightarrow> buf_str b2 = buf_str b1 @ u k1 \<and> k2 = k1 + p"
       "m1 = [] \<longrightarrow> r2 = r \<and> m2 = []" by blast
  show "\<exists>r' b' k' m'. do { (r, b, k, m) \<leftarrow> B b k m;
        if r \<noteq> SQL_RDB_OK then Some (r, b, k, m) else C b k m } = Some (r', b', k', m') \<and> buf_inv b' \<and>
      (r' = r \<or> r' = SQL_RDB_ERR_NO_MEMORY) \<and>
      (r' = SQL_RDB_OK \<longrightarrow> buf_str b' = buf_str b @ t k @ u (k + n) \<and> k' = k + (n + p)) \<and>
      (m = [] \<longrightarrow> r' = r \<and> m' = [])"
    using 1 2 by (cases "r1 = SQL_RDB_OK") auto
qed

interpretation where_builder: statement_builder "build_where spec" "where_result spec"
    "sql_where (qs_dialect spec) (qs_cond spec)" "cond_count (qs_cond spec)" for spec
  by (rule statement_builder_where)

text \<open>Each builder, with the text it stands for.\<close>

definition builds_text :: "C2SqlQBOp \<Rightarrow> SqlRDBQuerySpec \<Rightarrow> bool" where
  "builds_text oper spec \<longleftrightarrow>
     (\<exists>t. statement_builder (build_dispatch oper spec) (qb_result oper spec) t (bind_total oper spec) \<and>
          t 0 = sql_text oper spec)"

lemma builds_textI:
  "statement_builder (build_dispatch oper spec) r t n \<Longrightarrow> r = qb_result oper spec \<Longrightarrow>
     n = bind_total oper spec \<Longrightarrow> t 0 = sql_text oper spec \<Longrightarrow> builds_text oper spec"
  by (auto simp: builds_text_def)

lemma text_emitter_close: "text_emitter (if p then emit s else emit t) (\<lambda>k. if p then s else t) 0"
  by (auto intro: text_emitter_emit)

lemma builds_create: "builds_text C2SQL_QB_CREATE spec"
  by (rule builds_textI, simp only: build_dispatch.simps build_create_def Let_def,
      (rule builder_rules text_emitter_close)+) (auto simp: dquote_def)

lemma builds_alter_add: "qs_new_col spec \<noteq> None \<Longrightarrow> builds_text C2SQL_QB_ALTER_ADD spec"
proof (clarsimp)
  fix col assume c: "qs_new_col spec = Some col"
  show "builds_text C2SQL_QB_ALTER_ADD spec"
    by (rule builds_textI, simp only: build_dispatch.simps c option.case build_alter_add_def,
        (rule builder_rules text_emitter_constraints)+) (auto simp: dquote_def sql_column_def c)
qed

lemma statement_builder_insert:
  "statement_builder (build_insert spec) SQL_RDB_OK
     (\<lambda>k. ''INSERT INTO '' @ dquote (sch_name (qs_schema spec)) @ '' ('' @
       join_comma (map (\<lambda>c. dquote (col_name c)) (sch_cols (qs_schema spec))) @ '') VALUES ('' @
       join_comma (map (placeholder (qs_dialect spec)) [Suc k..<Suc k + length (sch_cols (qs_schema spec))]) @
       '')'') (length (sch_cols (qs_schema spec)))"
  unfolding build_insert_def
  by (rule statement_builder_cong, rule statement_builder_emit, rule insert_emitters_text,
      rule statement_builder_done) auto

lemma builds_insert: "builds_text C2SQL_QB_INSERT spec"
  by (rule builds_textI, simp only: build_dispatch.simps, rule statement_builder_insert)
     (auto simp: sql_insert_def simp del: upt_Suc)

lemma statement_builder_upsert_set:
  assumes "spec_ok C2SQL_QB_UPSERT spec"
  shows "statement_builder (upsert_set spec) SQL_RDB_OK
      (\<lambda>k. '' ON CONFLICT('' @ dquote (col_name (sch_cols (qs_schema spec) ! nat (pk_index (qs_schema spec)))) @
           '') DO UPDATE SET '' @
           join_comma (map (\<lambda>c. dquote (col_name c) @ ''=excluded.'' @ dquote (col_name c))
                           (non_pk_cols (qs_schema spec)))) 0"
proof -
  let ?s = "qs_schema spec"
  have *: "text_emitter (emit_all [emit ''\"'', emit (col_name c), emit ''\"=excluded.\"'',
      emit (col_name c), emit ''\"'']) (\<lambda>k. dquote (col_name c) @ ''=excluded.'' @ dquote (col_name c)) 0" for c
    by (rule text_emitter_cong, (rule emitter_rules)+) (auto simp: dquote_def)
  have eq: "upsert_set spec = emit_or_nomem
           ([emit '' ON CONFLICT(\"'', emit (col_name (sch_cols ?s ! nat (pk_index ?s))),
             emit ''\") DO UPDATE SET ''] @
            comma_list (map (\<lambda>c. [emit ''\"'', emit (col_name c), emit ''\"=excluded.\"'',
                                  emit (col_name c), emit ''\"'']) (non_pk_cols ?s)))
           build_done"
    using assms by (auto simp: upsert_set_def fun_eq_iff Let_def)
  show ?thesis
    unfolding eq
    by (rule statement_builder_cong, rule statement_builder_emit, rule text_emitter_append,
        (rule emitter_rules)+, rule text_emitter_comma, rule *, rule statement_builder_done)
       (auto simp: dquote_def)
qed

lemma builds_upsert:
  assumes "spec_ok C2SQL_QB_UPSERT spec"
  shows "builds_text C2SQL_QB_UPSERT spec"
proof -
  have eq: "build_upsert spec = (\<lambda>b k m. do { (r, b, k, m) \<leftarrow> build_insert spec b k m;
            if r \<noteq> SQL_RDB_OK then Some (r, b, k, m) else upsert_set spec b k m })"
    by (simp add: build_upsert_def fun_eq_iff)
  show ?thesis
    by (rule builds_textI, simp only: build_dispatch.simps eq,
        rule statement_builder_then [OF statement_builder_insert statement_builder_upsert_set [OF assms]])
       (auto simp: sql_insert_def simp del: upt_Suc)
qed

lemma builds_select: "builds_text C2SQL_QB_SELECT spec"
  by (rule builds_textI, simp only: build_dispatch.simps build_select_def Let_def, (rule builder_rules)+)
     (auto simp: dquote_def)

lemma builds_count: "builds_text C2SQL_QB_COUNT spec"
  by (rule builds_textI, simp only: build_dispatch.simps build_count_def, (rule builder_rules)+)
     (auto simp: dquote_def)

lemma builds_delete: "builds_text C2SQL_QB_DELETE spec"
  by (rule builds_textI, simp only: build_dispatch.simps build_delete_def, (rule builder_rules)+)
     (auto simp: dquote_def)

lemma statement_builder_guard:
  assumes "statement_builder B r t n" and "e \<noteq> SQL_RDB_OK"
  shows "statement_builder (\<lambda>b k m. if p then B b k m else Some (e, b, k, m)) (if p then r else e) t n"
  using assms statement_builder_error [OF assms(2), of t n] by (cases p) auto

lemma builds_update_field:
  assumes "qs_target_col spec \<noteq> None"
  shows "builds_text C2SQL_QB_UPDATE_FIELD spec"
proof -
  from assms obtain col where c: "qs_target_col spec = Some col" by blast
  let ?B = "emit_or_nomem [emit ''UPDATE \"'', emit (sch_name (qs_schema spec)), emit ''\" SET \"'', emit col,
    emit ''\"='', append_placeholder (qs_dialect spec)] (build_where spec)"
  have eq: "build_update_field spec col = (\<lambda>b k m. if schema_has_column (qs_schema spec) col then ?B b k m
      else Some (SQL_RDB_ERR_UNKNOWN_COLUMN, b, k, m))"
    by (simp add: build_update_field_def fun_eq_iff Let_def)
  show ?thesis
    by (rule builds_textI, simp only: build_dispatch.simps c option.case eq,
        rule statement_builder_guard, (rule builder_rules)+)
       (auto simp: field_result_def c dquote_def)
qed

lemma builds_select_field:
  assumes "qs_target_col spec \<noteq> None"
  shows "builds_text C2SQL_QB_SELECT_FIELD spec"
proof -
  from assms obtain col where c: "qs_target_col spec = Some col" by blast
  let ?B = "emit_or_nomem [emit ''SELECT \"'', emit col, emit ''\" FROM \"'', emit (sch_name (qs_schema spec)),
    emit ''\"''] (build_where spec)"
  have eq: "build_select_field spec col = (\<lambda>b k m. if schema_has_column (qs_schema spec) col then ?B b k m
      else Some (SQL_RDB_ERR_UNKNOWN_COLUMN, b, k, m))"
    by (simp add: build_select_field_def fun_eq_iff Let_def)
  show ?thesis
    by (rule builds_textI, simp only: build_dispatch.simps c option.case eq,
        rule statement_builder_guard, (rule builder_rules)+)
       (auto simp: field_result_def c dquote_def)
qed

lemma builds_all: "spec_ok oper spec \<Longrightarrow> builds_text oper spec"
  by (cases oper)
     (auto intro: builds_create builds_insert builds_upsert builds_select builds_count builds_delete
        builds_alter_add builds_update_field builds_select_field)

lemma qb_build_correct:
  assumes ok: "spec_ok (qs_op spec) spec" and nul: "qb_result (qs_op spec) spec = SQL_RDB_OK \<Longrightarrow> NUL \<notin> set (sql_text (qs_op spec) spec)"
  shows "\<exists>r sql k m'. c2sql_internal_qb_build spec m = Some (r, sql, k, m') \<and>
           (r = qb_result (qs_op spec) spec \<or> r = SQL_RDB_ERR_NO_MEMORY) \<and>
           (r = SQL_RDB_OK \<longrightarrow> sql = Some (sql_text (qs_op spec) spec) \<and> k = bind_total (qs_op spec) spec) \<and>
           (r \<noteq> SQL_RDB_OK \<longrightarrow> sql = None) \<and> (m = [] \<longrightarrow> r = qb_result (qs_op spec) spec \<and> m' = [])"
proof -
  obtain t where t: "statement_builder (build_dispatch (qs_op spec) spec) (qb_result (qs_op spec) spec) t
      (bind_total (qs_op spec) spec)" "t 0 = sql_text (qs_op spec) spec"
    using builds_all [OF ok] by (auto simp: builds_text_def)
  have guards: "\<not> (qs_op spec = C2SQL_QB_ALTER_ADD \<and> qs_new_col spec = None)"
    "\<not> ((qs_op spec = C2SQL_QB_UPDATE_FIELD \<or> qs_op spec = C2SQL_QB_SELECT_FIELD) \<and> qs_target_col spec = None)"
    using ok by (cases "qs_op spec"; simp)+
  obtain okb b m1 where b: "buf_init m = (okb, b, m1)" by (cases "buf_init m") auto
  have m1: "m = [] \<longrightarrow> okb \<and> m1 = []" using b by (auto simp: buf_init_def)
  show ?thesis
  proof (cases okb)
    case False
    then show ?thesis using b m1 guards by (auto simp: c2sql_internal_qb_build_def)
  next
    case True
    then have inv: "buf_inv b" "buf_str b = []" using buf_init_inv b by auto
    from statement_builder.builds [OF t(1) inv(1), of 0 m1] obtain r b' k m' where
      r: "build_dispatch (qs_op spec) spec b 0 m1 = Some (r, b', k, m')" "buf_inv b'"
         "r = qb_result (qs_op spec) spec \<or> r = SQL_RDB_ERR_NO_MEMORY"
         "r = SQL_RDB_OK \<longrightarrow> buf_str b' = sql_text (qs_op spec) spec \<and> k = bind_total (qs_op spec) spec"
         "m1 = [] \<longrightarrow> r = qb_result (qs_op spec) spec \<and> m' = []"
      by (auto simp: inv(2) t(2))
    have "r = SQL_RDB_OK \<longrightarrow> (\<exists>d. buf_data b' = Some d \<and> c_string d = sql_text (qs_op spec) spec)"
      using buf_c_string [OF r(2)] r(3,4) nul by auto
    with True b m1 guards r show ?thesis
      by (cases "r = SQL_RDB_OK") (auto simp: c2sql_internal_qb_build_def)
  qed
qed

end
