(* ===== verification/Handle.thy ===== *)
theory Handle
  imports Stmt_Cache
begin

text \<open>
  The handle of \<^verbatim>\<open>src/handle_internal.h\<close>: the record every API function works on, with the
  schema registry, statement cache, transaction state, error context, logger and mutex embedded in
  it, and the frame (lock, body, unlock) that the public functions share.
\<close>

section \<open>Embedded state\<close>

text \<open>
  \<^verbatim>\<open>SqlRDBSchemaRegistry\<close>: \<open>reg_entries\<close> are the first \<^verbatim>\<open>count\<close> elements of the
  array, \<open>reg_block\<close> identifies the heap block that holds it (\<^verbatim>\<open>realloc\<close> ends the life of
  the old block, so a pointer into it dangles).
\<close>

record SqlRDBSchemaRegistry =
  reg_entries :: "SqlRDBSchema list"
  reg_capacity :: nat
  reg_block :: nat

definition C2SQL_MAX_TX_DEPTH :: int where
  "C2SQL_MAX_TX_DEPTH = 16"

definition C2SQL_SP_NAME_LEN :: nat where
  "C2SQL_SP_NAME_LEN = 32"

record SqlRDBTxnState =
  txn_depth :: int
  sp_names :: "string list"

definition SQL_RDB_HANDLE_MAGIC :: "32 word" where
  "SQL_RDB_HANDLE_MAGIC = 0xC2DB1234"

definition SQL_RDB_HANDLE_DEAD :: "32 word" where
  "SQL_RDB_HANDLE_DEAD = 0xDEADBEEF"

record 'w SqlRDBHandle =
  magic :: "32 word"
  config :: SqlRDBConfig
  driver :: "'w SqlRDBDriver option"
  driver_ctx :: "ptr option"
  registry :: SqlRDBSchemaRegistry
  cache :: SqlRDBStmtCache
  txn :: SqlRDBTxnState
  error :: SqlRDBErrorCtx
  logger :: "'w SqlRDBLoggerCtx"
  mutex :: SqlRDBMutex

definition c2sql_handle_valid :: "'w SqlRDBHandle option \<Rightarrow> bool" where
  "c2sql_handle_valid h = (case h of None \<Rightarrow> False | Some h \<Rightarrow> magic h = SQL_RDB_HANDLE_MAGIC)"

definition DEFAULT_CONFIG :: SqlRDBConfig where
  "DEFAULT_CONFIG =
     \<lparr>threadsafe = True, stmt_cache_size = 64, auto_migrate = False, multirow_default = 0,
      require_strict = False\<rparr>"

section \<open>Helpers on a handle\<close>

text \<open>\<^verbatim>\<open>c2sql_internal_err_set(&h->error, code, ...)\<close> with the message already formatted.\<close>

definition set_error :: "'w SqlRDBHandle \<Rightarrow> SqlRDBResult \<Rightarrow> string \<Rightarrow> 'w SqlRDBHandle" where
  "set_error h code text = h\<lparr>error := c2sql_internal_err_set (error h) code (Some text)\<rparr>"

definition lock_handle :: "'w SqlRDBHandle \<Rightarrow> 'w SqlRDBHandle option" where
  "lock_handle h = do { mx \<leftarrow> c2sql_internal_mutex_lock (mutex h); Some (h\<lparr>mutex := mx\<rparr>) }"

definition unlock_handle :: "'w SqlRDBHandle \<Rightarrow> 'w SqlRDBHandle option" where
  "unlock_handle h = do { mx \<leftarrow> c2sql_internal_mutex_unlock (mutex h); Some (h\<lparr>mutex := mx\<rparr>) }"

text \<open>
  The bracket every locked API function has: each of its returns after the lock is preceded by
  the unlock. The body yields the result, the handle and whatever else it changes.
\<close>

definition locked ::
  "'w SqlRDBHandle \<Rightarrow> ('w SqlRDBHandle \<Rightarrow> ('r \<times> 'w SqlRDBHandle \<times> 's) option)
     \<Rightarrow> ('r \<times> 'w SqlRDBHandle \<times> 's) option" where
  "locked h body =
     do {
       h \<leftarrow> lock_handle h;
       (r, h, s) \<leftarrow> body h;
       h \<leftarrow> unlock_handle h;
       Some (r, h, s)
     }"

lemma set_error_simps [simp]:
  "magic (set_error h c t) = magic h" "config (set_error h c t) = config h" "driver (set_error h c t) = driver h"
  "driver_ctx (set_error h c t) = driver_ctx h" "registry (set_error h c t) = registry h"
  "cache (set_error h c t) = cache h" "txn (set_error h c t) = txn h" "logger (set_error h c t) = logger h"
  "mutex (set_error h c t) = mutex h" "err_code (error (set_error h c t)) = c"
  by (simp_all add: set_error_def)

text \<open>
  A body that does not touch the mutex leaves it as it found it: after the call the mutex is idle
  again, on every path.
\<close>

lemma locked_returns:
  assumes idle: "mutex_idle (mutex h)"
    and body: "body (h\<lparr>mutex := (mutex h)\<lparr>mtx_locked := mtx_threadsafe (mutex h) \<or> mtx_locked (mutex h)\<rparr>\<rparr>) = Some (r, h', s)"
    and same: "mutex h' = (mutex h)\<lparr>mtx_locked := mtx_threadsafe (mutex h) \<or> mtx_locked (mutex h)\<rparr>"
  shows "locked h body = Some (r, h'\<lparr>mutex := mutex h\<rparr>, s)"
  using assms mutex_lock_idle [OF idle] mutex_lock_unlock [OF idle]
  by (simp add: locked_def lock_handle_def unlock_handle_def)

end
