(* ===== verification/Schema_Registry.thy ===== *)
theory Schema_Registry
  imports Handle
begin

text \<open>
  The schema registry of \<^verbatim>\<open>src/schema_registry.c\<close>: identifier validation, registration with
  all its checks and out-of-memory paths, lookup and removal, with the invariant that every
  registered schema is well formed and no two share a name.
\<close>

section \<open>Identifiers\<close>

definition RESERVED_WORDS :: "string list" where
  "RESERVED_WORDS =
    [''ABORT'', ''ACTION'', ''ADD'', ''AFTER'', ''ALL'', ''ALTER'', ''ALWAYS'',
     ''ANALYZE'', ''AND'', ''AS'', ''ASC'', ''ATTACH'', ''AUTOINCREMENT'',
     ''BEFORE'', ''BEGIN'', ''BETWEEN'', ''BY'',
     ''CASCADE'', ''CASE'', ''CAST'', ''CHECK'', ''COLLATE'', ''COLUMN'',
     ''COMMIT'', ''CONFLICT'', ''CONSTRAINT'', ''CREATE'', ''CROSS'',
     ''CURRENT'', ''CURRENT_DATE'', ''CURRENT_TIME'', ''CURRENT_TIMESTAMP'',
     ''DATABASE'', ''DEFAULT'', ''DEFERRABLE'', ''DEFERRED'', ''DELETE'',
     ''DETACH'', ''DISTINCT'', ''DO'', ''DROP'',
     ''EACH'', ''ELSE'', ''END'', ''ESCAPE'', ''EXCEPT'', ''EXCLUDE'',
     ''EXCLUSIVE'', ''EXISTS'', ''EXPLAIN'',
     ''FAIL'', ''FILTER'', ''FIRST'', ''FOLLOWING'', ''FOR'', ''FOREIGN'',
     ''FROM'', ''FULL'',
     ''GENERATED'', ''GLOB'', ''GROUP'', ''GROUPS'',
     ''HAVING'',
     ''IF'', ''IGNORE'', ''IMMEDIATE'', ''IN'', ''INDEX'', ''INDEXED'',
     ''INITIALLY'', ''INNER'', ''INSERT'', ''INSTEAD'', ''INTERSECT'', ''INTO'',
     ''IS'', ''ISNULL'',
     ''JOIN'', ''KEY'',
     ''LAST'', ''LEFT'', ''LIKE'', ''LIMIT'',
     ''MATCH'', ''MATERIALIZED'',
     ''NATURAL'', ''NO'', ''NOT'', ''NOTHING'', ''NOTNULL'', ''NULL'', ''NULLS'',
     ''OF'', ''OFFSET'', ''ON'', ''OR'', ''ORDER'', ''OTHERS'', ''OUTER'', ''OVER'',
     ''PARTITION'', ''PLAN'', ''PRAGMA'', ''PRECEDING'', ''PRIMARY'',
     ''QUERY'',
     ''RAISE'', ''RANGE'', ''RECURSIVE'', ''REFERENCES'', ''REGEXP'',
     ''REINDEX'', ''RELEASE'', ''RENAME'', ''REPLACE'', ''RESTRICT'',
     ''RETURNING'', ''RIGHT'', ''ROLLBACK'', ''ROW'', ''ROWS'',
     ''SAVEPOINT'', ''SELECT'', ''SET'',
     ''TABLE'', ''TEMP'', ''TEMPORARY'', ''THEN'', ''TIES'', ''TO'',
     ''TRANSACTION'', ''TRIGGER'',
     ''UNBOUNDED'', ''UNION'', ''UNIQUE'', ''UPDATE'', ''USING'',
     ''VACUUM'', ''VALUES'', ''VIEW'', ''VIRTUAL'',
     ''WHEN'', ''WHERE'', ''WINDOW'', ''WITH'', ''WITHOUT'']"

definition MAX_IDENT_LEN :: nat where
  "MAX_IDENT_LEN = 128"

text \<open>The loop over the characters after the first, \<open>len\<close> being the index of the next one.\<close>

fun ident_tail :: "nat \<Rightarrow> string \<Rightarrow> bool" where
  "ident_tail len [] \<longleftrightarrow> True"
| "ident_tail len (c # cs) \<longleftrightarrow>
     (if MAX_IDENT_LEN \<le> len then False
      else if \<not> isalnum c \<and> c \<noteq> CHR ''_'' then False
      else ident_tail (Suc len) cs)"

definition identifier_valid :: "string option \<Rightarrow> bool" where
  "identifier_valid name =
     (case name of None \<Rightarrow> False
      | Some [] \<Rightarrow> False
      | Some (c # cs) \<Rightarrow>
          if \<not> isalpha c \<and> c \<noteq> CHR ''_'' then False
          else if \<not> ident_tail 1 cs then False
          else \<not> List.member RESERVED_WORDS (map toupper (c # cs)))"

section \<open>Building a schema\<close>

definition C2SQL_MAX_COLUMNS :: nat where
  "C2SQL_MAX_COLUMNS = 64"

type_synonym column_arg = "string option SqlRDBColumnDef"

text \<open>
  \<^verbatim>\<open>deep_copy_cols\<close>: the loop that copies the \<open>k\<close> columns from index \<open>i\<close> on. Reading past
  the caller's array, or duplicating a null name, is undefined.
\<close>

fun copy_names :: "column_arg list \<Rightarrow> nat \<Rightarrow> nat \<Rightarrow> mem \<Rightarrow> (column list option \<times> mem) option" where
  "copy_names cols i 0 m = Some (Some [], m)"
| "copy_names cols i (Suc k) m =
     do {
       src \<leftarrow> nth_opt cols i;
       name \<leftarrow> col_name src;
       let (ok, m) = alloc m in
       if \<not> ok then Some (None, m)
       else do {
         (rest, m) \<leftarrow> copy_names cols (Suc i) k m;
         Some (map_option ((#) \<lparr>col_name = name, col_type = col_type src, col_offset = col_offset src,
                                col_size = col_size src, col_flags = col_flags src\<rparr>) rest, m)
       }
     }"

definition deep_copy_cols :: "column_arg list \<Rightarrow> nat \<Rightarrow> mem \<Rightarrow> (SqlRDBResult \<times> column list \<times> mem) option" where
  "deep_copy_cols cols n m =
     (let (ok, m) = alloc m in
      if \<not> ok then Some (SQL_RDB_ERR_NO_MEMORY, [], m)
      else do {
        (dst, m) \<leftarrow> copy_names cols 0 n m;
        case dst of None \<Rightarrow> Some (SQL_RDB_ERR_NO_MEMORY, [], m)
        | Some dst \<Rightarrow> Some (SQL_RDB_OK, dst, m)
      })"

definition registry_grow ::
  "SqlRDBSchemaRegistry \<Rightarrow> SqlRDBErrorCtx \<Rightarrow> mem \<Rightarrow> SqlRDBResult \<times> SqlRDBSchemaRegistry \<times> SqlRDBErrorCtx \<times> mem" where
  "registry_grow reg err m =
     (let new_cap = (if reg_capacity reg = 0 then 8 else reg_capacity reg * 2);
          (ok, m) = alloc m
      in if \<not> ok then
           (SQL_RDB_ERR_NO_MEMORY, reg,
            c2sql_internal_err_set err SQL_RDB_ERR_NO_MEMORY
              (Some (''schema registry: out of memory growing to '' @ dec_of_nat new_cap @ '' entries'')), m)
         else (SQL_RDB_OK, reg\<lparr>reg_capacity := new_cap, reg_block := Suc (reg_block reg)\<rparr>, err, m))"

definition c2sql_internal_schema_registry_init :: "nat \<Rightarrow> SqlRDBSchemaRegistry" where
  "c2sql_internal_schema_registry_init blk = \<lparr>reg_entries = [], reg_capacity = 0, reg_block = blk\<rparr>"

definition c2sql_internal_schema_registry_destroy :: "SqlRDBSchemaRegistry \<Rightarrow> SqlRDBSchemaRegistry" where
  "c2sql_internal_schema_registry_destroy reg =
     reg\<lparr>reg_entries := [], reg_capacity := 0, reg_block := Suc (reg_block reg)\<rparr>"

section \<open>Registration\<close>

text \<open>The checks on column \<open>i\<close>: the error code and message of the first that fails.\<close>

definition column_error :: "column_arg list \<Rightarrow> nat \<Rightarrow> column_arg \<Rightarrow> (SqlRDBResult \<times> string) option" where
  "column_error cols i col =
     (case col_name col of
        None \<Rightarrow> Some (SQL_RDB_ERR_INVALID_ARG, ''schema_register: cols['' @ dec_of_nat i @ ''].name is NULL'')
      | Some name \<Rightarrow>
          if \<not> identifier_valid (Some name) then
            Some (SQL_RDB_ERR_INVALID_NAME, ''schema_register: invalid column name '' @ squote name)
          else if \<exists>j < i. col_name (cols ! j) = Some name then
            Some (SQL_RDB_ERR_DUPLICATE_COLUMN, ''schema_register: duplicate column name '' @ squote name)
          else if col_type col = SQL_TYPE_INT32 \<and> col_size col \<noteq> 4 then
            Some (SQL_RDB_ERR_INVALID_ARG, ''schema_register: INT32 column '' @ squote name @
                    '' must have size 4, got '' @ dec_of_nat (col_size col))
          else if col_type col = SQL_TYPE_INT64 \<and> col_size col \<noteq> 8 then
            Some (SQL_RDB_ERR_INVALID_ARG, ''schema_register: INT64 column '' @ squote name @
                    '' must have size 8, got '' @ dec_of_nat (col_size col))
          else None)"

text \<open>The validation loop over the \<open>k\<close> columns from index \<open>i\<close> on.\<close>

fun check_columns :: "column_arg list \<Rightarrow> nat \<Rightarrow> nat \<Rightarrow> (SqlRDBResult \<times> string) option option" where
  "check_columns cols i 0 = Some None"
| "check_columns cols i (Suc k) =
     do {
       col \<leftarrow> nth_opt cols i;
       case column_error cols i col of
         Some e \<Rightarrow> Some (Some e)
       | None \<Rightarrow> check_columns cols (Suc i) k
     }"

text \<open>The part of \<^verbatim>\<open>c2sql_internal_schema_register\<close> after the registry has room.\<close>

definition add_entry ::
  "'w SqlRDBHandle \<Rightarrow> string \<Rightarrow> column_arg list \<Rightarrow> nat \<Rightarrow> mem \<Rightarrow> (SqlRDBResult \<times> 'w SqlRDBHandle \<times> mem) option" where
  "add_entry h name cols n m =
     (let (ok, m) = alloc m in
      if \<not> ok then
        Some (SQL_RDB_ERR_NO_MEMORY,
              set_error h SQL_RDB_ERR_NO_MEMORY ''schema_register: out of memory duplicating name'', m)
      else do {
        (r, dst, m) \<leftarrow> deep_copy_cols cols n m;
        if r \<noteq> SQL_RDB_OK then
          Some (r, set_error h r ''schema_register: out of memory copying columns'', m)
        else
          let pk = (case find_index (\<lambda>c. has_flag c SQL_COL_FLAG_PRIMARY_KEY) (take n cols) of
                      Some i \<Rightarrow> int i | None \<Rightarrow> -1);
              entry = \<lparr>sch_name = name, sch_cols = dst, pk_index = pk\<rparr>;
              reg = registry h
          in Some (SQL_RDB_OK, h\<lparr>registry := reg\<lparr>reg_entries := reg_entries reg @ [entry]\<rparr>\<rparr>, m)
      })"

definition c2sql_internal_schema_register ::
  "'w SqlRDBHandle \<Rightarrow> string option \<Rightarrow> column_arg list option \<Rightarrow> nat \<Rightarrow> mem
     \<Rightarrow> (SqlRDBResult \<times> 'w SqlRDBHandle \<times> mem) option" where
  "c2sql_internal_schema_register h name cols col_count m =
     (if \<not> c2sql_handle_valid (Some h) then Some (SQL_RDB_ERR_INVALID_HANDLE, h, m)
      else case (name, cols) of
        (Some name, Some cols) \<Rightarrow>
          if col_count = 0 then
            Some (SQL_RDB_ERR_INVALID_ARG,
                  set_error h SQL_RDB_ERR_INVALID_ARG ''schema_register: col_count must be > 0'', m)
          else if C2SQL_MAX_COLUMNS < col_count then
            Some (SQL_RDB_ERR_TOO_MANY_COLUMNS,
                  set_error h SQL_RDB_ERR_TOO_MANY_COLUMNS
                    (''schema_register: col_count '' @ dec_of_nat col_count @ '' exceeds maximum '' @
                     dec_of_nat C2SQL_MAX_COLUMNS), m)
          else if \<not> identifier_valid (Some name) then
            Some (SQL_RDB_ERR_INVALID_NAME,
                  set_error h SQL_RDB_ERR_INVALID_NAME (''schema_register: invalid struct name '' @ squote name), m)
          else if find_index (\<lambda>s. sch_name s = name) (reg_entries (registry h)) \<noteq> None then
            Some (SQL_RDB_ERR_DUPLICATE_SCHEMA,
                  set_error h SQL_RDB_ERR_DUPLICATE_SCHEMA
                    (''schema_register: struct '' @ squote name @ '' already registered''), m)
          else do {
            bad \<leftarrow> check_columns cols 0 col_count;
            case bad of
              Some (code, text) \<Rightarrow> Some (code, set_error h code text, m)
            | None \<Rightarrow>
                if length (reg_entries (registry h)) = reg_capacity (registry h) then
                  let (r, reg, err, m) = registry_grow (registry h) (error h) m;
                      h = h\<lparr>registry := reg, error := err\<rparr>
                  in if r \<noteq> SQL_RDB_OK then Some (r, h, m) else add_entry h name cols col_count m
                else add_entry h name cols col_count m
          }
      | _ \<Rightarrow> Some (SQL_RDB_ERR_INVALID_ARG,
                  set_error h SQL_RDB_ERR_INVALID_ARG ''schema_register: name and cols must be non-NULL'', m))"

section \<open>Lookup and removal\<close>

text \<open>A \<^verbatim>\<open>const SqlRDBSchema *\<close>: the block of the entry array and the index in it.\<close>

type_synonym schema_ptr = "nat \<times> nat"

definition c2sql_internal_schema_lookup :: "'w SqlRDBHandle \<Rightarrow> string option \<Rightarrow> schema_ptr option" where
  "c2sql_internal_schema_lookup h name =
     (if \<not> c2sql_handle_valid (Some h) then None
      else case name of None \<Rightarrow> None
      | Some name \<Rightarrow>
          map_option (Pair (reg_block (registry h)))
            (find_index (\<lambda>s. sch_name s = name) (reg_entries (registry h))))"

definition schema_at :: "SqlRDBSchemaRegistry \<Rightarrow> schema_ptr \<Rightarrow> SqlRDBSchema option" where
  "schema_at reg p = (if fst p = reg_block reg then nth_opt (reg_entries reg) (snd p) else None)"

text \<open>The shift \<^verbatim>\<open>entries[j - 1] = entries[j]\<close> for the \<open>k\<close> indices from \<open>j\<close> on.\<close>

fun shift_down :: "'a list \<Rightarrow> nat \<Rightarrow> nat \<Rightarrow> 'a list" where
  "shift_down xs j 0 = xs"
| "shift_down xs j (Suc k) = shift_down (xs[j - 1 := xs ! j]) (Suc j) k"

definition c2sql_internal_schema_unregister ::
  "'w SqlRDBHandle \<Rightarrow> string option \<Rightarrow> SqlRDBResult \<times> 'w SqlRDBHandle" where
  "c2sql_internal_schema_unregister h name =
     (if \<not> c2sql_handle_valid (Some h) then (SQL_RDB_ERR_INVALID_ARG, h)
      else case name of None \<Rightarrow> (SQL_RDB_ERR_INVALID_ARG, h)
      | Some name \<Rightarrow>
          let es = reg_entries (registry h) in
          case find_index (\<lambda>s. sch_name s = name) es of
            None \<Rightarrow> (SQL_RDB_ERR_UNKNOWN_STRUCT, h)
          | Some i \<Rightarrow>
              (SQL_RDB_OK,
               h\<lparr>registry := (registry h)\<lparr>reg_entries :=
                  take (length es - 1) (shift_down es (Suc i) (length es - Suc i))\<rparr>\<rparr>))"

section \<open>Well-formed registries\<close>

definition column_ok :: "column \<Rightarrow> bool" where
  "column_ok c \<longleftrightarrow> identifier_valid (Some (col_name c)) \<and>
     (col_type c = SQL_TYPE_INT32 \<longrightarrow> col_size c = 4) \<and> (col_type c = SQL_TYPE_INT64 \<longrightarrow> col_size c = 8)"

definition pk_of :: "'n SqlRDBColumnDef list \<Rightarrow> int" where
  "pk_of cols = (case find_index (\<lambda>c. has_flag c SQL_COL_FLAG_PRIMARY_KEY) cols of Some i \<Rightarrow> int i | None \<Rightarrow> -1)"

definition schema_ok :: "SqlRDBSchema \<Rightarrow> bool" where
  "schema_ok s \<longleftrightarrow> identifier_valid (Some (sch_name s)) \<and> sch_cols s \<noteq> [] \<and>
     length (sch_cols s) \<le> C2SQL_MAX_COLUMNS \<and> list_all column_ok (sch_cols s) \<and>
     distinct (map col_name (sch_cols s)) \<and> pk_index s = pk_of (sch_cols s)"

definition registry_ok :: "SqlRDBSchemaRegistry \<Rightarrow> bool" where
  "registry_ok reg \<longleftrightarrow> length (reg_entries reg) \<le> reg_capacity reg \<and>
     distinct (map sch_name (reg_entries reg)) \<and> list_all schema_ok (reg_entries reg)"

text \<open>The schema a registration stores.\<close>

definition owned_column :: "column_arg \<Rightarrow> column" where
  "owned_column c = \<lparr>col_name = the (col_name c), col_type = col_type c, col_offset = col_offset c,
                     col_size = col_size c, col_flags = col_flags c\<rparr>"

definition schema_of :: "string \<Rightarrow> column_arg list \<Rightarrow> SqlRDBSchema" where
  "schema_of name cols = \<lparr>sch_name = name, sch_cols = map owned_column cols, pk_index = pk_of cols\<rparr>"

text \<open>The arguments name a schema that the registry does not have and whose names are non-null.\<close>

definition register_args_ok :: "SqlRDBSchemaRegistry \<Rightarrow> string \<Rightarrow> column_arg list \<Rightarrow> bool" where
  "register_args_ok reg name cols \<longleftrightarrow>
     (\<forall>c \<in> set cols. col_name c \<noteq> None) \<and> schema_ok (schema_of name cols) \<and>
     name \<notin> sch_name ` set (reg_entries reg)"

lemma pk_of_owned: "pk_of (map owned_column cols) = pk_of cols"
proof -
  have "find_index (\<lambda>c. has_flag c f) (map owned_column cols) = find_index (\<lambda>c. has_flag c f) cols" for f
    by (induction cols) (auto simp: owned_column_def)
  then show ?thesis by (simp add: pk_of_def)
qed

lemma copy_names_total:
  assumes "i + k \<le> length cols" and "\<forall>j < k. col_name (cols ! (i + j)) \<noteq> None"
  shows "\<exists>r m'. copy_names cols i k m = Some (r, m') \<and>
           (r = None \<or> r = Some (map owned_column (take k (drop i cols)))) \<and> (m = [] \<longrightarrow> r \<noteq> None \<and> m' = [])"
  using assms
proof (induction k arbitrary: i m)
  case (Suc k)
  have i: "i < length cols" using Suc.prems(1) by simp
  obtain nm where nm: "col_name (cols ! i) = Some nm" using Suc.prems(2) by (metis add_0_right not_None_eq zero_less_Suc)
  have td: "take (Suc k) (drop i cols) = cols ! i # take k (drop (Suc i) cols)"
    using i by (simp add: Cons_nth_drop_Suc [symmetric])
  obtain ok m1 where al: "alloc m = (ok, m1)" by fastforce
  have "\<forall>j < k. col_name (cols ! (Suc i + j)) \<noteq> None" using Suc.prems(2) by (metis Suc_less_eq add_Suc_shift)
  from Suc.IH [of "Suc i" m1, OF _ this] obtain r m' where
    rec: "copy_names cols (Suc i) k m1 = Some (r, m')"
      "r = None \<or> r = Some (map owned_column (take k (drop (Suc i) cols)))" "m1 = [] \<longrightarrow> r \<noteq> None \<and> m' = []"
    using Suc.prems(1) by auto
  have own: "owned_column (cols ! i) = \<lparr>col_name = nm, col_type = col_type (cols ! i), col_offset = col_offset (cols ! i),
      col_size = col_size (cols ! i), col_flags = col_flags (cols ! i)\<rparr>" using nm by (simp add: owned_column_def)
  have "m = [] \<longrightarrow> ok \<and> m1 = []" using al by auto
  then show ?case using i nm al rec own td by (cases ok) (auto simp: nth_opt_def)
qed simp

lemma deep_copy_cols_total:
  assumes "n \<le> length cols" and "\<forall>j < n. col_name (cols ! j) \<noteq> None"
  shows "\<exists>r dst m'. deep_copy_cols cols n m = Some (r, dst, m') \<and>
           (r = SQL_RDB_OK \<and> dst = map owned_column (take n cols) \<or> r = SQL_RDB_ERR_NO_MEMORY) \<and>
           (m = [] \<longrightarrow> r = SQL_RDB_OK \<and> m' = [])"
proof -
  obtain ok m1 where al: "alloc m = (ok, m1)" by fastforce
  then have "m = [] \<longrightarrow> ok \<and> m1 = []" by auto
  then show ?thesis using copy_names_total [of 0 n cols m1] assms al
    by (cases ok) (auto simp: deep_copy_cols_def)
qed

lemma check_columns_total:
  assumes "i + k \<le> length cols"
  shows "\<exists>e. check_columns cols i k = Some e \<and> (e = None \<longleftrightarrow> (\<forall>j < k. column_error cols (i + j) (cols ! (i + j)) = None)) \<and>
           (\<forall>code text. e = Some (code, text) \<longrightarrow> code \<noteq> SQL_RDB_OK)"
  using assms
proof (induction k arbitrary: i)
  case (Suc k)
  have i: "nth_opt cols i = Some (cols ! i)" using Suc.prems by (simp add: nth_opt_def)
  have split: "(\<forall>j < Suc k. P (i + j)) \<longleftrightarrow> P i \<and> (\<forall>j < k. P (Suc i + j))" for P
    by (auto simp: less_Suc_eq_0_disj)
  show ?case
  proof (cases "column_error cols i (cols ! i)")
    case None
    then show ?thesis using Suc.IH [of "Suc i"] Suc.prems i
      unfolding split [of "\<lambda>j. column_error cols j (cols ! j) = None"] by simp
  next
    case (Some e)
    then have "fst e \<noteq> SQL_RDB_OK"
      by (auto simp: column_error_def split: option.splits if_splits)
    then show ?thesis using Some i
      unfolding split [of "\<lambda>j. column_error cols j (cols ! j) = None"] by auto
  qed
qed simp

lemma column_errors_None:
  assumes n: "n \<le> length cols"
  shows "(\<forall>j < n. column_error cols j (cols ! j) = None) \<longleftrightarrow>
           (\<forall>c \<in> set (take n cols). col_name c \<noteq> None) \<and> list_all column_ok (map owned_column (take n cols)) \<and>
           distinct (map col_name (take n cols))"
proof -
  have dist: "distinct (map col_name (take n cols)) \<longleftrightarrow> (\<forall>j < n. \<forall>i < j. col_name (cols ! i) \<noteq> col_name (cols ! j))"
    using n by (auto simp: distinct_conv_nth) (metis linorder_neqE_nat)
  have "column_error cols j (cols ! j) = None \<longleftrightarrow>
      col_name (cols ! j) \<noteq> None \<and> column_ok (owned_column (cols ! j)) \<and>
      (\<forall>i < j. col_name (cols ! i) \<noteq> col_name (cols ! j))" for j
    by (auto simp: column_error_def column_ok_def owned_column_def split: option.splits if_splits)
  moreover have "set (take n cols) = (!) cols ` {0..<n}" using nth_image [OF n] by simp
  ultimately show ?thesis unfolding dist by (auto simp: list_all_iff)
qed

lemma register_args_ok_iff:
  assumes "n \<le> length cols" and "n \<noteq> 0"
  shows "register_args_ok reg name (take n cols) \<longleftrightarrow>
           n \<le> C2SQL_MAX_COLUMNS \<and> identifier_valid (Some name) \<and>
           find_index (\<lambda>s. sch_name s = name) (reg_entries reg) = None \<and>
           (\<forall>j < n. column_error cols j (cols ! j) = None)"
proof -
  have inj: "distinct (map col_name (map owned_column cs)) \<longleftrightarrow> distinct (map col_name cs)"
    if "\<forall>c \<in> set cs. col_name c \<noteq> None" for cs
  proof -
    have "inj_on the (set (map col_name cs))" using that by (intro inj_onI) (metis imageE list.set_map option.collapse)
    then have "distinct (map the (map col_name cs)) \<longleftrightarrow> distinct (map col_name cs)"
      by (simp only: distinct_map [of the] simp_thms)
    then show ?thesis by (simp add: owned_column_def o_def)
  qed
  show ?thesis
    unfolding register_args_ok_def column_errors_None [OF assms(1)] schema_ok_def
    using assms inj [of "take n cols"]
    by (auto simp: schema_of_def pk_of_owned find_index_None)
qed

lemma add_entry_cases:
  assumes "n \<le> length cols" and "\<forall>j < n. col_name (cols ! j) \<noteq> None"
  shows "\<exists>r h' m'. add_entry h name cols n m = Some (r, h', m') \<and>
           (r = SQL_RDB_OK \<and> h' = h\<lparr>registry := (registry h)\<lparr>reg_entries := reg_entries (registry h) @ [schema_of name (take n cols)]\<rparr>\<rparr> \<or>
            r = SQL_RDB_ERR_NO_MEMORY \<and> registry h' = registry h \<and> err_code (error h') = r \<and> mutex h' = mutex h) \<and>
           (m = [] \<longrightarrow> r = SQL_RDB_OK)"
proof -
  obtain ok m1 where al: "alloc m = (ok, m1)" by fastforce
  then have "m = [] \<longrightarrow> ok \<and> m1 = []" by auto
  then show ?thesis using deep_copy_cols_total [OF assms, of m1] al
    by (cases ok) (auto simp: add_entry_def schema_of_def pk_of_def Let_def)
qed

text \<open>
  A registration with a readable column array is defined; it either appends the owned copy of the schema or
  leaves the entries as they are and records the code it returns as the last error. Only running out
  of memory can make valid arguments fail.
\<close>

lemma schema_register_cases:
  assumes h: "c2sql_handle_valid (Some h)" and n: "n \<le> length cols" "n \<noteq> 0"
    and cap: "length (reg_entries (registry h)) \<le> reg_capacity (registry h)"
  shows "\<exists>r h' m'. c2sql_internal_schema_register h (Some name) (Some cols) n m = Some (r, h', m') \<and>
           mutex h' = mutex h \<and> length (reg_entries (registry h')) \<le> reg_capacity (registry h') \<and>
           (if r = SQL_RDB_OK
            then register_args_ok (registry h) name (take n cols) \<and>
                 reg_entries (registry h') = reg_entries (registry h) @ [schema_of name (take n cols)]
            else reg_entries (registry h') = reg_entries (registry h) \<and> err_code (error h') = r \<and>
                 (register_args_ok (registry h) name (take n cols) \<longrightarrow> r = SQL_RDB_ERR_NO_MEMORY)) \<and>
           (register_args_ok (registry h) name (take n cols) \<and> m = [] \<longrightarrow> r = SQL_RDB_OK)"
proof (cases "n \<le> C2SQL_MAX_COLUMNS \<and> identifier_valid (Some name) \<and>
    find_index (\<lambda>s. sch_name s = name) (reg_entries (registry h)) = None")
  case False
  then show ?thesis using h n cap register_args_ok_iff [OF n]
    by (auto simp: c2sql_internal_schema_register_def not_le)
next
  case True
  obtain e where e: "check_columns cols 0 n = Some e"
    "e = None \<longleftrightarrow> (\<forall>j < n. column_error cols j (cols ! j) = None)" "\<And>code text. e = Some (code, text) \<Longrightarrow> code \<noteq> SQL_RDB_OK"
    using check_columns_total [of 0 n cols] n(1) by auto
  show ?thesis
  proof (cases e)
    case (Some ct)
    then show ?thesis using h n cap True e register_args_ok_iff [OF n]
      by (cases ct) (auto simp: c2sql_internal_schema_register_def)
  next
    case None
    then have args: "register_args_ok (registry h) name (take n cols)"
      using True e(2) register_args_ok_iff [OF n] by simp
    have names: "\<forall>j < n. col_name (cols ! j) \<noteq> None"
      using None e(2) by (auto simp: column_error_def split: option.splits)
    obtain ok m1 where al: "alloc m = (ok, m1)" by fastforce
    have al0: "m = [] \<longrightarrow> ok \<and> m1 = []" using al by auto
    show ?thesis
    proof (cases "length (reg_entries (registry h)) = reg_capacity (registry h)")
      case False
      then show ?thesis using h n cap True None e(1) args add_entry_cases [OF n(1) names, of h name m]
        by (auto simp: c2sql_internal_schema_register_def)
    next
      case full: True
      let ?reg = "(registry h)\<lparr>reg_capacity := if reg_capacity (registry h) = 0 then 8 else reg_capacity (registry h) * 2,
        reg_block := Suc (reg_block (registry h))\<rparr>"
      show ?thesis using h n cap True None e(1) args full al al0
          add_entry_cases [OF n(1) names, of "h\<lparr>registry := ?reg\<rparr>" name m1]
        by (cases ok) (auto simp: c2sql_internal_schema_register_def registry_grow_def Let_def)
    qed
  qed
qed

lemma registry_ok_register:
  assumes ok: "registry_ok (registry h)" and h: "c2sql_handle_valid (Some h)" and n: "n \<le> length cols"
    and run: "c2sql_internal_schema_register h name (Some cols) n m = Some (r, h', m')"
  shows "registry_ok (registry h')"
proof (cases "name = None \<or> n = 0")
  case True
  then show ?thesis using ok h run by (cases name) (auto simp: c2sql_internal_schema_register_def)
next
  case False
  then obtain nm where nm: "name = Some nm" and n0: "n \<noteq> 0" by auto
  have cap: "length (reg_entries (registry h)) \<le> reg_capacity (registry h)" using ok by (simp add: registry_ok_def)
  show ?thesis using schema_register_cases [OF h n n0 cap, of nm m] ok run nm
    by (auto simp: registry_ok_def register_args_ok_def schema_of_def split: if_splits)
qed

lemma shift_down_drop:
  "j \<noteq> 0 \<Longrightarrow> j + k = length xs \<Longrightarrow> take (length xs - 1) (shift_down xs j k) = take (j - 1) xs @ drop j xs"
proof (induction k arbitrary: xs j)
  case 0
  then show ?case by simp
next
  case (Suc k)
  let ?ys = "xs[j - 1 := xs ! j]"
  have j: "j < length xs" "j - 1 < length xs" using Suc.prems by simp_all
  have "take (length xs - 1) (shift_down xs j (Suc k)) = take j ?ys @ drop (Suc j) ?ys"
    using Suc.IH [of "Suc j" ?ys] Suc.prems by simp
  also have "take j ?ys = take (j - 1) xs @ [xs ! j]"
    using Suc.prems(1) j by (cases j) (simp_all add: take_Suc_conv_app_nth take_update_swap list_update_append)
  also have "drop (Suc j) ?ys = drop (Suc j) xs" using Suc.prems(1) by simp
  finally show ?case using Cons_nth_drop_Suc [OF j(1)] by simp
qed

text \<open>Removing a struct deletes exactly its entry and keeps the order of the others.\<close>

lemma schema_unregister_filter:
  assumes h: "c2sql_handle_valid (Some h)" and ok: "distinct (map sch_name (reg_entries (registry h)))"
  shows "c2sql_internal_schema_unregister h (Some name) =
           (if name \<in> sch_name ` set (reg_entries (registry h)) then SQL_RDB_OK else SQL_RDB_ERR_UNKNOWN_STRUCT,
            h\<lparr>registry := (registry h)\<lparr>reg_entries := filter (\<lambda>s. sch_name s \<noteq> name) (reg_entries (registry h))\<rparr>\<rparr>)"
proof (cases "find_index (\<lambda>s. sch_name s = name) (reg_entries (registry h))")
  case None
  then have n: "\<forall>s \<in> set (reg_entries (registry h)). sch_name s \<noteq> name" by (simp add: find_index_None)
  then have "filter (\<lambda>s. sch_name s \<noteq> name) (reg_entries (registry h)) = reg_entries (registry h)" by (simp add: filter_id_conv)
  then show ?thesis using h n None by (auto simp: c2sql_internal_schema_unregister_def)
next
  case (Some i)
  let ?es = "reg_entries (registry h)"
  have i: "i < length ?es" "sch_name (?es ! i) = name" using Some by (auto simp: find_index_Some)
  have es: "?es = take i ?es @ ?es ! i # drop (Suc i) ?es" using i(1) by (rule id_take_nth_drop)
  have "distinct (map sch_name (take i ?es @ ?es ! i # drop (Suc i) ?es))" using ok es by simp
  then have "\<forall>s \<in> set (take i ?es) \<union> set (drop (Suc i) ?es). sch_name s \<noteq> name"
    using i(2) by (auto simp: image_iff)
  then have "filter (\<lambda>s. sch_name s \<noteq> name) (take i ?es @ ?es ! i # drop (Suc i) ?es) = take i ?es @ drop (Suc i) ?es"
    using i(2) by (simp add: filter_id_conv)
  then have f: "filter (\<lambda>s. sch_name s \<noteq> name) ?es = take i ?es @ drop (Suc i) ?es" using es by simp
  have "name \<in> sch_name ` set ?es" using i by (metis image_eqI nth_mem)
  then show ?thesis using h Some f shift_down_drop [of "Suc i" "length ?es - Suc i" ?es] i(1)
    by (simp add: c2sql_internal_schema_unregister_def Let_def)
qed

text \<open>A lookup yields a live pointer to the entry of that name, and nothing exactly when there is none.\<close>

lemma schema_lookup_Some:
  assumes "c2sql_internal_schema_lookup h (Some name) = Some p"
  shows "\<exists>s. schema_at (registry h) p = Some s \<and> sch_name s = name \<and> s \<in> set (reg_entries (registry h))"
  using assms
  by (auto simp: c2sql_internal_schema_lookup_def schema_at_def nth_opt_def find_index_Some split: if_splits)

lemma schema_lookup_None:
  "c2sql_handle_valid (Some h) \<Longrightarrow>
     c2sql_internal_schema_lookup h (Some name) = None \<longleftrightarrow> name \<notin> sch_name ` set (reg_entries (registry h))"
  by (auto simp: c2sql_internal_schema_lookup_def find_index_None)

text \<open>Registration changes the registry and the error context only.\<close>

definition registry_only :: "'w SqlRDBHandle \<Rightarrow> 'w SqlRDBHandle \<Rightarrow> bool" where
  "registry_only h h' \<longleftrightarrow> magic h' = magic h \<and> config h' = config h \<and> driver h' = driver h \<and> driver_ctx h' = driver_ctx h \<and>
     cache h' = cache h \<and> txn h' = txn h \<and> logger h' = logger h \<and> mutex h' = mutex h"

lemma registry_only_simps [simp]:
  "registry_only h h" "registry_only h (set_error g c t) \<longleftrightarrow> registry_only h g"
  "registry_only h (g\<lparr>registry := x\<rparr>) \<longleftrightarrow> registry_only h g" "registry_only h (g\<lparr>error := e\<rparr>) \<longleftrightarrow> registry_only h g"
  "registry_only (h\<lparr>registry := x, error := e\<rparr>) g \<longleftrightarrow> registry_only h g"
  by (simp_all add: registry_only_def)

lemma add_entry_only: "ensures (add_entry h name cols n m) (\<lambda>(r, h', m'). registry_only h h')"
  unfolding add_entry_def
  by ((clarsimp simp: Let_def split: prod.splits | intro conjI impI allI
      ensures_any [where x = "deep_copy_cols cols n m" for cols n m])+)

lemma schema_register_only:
  "ensures (c2sql_internal_schema_register h name cols n m) (\<lambda>(r, h', m'). registry_only h h')"
  unfolding c2sql_internal_schema_register_def
  by ((rule ensures_if ensures_option ensures_any [where x = "check_columns cols i n" for cols i n] conjI impI allI
        add_entry_only [THEN ensures_mono]
      | clarsimp simp: Let_def split: prod.splits option.splits)+)

end
