(* ===== verification/Type_Mapping.thy ===== *)
theory Type_Mapping
  imports Schema_Registry
begin

text \<open>
  Marshalling between a C struct and a statement, \<^verbatim>\<open>src/type_mapping.c\<close> and the NULL-bitmap
  helpers of \<^verbatim>\<open>src/type_mapping.h\<close>. A row is the object the caller's pointer designates, as a
  list of bytes: an access outside it is undefined.
\<close>

section \<open>NULL bitmaps\<close>

type_synonym null_map = "8 word list option"

definition c2sql_internal_null_bit_get :: "null_map \<Rightarrow> nat \<Rightarrow> bool option" where
  "c2sql_internal_null_bit_get nm col_idx =
     (case nm of None \<Rightarrow> Some False
      | Some bs \<Rightarrow>
          do {
            b \<leftarrow> nth_opt bs (drop_bit 3 col_idx);
            Some (drop_bit (col_idx AND 7) b AND 1 \<noteq> 0)
          })"

definition c2sql_internal_null_bit_set :: "null_map \<Rightarrow> nat \<Rightarrow> null_map option" where
  "c2sql_internal_null_bit_set nm col_idx =
     (case nm of None \<Rightarrow> Some None
      | Some bs \<Rightarrow>
          do {
            b \<leftarrow> nth_opt bs (drop_bit 3 col_idx);
            Some (Some (bs[drop_bit 3 col_idx := b OR push_bit (col_idx AND 7) 1]))
          })"

section \<open>Binding a row\<close>

fun bounded_strlen :: "char list \<Rightarrow> nat \<Rightarrow> nat option" where
  "bounded_strlen s 0 = Some 0"
| "bounded_strlen [] (Suc k) = None"
| "bounded_strlen (c # cs) (Suc k) = (if c = NUL then Some 0 else map_option Suc (bounded_strlen cs k))"

definition INT_MAX :: nat where
  "INT_MAX = 2147483647"

text \<open>The memory from \<^verbatim>\<open>(char * )row + offset\<close> to the end of the object.\<close>

definition at_offset :: "char list \<Rightarrow> nat \<Rightarrow> char list option" where
  "at_offset row off = (if off \<le> length row then Some (drop off row) else None)"

definition bind_one ::
  "'w SqlRDBDriver \<Rightarrow> ptr \<Rightarrow> int \<Rightarrow> column \<Rightarrow> char list \<Rightarrow> 'w \<Rightarrow> (SqlRDBResult \<times> 'w) option" where
  "bind_one drv stmt bind_idx col row w =
     do {
       base \<leftarrow> at_offset row (col_offset col);
       case col_type col of
         SQL_TYPE_INT32 \<Rightarrow> do { v \<leftarrow> read_bytes base 0 4; drv_bind_int32 drv stmt bind_idx (le_word v) w }
       | SQL_TYPE_INT64 \<Rightarrow> do { v \<leftarrow> read_bytes base 0 8; drv_bind_int64 drv stmt bind_idx (le_word v) w }
       | SQL_TYPE_REAL \<Rightarrow> do { v \<leftarrow> read_bytes base 0 8; drv_bind_real drv stmt bind_idx (le_word v) w }
       | SQL_TYPE_TEXT \<Rightarrow>
           do {
             n \<leftarrow> bounded_strlen base (col_size col);
             let n = (if INT_MAX < n then INT_MAX else n);
             drv_bind_text drv stmt bind_idx (Some base) (int n) w
           }
       | SQL_TYPE_BLOB \<Rightarrow> drv_bind_blob drv stmt bind_idx (Some base) (col_size col) w
       | SQL_TYPE_OTHER _ \<Rightarrow> Some (SQL_RDB_ERR_INTERNAL, w)
     }"

text \<open>The loop of \<^verbatim>\<open>c2sql_internal_tm_bind_row\<close> from column \<open>i\<close> on.\<close>

fun bind_cols ::
  "'w SqlRDBDriver \<Rightarrow> ptr \<Rightarrow> nat \<Rightarrow> column list \<Rightarrow> char list \<Rightarrow> null_map \<Rightarrow> 'w \<Rightarrow> (SqlRDBResult \<times> 'w) option" where
  "bind_cols drv stmt i [] row nm w = Some (SQL_RDB_OK, w)"
| "bind_cols drv stmt i (col # cols) row nm w =
     do {
       isnull \<leftarrow> c2sql_internal_null_bit_get nm i;
       if isnull then
         if \<not> has_flag col SQL_COL_FLAG_NULLABLE then Some (SQL_RDB_ERR_NOT_NULL_VIOLATION, w)
         else do {
           (r, w) \<leftarrow> drv_bind_null drv stmt (int i + 1) w;
           if r \<noteq> SQL_RDB_OK then Some (r, w) else bind_cols drv stmt (Suc i) cols row nm w
         }
       else do {
         (r, w) \<leftarrow> bind_one drv stmt (int i + 1) col row w;
         if r \<noteq> SQL_RDB_OK then Some (r, w) else bind_cols drv stmt (Suc i) cols row nm w
       }
     }"

definition c2sql_internal_tm_bind_row ::
  "'w SqlRDBDriver \<Rightarrow> ptr \<Rightarrow> SqlRDBSchema \<Rightarrow> char list option \<Rightarrow> null_map \<Rightarrow> 'w \<Rightarrow> (SqlRDBResult \<times> 'w) option" where
  "c2sql_internal_tm_bind_row drv stmt schema row nm w =
     (case row of None \<Rightarrow> Some (SQL_RDB_ERR_INVALID_ARG, w)
      | Some row \<Rightarrow> bind_cols drv stmt 0 (sch_cols schema) row nm w)"

section \<open>Reading a row\<close>

text \<open>\<^verbatim>\<open>if (n > 0 && p) memcpy(base, p, n)\<close>.\<close>

definition copy_from :: "char list \<Rightarrow> nat \<Rightarrow> char list option \<Rightarrow> nat \<Rightarrow> char list option" where
  "copy_from row off p n =
     (case p of None \<Rightarrow> Some row
      | Some src \<Rightarrow> if n = 0 then Some row else do { bs \<leftarrow> read_bytes src 0 n; write_bytes row off bs })"

definition read_one ::
  "'w SqlRDBDriver \<Rightarrow> ptr \<Rightarrow> int \<Rightarrow> column \<Rightarrow> char list \<Rightarrow> 'w \<Rightarrow> (SqlRDBResult \<times> char list \<times> 'w) option" where
  "read_one drv stmt col_idx col row w =
     (let off = col_offset col in
      case col_type col of
        SQL_TYPE_INT32 \<Rightarrow>
          do {
            (r, v, w) \<leftarrow> drv_column_int64 drv stmt col_idx w;
            if r \<noteq> SQL_RDB_OK then Some (r, row, w)
            else do {
              let truncated = (sint v < - (2 ^ 31) \<or> sint v > 2 ^ 31 - 1);
              let out = (ucast v :: 32 word);
              row \<leftarrow> write_bytes row off (le_bytes 4 out);
              Some (if truncated then SQL_RDB_WARN_TRUNCATED else SQL_RDB_OK, row, w)
            }
          }
      | SQL_TYPE_INT64 \<Rightarrow>
          do {
            (r, v, w) \<leftarrow> drv_column_int64 drv stmt col_idx w;
            if r \<noteq> SQL_RDB_OK then Some (r, row, w)
            else do { row \<leftarrow> write_bytes row off (le_bytes 8 v); Some (SQL_RDB_OK, row, w) }
          }
      | SQL_TYPE_REAL \<Rightarrow>
          do {
            (r, v, w) \<leftarrow> drv_column_real drv stmt col_idx w;
            if r \<noteq> SQL_RDB_OK then Some (r, row, w)
            else do { row \<leftarrow> write_bytes row off (le_bytes 8 v); Some (SQL_RDB_OK, row, w) }
          }
      | SQL_TYPE_TEXT \<Rightarrow>
          do {
            (r, p, plen, w) \<leftarrow> drv_column_text drv stmt col_idx w;
            if r \<noteq> SQL_RDB_OK then Some (r, row, w)
            else if col_size col = 0 then Some (SQL_RDB_WARN_TRUNCATED, row, w)
            else do {
              let maxlen = col_size col - 1;
              let to_copy = (if plen < maxlen then plen else maxlen);
              row \<leftarrow> copy_from row off p to_copy;
              row \<leftarrow> write_bytes row (off + to_copy) [NUL];
              Some (if maxlen < plen then SQL_RDB_WARN_TRUNCATED else SQL_RDB_OK, row, w)
            }
          }
      | SQL_TYPE_BLOB \<Rightarrow>
          do {
            (r, p, plen, w) \<leftarrow> drv_column_blob drv stmt col_idx w;
            if r \<noteq> SQL_RDB_OK then Some (r, row, w)
            else do {
              let to_copy = (if plen < col_size col then plen else col_size col);
              row \<leftarrow> copy_from row off p to_copy;
              Some (if col_size col < plen then SQL_RDB_WARN_TRUNCATED else SQL_RDB_OK, row, w)
            }
          }
      | SQL_TYPE_OTHER _ \<Rightarrow> Some (SQL_RDB_ERR_INTERNAL, row, w))"

text \<open>The loop of \<^verbatim>\<open>c2sql_internal_tm_read_row\<close> from column \<open>i\<close> on.\<close>

fun read_cols ::
  "'w SqlRDBDriver \<Rightarrow> ptr \<Rightarrow> nat \<Rightarrow> column list \<Rightarrow> bool \<Rightarrow> char list \<Rightarrow> null_map \<Rightarrow> 'w
     \<Rightarrow> (SqlRDBResult \<times> char list \<times> null_map \<times> 'w) option" where
  "read_cols drv stmt i [] any_truncated row nm w =
     Some (if any_truncated then SQL_RDB_WARN_TRUNCATED else SQL_RDB_OK, row, nm, w)"
| "read_cols drv stmt i (col # cols) any_truncated row nm w =
     do {
       (r, is_null, w) \<leftarrow> drv_column_isnull drv stmt (int i) w;
       if r \<noteq> SQL_RDB_OK then Some (r, row, nm, w)
       else if is_null then do {
         nm \<leftarrow> c2sql_internal_null_bit_set nm i;
         read_cols drv stmt (Suc i) cols any_truncated row nm w
       }
       else do {
         (r, row, w) \<leftarrow> read_one drv stmt (int i) col row w;
         if r = SQL_RDB_WARN_TRUNCATED then read_cols drv stmt (Suc i) cols True row nm w
         else if r \<noteq> SQL_RDB_OK then Some (r, row, nm, w)
         else read_cols drv stmt (Suc i) cols any_truncated row nm w
       }
     }"

definition c2sql_internal_tm_read_row ::
  "'w SqlRDBDriver \<Rightarrow> ptr \<Rightarrow> SqlRDBSchema \<Rightarrow> char list option \<Rightarrow> null_map \<Rightarrow> 'w
     \<Rightarrow> (SqlRDBResult \<times> char list option \<times> null_map \<times> 'w) option" where
  "c2sql_internal_tm_read_row drv stmt schema out_row nm w =
     (case out_row of None \<Rightarrow> Some (SQL_RDB_ERR_INVALID_ARG, None, nm, w)
      | Some row \<Rightarrow>
          do {
            (r, row, nm, w) \<leftarrow> read_cols drv stmt 0 (sch_cols schema) False row nm w;
            Some (r, Some row, nm, w)
          })"

section \<open>Laws of the NULL bitmap\<close>

lemma index_bits: "drop_bit 3 i = (i::nat) div 8" "(i::nat) AND 7 = i mod 8"
  using take_bit_eq_mask [of 3 i] by (simp_all add: drop_bit_eq_div take_bit_eq_mod mask_eq_exp_minus_1)

lemma low_bit: "drop_bit k (b :: 8 word) AND 1 \<noteq> 0 \<longleftrightarrow> bit b k"
  by (simp add: and_one_eq odd_iff_mod_2_eq_one [symmetric] bit_iff_odd_drop_bit)

lemma null_bit_get_bit:
  "i div 8 < length bs \<Longrightarrow> c2sql_internal_null_bit_get (Some bs) i = Some (bit (bs ! (i div 8)) (i mod 8))"
  by (simp add: c2sql_internal_null_bit_get_def index_bits nth_opt_def low_bit)

lemma null_bit_get_set:
  assumes "c2sql_internal_null_bit_set (Some bs) i = Some nm" and "j div 8 < length bs"
  shows "c2sql_internal_null_bit_get nm j =
           (if j = i then Some True else c2sql_internal_null_bit_get (Some bs) j)"
proof -
  have i: "i div 8 < length bs" and nm: "nm = Some (bs[i div 8 := bs ! (i div 8) OR push_bit (i mod 8) 1])"
    using assms(1) by (auto simp: c2sql_internal_null_bit_set_def index_bits nth_opt_def split: if_splits)
  have "bit (push_bit (i mod 8) 1 :: 8 word) k \<longleftrightarrow> k = i mod 8" for k
    by (auto simp: bit_exp_iff)
  moreover have "j = i \<longleftrightarrow> j div 8 = i div 8 \<and> j mod 8 = i mod 8" by (metis div_mult_mod_eq)
  ultimately show ?thesis using assms(2) i nm
    by (auto simp: null_bit_get_bit bit_or_iff nth_list_update)
qed

text \<open>A bitmap of \<open>SQL_RDB_NULL_BITMAP_BYTES n\<close> bytes has a bit for each of \<open>n\<close> columns.\<close>

lemma bitmap_bytes_enough: "i < n \<Longrightarrow> i div 8 < SQL_RDB_NULL_BITMAP_BYTES n"
  by (simp add: SQL_RDB_NULL_BITMAP_BYTES_def)

section \<open>The value of a column\<close>

text \<open>The database value that a struct member stands for.\<close>

datatype cell =
    Cell_Null
  | Cell_Int "64 word"
  | Cell_Real "64 word"
  | Cell_Text "char list"
  | Cell_Blob "char list"

definition region :: "column \<Rightarrow> char list \<Rightarrow> char list" where
  "region col row = take (col_size col) (drop (col_offset col) row)"

definition column_cell :: "column \<Rightarrow> char list \<Rightarrow> cell" where
  "column_cell col row =
     (case col_type col of
        SQL_TYPE_INT32 \<Rightarrow> Cell_Int (scast (le_word (region col row) :: 32 word))
      | SQL_TYPE_INT64 \<Rightarrow> Cell_Int (le_word (region col row))
      | SQL_TYPE_REAL \<Rightarrow> Cell_Real (le_word (region col row))
      | SQL_TYPE_TEXT \<Rightarrow> Cell_Text (takeWhile (\<lambda>c. c \<noteq> NUL) (region col row))
      | SQL_TYPE_BLOB \<Rightarrow> Cell_Blob (region col row)
      | SQL_TYPE_OTHER _ \<Rightarrow> Cell_Null)"

text \<open>
  A member of the caller's struct: it lies inside the object, has the size of its type, and a text
  has room for its terminator.
\<close>

definition member_ok :: "nat \<Rightarrow> column \<Rightarrow> bool" where
  "member_ok len col \<longleftrightarrow> col_offset col + col_size col \<le> len \<and>
     (case col_type col of
        SQL_TYPE_INT32 \<Rightarrow> col_size col = 4
      | SQL_TYPE_INT64 \<Rightarrow> col_size col = 8
      | SQL_TYPE_REAL \<Rightarrow> col_size col = 8
      | SQL_TYPE_TEXT \<Rightarrow> 0 < col_size col \<and> col_size col \<le> INT_MAX
      | SQL_TYPE_BLOB \<Rightarrow> True
      | SQL_TYPE_OTHER _ \<Rightarrow> False)"

definition terminated :: "char list \<Rightarrow> column \<Rightarrow> bool" where
  "terminated row col \<longleftrightarrow> (col_type col = SQL_TYPE_TEXT \<longrightarrow> NUL \<in> set (region col row))"

text \<open>The statement \<open>stmt\<close> is positioned on a row whose column \<open>i\<close> holds \<open>c\<close>.\<close>

definition serves :: "'w SqlRDBDriver \<Rightarrow> ptr \<Rightarrow> 'w \<Rightarrow> nat \<Rightarrow> cell \<Rightarrow> bool" where
  "serves drv stmt w i c \<longleftrightarrow>
     drv_column_isnull drv stmt (int i) w = Some (SQL_RDB_OK, c = Cell_Null, w) \<and>
     (case c of
        Cell_Null \<Rightarrow> True
      | Cell_Int v \<Rightarrow> drv_column_int64 drv stmt (int i) w = Some (SQL_RDB_OK, v, w)
      | Cell_Real v \<Rightarrow> drv_column_real drv stmt (int i) w = Some (SQL_RDB_OK, v, w)
      | Cell_Text t \<Rightarrow> drv_column_text drv stmt (int i) w = Some (SQL_RDB_OK, Some (t @ [NUL]), length t, w)
      | Cell_Blob b \<Rightarrow>
          drv_column_blob drv stmt (int i) w = Some (SQL_RDB_OK, if b = [] then None else Some b, length b, w))"

text \<open>A write of \<open>n\<close> bytes at \<open>off\<close> touches nothing else.\<close>

definition writes_only :: "nat \<Rightarrow> nat \<Rightarrow> char list \<Rightarrow> char list \<Rightarrow> bool" where
  "writes_only off n row row' \<longleftrightarrow> length row' = length row \<and>
     (\<forall>o2 k. o2 + k \<le> off \<or> off + n \<le> o2 \<longrightarrow> read_bytes row' o2 k = read_bytes row o2 k)"

lemma writes_only_refl [simp]: "writes_only off n row row"
  by (simp add: writes_only_def)

lemma writes_only_trans:
  "writes_only off n row row' \<Longrightarrow> writes_only off n row' row'' \<Longrightarrow> writes_only off n row row''"
  by (simp add: writes_only_def)

lemma write_bytes_only:
  assumes "write_bytes row o1 bs = Some row'" and "off \<le> o1" and "o1 + length bs \<le> off + n"
  shows "writes_only off n row row'"
  using assms write_bytes_length [OF assms(1)] read_write_disjoint [OF assms(1)]
  by (auto simp: writes_only_def)

lemma region_read: "col_offset col + col_size col \<le> length row \<Longrightarrow>
    read_bytes row (col_offset col) (col_size col) = Some (region col row)"
  by (simp add: region_def read_bytes_def)

lemma write_bytes_Some: "off + length bs \<le> length row \<Longrightarrow> \<exists>row'. write_bytes row off bs = Some row'"
  by (simp add: write_bytes_def)

lemma length_region: "col_offset col + col_size col \<le> length row \<Longrightarrow> length (region col row) = col_size col"
  by (simp add: region_def)

lemma write_region:
  assumes "write_bytes row (col_offset col) bs = Some row'" and "length bs = col_size col"
  shows "region col row' = bs"
proof -
  have "col_offset col + col_size col \<le> length row'"
    using assms write_bytes_length [OF assms(1)] by (auto simp: write_bytes_def split: if_splits)
  then show ?thesis using region_read [of col row'] read_write_same [OF assms(1)] assms(2) by simp
qed

lemma read_one_int32:
  assumes "col_type col = SQL_TYPE_INT32" and "col_size col = 4" and "col_offset col + 4 \<le> length dst"
    and "drv_column_int64 drv stmt i w = Some (SQL_RDB_OK, scast (x :: 32 word), w1)"
  shows "\<exists>dst'. read_one drv stmt i col dst w = Some (SQL_RDB_OK, dst', w1) \<and>
           writes_only (col_offset col) (col_size col) dst dst' \<and> region col dst' = le_bytes 4 x"
proof -
  obtain dst' where d: "write_bytes dst (col_offset col) (le_bytes 4 x) = Some dst'"
    using write_bytes_Some [of "col_offset col" "le_bytes 4 x" dst] assms(3) by auto
  have s: "sint (scast x :: 64 word) = sint x" by (rule sint_up_scast) (simp add: is_up)
  have "- (2 ^ 31) \<le> sint x" "sint x \<le> 2 ^ 31 - 1" using sint_greater_eq [of x] sint_less [of x] by simp_all
  moreover have "ucast (scast x :: 64 word) = x"
    by (rule bit_word_eqI) (auto simp: bit_ucast_iff bit_signed_iff)
  ultimately have "read_one drv stmt i col dst w = Some (SQL_RDB_OK, dst', w1)"
    using assms d s by (simp add: read_one_def)
  then show ?thesis using write_bytes_only [OF d, of "col_offset col" "col_size col"] write_region [OF d] assms(2) by auto
qed

lemma read_one_word:
  assumes "col_type col = SQL_TYPE_INT64 \<and> drv_column_int64 drv stmt i w = Some (SQL_RDB_OK, x, w1) \<or>
      col_type col = SQL_TYPE_REAL \<and> drv_column_real drv stmt i w = Some (SQL_RDB_OK, x, w1)"
    and "col_size col = 8" and "col_offset col + 8 \<le> length dst"
  shows "\<exists>dst'. read_one drv stmt i col dst w = Some (SQL_RDB_OK, dst', w1) \<and>
           writes_only (col_offset col) (col_size col) dst dst' \<and> region col dst' = le_bytes 8 x"
proof -
  obtain dst' where d: "write_bytes dst (col_offset col) (le_bytes 8 x) = Some dst'"
    using write_bytes_Some [of "col_offset col" "le_bytes 8 x" dst] assms(3) by auto
  then have "read_one drv stmt i col dst w = Some (SQL_RDB_OK, dst', w1)"
    using assms(1) by (auto simp: read_one_def)
  then show ?thesis using write_bytes_only [OF d, of "col_offset col" "col_size col"] write_region [OF d] assms(2) by auto
qed

lemma read_one_blob:
  assumes "col_type col = SQL_TYPE_BLOB" and "col_size col = length b" and "col_offset col + length b \<le> length dst"
    and "drv_column_blob drv stmt i w = Some (SQL_RDB_OK, if b = [] then None else Some b, length b, w1)"
  shows "\<exists>dst'. read_one drv stmt i col dst w = Some (SQL_RDB_OK, dst', w1) \<and>
           writes_only (col_offset col) (col_size col) dst dst' \<and> region col dst' = b"
proof (cases "b = []")
  case True
  then show ?thesis using assms by (simp add: read_one_def copy_from_def region_def)
next
  case False
  obtain dst' where d: "write_bytes dst (col_offset col) b = Some dst'"
    using write_bytes_Some [of "col_offset col" b dst] assms(3) by auto
  then have "read_one drv stmt i col dst w = Some (SQL_RDB_OK, dst', w1)"
    using assms False by (simp add: read_one_def copy_from_def read_bytes_def)
  then show ?thesis using write_bytes_only [OF d, of "col_offset col" "col_size col"] write_region [OF d] assms(2) by auto
qed

lemma write_then_append:
  assumes "off + length xs + length ys \<le> length row"
  shows "\<exists>row1 row2. write_bytes row off xs = Some row1 \<and> write_bytes row1 (off + length xs) ys = Some row2 \<and>
           write_bytes row off (xs @ ys) = Some row2"
  using assms by (simp add: write_bytes_def ac_simps)

lemma read_one_text:
  assumes "col_type col = SQL_TYPE_TEXT" and len: "length t < col_size col"
    and b: "col_offset col + col_size col \<le> length dst" and nul: "NUL \<notin> set t"
    and srv: "drv_column_text drv stmt i w = Some (SQL_RDB_OK, Some (t @ [NUL]), length t, w1)"
  shows "\<exists>dst'. read_one drv stmt i col dst w = Some (SQL_RDB_OK, dst', w1) \<and>
           writes_only (col_offset col) (col_size col) dst dst' \<and>
           takeWhile (\<lambda>c. c \<noteq> NUL) (region col dst') = t"
proof -
  obtain d1 d2 where w: "write_bytes dst (col_offset col) t = Some d1"
      "write_bytes d1 (col_offset col + length t) [NUL] = Some d2" "write_bytes dst (col_offset col) (t @ [NUL]) = Some d2"
    using write_then_append [of "col_offset col" t "[NUL]" dst] len b by auto
  have c: "copy_from dst (col_offset col) (Some (t @ [NUL])) (length t) = Some d1"
    using w(1) by (cases "t = []") (auto simp: copy_from_def read_bytes_def write_bytes_def split: if_splits)
  have "(if length t < col_size col - 1 then length t else col_size col - 1) = length t" using len by auto
  then have run: "read_one drv stmt i col dst w = Some (SQL_RDB_OK, d2, w1)"
    using assms(1) srv c w(2) len by (auto simp: read_one_def Let_def)
  have "region col d2 = t @ NUL # take (col_size col - length t - 1) (drop (col_offset col + length t + 1) dst)"
    using w(3) len b by (auto simp: region_def write_bytes_def take_Cons' split: if_splits)
  then have "takeWhile (\<lambda>c. c \<noteq> NUL) (region col d2) = t" using nul by (simp add: takeWhile_append)
  then show ?thesis using run write_bytes_only [OF w(3), of "col_offset col" "col_size col"] len by auto
qed

text \<open>A value a column can hold without loss, and the answer of the driver that carries it.\<close>

definition cell_fits :: "column \<Rightarrow> cell \<Rightarrow> bool" where
  "cell_fits col c =
     (case c of
        Cell_Null \<Rightarrow> True
      | Cell_Int v \<Rightarrow> col_type col = SQL_TYPE_INT64 \<or> col_type col = SQL_TYPE_INT32 \<and> (\<exists>x :: 32 word. v = scast x)
      | Cell_Real v \<Rightarrow> col_type col = SQL_TYPE_REAL
      | Cell_Text t \<Rightarrow> col_type col = SQL_TYPE_TEXT \<and> length t < col_size col \<and> NUL \<notin> set t
      | Cell_Blob b \<Rightarrow> col_type col = SQL_TYPE_BLOB \<and> length b = col_size col)"

definition answered :: "'w SqlRDBDriver \<Rightarrow> ptr \<Rightarrow> 'w \<Rightarrow> int \<Rightarrow> cell \<Rightarrow> 'w \<Rightarrow> bool" where
  "answered drv stmt w i c w1 =
     (case c of
        Cell_Null \<Rightarrow> False
      | Cell_Int v \<Rightarrow> drv_column_int64 drv stmt i w = Some (SQL_RDB_OK, v, w1)
      | Cell_Real v \<Rightarrow> drv_column_real drv stmt i w = Some (SQL_RDB_OK, v, w1)
      | Cell_Text t \<Rightarrow> drv_column_text drv stmt i w = Some (SQL_RDB_OK, Some (t @ [NUL]), length t, w1)
      | Cell_Blob b \<Rightarrow> drv_column_blob drv stmt i w = Some (SQL_RDB_OK, if b = [] then None else Some b, length b, w1))"

lemma serves_answered: "serves drv stmt w i c \<Longrightarrow> c \<noteq> Cell_Null \<Longrightarrow> answered drv stmt w (int i) c w"
  by (cases c) (simp_all add: serves_def answered_def)

lemma column_cell_fits:
  assumes m: "member_ok (length src) col" and t: "terminated src col"
  shows "cell_fits col (column_cell col src)" and "column_cell col src \<noteq> Cell_Null"
proof -
  have len: "length (region col src) = col_size col" using m by (simp add: member_ok_def length_region)
  let ?t = "takeWhile (\<lambda>c. c \<noteq> NUL) (region col src)"
  have nul: "NUL \<notin> set ?t" by (auto dest: set_takeWhileD)
  have "length ?t < col_size col" if "col_type col = SQL_TYPE_TEXT"
  proof -
    have "?t \<noteq> region col src" using t that nul by (auto simp: terminated_def)
    then show ?thesis
      using len length_takeWhile_le [of "\<lambda>c. c \<noteq> NUL" "region col src"] takeWhile_eq_take
      by (metis le_neq_implies_less take_all_iff order_refl)
  qed
  then show "cell_fits col (column_cell col src)" "column_cell col src \<noteq> Cell_Null"
    using m len nul by (cases "col_type col"; auto simp: cell_fits_def column_cell_def member_ok_def)+
qed

lemma read_one_fits:
  assumes m: "member_ok (length dst) col" and fits: "cell_fits col c" and ans: "answered drv stmt w i c w1"
  shows "\<exists>dst'. read_one drv stmt i col dst w = Some (SQL_RDB_OK, dst', w1) \<and>
           writes_only (col_offset col) (col_size col) dst dst' \<and> column_cell col dst' = c"
proof -
  have b: "col_offset col + col_size col \<le> length dst" using m by (simp add: member_ok_def)
  show ?thesis
  proof (cases c)
    case Cell_Null
    then show ?thesis using ans by (simp add: answered_def)
  next
    case (Cell_Int v)
    then consider "col_type col = SQL_TYPE_INT64" | x :: "32 word" where "col_type col = SQL_TYPE_INT32" "v = scast x"
      using fits by (auto simp: cell_fits_def)
    then show ?thesis
    proof cases
      case 1
      then show ?thesis using read_one_word [of col drv stmt i w v w1 dst] m b ans Cell_Int
        by (auto simp: column_cell_def member_ok_def answered_def le_word_le_bytes)
    next
      case 2
      then show ?thesis using read_one_int32 [of col dst drv stmt i w x w1] m b ans Cell_Int
        by (auto simp: column_cell_def member_ok_def answered_def le_word_le_bytes)
    qed
  next
    case (Cell_Real v)
    then show ?thesis using read_one_word [of col drv stmt i w v w1 dst] m b ans fits
      by (auto simp: column_cell_def member_ok_def answered_def cell_fits_def le_word_le_bytes)
  next
    case (Cell_Text t)
    then show ?thesis using read_one_text [of col t dst drv stmt i w w1] b ans fits
      by (auto simp: column_cell_def answered_def cell_fits_def)
  next
    case (Cell_Blob bs)
    then show ?thesis using read_one_blob [of col bs dst drv stmt i w w1] b ans fits
      by (auto simp: column_cell_def answered_def cell_fits_def)
  qed
qed

lemma read_one_restores:
  assumes m: "member_ok (length src) col" and t: "terminated src col" and l: "length dst = length src"
    and srv: "serves drv stmt w i (column_cell col src)"
  shows "\<exists>dst'. read_one drv stmt (int i) col dst w = Some (SQL_RDB_OK, dst', w) \<and>
           writes_only (col_offset col) (col_size col) dst dst' \<and> column_cell col dst' = column_cell col src"
  using read_one_fits [OF _ column_cell_fits(1) [OF m t] serves_answered [OF srv column_cell_fits(2) [OF m t]]] m l by simp

definition disjoint_cols :: "column \<Rightarrow> column \<Rightarrow> bool" where
  "disjoint_cols c d \<longleftrightarrow>
     col_offset c + col_size c \<le> col_offset d \<or> col_offset d + col_size d \<le> col_offset c"

lemma column_cell_outside:
  assumes "writes_only (col_offset c) (col_size c) row row'" and "disjoint_cols c d" and "member_ok (length row) d"
  shows "column_cell d row' = column_cell d row"
proof -
  have l: "length row' = length row" using assms(1) by (simp add: writes_only_def)
  have "read_bytes row' (col_offset d) (col_size d) = read_bytes row (col_offset d) (col_size d)"
    using assms(1,2) by (auto simp: writes_only_def disjoint_cols_def)
  then have "region d row' = region d row"
    using region_read [of d row] region_read [of d row'] assms(3) l by (simp add: member_ok_def)
  then show ?thesis unfolding column_cell_def by (simp only:)
qed

text \<open>The bitmap after reading: the bits of the NULL columns among \<open>i ..< i + n\<close> are added.\<close>

definition null_bits_added :: "(nat \<Rightarrow> bool) \<Rightarrow> nat \<Rightarrow> nat \<Rightarrow> null_map \<Rightarrow> null_map \<Rightarrow> bool" where
  "null_bits_added nulls i n nm nm' \<longleftrightarrow>
     (case (nm, nm') of
        (None, None) \<Rightarrow> True
      | (Some bs, Some bs') \<Rightarrow> length bs' = length bs \<and>
          (\<forall>j. j div 8 < length bs \<longrightarrow>
             c2sql_internal_null_bit_get nm' j =
             map_option (\<lambda>b. b \<or> i \<le> j \<and> j < i + n \<and> nulls j) (c2sql_internal_null_bit_get nm j))
      | _ \<Rightarrow> False)"

definition map_fits :: "nat \<Rightarrow> null_map \<Rightarrow> bool" where
  "map_fits n nm \<longleftrightarrow> (case nm of None \<Rightarrow> True | Some bs \<Rightarrow> SQL_RDB_NULL_BITMAP_BYTES n \<le> length bs)"

lemma null_bits_added_refl: "null_bits_added nulls i 0 nm nm"
  by (auto simp: null_bits_added_def null_bit_get_bit split: option.splits)

lemma null_bits_added_skip:
  "\<not> nulls i \<Longrightarrow> null_bits_added nulls (Suc i) n nm nm' \<Longrightarrow> null_bits_added nulls i (Suc n) nm nm'"
  by (auto simp: null_bits_added_def Suc_le_eq le_less null_bit_get_bit split: option.splits)

lemma null_bits_added_set:
  assumes "nulls i" and fit: "map_fits N nm" "i < N"
  shows "\<exists>nm1. c2sql_internal_null_bit_set nm i = Some nm1 \<and> map_fits N nm1 \<and>
           (\<forall>n nm'. null_bits_added nulls (Suc i) n nm1 nm' \<longrightarrow> null_bits_added nulls i (Suc n) nm nm')"
proof (cases nm)
  case None
  then show ?thesis by (simp add: c2sql_internal_null_bit_set_def null_bits_added_def map_fits_def split: option.splits)
next
  case (Some bs)
  have i: "i div 8 < length bs" using bitmap_bytes_enough [OF fit(2)] fit(1) Some by (simp add: map_fits_def)
  obtain bs1 where st: "c2sql_internal_null_bit_set (Some bs) i = Some (Some bs1)" and l: "length bs1 = length bs"
    using i by (simp add: c2sql_internal_null_bit_set_def index_bits nth_opt_def)
  note get = null_bit_get_set [OF st]
  have "null_bits_added nulls i (Suc n) nm nm'" if a: "null_bits_added nulls (Suc i) n (Some bs1) nm'" for n nm'
  proof -
    obtain bs' where bs': "nm' = Some bs'" "length bs' = length bs"
      "\<And>j. j div 8 < length bs \<Longrightarrow> c2sql_internal_null_bit_get nm' j =
         map_option (\<lambda>b. b \<or> Suc i \<le> j \<and> j < Suc i + n \<and> nulls j) (c2sql_internal_null_bit_get (Some bs1) j)"
      using a l by (auto simp: null_bits_added_def split: option.splits)
    have "c2sql_internal_null_bit_get nm' j =
        map_option (\<lambda>b. b \<or> i \<le> j \<and> j < i + Suc n \<and> nulls j) (c2sql_internal_null_bit_get (Some bs) j)"
      if "j div 8 < length bs" for j
      unfolding bs'(3) [OF that] get [OF that] using assms(1) that
      by (auto simp: null_bit_get_bit)
    then show ?thesis using bs'(1,2) Some by (simp add: null_bits_added_def)
  qed
  then show ?thesis using st l fit(1) Some by (auto simp: map_fits_def)
qed

text \<open>
  Reading a row restores every member: if the statement is positioned on a row that holds the values
  of the members of \<open>src\<close> (and NULL in the columns \<open>nulls\<close>), the members of the destination
  that are not NULL get the values they have in \<open>src\<close>, and the bitmap gets the NULL bits.
\<close>

lemma read_cols_restores:
  assumes "\<forall>k < length cols. serves drv stmt w (i + k) (if nulls (i + k) then Cell_Null else column_cell (cols ! k) src)"
    and "\<forall>col \<in> set cols. member_ok (length src) col \<and> terminated src col"
    and "pairwise disjoint_cols (set cols)" and "distinct cols"
    and "length dst = length src" and "map_fits N nm" and "i + length cols \<le> N"
  shows "\<exists>dst' nm'. read_cols drv stmt i cols tr dst nm w =
             Some (if tr then SQL_RDB_WARN_TRUNCATED else SQL_RDB_OK, dst', nm', w) \<and>
           length dst' = length src \<and> null_bits_added nulls i (length cols) nm nm' \<and>
           (\<forall>k < length cols. \<not> nulls (i + k) \<longrightarrow> column_cell (cols ! k) dst' = column_cell (cols ! k) src) \<and>
           (\<forall>d. (\<forall>c \<in> set cols. disjoint_cols c d) \<and> member_ok (length src) d \<longrightarrow> column_cell d dst' = column_cell d dst)"
  using assms
proof (induction cols arbitrary: i dst nm)
  case Nil
  then show ?case by (simp add: null_bits_added_refl)
next
  case (Cons col cols)
  have srv: "serves drv stmt w i (if nulls i then Cell_Null else column_cell col src)" using Cons.prems(1) by force
  have srvs: "\<forall>k < length cols. serves drv stmt w (Suc i + k) (if nulls (Suc i + k) then Cell_Null else column_cell (cols ! k) src)"
    using Cons.prems(1) by force
  have mem: "\<forall>c \<in> set cols. member_ok (length src) c \<and> terminated src c" and pw: "pairwise disjoint_cols (set cols)"
    and dj: "\<forall>c \<in> set cols. disjoint_cols col c \<and> disjoint_cols c col" and mc: "member_ok (length src) col" "terminated src col"
    using Cons.prems(2,3,4) by (auto simp: pairwise_insert)
  have iN: "i < N" "Suc i + length cols \<le> N" using Cons.prems(7) by simp_all
  note IH = Cons.IH [OF srvs mem pw]
  show ?case
  proof (cases "nulls i")
    case True
    obtain nm1 where nm1: "c2sql_internal_null_bit_set nm i = Some nm1" "map_fits N nm1"
      "\<And>n nm'. null_bits_added nulls (Suc i) n nm1 nm' \<Longrightarrow> null_bits_added nulls i (Suc n) nm nm'"
      using null_bits_added_set [of nulls, OF True Cons.prems(6) iN(1)] by blast
    show ?thesis
      using IH [OF _ Cons.prems(5) nm1(2) iN(2)] Cons.prems(4) nm1(1,3) srv True
      by (fastforce simp: serves_def less_Suc_eq_0_disj)
  next
    case False
    obtain d1 where d1: "read_one drv stmt (int i) col dst w = Some (SQL_RDB_OK, d1, w)"
      "writes_only (col_offset col) (col_size col) dst d1" "column_cell col d1 = column_cell col src"
      using read_one_restores [OF mc Cons.prems(5), of drv stmt w i] srv False by auto
    have l1: "length d1 = length src" using d1(2) Cons.prems(5) by (simp add: writes_only_def)
    have nn: "column_cell col src \<noteq> Cell_Null"
      using mc(1) by (auto simp: column_cell_def member_ok_def split: SqlRDBType.splits)
    obtain d2 nm2 where d2: "read_cols drv stmt (Suc i) cols tr d1 nm w =
        Some (if tr then SQL_RDB_WARN_TRUNCATED else SQL_RDB_OK, d2, nm2, w)"
      "length d2 = length src" "null_bits_added nulls (Suc i) (length cols) nm nm2"
      "\<forall>k < length cols. \<not> nulls (Suc i + k) \<longrightarrow> column_cell (cols ! k) d2 = column_cell (cols ! k) src"
      "\<forall>d. (\<forall>c \<in> set cols. disjoint_cols c d) \<and> member_ok (length src) d \<longrightarrow> column_cell d d2 = column_cell d d1"
      using IH [OF _ l1 Cons.prems(6) iN(2)] Cons.prems(4) by auto
    have "column_cell col d2 = column_cell col src" using d2(5) dj mc(1) d1(3) by metis
    moreover have "column_cell d d2 = column_cell d dst"
      if "\<forall>c \<in> set (col # cols). disjoint_cols c d" "member_ok (length src) d" for d
      using that d2(5) column_cell_outside [OF d1(2)] Cons.prems(5) by (metis list.set_intros)
    ultimately show ?thesis
      using d1(1) d2(1,2,4) null_bits_added_skip [of nulls, OF False d2(3)] srv False nn
      by (auto simp: serves_def less_Suc_eq_0_disj)
  qed
qed

section \<open>Binding\<close>

lemma bounded_strlen_take:
  "k \<le> length s \<Longrightarrow> bounded_strlen s k = Some (length (takeWhile (\<lambda>c. c \<noteq> NUL) (take k s)))"
proof (induction s k rule: bounded_strlen.induct)
  case (3 c cs k)
  then show ?case by (cases "c = NUL") auto
qed auto

text \<open>The driver call that carries a member of a struct.\<close>

lemma bind_one_member:
  assumes m: "member_ok (length row) col" and sz: "col_size col < 2 ^ 31"
  shows "bind_one drv stmt i col row w =
    (case col_type col of
       SQL_TYPE_INT32 \<Rightarrow> drv_bind_int32 drv stmt i (le_word (region col row)) w
     | SQL_TYPE_INT64 \<Rightarrow> drv_bind_int64 drv stmt i (le_word (region col row)) w
     | SQL_TYPE_REAL \<Rightarrow> drv_bind_real drv stmt i (le_word (region col row)) w
     | SQL_TYPE_TEXT \<Rightarrow> drv_bind_text drv stmt i (Some (drop (col_offset col) row))
         (int (length (takeWhile (\<lambda>c. c \<noteq> NUL) (region col row)))) w
     | SQL_TYPE_BLOB \<Rightarrow> drv_bind_blob drv stmt i (Some (drop (col_offset col) row)) (col_size col) w
     | SQL_TYPE_OTHER _ \<Rightarrow> Some (SQL_RDB_ERR_INTERNAL, w))"
proof -
  have off: "col_offset col + col_size col \<le> length row" using m by (simp add: member_ok_def)
  then have base: "at_offset row (col_offset col) = Some (drop (col_offset col) row)" by (simp add: at_offset_def)
  have rd: "read_bytes (drop (col_offset col) row) 0 (col_size col) = Some (region col row)"
    using off by (simp add: read_bytes_def region_def)
  let ?t = "takeWhile (\<lambda>c. c \<noteq> NUL) (region col row)"
  have n: "bounded_strlen (drop (col_offset col) row) (col_size col) = Some (length ?t)"
    using bounded_strlen_take [of "col_size col" "drop (col_offset col) row"] off by (simp add: region_def)
  have "length ?t \<le> INT_MAX"
    using length_takeWhile_le [of "\<lambda>c. c \<noteq> NUL" "region col row"] length_region [OF off] sz by (simp add: INT_MAX_def)
  then show ?thesis using m base rd n by (cases "col_type col") (simp_all add: bind_one_def member_ok_def Let_def)
qed

text \<open>The values of a row, with the columns \<open>nulls\<close> NULL.\<close>

definition row_cells :: "(nat \<Rightarrow> bool) \<Rightarrow> nat \<Rightarrow> column list \<Rightarrow> char list \<Rightarrow> cell list" where
  "row_cells nulls i cols row = map (\<lambda>(k, c). if nulls k then Cell_Null else column_cell c row) (enumerate i cols)"

end
