(* ===== verification/Crud.thy ===== *)
theory Crud
  imports Query_Builder Type_Mapping
begin

text \<open>
  The row operations of \<^verbatim>\<open>src/c2sql.c\<close>: statement acquisition through the cache, parameter
  binding, \<^verbatim>\<open>SqlRDBWrite\<close>, \<^verbatim>\<open>SqlRDBWriteMany\<close>, \<^verbatim>\<open>SqlRDBRead\<close>, the multi-row
  iterator, \<^verbatim>\<open>SqlRDBDelete\<close>, \<^verbatim>\<open>SqlRDBCount\<close> and the BLOB field functions.
\<close>

section \<open>Internal helpers\<close>

text \<open>The value of a leaf bound at index \<open>i\<close>.\<close>

fun bind_leaf :: "'w SqlRDBDriver \<Rightarrow> ptr \<Rightarrow> int \<Rightarrow> cond_value \<Rightarrow> 'w \<Rightarrow> (SqlRDBResult \<times> 'w) option" where
  "bind_leaf drv stmt i (CV_int v) w = drv_bind_int64 drv stmt i v w"
| "bind_leaf drv stmt i (CV_real v) w = drv_bind_real drv stmt i v w"
| "bind_leaf drv stmt i (CV_text t) w = drv_bind_text drv stmt i (Some (t @ [NUL])) (-1) w"
| "bind_leaf drv stmt i (CV_blob p n) w = drv_bind_blob drv stmt i (Some p) n w"

fun bind_cond_values ::
  "'w SqlRDBDriver \<Rightarrow> ptr \<Rightarrow> SqlRDBCondition \<Rightarrow> int \<Rightarrow> 'w \<Rightarrow> (SqlRDBResult \<times> int \<times> 'w) option" where
  "bind_cond_values drv stmt COND_ALL idx w = Some (SQL_RDB_OK, idx, w)"
| "bind_cond_values drv stmt (COND_LEAF col oper v) idx w =
     do { (r, w) \<leftarrow> bind_leaf drv stmt idx v w; Some (r, idx + 1, w) }"
| "bind_cond_values drv stmt (COND_AND a b) idx w =
     do {
       (r, idx, w) \<leftarrow> bind_cond_values drv stmt a idx w;
       if r \<noteq> SQL_RDB_OK then Some (r, idx, w) else bind_cond_values drv stmt b idx w
     }"
| "bind_cond_values drv stmt (COND_OR a b) idx w =
     do {
       (r, idx, w) \<leftarrow> bind_cond_values drv stmt a idx w;
       if r \<noteq> SQL_RDB_OK then Some (r, idx, w) else bind_cond_values drv stmt b idx w
     }"

text \<open>\<^verbatim>\<open>if (cond && cond->kind != COND_ALL) { int idx = first; r = bind_cond_values(...); }\<close>.\<close>

definition bind_cond_from ::
  "'w SqlRDBDriver \<Rightarrow> ptr \<Rightarrow> SqlRDBCondition option \<Rightarrow> int \<Rightarrow> 'w \<Rightarrow> (SqlRDBResult \<times> 'w) option" where
  "bind_cond_from drv stmt cond first w =
     (case cond of None \<Rightarrow> Some (SQL_RDB_OK, w)
      | Some c \<Rightarrow>
          if c = COND_ALL then Some (SQL_RDB_OK, w)
          else do { (r, idx, w) \<leftarrow> bind_cond_values drv stmt c first w; Some (r, w) })"

text \<open>The result, \<^verbatim>\<open>*out_stmt\<close>, \<^verbatim>\<open>*out_owned\<close> and the changed state.\<close>

definition get_or_prepare ::
  "'w SqlRDBHandle \<Rightarrow> string \<Rightarrow> 'w \<Rightarrow> mem \<Rightarrow> (SqlRDBResult \<times> ptr option \<times> bool \<times> 'w SqlRDBHandle \<times> 'w \<times> mem) option" where
  "get_or_prepare h sql w m =
     do {
       (r, stmt, c) \<leftarrow> c2sql_internal_cache_get (cache h) sql;
       let h = h\<lparr>cache := c\<rparr>;
       if r = SQL_RDB_OK then Some (SQL_RDB_OK, stmt, False, h, w, m)
       else do {
         drv \<leftarrow> driver h;
         ctx \<leftarrow> driver_ctx h;
         (r, stmt, w) \<leftarrow> drv_prepare drv ctx sql w;
         if r \<noteq> SQL_RDB_OK then Some (r, None, False, h, w, m)
         else if capacity (cache h) = 0 then Some (SQL_RDB_OK, stmt, True, h, w, m)
         else do {
           s \<leftarrow> stmt;
           (r, c, w, m) \<leftarrow> c2sql_internal_cache_put (cache h) sql s (Some drv) w m;
           let h = h\<lparr>cache := c\<rparr>;
           if r \<noteq> SQL_RDB_OK then Some (r, None, False, h, w, m)
           else do {
             (r, stmt, c) \<leftarrow> c2sql_internal_cache_get (cache h) sql;
             let h = h\<lparr>cache := c\<rparr>;
             if r \<noteq> SQL_RDB_OK then Some (SQL_RDB_ERR_INTERNAL, None, False, h, w, m)
             else Some (SQL_RDB_OK, stmt, False, h, w, m)
           }
         }
       }
     }"

definition release_cached_stmt :: "'w SqlRDBHandle \<Rightarrow> ptr \<Rightarrow> bool \<Rightarrow> 'w \<Rightarrow> 'w option" where
  "release_cached_stmt h stmt owned w =
     do {
       drv \<leftarrow> driver h;
       (r, w) \<leftarrow> (if owned then drv_finalize drv stmt w else drv_reset drv stmt w);
       Some w
     }"

text \<open>
  The lookup at the start of every row operation: an unknown struct is recorded as the last error.
  \<open>out\<close> is what the operation leaves in its output arguments in that case.
\<close>

definition with_schema ::
  "'w SqlRDBHandle \<Rightarrow> string \<Rightarrow> string \<Rightarrow> 's \<Rightarrow> (SqlRDBSchema \<Rightarrow> (SqlRDBResult \<times> 'w SqlRDBHandle \<times> 's) option)
     \<Rightarrow> (SqlRDBResult \<times> 'w SqlRDBHandle \<times> 's) option" where
  "with_schema h fname name out body =
     (case c2sql_internal_schema_lookup h (Some name) of
        None \<Rightarrow> Some (SQL_RDB_ERR_UNKNOWN_STRUCT,
                      set_error h SQL_RDB_ERR_UNKNOWN_STRUCT (fname @ '': unknown struct '' @ squote name), out)
      | Some p \<Rightarrow> do { schema \<leftarrow> schema_at (registry h) p; body schema })"

definition query ::
  "C2SqlQBOp \<Rightarrow> SqlRDBSchema \<Rightarrow> SqlRDBCondition option \<Rightarrow> string option \<Rightarrow> C2SqlDialect \<Rightarrow> SqlRDBQuerySpec" where
  "query oper schema cond target d =
     \<lparr>qs_op = oper, qs_schema = schema, qs_cond = cond, qs_new_col = None, qs_target_col = target, qs_dialect = d\<rparr>"

text \<open>
  \<^verbatim>\<open>c2sql_internal_qb_build\<close> followed by \<^verbatim>\<open>get_or_prepare\<close>, or by the driver's
  \<^verbatim>\<open>prepare\<close> where the caller bypasses the cache.
\<close>

definition build_and_get ::
  "'w SqlRDBHandle \<Rightarrow> SqlRDBQuerySpec \<Rightarrow> 'w \<Rightarrow> mem
     \<Rightarrow> (SqlRDBResult \<times> (ptr \<times> bool) option \<times> 'w SqlRDBHandle \<times> 'w \<times> mem) option" where
  "build_and_get h spec w m =
     do {
       (r, sql, k, m) \<leftarrow> c2sql_internal_qb_build spec m;
       if r \<noteq> SQL_RDB_OK then Some (r, None, h, w, m)
       else do {
         text \<leftarrow> sql;
         (r, stmt, owned, h, w, m) \<leftarrow> get_or_prepare h text w m;
         if r \<noteq> SQL_RDB_OK then Some (r, None, h, w, m)
         else do { s \<leftarrow> stmt; Some (SQL_RDB_OK, Some (s, owned), h, w, m) }
       }
     }"

definition build_and_prepare ::
  "'w SqlRDBHandle \<Rightarrow> SqlRDBQuerySpec \<Rightarrow> 'w \<Rightarrow> mem \<Rightarrow> (SqlRDBResult \<times> ptr option \<times> 'w \<times> mem) option" where
  "build_and_prepare h spec w m =
     do {
       (r, sql, k, m) \<leftarrow> c2sql_internal_qb_build spec m;
       if r \<noteq> SQL_RDB_OK then Some (r, None, w, m)
       else do {
         text \<leftarrow> sql;
         drv \<leftarrow> driver h;
         ctx \<leftarrow> driver_ctx h;
         (r, stmt, w) \<leftarrow> drv_prepare drv ctx text w;
         if r \<noteq> SQL_RDB_OK then Some (r, None, w, m)
         else do { s \<leftarrow> stmt; Some (SQL_RDB_OK, Some s, w, m) }
       }
     }"

section \<open>Writing\<close>

definition write_op :: "SqlRDBSchema \<Rightarrow> C2SqlQBOp" where
  "write_op schema = (if 0 \<le> pk_index schema then C2SQL_QB_UPSERT else C2SQL_QB_INSERT)"

definition SqlRDBWrite ::
  "'w SqlRDBHandle \<Rightarrow> string option \<Rightarrow> char list option \<Rightarrow> null_map \<Rightarrow> 'w \<Rightarrow> mem
     \<Rightarrow> (SqlRDBResult \<times> 'w SqlRDBHandle \<times> 'w \<times> mem) option" where
  "SqlRDBWrite h struct_name row nm w m =
     (if \<not> c2sql_handle_valid (Some h) then Some (SQL_RDB_ERR_INVALID_HANDLE, h, w, m)
      else case (struct_name, row) of
        (Some name, Some row) \<Rightarrow>
          locked h (\<lambda>h. with_schema h ''Write'' name (w, m) (\<lambda>schema.
            do {
              drv \<leftarrow> driver h;
              (r, st, h, w, m) \<leftarrow> build_and_get h (query (write_op schema) schema None None (drv_dialect drv)) w m;
              case st of None \<Rightarrow> Some (r, h, w, m)
              | Some (stmt, owned) \<Rightarrow>
                  do {
                    (r, w) \<leftarrow> c2sql_internal_tm_bind_row drv stmt schema (Some row) nm w;
                    if r \<noteq> SQL_RDB_OK then do {
                      w \<leftarrow> release_cached_stmt h stmt owned w;
                      Some (r, h, w, m)
                    } else do {
                      (r, has_row, w) \<leftarrow> drv_step drv stmt w;
                      w \<leftarrow> release_cached_stmt h stmt owned w;
                      Some (r, if r \<noteq> SQL_RDB_OK then set_error h r ''Write: step failed'' else h, w, m)
                    }
                  }
            }))
      | _ \<Rightarrow> Some (SQL_RDB_ERR_INVALID_ARG, h, w, m))"

text \<open>The loop of \<^verbatim>\<open>SqlRDBWriteMany\<close> over the \<open>k\<close> rows from row \<open>i\<close> on.\<close>

fun write_rows ::
  "'w SqlRDBDriver \<Rightarrow> ptr \<Rightarrow> SqlRDBSchema \<Rightarrow> char list \<Rightarrow> nat \<Rightarrow> null_map \<Rightarrow> nat \<Rightarrow> nat \<Rightarrow> 'w
     \<Rightarrow> (SqlRDBResult \<times> 'w) option" where
  "write_rows drv stmt schema rows stride nms i 0 w = Some (SQL_RDB_OK, w)"
| "write_rows drv stmt schema rows stride nms i (Suc k) w =
     do {
       row \<leftarrow> at_offset rows (i * stride);
       let bitmap_bytes = SQL_RDB_NULL_BITMAP_BYTES (length (sch_cols schema));
       nm \<leftarrow> (case nms of None \<Rightarrow> Some None
              | Some bs \<Rightarrow> if i * bitmap_bytes \<le> length bs then Some (Some (drop (i * bitmap_bytes) bs)) else None);
       (r, w) \<leftarrow> c2sql_internal_tm_bind_row drv stmt schema (Some row) nm w;
       if r \<noteq> SQL_RDB_OK then Some (r, w)
       else do {
         (r, has_row, w) \<leftarrow> drv_step drv stmt w;
         (r2, w) \<leftarrow> drv_reset drv stmt w;
         if r \<noteq> SQL_RDB_OK then Some (r, w) else write_rows drv stmt schema rows stride nms (Suc i) k w
       }
     }"

definition SqlRDBWriteMany ::
  "'w SqlRDBHandle \<Rightarrow> string option \<Rightarrow> char list option \<Rightarrow> nat \<Rightarrow> nat \<Rightarrow> null_map \<Rightarrow> 'w \<Rightarrow> mem
     \<Rightarrow> (SqlRDBResult \<times> 'w SqlRDBHandle \<times> 'w \<times> mem) option" where
  "SqlRDBWriteMany h struct_name rows count stride nms w m =
     (if \<not> c2sql_handle_valid (Some h) then Some (SQL_RDB_ERR_INVALID_HANDLE, h, w, m)
      else case (struct_name, rows) of
        (Some name, Some rows) \<Rightarrow>
          if count = 0 \<or> stride = 0 then Some (SQL_RDB_ERR_INVALID_ARG, h, w, m)
          else locked h (\<lambda>h. with_schema h ''WriteMany'' name (w, m) (\<lambda>schema.
            do {
              drv \<leftarrow> driver h;
              ctx \<leftarrow> driver_ctx h;
              (r, st, h, w, m) \<leftarrow> build_and_get h (query (write_op schema) schema None None (drv_dialect drv)) w m;
              case st of None \<Rightarrow> Some (r, h, w, m)
              | Some (stmt, owned) \<Rightarrow>
                  do {
                    let implicit_tx = (txn_depth (txn h) = 0);
                    (br, w) \<leftarrow> (if implicit_tx then drv_begin drv ctx w else Some (SQL_RDB_OK, w));
                    if br \<noteq> SQL_RDB_OK then do {
                      w \<leftarrow> release_cached_stmt h stmt owned w;
                      Some (br, h, w, m)
                    } else do {
                      (r, w) \<leftarrow> write_rows drv stmt schema rows stride nms 0 count w;
                      (r2, w) \<leftarrow> (if implicit_tx then
                                     if r = SQL_RDB_OK then drv_commit drv ctx w else drv_rollback drv ctx w
                                   else Some (SQL_RDB_OK, w));
                      w \<leftarrow> release_cached_stmt h stmt owned w;
                      Some (r, h, w, m)
                    }
                  }
            }))
      | _ \<Rightarrow> Some (SQL_RDB_ERR_INVALID_ARG, h, w, m))"

section \<open>Reading one row\<close>

text \<open>The extent of the struct as the schema describes it (\<^verbatim>\<open>size_t\<close> arithmetic).\<close>

definition row_extent :: "column list \<Rightarrow> nat" where
  "row_extent cols =
     foldl (\<lambda>b c. let e = (col_offset c + col_size c) mod 2 ^ 64 in if b < e then e else b) 0 cols"

text \<open>\<^verbatim>\<open>for (i < nm_bytes) out_null_map[i] |= tmp_null[i]\<close>.\<close>

definition merge_null_map :: "null_map \<Rightarrow> null_map \<Rightarrow> nat \<Rightarrow> null_map option" where
  "merge_null_map out tmp n =
     (case (out, tmp) of
        (Some bs, Some ts) \<Rightarrow>
          if n \<le> length bs \<and> n \<le> length ts
          then Some (Some (map2 (OR) (take n bs) (take n ts) @ drop n bs)) else None
      | _ \<Rightarrow> Some out)"

text \<open>
  The part of \<^verbatim>\<open>SqlRDBRead\<close> for a caller that expects a single row, with the statement on its
  first row: read into a temporary, look for a second row, then publish.
\<close>

definition read_single ::
  "'w SqlRDBHandle \<Rightarrow> 'w SqlRDBDriver \<Rightarrow> SqlRDBSchema \<Rightarrow> ptr \<Rightarrow> bool \<Rightarrow> char list \<Rightarrow> null_map \<Rightarrow> 'w \<Rightarrow> mem
     \<Rightarrow> (SqlRDBResult \<times> 'w SqlRDBHandle \<times> char list \<times> null_map \<times> 'w \<times> mem) option" where
  "read_single h drv schema stmt owned out_row out_nm w m =
     (let buf_size = row_extent (sch_cols schema);
          (ok, m) = alloc m
      in if \<not> ok then do {
           w \<leftarrow> release_cached_stmt h stmt owned w;
           Some (SQL_RDB_ERR_NO_MEMORY, h, out_row, out_nm, w, m)
         } else
         let tmp_row = replicate (if buf_size = 0 then 1 else buf_size) NUL;
             nm_bytes = SQL_RDB_NULL_BITMAP_BYTES (length (sch_cols schema));
             (ok, m) = (if out_nm = None then (False, m) else alloc m);
             tmp_null = (if ok then Some (replicate (if nm_bytes = 0 then 1 else nm_bytes) 0) else None)
         in do {
           (read_rc, tmp, tmp_null, w) \<leftarrow> c2sql_internal_tm_read_row drv stmt schema (Some tmp_row) tmp_null w;
           tmp_row \<leftarrow> tmp;
           if read_rc \<noteq> SQL_RDB_OK \<and> read_rc \<noteq> SQL_RDB_WARN_TRUNCATED then do {
             w \<leftarrow> release_cached_stmt h stmt owned w;
             Some (read_rc, h, out_row, out_nm, w, m)
           } else do {
             (r, has_row2, w) \<leftarrow> drv_step drv stmt w;
             w \<leftarrow> release_cached_stmt h stmt owned w;
             if r \<noteq> SQL_RDB_OK \<or> has_row2 then
               Some (if has_row2 then SQL_RDB_ERR_MULTIPLE_ROWS else r, h, out_row, out_nm, w, m)
             else do {
               out_row \<leftarrow> write_bytes out_row 0 (take buf_size tmp_row);
               out_nm \<leftarrow> merge_null_map out_nm tmp_null nm_bytes;
               Some (read_rc, h, out_row, out_nm, w, m)
             }
           }
         })"

definition SqlRDBRead ::
  "'w SqlRDBHandle \<Rightarrow> string option \<Rightarrow> SqlRDBCondition option \<Rightarrow> char list option \<Rightarrow> null_map \<Rightarrow> SqlRDBReadOpts option
     \<Rightarrow> 'w \<Rightarrow> mem \<Rightarrow> (SqlRDBResult \<times> 'w SqlRDBHandle \<times> char list option \<times> null_map \<times> 'w \<times> mem) option" where
  "SqlRDBRead h struct_name cond out_row out_nm opts w m =
     (if \<not> c2sql_handle_valid (Some h) then Some (SQL_RDB_ERR_INVALID_HANDLE, h, out_row, out_nm, w, m)
      else case (struct_name, out_row) of
        (Some name, Some row) \<Rightarrow>
          do {
            (r, h, row, nm, w, m) \<leftarrow> locked h (\<lambda>h. with_schema h ''Read'' name (row, out_nm, w, m) (\<lambda>schema.
              do {
                let allow = ((case opts of None \<Rightarrow> False | Some o2 \<Rightarrow> allow_multi o2) \<or> multirow_default (config h) = 1);
                drv \<leftarrow> driver h;
                (r, st, h, w, m) \<leftarrow> build_and_get h (query C2SQL_QB_SELECT schema cond None (drv_dialect drv)) w m;
                case st of None \<Rightarrow> Some (r, h, row, out_nm, w, m)
                | Some (stmt, owned) \<Rightarrow>
                    do {
                      (r, w) \<leftarrow> bind_cond_from drv stmt cond 1 w;
                      if r \<noteq> SQL_RDB_OK then do {
                        w \<leftarrow> release_cached_stmt h stmt owned w;
                        Some (r, h, row, out_nm, w, m)
                      } else do {
                        (r, has_row, w) \<leftarrow> drv_step drv stmt w;
                        if r \<noteq> SQL_RDB_OK then do {
                          w \<leftarrow> release_cached_stmt h stmt owned w;
                          Some (r, h, row, out_nm, w, m)
                        } else if \<not> has_row then do {
                          w \<leftarrow> release_cached_stmt h stmt owned w;
                          Some (SQL_RDB_ERR_NOT_FOUND, h, row, out_nm, w, m)
                        } else if allow then do {
                          (r, row, nm, w) \<leftarrow> c2sql_internal_tm_read_row drv stmt schema (Some row) out_nm w;
                          row \<leftarrow> row;
                          w \<leftarrow> release_cached_stmt h stmt owned w;
                          Some (r, h, row, nm, w, m)
                        } else read_single h drv schema stmt owned row out_nm w m
                      }
                    }
              }));
            Some (r, h, Some row, nm, w, m)
          }
      | _ \<Rightarrow> Some (SQL_RDB_ERR_INVALID_ARG, h, out_row, out_nm, w, m))"

section \<open>Iterating over many rows\<close>

text \<open>
  \<^verbatim>\<open>struct SqlRDBStmt\<close>: the raw statement and the pointer to the schema. The handle it refers
  back to is an argument of the operations.
\<close>

record SqlRDBStmt =
  raw_stmt :: ptr
  it_schema :: schema_ptr

definition SqlRDBReadMany ::
  "'w SqlRDBHandle \<Rightarrow> string option \<Rightarrow> SqlRDBCondition option \<Rightarrow> bool \<Rightarrow> 'w \<Rightarrow> mem
     \<Rightarrow> (SqlRDBResult \<times> 'w SqlRDBHandle \<times> SqlRDBStmt option \<times> 'w \<times> mem) option" where
  "SqlRDBReadMany h struct_name cond out_stmt_given w m =
     (if \<not> c2sql_handle_valid (Some h) then Some (SQL_RDB_ERR_INVALID_HANDLE, h, None, w, m)
      else case struct_name of
        None \<Rightarrow> Some (SQL_RDB_ERR_INVALID_ARG, h, None, w, m)
      | Some name \<Rightarrow>
          if \<not> out_stmt_given then Some (SQL_RDB_ERR_INVALID_ARG, h, None, w, m)
          else locked h (\<lambda>h. with_schema h ''ReadMany'' name (None, w, m) (\<lambda>schema.
            do {
              drv \<leftarrow> driver h;
              sp \<leftarrow> c2sql_internal_schema_lookup h (Some name);
              (r, st, w, m) \<leftarrow> build_and_prepare h (query C2SQL_QB_SELECT schema cond None (drv_dialect drv)) w m;
              case st of None \<Rightarrow> Some (r, h, None, w, m)
              | Some raw \<Rightarrow>
                  do {
                    (r, w) \<leftarrow> bind_cond_from drv raw cond 1 w;
                    if r \<noteq> SQL_RDB_OK then do {
                      (r2, w) \<leftarrow> drv_finalize drv raw w;
                      Some (r, h, None, w, m)
                    } else
                      let (ok, m) = alloc m in
                      if \<not> ok then do {
                        (r2, w) \<leftarrow> drv_finalize drv raw w;
                        Some (SQL_RDB_ERR_NO_MEMORY, h, None, w, m)
                      } else Some (SQL_RDB_OK, h, Some \<lparr>raw_stmt = raw, it_schema = sp\<rparr>, w, m)
                  }
            })))"

definition SqlRDBStmtNext ::
  "SqlRDBStmt option \<Rightarrow> 'w SqlRDBHandle \<Rightarrow> char list option \<Rightarrow> null_map \<Rightarrow> 'w
     \<Rightarrow> (SqlRDBResult \<times> 'w SqlRDBHandle \<times> char list option \<times> null_map \<times> 'w) option" where
  "SqlRDBStmtNext it h out_row out_nm w =
     (case (it, out_row) of
        (Some it, Some row) \<Rightarrow>
          locked h (\<lambda>h.
            do {
              drv \<leftarrow> driver h;
              (r, has_row, w) \<leftarrow> drv_step drv (raw_stmt it) w;
              if r \<noteq> SQL_RDB_OK then Some (r, h, Some row, out_nm, w)
              else if \<not> has_row then Some (SQL_RDB_ERR_NOT_FOUND, h, Some row, out_nm, w)
              else do {
                schema \<leftarrow> schema_at (registry h) (it_schema it);
                (r, row, nm, w) \<leftarrow> c2sql_internal_tm_read_row drv (raw_stmt it) schema (Some row) out_nm w;
                Some (r, h, row, nm, w)
              }
            })
      | _ \<Rightarrow> Some (SQL_RDB_ERR_INVALID_ARG, h, out_row, out_nm, w))"

definition SqlRDBStmtFree ::
  "SqlRDBStmt option \<Rightarrow> 'w SqlRDBHandle \<Rightarrow> 'w \<Rightarrow> (SqlRDBResult \<times> 'w SqlRDBHandle \<times> 'w) option" where
  "SqlRDBStmtFree it h w =
     (case it of None \<Rightarrow> Some (SQL_RDB_ERR_INVALID_ARG, h, w)
      | Some it \<Rightarrow>
          locked h (\<lambda>h.
            do {
              drv \<leftarrow> driver h;
              (r, w) \<leftarrow> drv_finalize drv (raw_stmt it) w;
              Some (SQL_RDB_OK, h, w)
            }))"

section \<open>Deleting and counting\<close>

text \<open>An optional \<^verbatim>\<open>size_t *\<close> output is the object it points to.\<close>

definition SqlRDBDelete ::
  "'w SqlRDBHandle \<Rightarrow> string option \<Rightarrow> SqlRDBCondition option \<Rightarrow> nat option \<Rightarrow> 'w \<Rightarrow> mem
     \<Rightarrow> (SqlRDBResult \<times> 'w SqlRDBHandle \<times> nat option \<times> 'w \<times> mem) option" where
  "SqlRDBDelete h struct_name cond out_deleted w m =
     (if \<not> c2sql_handle_valid (Some h) then Some (SQL_RDB_ERR_INVALID_HANDLE, h, out_deleted, w, m)
      else case (struct_name, cond) of
        (Some name, Some c) \<Rightarrow>
          locked h (\<lambda>h. with_schema h ''Delete'' name (out_deleted, w, m) (\<lambda>schema.
            do {
              drv \<leftarrow> driver h;
              ctx \<leftarrow> driver_ctx h;
              (r, st, h, w, m) \<leftarrow> build_and_get h (query C2SQL_QB_DELETE schema cond None (drv_dialect drv)) w m;
              case st of None \<Rightarrow> Some (r, h, out_deleted, w, m)
              | Some (stmt, owned) \<Rightarrow>
                  do {
                    (r, w) \<leftarrow> bind_cond_from drv stmt cond 1 w;
                    if r \<noteq> SQL_RDB_OK then do {
                      w \<leftarrow> release_cached_stmt h stmt owned w;
                      Some (r, h, out_deleted, w, m)
                    } else do {
                      (r, has_row, w) \<leftarrow> drv_step drv stmt w;
                      w \<leftarrow> release_cached_stmt h stmt owned w;
                      if r = SQL_RDB_OK \<and> out_deleted \<noteq> None then do {
                        (n, w) \<leftarrow> drv_changes drv ctx w;
                        Some (r, h, Some (if 0 \<le> n then nat n else 0), w, m)
                      } else Some (r, h, out_deleted, w, m)
                    }
                  }
            }))
      | _ \<Rightarrow> Some (SQL_RDB_ERR_INVALID_ARG, h, out_deleted, w, m))"

definition SqlRDBCount ::
  "'w SqlRDBHandle \<Rightarrow> string option \<Rightarrow> SqlRDBCondition option \<Rightarrow> nat option \<Rightarrow> 'w \<Rightarrow> mem
     \<Rightarrow> (SqlRDBResult \<times> 'w SqlRDBHandle \<times> nat option \<times> 'w \<times> mem) option" where
  "SqlRDBCount h struct_name cond out_count w m =
     (if \<not> c2sql_handle_valid (Some h) then Some (SQL_RDB_ERR_INVALID_HANDLE, h, out_count, w, m)
      else case (struct_name, out_count) of
        (Some name, Some old) \<Rightarrow>
          locked h (\<lambda>h. with_schema h ''Count'' name (out_count, w, m) (\<lambda>schema.
            do {
              drv \<leftarrow> driver h;
              (r, st, h, w, m) \<leftarrow> build_and_get h (query C2SQL_QB_COUNT schema cond None (drv_dialect drv)) w m;
              case st of None \<Rightarrow> Some (r, h, out_count, w, m)
              | Some (stmt, owned) \<Rightarrow>
                  do {
                    (r, w) \<leftarrow> bind_cond_from drv stmt cond 1 w;
                    if r \<noteq> SQL_RDB_OK then do {
                      w \<leftarrow> release_cached_stmt h stmt owned w;
                      Some (r, h, out_count, w, m)
                    } else do {
                      (r, has_row, w) \<leftarrow> drv_step drv stmt w;
                      (r, out, w) \<leftarrow>
                        (if r = SQL_RDB_OK \<and> has_row then do {
                           (r, n, w) \<leftarrow> drv_column_int64 drv stmt 0 w;
                           Some (r, if r = SQL_RDB_OK then Some (if 0 \<le> sint n then nat (sint n) else 0) else out_count, w)
                         } else Some (r, out_count, w));
                      w \<leftarrow> release_cached_stmt h stmt owned w;
                      Some (r, h, out, w, m)
                    }
                  }
            }))
      | _ \<Rightarrow> Some (SQL_RDB_ERR_INVALID_ARG, h, out_count, w, m))"

end
