(* ===== verification/Blob_Field.thy ===== *)
theory Blob_Field
  imports Crud
begin

text \<open>
  The BLOB field functions of \<^verbatim>\<open>src/c2sql.c\<close>, which read or replace one column of the single
  row that a key condition selects.
\<close>

definition find_col_index :: "SqlRDBSchema \<Rightarrow> string \<Rightarrow> int" where
  "find_col_index schema name =
     (case find_index (\<lambda>c. col_name c = name) (sch_cols schema) of Some i \<Rightarrow> int i | None \<Rightarrow> -1)"

text \<open>The result and \<^verbatim>\<open>*out_n\<close>: 0, 1, or 2 for two or more rows.\<close>

definition count_matching_rows ::
  "'w SqlRDBHandle \<Rightarrow> SqlRDBSchema \<Rightarrow> string \<Rightarrow> SqlRDBCondition option \<Rightarrow> 'w \<Rightarrow> mem
     \<Rightarrow> (SqlRDBResult \<times> nat \<times> 'w \<times> mem) option" where
  "count_matching_rows h schema target_col cond w m =
     do {
       drv \<leftarrow> driver h;
       (r, st, w, m) \<leftarrow>
         build_and_prepare h (query C2SQL_QB_SELECT_FIELD schema cond (Some target_col) (drv_dialect drv)) w m;
       case st of None \<Rightarrow> Some (r, 0, w, m)
       | Some stmt \<Rightarrow>
           do {
             (r, w) \<leftarrow> bind_cond_from drv stmt cond 1 w;
             if r \<noteq> SQL_RDB_OK then do { (r2, w) \<leftarrow> drv_finalize drv stmt w; Some (r, 0, w, m) }
             else do {
               (r, has_row, w) \<leftarrow> drv_step drv stmt w;
               if r \<noteq> SQL_RDB_OK then do { (r2, w) \<leftarrow> drv_finalize drv stmt w; Some (r, 0, w, m) }
               else if has_row then do {
                 (r, has_row2, w) \<leftarrow> drv_step drv stmt w;
                 if r \<noteq> SQL_RDB_OK then do { (r2, w) \<leftarrow> drv_finalize drv stmt w; Some (r, 1, w, m) }
                 else do {
                   (r2, w) \<leftarrow> drv_finalize drv stmt w;
                   Some (SQL_RDB_OK, if has_row2 then 2 else 1, w, m)
                 }
               }
               else do { (r2, w) \<leftarrow> drv_finalize drv stmt w; Some (SQL_RDB_OK, 0, w, m) }
             }
           }
     }"

text \<open>The column checks both functions share.\<close>

definition blob_column_error :: "string \<Rightarrow> SqlRDBSchema \<Rightarrow> string \<Rightarrow> 'w SqlRDBHandle \<Rightarrow> (SqlRDBResult \<times> 'w SqlRDBHandle) option" where
  "blob_column_error fname schema name h =
     (let i = find_col_index schema name in
      if i < 0 then Some (SQL_RDB_ERR_UNKNOWN_COLUMN, h)
      else if col_type (sch_cols schema ! nat i) \<noteq> SQL_TYPE_BLOB then
        Some (SQL_RDB_ERR_INVALID_ARG,
              set_error h SQL_RDB_ERR_INVALID_ARG (fname @ '': column '' @ squote name @ '' is not BLOB''))
      else None)"

definition SqlRDBWriteBlobField ::
  "'w SqlRDBHandle \<Rightarrow> string option \<Rightarrow> SqlRDBCondition option \<Rightarrow> string option \<Rightarrow> char list option \<Rightarrow> nat \<Rightarrow> 'w \<Rightarrow> mem
     \<Rightarrow> (SqlRDBResult \<times> 'w SqlRDBHandle \<times> 'w \<times> mem) option" where
  "SqlRDBWriteBlobField h struct_name key colname bytes len w m =
     (if \<not> c2sql_handle_valid (Some h) then Some (SQL_RDB_ERR_INVALID_HANDLE, h, w, m)
      else case (struct_name, key, colname, bytes) of
        (Some name, Some k, Some cname, Some bs) \<Rightarrow>
          locked h (\<lambda>h. with_schema h ''WriteBlobField'' name (w, m) (\<lambda>schema.
            case blob_column_error ''WriteBlobField'' schema cname h of
              Some (r, h) \<Rightarrow> Some (r, h, w, m)
            | None \<Rightarrow>
                do {
                  (r, matches, w, m) \<leftarrow> count_matching_rows h schema cname key w m;
                  if r \<noteq> SQL_RDB_OK then Some (r, h, w, m)
                  else if matches = 0 then Some (SQL_RDB_ERR_NOT_FOUND, h, w, m)
                  else if 2 \<le> matches then Some (SQL_RDB_ERR_MULTIPLE_ROWS, h, w, m)
                  else do {
                    drv \<leftarrow> driver h;
                    (r, st, h, w, m) \<leftarrow>
                      build_and_get h (query C2SQL_QB_UPDATE_FIELD schema key (Some cname) (drv_dialect drv)) w m;
                    case st of None \<Rightarrow> Some (r, h, w, m)
                    | Some (stmt, owned) \<Rightarrow>
                        do {
                          (r, w) \<leftarrow> drv_bind_blob drv stmt 1 (Some bs) len w;
                          if r \<noteq> SQL_RDB_OK then do {
                            w \<leftarrow> release_cached_stmt h stmt owned w;
                            Some (r, h, w, m)
                          } else do {
                            (r, w) \<leftarrow> bind_cond_from drv stmt key 2 w;
                            if r \<noteq> SQL_RDB_OK then do {
                              w \<leftarrow> release_cached_stmt h stmt owned w;
                              Some (r, h, w, m)
                            } else do {
                              (r, has_row, w) \<leftarrow> drv_step drv stmt w;
                              w \<leftarrow> release_cached_stmt h stmt owned w;
                              Some (r, if r \<noteq> SQL_RDB_OK then set_error h r ''WriteBlobField: step failed'' else h, w, m)
                            }
                          }
                        }
                  }
                }))
      | _ \<Rightarrow> Some (SQL_RDB_ERR_INVALID_ARG, h, w, m))"

text \<open>
  What is published through \<^verbatim>\<open>*out_bytes\<close> and \<^verbatim>\<open>*out_len\<close>: the contents of the new buffer
  (\<open>None\<close> if it was left uninitialised) and its length; no publication leaves both untouched.
\<close>

definition SqlRDBReadBlobField ::
  "'w SqlRDBHandle \<Rightarrow> string option \<Rightarrow> SqlRDBCondition option \<Rightarrow> string option \<Rightarrow> bool \<Rightarrow> bool \<Rightarrow> 'w \<Rightarrow> mem
     \<Rightarrow> (SqlRDBResult \<times> 'w SqlRDBHandle \<times> (char list option \<times> nat) option \<times> 'w \<times> mem) option" where
  "SqlRDBReadBlobField h struct_name key colname out_bytes_given out_len_given w m =
     (if \<not> c2sql_handle_valid (Some h) then Some (SQL_RDB_ERR_INVALID_HANDLE, h, None, w, m)
      else case (struct_name, key, colname) of
        (Some name, Some k, Some cname) \<Rightarrow>
          if \<not> out_bytes_given \<or> \<not> out_len_given then Some (SQL_RDB_ERR_INVALID_ARG, h, None, w, m)
          else locked h (\<lambda>h. with_schema h ''ReadBlobField'' name (None, w, m) (\<lambda>schema.
            case blob_column_error ''ReadBlobField'' schema cname h of
              Some (r, h) \<Rightarrow> Some (r, h, None, w, m)
            | None \<Rightarrow>
                do {
                  drv \<leftarrow> driver h;
                  (r, st, w, m) \<leftarrow>
                    build_and_prepare h (query C2SQL_QB_SELECT_FIELD schema key (Some cname) (drv_dialect drv)) w m;
                  case st of None \<Rightarrow> Some (r, h, None, w, m)
                  | Some stmt \<Rightarrow>
                      do {
                        (r, w) \<leftarrow> bind_cond_from drv stmt key 1 w;
                        if r \<noteq> SQL_RDB_OK then do { (r2, w) \<leftarrow> drv_finalize drv stmt w; Some (r, h, None, w, m) }
                        else do {
                          (r, has_row, w) \<leftarrow> drv_step drv stmt w;
                          if r \<noteq> SQL_RDB_OK then do { (r2, w) \<leftarrow> drv_finalize drv stmt w; Some (r, h, None, w, m) }
                          else if \<not> has_row then do {
                            (r2, w) \<leftarrow> drv_finalize drv stmt w;
                            Some (SQL_RDB_ERR_NOT_FOUND, h, None, w, m)
                          } else do {
                            (r, raw, raw_len, w) \<leftarrow> drv_column_blob drv stmt 0 w;
                            if r \<noteq> SQL_RDB_OK then do { (r2, w) \<leftarrow> drv_finalize drv stmt w; Some (r, h, None, w, m) }
                            else
                              let (ok, m) = alloc m in
                              if \<not> ok then do {
                                (r2, w) \<leftarrow> drv_finalize drv stmt w;
                                Some (SQL_RDB_ERR_NO_MEMORY, h, None, w, m)
                              } else do {
                                copy \<leftarrow> (if raw_len = 0 then Some (Some [])
                                        else case raw of None \<Rightarrow> Some None
                                             | Some src \<Rightarrow> map_option Some (read_bytes src 0 raw_len));
                                (r, has_row2, w) \<leftarrow> drv_step drv stmt w;
                                (r2, w) \<leftarrow> drv_finalize drv stmt w;
                                if r \<noteq> SQL_RDB_OK then Some (r, h, None, w, m)
                                else if has_row2 then Some (SQL_RDB_ERR_MULTIPLE_ROWS, h, None, w, m)
                                else Some (SQL_RDB_OK, h, Some (copy, raw_len), w, m)
                              }
                          }
                        }
                      }
                }))
      | _ \<Rightarrow> Some (SQL_RDB_ERR_INVALID_ARG, h, None, w, m))"

end
