(* ===== verification/Stmt_Lifecycle.thy ===== *)
theory Stmt_Lifecycle
  imports Blob_Field Cache_Refinement
begin

text \<open>
  What every row operation keeps: the fields of the handle it must not touch (the mutex among them),
  and the ownership of prepared statements. Statement ownership is proved once, over the contract
  \<open>stmt_driver\<close> of a driver whose open statements can be observed.
\<close>

section \<open>The frame of the row operations\<close>

text \<open>Row operations change the statement cache and the error context of the handle only.\<close>

definition keeps_handle :: "'w SqlRDBHandle \<Rightarrow> 'w SqlRDBHandle \<Rightarrow> bool" where
  "keeps_handle h h' \<longleftrightarrow> magic h' = magic h \<and> config h' = config h \<and> driver h' = driver h \<and>
     driver_ctx h' = driver_ctx h \<and> registry h' = registry h \<and> txn h' = txn h \<and> logger h' = logger h \<and>
     mutex h' = mutex h"

lemma keeps_handle_refl [simp]: "keeps_handle h h" "keeps_handle h (h\<lparr>cache := x\<rparr>)"
  by (simp_all add: keeps_handle_def)

lemma keeps_handle_upd [simp]:
  "keeps_handle h (set_error g c t) \<longleftrightarrow> keeps_handle h g" "keeps_handle h (g\<lparr>cache := x\<rparr>) \<longleftrightarrow> keeps_handle h g"
  by (simp_all add: keeps_handle_def)

lemma keeps_handle_trans: "keeps_handle h h' \<Longrightarrow> keeps_handle h' h'' \<Longrightarrow> keeps_handle h h''"
  by (simp add: keeps_handle_def)

text \<open>Calls of which nothing is needed, and reads that determine their result.\<close>

lemmas any_driver_call =
  ensures_any [where x = "drv_prepare drv ctx sql w" for drv ctx sql w]
  ensures_any [where x = "drv_finalize drv s w" for drv s w]
  ensures_any [where x = "drv_reset drv s w" for drv s w]
  ensures_any [where x = "drv_step drv s w" for drv s w]
  ensures_any [where x = "drv_bind_blob drv s i v n w" for drv s i v n w]
  ensures_any [where x = "drv_column_int64 drv s i w" for drv s i w]
  ensures_any [where x = "drv_column_blob drv s i w" for drv s i w]
  ensures_any [where x = "drv_begin drv ctx w" for drv ctx w]
  ensures_any [where x = "drv_commit drv ctx w" for drv ctx w]
  ensures_any [where x = "drv_rollback drv ctx w" for drv ctx w]
  ensures_any [where x = "drv_changes drv ctx w" for drv ctx w]

lemmas any_call = any_driver_call
  ensures_any [where x = "c2sql_internal_cache_get c sql" for c sql]
  ensures_any [where x = "c2sql_internal_cache_put c sql s d w m" for c sql s d w m]
  ensures_any [where x = "c2sql_internal_qb_build spec m" for spec m]
  ensures_any [where x = "c2sql_internal_tm_bind_row drv s schema row nm w" for drv s schema row nm w]
  ensures_any [where x = "c2sql_internal_tm_read_row drv s schema row nm w" for drv s schema row nm w]
  ensures_any [where x = "bind_cond_from drv s cond i w" for drv s cond i w]
  ensures_any [where x = "write_rows drv s schema rows stride nms i k w" for drv s schema rows stride nms i k w]
  ensures_any [where x = "release_cached_stmt h s owned w" for h s owned w]
  ensures_any [where x = "read_bytes buf off n" for buf off n]
  ensures_any [where x = "write_bytes buf off bs" for buf off bs]
  ensures_any [where x = "merge_null_map a b n" for a b n]
  ensures_any [where x = "schema_at reg p" for reg p]
  ensures_any [where x = "c2sql_internal_schema_lookup h name" for h name]
  ensures_any [where x = "build_and_prepare h spec w m" for h spec w m]
  ensures_any [where x = "count_matching_rows h schema col cond w m" for h schema col cond w m]

lemmas any_pure =
  ensures_any [where x = "c2sql_internal_qb_build spec m" for spec m]
  ensures_any [where x = "read_bytes buf off n" for buf off n]
  ensures_any [where x = "write_bytes buf off bs" for buf off bs]
  ensures_any [where x = "merge_null_map a b n" for a b n]
  ensures_any [where x = "schema_at reg p" for reg p]
  ensures_any [where x = "c2sql_internal_schema_lookup h name" for h name]

lemmas field_read =
  ensuresI [where x = "driver h" for h]
  ensuresI [where x = "driver_ctx h" for h]

lemma get_or_prepare_frame:
  "ensures (get_or_prepare h sql w m) (\<lambda>(r, st, owned, h', w', m'). keeps_handle h h')"
  unfolding get_or_prepare_def
  by ((clarsimp simp: Let_def | intro conjI impI any_call field_read | rule ensuresI)+)

lemma build_and_get_frame:
  "ensures (build_and_get h spec w m) (\<lambda>(r, st, h', w', m'). keeps_handle h h')"
  unfolding build_and_get_def
  by ((clarsimp simp: Let_def | intro conjI impI any_call ensures_mono [OF get_or_prepare_frame] | rule ensuresI)+)

lemma locked_frame:
  assumes idle: "mutex_idle (mutex h)"
    and body: "\<And>g. ensures (body g) (\<lambda>(r, g', s). keeps_handle g g')"
  shows "ensures (locked h body) (\<lambda>(r, h', s). keeps_handle h h')"
proof (rule ensuresI, clarify)
  fix r h' s assume run: "locked h body = Some (r, h', s)"
  let ?mx = "(mutex h)\<lparr>mtx_locked := mtx_threadsafe (mutex h) \<or> mtx_locked (mutex h)\<rparr>"
  have lk: "lock_handle h = Some (h\<lparr>mutex := ?mx\<rparr>)" using mutex_lock_idle [OF idle] by (simp add: lock_handle_def)
  obtain g where g: "body (h\<lparr>mutex := ?mx\<rparr>) = Some (r, g, s)" "unlock_handle g = Some h'"
    using run lk by (auto simp: locked_def bind_Some_iff)
  have k: "keeps_handle (h\<lparr>mutex := ?mx\<rparr>) g" using ensuresD [OF body g(1)] by simp
  then have "unlock_handle g = Some (g\<lparr>mutex := mutex h\<rparr>)"
    using mutex_lock_unlock [OF idle] mutex_lock_idle [OF idle] by (simp add: unlock_handle_def keeps_handle_def)
  then show "keeps_handle h h'" using g(2) k by (auto simp: keeps_handle_def)
qed

lemma with_schema_frame:
  assumes "\<And>schema. ensures (body schema) (\<lambda>(r, h', s). keeps_handle h h')"
  shows "ensures (with_schema h fname name out body) (\<lambda>(r, h', s). keeps_handle h h')"
  unfolding with_schema_def using assms by (auto intro!: any_call split: option.splits)

lemma read_single_frame:
  "ensures (read_single h drv schema stmt owned row nm w m) (\<lambda>(r, h', s). h' = h)"
  unfolding read_single_def
  by ((clarsimp simp: Let_def split: prod.splits | intro conjI impI allI any_call | rule ensuresI)+)

lemma blob_column_error_frame: "blob_column_error fname schema name h = Some (r, h') \<Longrightarrow> keeps_handle h h'"
  by (auto simp: blob_column_error_def Let_def split: if_splits)

lemmas frame_rules = with_schema_frame any_call field_read ensures_option ensures_if
  ensures_mono [OF build_and_get_frame] ensures_mono [OF read_single_frame]

lemma Write_frame:
  assumes "mutex_idle (mutex h)"
  shows "ensures (SqlRDBWrite h name row nm w m) (\<lambda>(r, h', s). keeps_handle h h')"
  unfolding SqlRDBWrite_def
  by ((clarsimp simp: Let_def blob_column_error_frame split: option.splits prod.splits
      | intro conjI impI allI locked_frame [OF assms] frame_rules | rule ensuresI)+)

lemma WriteMany_frame:
  assumes "mutex_idle (mutex h)"
  shows "ensures (SqlRDBWriteMany h name rows cnt stride nms w m) (\<lambda>(r, h', s). keeps_handle h h')"
  unfolding SqlRDBWriteMany_def
  by ((clarsimp simp: Let_def blob_column_error_frame split: option.splits prod.splits
      | intro conjI impI allI locked_frame [OF assms] frame_rules | rule ensuresI)+)

lemma Read_frame:
  assumes "mutex_idle (mutex h)"
  shows "ensures (SqlRDBRead h name cond row nm opts w m) (\<lambda>(r, h', s). keeps_handle h h')"
  unfolding SqlRDBRead_def
  by ((clarsimp simp: Let_def blob_column_error_frame split: option.splits prod.splits
      | intro conjI impI allI ensures_mono [OF locked_frame [OF assms]] frame_rules | rule ensuresI)+)

lemma ReadMany_frame:
  assumes "mutex_idle (mutex h)"
  shows "ensures (SqlRDBReadMany h name cond out w m) (\<lambda>(r, h', s). keeps_handle h h')"
  unfolding SqlRDBReadMany_def
  by ((clarsimp simp: Let_def blob_column_error_frame split: option.splits prod.splits
      | intro conjI impI allI locked_frame [OF assms] frame_rules | rule ensuresI)+)

lemma StmtNext_frame:
  assumes "mutex_idle (mutex h)"
  shows "ensures (SqlRDBStmtNext it h row nm w) (\<lambda>(r, h', s). keeps_handle h h')"
  unfolding SqlRDBStmtNext_def
  by ((clarsimp simp: Let_def blob_column_error_frame split: option.splits prod.splits
      | intro conjI impI allI locked_frame [OF assms] frame_rules | rule ensuresI)+)

lemma StmtFree_frame:
  assumes "mutex_idle (mutex h)"
  shows "ensures (SqlRDBStmtFree it h w) (\<lambda>(r, h', s). keeps_handle h h')"
  unfolding SqlRDBStmtFree_def
  by ((clarsimp simp: Let_def blob_column_error_frame split: option.splits prod.splits
      | intro conjI impI allI locked_frame [OF assms] frame_rules | rule ensuresI)+)

lemma Delete_frame:
  assumes "mutex_idle (mutex h)"
  shows "ensures (SqlRDBDelete h name cond out w m) (\<lambda>(r, h', s). keeps_handle h h')"
  unfolding SqlRDBDelete_def
  by ((clarsimp simp: Let_def blob_column_error_frame split: option.splits prod.splits
      | intro conjI impI allI locked_frame [OF assms] frame_rules | rule ensuresI)+)

lemma Count_frame:
  assumes "mutex_idle (mutex h)"
  shows "ensures (SqlRDBCount h name cond out w m) (\<lambda>(r, h', s). keeps_handle h h')"
  unfolding SqlRDBCount_def
  by ((clarsimp simp: Let_def blob_column_error_frame split: option.splits prod.splits
      | intro conjI impI allI locked_frame [OF assms] frame_rules | rule ensuresI)+)

lemma WriteBlobField_frame:
  assumes "mutex_idle (mutex h)"
  shows "ensures (SqlRDBWriteBlobField h name key col bytes len w m) (\<lambda>(r, h', s). keeps_handle h h')"
  unfolding SqlRDBWriteBlobField_def
  by ((clarsimp simp: Let_def blob_column_error_frame split: option.splits prod.splits
      | intro conjI impI allI locked_frame [OF assms] frame_rules | rule ensuresI)+)

lemma ReadBlobField_frame:
  assumes "mutex_idle (mutex h)"
  shows "ensures (SqlRDBReadBlobField h name key col ob ol w m) (\<lambda>(r, h', s). keeps_handle h h')"
  unfolding SqlRDBReadBlobField_def
  by ((clarsimp simp: Let_def blob_column_error_frame split: option.splits prod.splits
      | intro conjI impI allI locked_frame [OF assms] frame_rules | rule ensuresI)+)

section \<open>Ownership of statements\<close>

text \<open>
  The open statements of a driver world are those that the cache of \<open>h\<close> holds and, disjoint
  from them, the statements \<open>F\<close> (open iterators, or a statement the current call owns).
\<close>

definition holds :: "('w \<Rightarrow> ptr set) \<Rightarrow> 'w SqlRDBHandle \<Rightarrow> 'w \<Rightarrow> ptr set \<Rightarrow> bool" where
  "holds live h w F \<longleftrightarrow>
     (\<exists>es. represents (cache h) es \<and> distinct (map snd es) \<and> live w = set (map snd es) \<union> F \<and>
           set (map snd es) \<inter> F = {})"

lemma holds_cong: "cache h' = cache h \<Longrightarrow> live w' = live w \<Longrightarrow> holds live h' w' F \<longleftrightarrow> holds live h w F"
  by (simp add: holds_def)

lemma holds_live: "holds live h w F \<Longrightarrow> live w' = live w \<Longrightarrow> holds live h w' F"
  by (simp add: holds_def)

lemma holds_simps [simp]:
  "holds live (set_error h c t) w F \<longleftrightarrow> holds live h w F" "holds live (h\<lparr>mutex := x\<rparr>) w F \<longleftrightarrow> holds live h w F"
  by (simp_all add: holds_def)

text \<open>The current call has the statement \<open>s\<close>: it owns it, or has borrowed it from the cache.\<close>

definition acquired :: "('w \<Rightarrow> ptr set) \<Rightarrow> 'w SqlRDBHandle \<Rightarrow> 'w \<Rightarrow> ptr set \<Rightarrow> ptr \<Rightarrow> bool \<Rightarrow> bool" where
  "acquired live h w F s owned \<longleftrightarrow>
     (if owned then s \<notin> F \<and> holds live h w (insert s F) else holds live h w F)"

lemma acquired_live: "acquired live h w F s owned \<Longrightarrow> live w' = live w \<Longrightarrow> acquired live h w' F s owned"
  by (auto simp: acquired_def elim: holds_live)

text \<open>A lookup keeps the statements held; a store replaces them as its list of finalized statements says.\<close>

lemma holds_get:
  assumes "holds live h w F" and "c2sql_internal_cache_get (cache h) sql = Some (r, st, c)"
  shows "holds live (h\<lparr>cache := c\<rparr>) w F" and "r = SQL_RDB_OK \<Longrightarrow> \<exists>s. st = Some s \<and> s \<in> live w"
    and "capacity c = capacity (cache h)" and "r \<noteq> SQL_RDB_OK \<Longrightarrow> st = None"
proof -
  obtain es where es: "represents (cache h) es" "distinct (map snd es)" "live w = set (map snd es) \<union> F"
    "set (map snd es) \<inter> F = {}" using assms(1) by (auto simp: holds_def)
  obtain c' where c': "c2sql_internal_cache_get (cache h) sql =
      Some (if map_of es sql = None then SQL_RDB_ERR_NOT_FOUND else SQL_RDB_OK, map_of es sql, c')"
    "represents c' (lru_touch sql es)" "capacity c' = capacity (cache h)"
    using cache_get_refines [OF es(1), of sql] by blast
  have ms: "mset (map snd (lru_touch sql es)) = mset (map snd es)"
    using lru_touch_conserves represents_keys [OF es(1)] by blast
  have "set (map snd (lru_touch sql es)) = set (map snd es)" using ms by (rule mset_eq_setD)
  moreover have "distinct (map snd (lru_touch sql es))" using ms es(2) mset_eq_imp_distinct_iff by blast
  moreover have c: "c = c'" "st = map_of es sql" "r = (if map_of es sql = None then SQL_RDB_ERR_NOT_FOUND else SQL_RDB_OK)"
    using c'(1) assms(2) by auto
  ultimately show "holds live (h\<lparr>cache := c\<rparr>) w F"
    unfolding holds_def using c'(2) es(3,4) by (intro exI [of _ "lru_touch sql es"]) simp
  show "r = SQL_RDB_OK \<Longrightarrow> \<exists>s. st = Some s \<and> s \<in> live w"
    using c es(3) by (force split: if_splits dest: map_of_SomeD)
  show "capacity c = capacity (cache h)" "r \<noteq> SQL_RDB_OK \<Longrightarrow> st = None" using c c'(3) by (auto split: if_splits)
qed

text \<open>A driver whose calls open a statement, close one, or leave the open statements alone.\<close>

locale stmt_driver =
  fixes drv :: "'w SqlRDBDriver" and live :: "'w \<Rightarrow> ptr set"
  assumes prepare: "ensures (drv_prepare drv ctx sql w)
      (\<lambda>(r, st, w'). if r = SQL_RDB_OK then \<exists>s. st = Some s \<and> s \<notin> live w \<and> live w' = insert s (live w) else live w' = live w)"
    and finalize: "ensures (drv_finalize drv s w) (\<lambda>(r, w'). live w' = live w - {s})"
    and reset: "ensures (drv_reset drv s w) (\<lambda>(r, w'). live w' = live w)"
    and step: "ensures (drv_step drv s w) (\<lambda>(r, b, w'). live w' = live w)"
    and bind_int64: "ensures (drv_bind_int64 drv s i v64 w) (\<lambda>(r, w'). live w' = live w)"
    and bind_int32: "ensures (drv_bind_int32 drv s i v32 w) (\<lambda>(r, w'). live w' = live w)"
    and bind_real: "ensures (drv_bind_real drv s i v64 w) (\<lambda>(r, w'). live w' = live w)"
    and bind_text: "ensures (drv_bind_text drv s i bytes len w) (\<lambda>(r, w'). live w' = live w)"
    and bind_blob: "ensures (drv_bind_blob drv s i bytes n w) (\<lambda>(r, w'). live w' = live w)"
    and bind_null: "ensures (drv_bind_null drv s i w) (\<lambda>(r, w'). live w' = live w)"
    and column_int64: "ensures (drv_column_int64 drv s i w) (\<lambda>(r, v, w'). live w' = live w)"
    and column_real: "ensures (drv_column_real drv s i w) (\<lambda>(r, v, w'). live w' = live w)"
    and column_text: "ensures (drv_column_text drv s i w) (\<lambda>(r, p, n, w'). live w' = live w)"
    and column_blob: "ensures (drv_column_blob drv s i w) (\<lambda>(r, p, n, w'). live w' = live w)"
    and column_isnull: "ensures (drv_column_isnull drv s i w) (\<lambda>(r, b, w'). live w' = live w)"
    and begin_tx: "ensures (drv_begin drv ctx w) (\<lambda>(r, w'). live w' = live w)"
    and commit_tx: "ensures (drv_commit drv ctx w) (\<lambda>(r, w'). live w' = live w)"
    and rollback_tx: "ensures (drv_rollback drv ctx w) (\<lambda>(r, w'). live w' = live w)"
    and savepoint: "ensures (drv_savepoint drv ctx name w) (\<lambda>(r, w'). live w' = live w)"
    and release_sp: "ensures (drv_release_sp drv ctx name w) (\<lambda>(r, w'). live w' = live w)"
    and rollback_sp: "ensures (drv_rollback_sp drv ctx name w) (\<lambda>(r, w'). live w' = live w)"
    and changes: "ensures (drv_changes drv ctx w) (\<lambda>(n, w'). live w' = live w)"
    and column_int32: "ensures (drv_column_int32 drv s i w) (\<lambda>(r, v32, w'). live w' = live w)"
    and exec: "ensures (drv_exec drv ctx sql w) (\<lambda>(r, w'). live w' = live w)"
    and close: "ensures (drv_close drv ctx w) (\<lambda>(r, w'). live w' = live w)"
begin

lemmas passive_calls = reset [THEN ensures_mono] step [THEN ensures_mono]
  bind_int64 [THEN ensures_mono] bind_int32 [THEN ensures_mono] bind_real [THEN ensures_mono]
  bind_text [THEN ensures_mono] bind_blob [THEN ensures_mono] bind_null [THEN ensures_mono]
  column_int64 [THEN ensures_mono] column_real [THEN ensures_mono] column_text [THEN ensures_mono]
  column_blob [THEN ensures_mono] column_isnull [THEN ensures_mono] begin_tx [THEN ensures_mono]
  commit_tx [THEN ensures_mono] rollback_tx [THEN ensures_mono] changes [THEN ensures_mono]
  savepoint [THEN ensures_mono] release_sp [THEN ensures_mono] rollback_sp [THEN ensures_mono]
  close [THEN ensures_mono] column_int32 [THEN ensures_mono] exec [THEN ensures_mono]

lemmas calls = finalize [THEN ensures_mono] passive_calls

lemma bind_one_live: "ensures (bind_one drv s i col row w) (\<lambda>(r, w'). live w' = live w)"
  unfolding bind_one_def
  by ((clarsimp simp: Let_def split: SqlRDBType.splits | intro conjI impI allI calls | rule ensuresI)+)

lemma bind_cols_live: "ensures (bind_cols drv s i cols row nm w) (\<lambda>(r, w'). live w' = live w)"
proof (induction cols arbitrary: i w)
  case (Cons col cols)
  show ?case
    by ((clarsimp | intro conjI impI allI calls bind_one_live [THEN ensures_mono] Cons.IH [THEN ensures_mono]
        | rule ensuresI)+)
qed simp

lemma bind_row_live: "ensures (c2sql_internal_tm_bind_row drv s schema row nm w) (\<lambda>(r, w'). live w' = live w)"
  unfolding c2sql_internal_tm_bind_row_def by (cases row) (auto intro!: bind_cols_live)

lemma bind_cond_values_live: "ensures (bind_cond_values drv s c idx w) (\<lambda>(r, idx', w'). live w' = live w)"
proof (induction c arbitrary: idx w)
  case (COND_LEAF col oper v)
  then show ?case by (cases v) (auto intro!: calls)
next
  case (COND_AND a b)
  show ?case by (auto intro!: COND_AND.IH(1) [THEN ensures_mono] COND_AND.IH(2) [THEN ensures_mono])
next
  case (COND_OR a b)
  show ?case by (auto intro!: COND_OR.IH(1) [THEN ensures_mono] COND_OR.IH(2) [THEN ensures_mono])
qed simp

lemma bind_cond_from_live: "ensures (bind_cond_from drv s cond i w) (\<lambda>(r, w'). live w' = live w)"
  unfolding bind_cond_from_def
  by (cases cond) (auto intro!: bind_cond_values_live [THEN ensures_mono])

lemma read_one_live: "ensures (read_one drv s i col row w) (\<lambda>(r, row', w'). live w' = live w)"
  unfolding read_one_def
  by ((clarsimp simp: Let_def split: SqlRDBType.splits | intro conjI impI allI calls any_call | rule ensuresI)+)

lemma read_cols_live: "ensures (read_cols drv s i cols tr row nm w) (\<lambda>(r, row', nm', w'). live w' = live w)"
proof (induction cols arbitrary: i tr row nm w)
  case (Cons col cols)
  show ?case
    by ((clarsimp | intro conjI impI allI calls read_one_live [THEN ensures_mono] Cons.IH [THEN ensures_mono]
        | rule ensuresI)+)
qed simp

lemma read_row_live: "ensures (c2sql_internal_tm_read_row drv s schema row nm w) (\<lambda>(r, row', nm', w'). live w' = live w)"
  unfolding c2sql_internal_tm_read_row_def by (cases row) (auto intro!: read_cols_live [THEN ensures_mono])

lemma write_rows_live: "ensures (write_rows drv s schema rows stride nms i k w) (\<lambda>(r, w'). live w' = live w)"
proof (induction k arbitrary: i w)
  case (Suc k)
  show ?case
    by ((clarsimp simp: Let_def | intro conjI impI allI calls bind_row_live [THEN ensures_mono] Suc.IH [THEN ensures_mono]
        | rule ensuresI)+)
qed simp

lemma finalize_all_live: "ensures (finalize_all (Some drv) ss w) (\<lambda>w'. live w' = live w - set ss)"
proof (induction ss arbitrary: w)
  case (Cons s ss)
  show ?case
    by ((clarsimp simp: finalize_if_def | intro calls Cons.IH [THEN ensures_mono])+) auto
qed simp

lemma holds_put:
  assumes "holds live h w F" and new: "s \<notin> live w" and live2: "live w2 = insert s (live w)"
    and put: "c2sql_internal_cache_put (cache h) sql s (Some drv) w2 m = Some (r, c, w3, m')"
  shows "holds live (h\<lparr>cache := c\<rparr>) w3 F"
proof -
  obtain es where es: "represents (cache h) es" "distinct (map snd es)" "live w = set (map snd es) \<union> F"
    "set (map snd es) \<inter> F = {}" using assms(1) by (auto simp: holds_def)
  obtain dead es2 where d: "finalize_all (Some drv) dead w2 = Some w3" "represents c es2"
    "mset dead + mset (map snd es2) = add_mset s (mset (map snd es))"
    using cache.put_defined [OF es(1) put] by blast
  have ms: "mset (dead @ map snd es2) = mset (s # map snd es)" using d(3) by simp
  have "s \<notin> set (map snd es)" using new es(3) by simp
  then have "distinct (s # map snd es)" using es(2) by simp
  then have dist: "distinct (dead @ map snd es2)" using ms mset_eq_imp_distinct_iff by blast
  have st: "set dead \<union> set (map snd es2) = insert s (set (map snd es))" using mset_eq_setD [OF ms] by simp
  have "live w3 = live w2 - set dead" using ensuresD [OF finalize_all_live d(1)] by simp
  moreover have sF: "insert s (set (map snd es)) \<inter> F = {}" using es(3,4) new by auto
  then have F: "set dead \<inter> F = {}" "set (map snd es2) \<inter> F = {}" unfolding st [symmetric] by auto
  moreover have "set dead \<inter> set (map snd es2) = {}" using dist by simp
  ultimately have "live w3 = set (map snd es2) \<union> F" unfolding live2 es(3) Un_insert_left [symmetric] st [symmetric] by blast
  then show ?thesis unfolding holds_def using d(2) dist F(2) by (intro exI [of _ es2]) simp
qed

lemma get_or_prepare_holds:
  assumes drv: "driver h = Some drv" and h: "holds live h w F"
  shows "ensures (get_or_prepare h sql w m) (\<lambda>(r, st, owned, h', w', m').
           if r \<noteq> SQL_RDB_OK then holds live h' w' F
           else \<exists>s. st = Some s \<and> s \<in> live w' \<and>
             (if owned then s \<notin> F \<and> holds live h' w' (insert s F) else holds live h' w' F))"
proof (rule ensuresI)
  fix a assume run: "get_or_prepare h sql w m = Some a"
  obtain r0 st0 c where g0: "c2sql_internal_cache_get (cache h) sql = Some (r0, st0, c)"
    using run by (auto simp: get_or_prepare_def bind_Some_iff)
  note h1 = holds_get [OF h g0]
  let ?h1 = "h\<lparr>cache := c\<rparr>"
  show "case a of (r, st, owned, h', w', m') \<Rightarrow>
           if r \<noteq> SQL_RDB_OK then holds live h' w' F
           else \<exists>s. st = Some s \<and> s \<in> live w' \<and>
             (if owned then s \<notin> F \<and> holds live h' w' (insert s F) else holds live h' w' F)"
  proof (cases "r0 = SQL_RDB_OK")
    case True
    then show ?thesis using run g0 h1(1,2) by (auto simp: get_or_prepare_def Let_def)
  next
    case False
    obtain ctx r1 st1 w1 where p: "driver_ctx h = Some ctx" "drv_prepare drv ctx sql w = Some (r1, st1, w1)"
      using run g0 False drv by (auto simp: get_or_prepare_def Let_def bind_Some_iff)
    note pl = ensuresD [OF prepare p(2), simplified]
    consider (fail) "r1 \<noteq> SQL_RDB_OK" | (off) "r1 = SQL_RDB_OK" "capacity c = 0" | (on) "r1 = SQL_RDB_OK" "capacity c \<noteq> 0"
      by blast
    then show ?thesis
    proof cases
      case fail
      then have "a = (r1, None, False, ?h1, w1, m)" using run g0 False drv p by (simp add: get_or_prepare_def Let_def)
      then show ?thesis using fail pl h1(1) by (simp add: holds_def)
    next
      case off
      then have a: "a = (SQL_RDB_OK, st1, True, ?h1, w1, m)" using run g0 False drv p by (simp add: get_or_prepare_def Let_def)
      obtain s where s: "st1 = Some s" "s \<notin> live w" "live w1 = insert s (live w)" using pl off(1) by auto
      then have "holds live ?h1 w1 (insert s F)" "s \<notin> F" using h1(1) by (auto simp: holds_def)
      then show ?thesis using a s by simp
    next
      case on
      obtain s where s: "st1 = Some s" "s \<notin> live w" "live w1 = insert s (live w)" using pl on(1) by auto
      obtain r2 c2 w2 m2 where put: "c2sql_internal_cache_put c sql s (Some drv) w1 m = Some (r2, c2, w2, m2)"
        using run g0 False drv p on s(1) by (auto simp: get_or_prepare_def Let_def bind_Some_iff)
      have h2: "holds live (?h1\<lparr>cache := c2\<rparr>) w2 F" using holds_put [OF h1(1) s(2,3)] put by simp
      show ?thesis
      proof (cases "r2 = SQL_RDB_OK")
        case bad: False
        then have "a = (r2, None, False, h\<lparr>cache := c2\<rparr>, w2, m2)"
          using run g0 False drv p on s(1) put by (simp add: get_or_prepare_def Let_def)
        then show ?thesis using h2 bad by simp
      next
        case True
        obtain es where es: "represents c es" using h1(1) by (auto simp: holds_def)
        obtain c3 where c3: "c2sql_internal_cache_get c2 sql = Some (SQL_RDB_OK, Some s, c3)"
          using cache.get_after_put [OF es _ put [unfolded True]] on(2) by (auto simp: unat_eq_0)
        have "a = (SQL_RDB_OK, Some s, False, h\<lparr>cache := c3\<rparr>, w2, m2)"
          using run g0 False drv p on s(1) put True c3 by (simp add: get_or_prepare_def Let_def)
        then show ?thesis using holds_get [OF h2, of sql SQL_RDB_OK "Some s" c3] c3 by simp
      qed
    qed
  qed
qed

text \<open>
  Acquiring a statement for a query, and giving it back, restores the ownership from before.
\<close>

lemma build_and_get_holds:
  assumes drv: "driver h = Some drv" and h: "holds live h w F"
  shows "ensures (build_and_get h spec w m) (\<lambda>(r, st, h', w', m'). driver h' = Some drv \<and>
           (case st of None \<Rightarrow> holds live h' w' F
            | Some (s, owned) \<Rightarrow> r = SQL_RDB_OK \<and> acquired live h' w' F s owned))"
proof (rule ensuresI)
  fix a assume run: "build_and_get h spec w m = Some a"
  obtain r0 sql k m0 where b: "c2sql_internal_qb_build spec m = Some (r0, sql, k, m0)"
    using run by (auto simp: build_and_get_def bind_Some_iff)
  show "case a of (r, st, h', w', m') \<Rightarrow> driver h' = Some drv \<and>
           (case st of None \<Rightarrow> holds live h' w' F
            | Some (s, owned) \<Rightarrow> r = SQL_RDB_OK \<and> acquired live h' w' F s owned)"
  proof (cases "r0 = SQL_RDB_OK")
    case False
    then show ?thesis using run b h drv by (auto simp: build_and_get_def)
  next
    case True
    obtain sqltext r st owned h' w' m' where g: "sql = Some sqltext" "get_or_prepare h sqltext w m0 = Some (r, st, owned, h', w', m')"
      using run b True by (auto simp: build_and_get_def bind_Some_iff)
    have d: "driver h' = Some drv" using ensuresD [OF get_or_prepare_frame g(2)] drv by (simp add: keeps_handle_def)
    show ?thesis using ensuresD [OF get_or_prepare_holds [OF drv h] g(2)] run b True g d
      by (cases "r = SQL_RDB_OK") (auto simp: build_and_get_def acquired_def)
  qed
qed

lemma release_holds:
  assumes "driver h = Some drv" and acq: "acquired live h w F s owned"
  shows "ensures (release_cached_stmt h s owned w) (\<lambda>w'. holds live h w' F)"
proof (cases owned)
  case True
  have "holds live h w' F" if w': "live w' = live w - {s}" for w'
  proof -
    obtain es where es: "represents (cache h) es" "distinct (map snd es)" "live w = set (map snd es) \<union> insert s F"
      "set (map snd es) \<inter> insert s F = {}" "s \<notin> F" using acq True by (auto simp: holds_def acquired_def)
    then have "live w' = set (map snd es) \<union> F" "set (map snd es) \<inter> F = {}" unfolding w' es(3) by auto
    then show ?thesis unfolding holds_def using es(1,2) by (intro exI [of _ es]) simp
  qed
  then show ?thesis using True assms(1)
    by (simp add: release_cached_stmt_def) (intro calls; clarsimp)
next
  case False
  then show ?thesis using assms unfolding acquired_def
    by (simp add: release_cached_stmt_def) (intro calls; clarsimp elim!: holds_live)
qed

end

text \<open>The result of a locked body, up to the mutex.\<close>

lemma locked_ensures:
  assumes "\<And>x. ensures (body (h\<lparr>mutex := x\<rparr>)) (\<lambda>(r, g, s). \<forall>y. P r (g\<lparr>mutex := y\<rparr>) s)"
  shows "ensures (locked h body) (\<lambda>(r, h', s). P r h' s)"
proof (rule ensuresI, clarify)
  fix r h' s assume "locked h body = Some (r, h', s)"
  then obtain x g y where "body (h\<lparr>mutex := x\<rparr>) = Some (r, g, s)" "h' = g\<lparr>mutex := y\<rparr>"
    by (auto simp: locked_def lock_handle_def unlock_handle_def bind_Some_iff)
  with ensuresD [OF assms, of x "(r, g, s)"] show "P r h' s" by simp
qed

lemma with_schema_ensures:
  assumes "P SQL_RDB_ERR_UNKNOWN_STRUCT (set_error h SQL_RDB_ERR_UNKNOWN_STRUCT (fname @ '': unknown struct '' @ squote name)) out"
    and "\<And>schema. ensures (body schema) (\<lambda>(r, h', s). P r h' s)"
  shows "ensures (with_schema h fname name out body) (\<lambda>(r, h', s). P r h' s)"
  unfolding with_schema_def using assms by (auto intro!: any_call split: option.splits)

context stmt_driver begin

lemmas live_rules = passive_calls bind_row_live [THEN ensures_mono] bind_cond_from_live [THEN ensures_mono]
  read_row_live [THEN ensures_mono] write_rows_live [THEN ensures_mono] any_pure

end

end
