(* ===== verification/Stmt_Ownership.thy ===== *)
theory Stmt_Ownership
  imports Stmt_Lifecycle
begin

text \<open>
  Every row operation gives back the statements it acquires: whatever path it takes, the open
  statements after the call are those the cache holds and those that were open before, except for an
  iterator that the call created or freed.
\<close>

text \<open>A successful \<^verbatim>\<open>SqlRDBReadMany\<close> hands out one new statement; a failed one none.\<close>

definition iterator_opened ::
  "('w \<Rightarrow> ptr set) \<Rightarrow> ptr set \<Rightarrow> SqlRDBResult \<Rightarrow> 'w SqlRDBHandle \<Rightarrow> SqlRDBStmt option \<times> 'w \<times> mem \<Rightarrow> bool" where
  "iterator_opened lv F r h' out =
     (case out of (it, w', m') \<Rightarrow>
        case it of None \<Rightarrow> r \<noteq> SQL_RDB_OK \<and> holds lv h' w' F
        | Some x \<Rightarrow> r = SQL_RDB_OK \<and> raw_stmt x \<notin> F \<and> holds lv h' w' (insert (raw_stmt x) F))"

text \<open>The checks of a BLOB column touch the error context only.\<close>

lemma blob_column_error_holds:
  "blob_column_error fname schema name h = Some (r, h') \<Longrightarrow> holds live h w F \<Longrightarrow> holds live h' w F"
  by (auto simp: blob_column_error_def Let_def split: if_splits)

context stmt_driver begin

lemma build_and_prepare_holds:
  assumes "driver h = Some drv" and "holds live h w F"
  shows "ensures (build_and_prepare h spec w m) (\<lambda>(r, st, w', m').
           case st of None \<Rightarrow> r \<noteq> SQL_RDB_OK \<and> holds live h w' F | Some s \<Rightarrow> r = SQL_RDB_OK \<and> acquired live h w' F s True)"
proof (rule ensuresI)
  fix a assume run: "build_and_prepare h spec w m = Some a"
  obtain r0 sql k m0 where b: "c2sql_internal_qb_build spec m = Some (r0, sql, k, m0)"
    using run by (auto simp: build_and_prepare_def bind_Some_iff)
  show "case a of (r, st, w', m') \<Rightarrow>
      case st of None \<Rightarrow> r \<noteq> SQL_RDB_OK \<and> holds live h w' F | Some s \<Rightarrow> r = SQL_RDB_OK \<and> acquired live h w' F s True"
  proof (cases "r0 = SQL_RDB_OK")
    case False
    then show ?thesis using run b assms(2) by (auto simp: build_and_prepare_def)
  next
    case True
    obtain sqltext ctx r st w' where p: "sql = Some sqltext" "driver_ctx h = Some ctx"
      "drv_prepare drv ctx sqltext w = Some (r, st, w')"
      using run b True assms(1) by (auto simp: build_and_prepare_def bind_Some_iff)
    note pl = ensuresD [OF prepare p(3), simplified]
    show ?thesis
    proof (cases "r = SQL_RDB_OK")
      case False
      then show ?thesis using run b True p assms pl by (auto simp: build_and_prepare_def elim: holds_live)
    next
      case ok: True
      obtain s where s: "st = Some s" "s \<notin> live w" "live w' = insert s (live w)" using pl ok by auto
      then have "acquired live h w' F s True" using assms(2) by (auto simp: acquired_def holds_def)
      then show ?thesis using run b True p assms(1) ok s(1) by (auto simp: build_and_prepare_def)
    qed
  qed
qed

lemma acquired_mutex [simp]: "acquired live (h\<lparr>mutex := x\<rparr>) w F s owned \<longleftrightarrow> acquired live h w F s owned"
  by (simp add: acquired_def)

text \<open>Closing a statement that the call owns.\<close>

lemma finalize_holds:
  assumes "acquired live h w F s True"
  shows "ensures (drv_finalize drv s w) (\<lambda>(r, w'). holds live h w' F)"
proof (rule finalize [THEN ensures_mono], clarsimp)
  fix w' assume w': "live w' = live w - {s}"
  obtain es where es: "represents (cache h) es" "distinct (map snd es)" "live w = set (map snd es) \<union> insert s F"
    "set (map snd es) \<inter> insert s F = {}" "s \<notin> F" using assms by (auto simp: holds_def acquired_def)
  then have "live w' = set (map snd es) \<union> F" "set (map snd es) \<inter> F = {}" unfolding w' es(3) by auto
  then show "holds live h w' F" unfolding holds_def using es(1,2) by (intro exI [of _ es]) simp
qed

lemma finalize_held:
  assumes "acquired live h w0 F s True" and "live w = live w0" and "\<And>r w'. holds live h w' F \<Longrightarrow> P (r, w')"
  shows "ensures (drv_finalize drv s w) P"
  by (rule finalize_holds [OF acquired_live [OF assms(1,2)], THEN ensures_mono]) (use assms(3) in auto)

lemma acquired_fresh: "acquired live h w0 F s True \<Longrightarrow> s \<in> F \<Longrightarrow> False"
  by (simp add: acquired_def)

lemma acquired_owned: "acquired live h w0 F s True \<Longrightarrow> live w = live w0 \<Longrightarrow> holds live h w (insert s F)"
  by (auto simp: acquired_def elim: holds_live)

lemma Write_holds:
  assumes "driver h = Some drv" and "holds live h w F"
  shows "ensures (SqlRDBWrite h name row nm w m) (\<lambda>(r, h', w', m'). holds live h' w' F)"
  unfolding SqlRDBWrite_def
  by (insert assms, (clarsimp simp: Let_def split: option.splits prod.splits
      | intro impI conjI allI locked_ensures with_schema_ensures live_rules
        build_and_get_holds [where F = F, THEN ensures_mono] release_holds [where F = F, THEN ensures_mono]
      | erule acquired_live | rule ensuresI)+)

lemma WriteMany_holds:
  assumes "driver h = Some drv" and "holds live h w F"
  shows "ensures (SqlRDBWriteMany h name rows cnt stride nms w m) (\<lambda>(r, h', w', m'). holds live h' w' F)"
  unfolding SqlRDBWriteMany_def
  by (insert assms, (clarsimp simp: Let_def split: option.splits prod.splits
      | intro impI conjI allI locked_ensures with_schema_ensures live_rules
        build_and_get_holds [where F = F, THEN ensures_mono] release_holds [where F = F, THEN ensures_mono]
      | erule acquired_live | rule ensuresI)+)

text \<open>The part of \<^verbatim>\<open>SqlRDBRead\<close> after the first row.\<close>

lemma read_single_holds:
  assumes "driver h = Some drv" and "acquired live h w F stmt owned"
  shows "ensures (read_single h drv schema stmt owned row nm w m) (\<lambda>(r, h', row', nm', w', m'). holds live h' w' F)"
  unfolding read_single_def
  by (insert assms, (clarsimp simp: Let_def split: option.splits prod.splits
      | intro impI conjI allI locked_ensures with_schema_ensures live_rules
        build_and_get_holds [where F = F, THEN ensures_mono] release_holds [where F = F, THEN ensures_mono]
        build_and_prepare_holds [where F = F, THEN ensures_mono]
      | erule acquired_live | erule (1) holds_live | rule ensuresI)+)

lemma Read_holds:
  assumes "driver h = Some drv" and "holds live h w F"
  shows "ensures (SqlRDBRead h name cond row nm opts w m) (\<lambda>(r, h', row', nm', w', m'). holds live h' w' F)"
  unfolding SqlRDBRead_def
  by (insert assms, (clarsimp simp: Let_def split: option.splits prod.splits
      | intro impI conjI allI locked_ensures [where P = "\<lambda>r h' (row', nm', w', m'). holds live h' w' F", THEN ensures_mono]
        with_schema_ensures live_rules build_and_get_holds [where F = F, THEN ensures_mono]
        release_holds [where F = F, THEN ensures_mono] read_single_holds [where F = F, THEN ensures_mono]
      | erule acquired_live | erule (1) holds_live | rule ensuresI)+)

lemma StmtNext_holds:
  assumes "driver h = Some drv" and "holds live h w F"
  shows "ensures (SqlRDBStmtNext it h row nm w) (\<lambda>(r, h', row', nm', w'). holds live h' w' F)"
  unfolding SqlRDBStmtNext_def
  by (insert assms, (clarsimp simp: Let_def split: option.splits prod.splits
      | intro impI conjI allI locked_ensures with_schema_ensures live_rules
        build_and_get_holds [where F = F, THEN ensures_mono] release_holds [where F = F, THEN ensures_mono]
        build_and_prepare_holds [where F = F, THEN ensures_mono]
      | erule acquired_live | erule (1) holds_live | rule ensuresI)+)

lemma Delete_holds:
  assumes "driver h = Some drv" and "holds live h w F"
  shows "ensures (SqlRDBDelete h name cond out w m) (\<lambda>(r, h', out', w', m'). holds live h' w' F)"
  unfolding SqlRDBDelete_def
  by (insert assms, (clarsimp simp: Let_def split: option.splits prod.splits
      | intro impI conjI allI locked_ensures with_schema_ensures live_rules
        build_and_get_holds [where F = F, THEN ensures_mono] release_holds [where F = F, THEN ensures_mono]
        build_and_prepare_holds [where F = F, THEN ensures_mono]
      | erule acquired_live | erule (1) holds_live | rule ensuresI)+)

lemma Count_holds:
  assumes "driver h = Some drv" and "holds live h w F"
  shows "ensures (SqlRDBCount h name cond out w m) (\<lambda>(r, h', out', w', m'). holds live h' w' F)"
  unfolding SqlRDBCount_def
  by (insert assms, (clarsimp simp: Let_def split: option.splits prod.splits
      | intro impI conjI allI locked_ensures with_schema_ensures live_rules
        build_and_get_holds [where F = F, THEN ensures_mono] release_holds [where F = F, THEN ensures_mono]
        build_and_prepare_holds [where F = F, THEN ensures_mono]
      | erule acquired_live | erule (1) holds_live | rule ensuresI)+)

lemma ReadMany_holds:
  assumes "driver h = Some drv" and "holds live h w F"
  shows "ensures (SqlRDBReadMany h name cond given w m) (\<lambda>(r, h', out). iterator_opened live F r h' out)"
  unfolding SqlRDBReadMany_def
  by (insert assms, (clarsimp simp: Let_def iterator_opened_def split: option.splits prod.splits
      | intro impI conjI allI locked_ensures with_schema_ensures live_rules
        build_and_prepare_holds [where F = F, THEN ensures_mono]
      | erule finalize_held [where F = F] | erule (1) acquired_fresh | erule (1) acquired_owned
      | erule acquired_live | erule (1) holds_live | rule ensuresI)+)

lemma StmtFree_holds:
  assumes "driver h = Some drv" and "holds live h w (insert (raw_stmt it) F)" and "raw_stmt it \<notin> F"
  shows "ensures (SqlRDBStmtFree (Some it) h w) (\<lambda>(r, h', w'). r = SQL_RDB_OK \<and> holds live h' w' F)"
proof -
  have acq: "acquired live h w F (raw_stmt it) True" using assms by (simp add: acquired_def)
  show ?thesis
    unfolding SqlRDBStmtFree_def option.case
    by (rule locked_ensures [where P = "\<lambda>r h' w'. r = SQL_RDB_OK \<and> holds live h' w' F"])
      (use assms in \<open>auto intro!: finalize_holds [OF acq, THEN ensures_mono]\<close>)
qed

lemma count_matching_rows_holds:
  assumes "driver h = Some drv" and "holds live h w F"
  shows "ensures (count_matching_rows h schema col cond w m) (\<lambda>(r, n, w', m'). holds live h w' F)"
  unfolding count_matching_rows_def
  by (insert assms, (clarsimp simp: Let_def split: option.splits prod.splits
      | intro impI conjI allI live_rules build_and_prepare_holds [where F = F, THEN ensures_mono]
      | erule finalize_held [where F = F] | erule (1) acquired_fresh | erule (1) acquired_owned
      | erule acquired_live | erule (1) holds_live | rule ensuresI)+)

lemma WriteBlobField_holds:
  assumes "driver h = Some drv" and "holds live h w F"
  shows "ensures (SqlRDBWriteBlobField h name key col bytes len w m) (\<lambda>(r, h', w', m'). holds live h' w' F)"
  unfolding SqlRDBWriteBlobField_def
  by (insert assms, (clarsimp simp: Let_def split: option.splits prod.splits
      | intro impI conjI allI locked_ensures with_schema_ensures live_rules
        count_matching_rows_holds [where F = F, THEN ensures_mono]
        build_and_get_holds [where F = F, THEN ensures_mono] release_holds [where F = F, THEN ensures_mono]
      | erule acquired_live | erule (1) holds_live | erule blob_column_error_holds | rule ensuresI)+)

lemma ReadBlobField_holds:
  assumes "driver h = Some drv" and "holds live h w F"
  shows "ensures (SqlRDBReadBlobField h name key col ob ol w m) (\<lambda>(r, h', out, w', m'). holds live h' w' F)"
  unfolding SqlRDBReadBlobField_def
  by (insert assms, (clarsimp simp: Let_def split: option.splits prod.splits
      | intro impI conjI allI locked_ensures with_schema_ensures live_rules
        build_and_prepare_holds [where F = F, THEN ensures_mono]
      | erule finalize_held [where F = F] | erule (1) acquired_fresh | erule (1) acquired_owned
      | erule acquired_live | erule (1) holds_live | erule blob_column_error_holds | rule ensuresI)+)

end

end
