(* ===== verification/Transactions.thy ===== *)
theory Transactions
  imports Handle
begin

text \<open>
  Transaction control, \<^verbatim>\<open>SqlRDBBeginTx\<close>, \<^verbatim>\<open>SqlRDBCommitTx\<close> and \<^verbatim>\<open>SqlRDBRollbackTx\<close>
  of \<^verbatim>\<open>src/c2sql.c\<close> over the state of \<^verbatim>\<open>src/txn_manager.h\<close>: one transaction at
  depth 1, savepoints \<^verbatim>\<open>sp_2\<close> to \<^verbatim>\<open>sp_16\<close> below it.
\<close>

section \<open>The three operations\<close>

text \<open>\<^verbatim>\<open>snprintf(sp_names[slot], C2SQL_SP_NAME_LEN, "sp_%d", n)\<close>.\<close>

definition set_sp_name :: "SqlRDBTxnState \<Rightarrow> int \<Rightarrow> int \<Rightarrow> SqlRDBTxnState option" where
  "set_sp_name t slot n =
     (if 0 \<le> slot \<and> nat slot < length (sp_names t)
      then Some (t\<lparr>sp_names := (sp_names t)[nat slot := take (C2SQL_SP_NAME_LEN - 1) (''sp_'' @ dec_of_int n)]\<rparr>)
      else None)"

definition get_sp_name :: "SqlRDBTxnState \<Rightarrow> int \<Rightarrow> string option" where
  "get_sp_name t slot = (if 0 \<le> slot then nth_opt (sp_names t) (nat slot) else None)"

text \<open>The part that all three share after the driver call: record an error or move the depth.\<close>

definition tx_finish ::
  "'w SqlRDBHandle \<Rightarrow> SqlRDBResult \<Rightarrow> string \<Rightarrow> int \<Rightarrow> 'w \<Rightarrow> (SqlRDBResult \<times> 'w SqlRDBHandle \<times> 'w) option" where
  "tx_finish h r msg delta w =
     (if r \<noteq> SQL_RDB_OK then Some (r, set_error h r msg, w)
      else Some (SQL_RDB_OK, h\<lparr>txn := (txn h)\<lparr>txn_depth := txn_depth (txn h) + delta\<rparr>\<rparr>, w))"

definition SqlRDBBeginTx :: "'w SqlRDBHandle \<Rightarrow> 'w \<Rightarrow> (SqlRDBResult \<times> 'w SqlRDBHandle \<times> 'w) option" where
  "SqlRDBBeginTx h w =
     (if \<not> c2sql_handle_valid (Some h) then Some (SQL_RDB_ERR_INVALID_HANDLE, h, w)
      else locked h (\<lambda>h.
        if C2SQL_MAX_TX_DEPTH \<le> txn_depth (txn h) then
          Some (SQL_RDB_ERR_NESTED_TX,
                set_error h SQL_RDB_ERR_NESTED_TX
                  (''BeginTx: nesting depth limit '' @ dec_of_int C2SQL_MAX_TX_DEPTH @ '' reached''), w)
        else do {
          drv \<leftarrow> driver h;
          ctx \<leftarrow> driver_ctx h;
          if txn_depth (txn h) = 0 then do {
            (r, w) \<leftarrow> drv_begin drv ctx w;
            tx_finish h r ''BeginTx: driver call failed'' 1 w
          } else do {
            let new_depth = txn_depth (txn h) + 1;
            t \<leftarrow> set_sp_name (txn h) (new_depth - 1) new_depth;
            name \<leftarrow> get_sp_name t (new_depth - 1);
            (r, w) \<leftarrow> drv_savepoint drv ctx name w;
            tx_finish (h\<lparr>txn := t\<rparr>) r ''BeginTx: driver call failed'' 1 w
          }
        }))"

definition SqlRDBCommitTx :: "'w SqlRDBHandle \<Rightarrow> 'w \<Rightarrow> (SqlRDBResult \<times> 'w SqlRDBHandle \<times> 'w) option" where
  "SqlRDBCommitTx h w =
     (if \<not> c2sql_handle_valid (Some h) then Some (SQL_RDB_ERR_INVALID_HANDLE, h, w)
      else locked h (\<lambda>h.
        if txn_depth (txn h) = 0 then Some (SQL_RDB_ERR_NO_ACTIVE_TX, h, w)
        else do {
          drv \<leftarrow> driver h;
          ctx \<leftarrow> driver_ctx h;
          (r, w) \<leftarrow> (if txn_depth (txn h) = 1 then drv_commit drv ctx w
                     else do {
                       name \<leftarrow> get_sp_name (txn h) (txn_depth (txn h) - 1);
                       drv_release_sp drv ctx name w
                     });
          tx_finish h r ''CommitTx: driver call failed'' (-1) w
        }))"

definition SqlRDBRollbackTx :: "'w SqlRDBHandle \<Rightarrow> 'w \<Rightarrow> (SqlRDBResult \<times> 'w SqlRDBHandle \<times> 'w) option" where
  "SqlRDBRollbackTx h w =
     (if \<not> c2sql_handle_valid (Some h) then Some (SQL_RDB_ERR_INVALID_HANDLE, h, w)
      else locked h (\<lambda>h.
        if txn_depth (txn h) = 0 then Some (SQL_RDB_ERR_NO_ACTIVE_TX, h, w)
        else do {
          drv \<leftarrow> driver h;
          ctx \<leftarrow> driver_ctx h;
          (r, w) \<leftarrow> (if txn_depth (txn h) = 1 then drv_rollback drv ctx w
                     else do {
                       name \<leftarrow> get_sp_name (txn h) (txn_depth (txn h) - 1);
                       (r, w) \<leftarrow> drv_rollback_sp drv ctx name w;
                       if r = SQL_RDB_OK then drv_release_sp drv ctx name w else Some (r, w)
                     });
          tx_finish h r ''RollbackTx: driver call failed'' (-1) w
        }))"

section \<open>Invariant\<close>

text \<open>
  The depth is between 0 and 16, and the slot of every open savepoint holds the name that was given
  to the driver when it was opened.
\<close>

definition sp_name :: "int \<Rightarrow> string" where
  "sp_name k = ''sp_'' @ dec_of_int k"

definition txn_ok :: "SqlRDBTxnState \<Rightarrow> bool" where
  "txn_ok t \<longleftrightarrow> 0 \<le> txn_depth t \<and> txn_depth t \<le> C2SQL_MAX_TX_DEPTH \<and>
     length (sp_names t) = nat C2SQL_MAX_TX_DEPTH \<and>
     (\<forall>k. 2 \<le> k \<and> k \<le> txn_depth t \<longrightarrow> get_sp_name t (k - 1) = Some (sp_name k))"

definition tx_ready :: "'w SqlRDBHandle \<Rightarrow> bool" where
  "tx_ready h \<longleftrightarrow> c2sql_handle_valid (Some h) \<and> mutex_idle (mutex h) \<and> txn_ok (txn h) \<and>
     driver h \<noteq> None \<and> driver_ctx h \<noteq> None"

lemma length_dec_of_nat: "n < 10 ^ k \<Longrightarrow> 0 < k \<Longrightarrow> length (dec_of_nat n) \<le> k"
proof (induction n arbitrary: k rule: dec_of_nat.induct)
  case (1 n)
  show ?case
  proof (cases "n < 10")
    case True
    then show ?thesis using 1 by (simp add: dec_of_nat.simps [of n])
  next
    case False
    then obtain j where j: "k = Suc j" "0 < j" using 1(2,3) by (cases k; cases "k - 1") auto
    then have "n div 10 < 10 ^ j" using 1(2) by (simp add: less_mult_imp_div_less mult.commute)
    then show ?thesis using 1(1) [OF False, of j] j False by (simp add: dec_of_nat.simps [of n])
  qed
qed

lemma sp_name_fits: "0 \<le> k \<Longrightarrow> k \<le> C2SQL_MAX_TX_DEPTH \<Longrightarrow> take (C2SQL_SP_NAME_LEN - 1) (''sp_'' @ dec_of_int k) = sp_name k"
proof -
  assume "0 \<le> k" "k \<le> C2SQL_MAX_TX_DEPTH"
  then have "length (dec_of_int k) \<le> 2"
    using length_dec_of_nat [of "nat k" 2] by (simp add: dec_of_int_def C2SQL_MAX_TX_DEPTH_def)
  then show ?thesis by (simp add: sp_name_def C2SQL_SP_NAME_LEN_def)
qed

lemma sp_name_short:
  assumes "0 \<le> k" and "k \<le> C2SQL_MAX_TX_DEPTH"
  shows "length (sp_name k) \<le> C2SQL_SP_NAME_LEN"
proof -
  have "length (dec_of_nat (nat k)) \<le> 2" using length_dec_of_nat [of "nat k" 2] assms by (simp add: C2SQL_MAX_TX_DEPTH_def)
  then show ?thesis using assms by (simp add: sp_name_def dec_of_int_def C2SQL_SP_NAME_LEN_def)
qed

lemma set_sp_name_ok:
  assumes "txn_ok t" and "0 < txn_depth t" and "txn_depth t < C2SQL_MAX_TX_DEPTH"
  shows "\<exists>t'. set_sp_name t (txn_depth t) (txn_depth t + 1) = Some t' \<and> txn_ok t' \<and> txn_depth t' = txn_depth t \<and>
           get_sp_name t' (txn_depth t) = Some (sp_name (txn_depth t + 1)) \<and>
           txn_ok (t'\<lparr>txn_depth := txn_depth t + 1\<rparr>)"
proof -
  let ?t = "t\<lparr>sp_names := (sp_names t)[nat (txn_depth t) := sp_name (txn_depth t + 1)]\<rparr>"
  have len: "length (sp_names t) = 16" and d: "nat (txn_depth t) < 16"
    using assms by (auto simp: txn_ok_def C2SQL_MAX_TX_DEPTH_def)
  have set: "set_sp_name t (txn_depth t) (txn_depth t + 1) = Some ?t"
    using assms len d sp_name_fits [of "txn_depth t + 1"] by (simp add: set_sp_name_def)
  have get: "get_sp_name ?t (txn_depth t) = Some (sp_name (txn_depth t + 1))"
    using assms(2) len d by (simp add: get_sp_name_def nth_opt_def)
  have old: "get_sp_name ?t (k - 1) = Some (sp_name k)" if "2 \<le> k" "k \<le> txn_depth t" for k
  proof -
    have "get_sp_name t (k - 1) = Some (sp_name k)" using assms(1) that by (simp add: txn_ok_def)
    then show ?thesis using that by (auto simp: get_sp_name_def nth_opt_def split: if_splits)
  qed
  have "get_sp_name ?t (k - 1) = Some (sp_name k)" if "2 \<le> k" "k \<le> txn_depth t + 1" for k
    using old [OF that(1)] get that by (cases "k = txn_depth t + 1") auto
  then have "txn_ok (?t\<lparr>txn_depth := txn_depth t + 1\<rparr>)" "txn_ok ?t"
    using assms len by (auto simp: txn_ok_def get_sp_name_def)
  then show ?thesis using set get by auto
qed

section \<open>The operations as a state machine\<close>

datatype tx_op = Tx_Begin | Tx_Commit | Tx_Rollback

fun tx_run :: "tx_op \<Rightarrow> 'w SqlRDBHandle \<Rightarrow> 'w \<Rightarrow> (SqlRDBResult \<times> 'w SqlRDBHandle \<times> 'w) option" where
  "tx_run Tx_Begin h w = SqlRDBBeginTx h w"
| "tx_run Tx_Commit h w = SqlRDBCommitTx h w"
| "tx_run Tx_Rollback h w = SqlRDBRollbackTx h w"

text \<open>What an operation asks of the driver at a given depth, and the depth it leads to.\<close>

fun tx_command :: "'w SqlRDBDriver \<Rightarrow> ptr \<Rightarrow> tx_op \<Rightarrow> int \<Rightarrow> 'w \<Rightarrow> (SqlRDBResult \<times> 'w) option" where
  "tx_command drv ctx Tx_Begin d w =
     (if C2SQL_MAX_TX_DEPTH \<le> d then Some (SQL_RDB_ERR_NESTED_TX, w)
      else if d = 0 then drv_begin drv ctx w
      else drv_savepoint drv ctx (sp_name (d + 1)) w)"
| "tx_command drv ctx Tx_Commit d w =
     (if d = 0 then Some (SQL_RDB_ERR_NO_ACTIVE_TX, w)
      else if d = 1 then drv_commit drv ctx w
      else drv_release_sp drv ctx (sp_name d) w)"
| "tx_command drv ctx Tx_Rollback d w =
     (if d = 0 then Some (SQL_RDB_ERR_NO_ACTIVE_TX, w)
      else if d = 1 then drv_rollback drv ctx w
      else do {
        (r, w) \<leftarrow> drv_rollback_sp drv ctx (sp_name d) w;
        if r = SQL_RDB_OK then drv_release_sp drv ctx (sp_name d) w else Some (r, w)
      })"

fun tx_depth_after :: "tx_op \<Rightarrow> int \<Rightarrow> SqlRDBResult \<Rightarrow> int" where
  "tx_depth_after oper d r =
     (if r \<noteq> SQL_RDB_OK then d else case oper of Tx_Begin \<Rightarrow> d + 1 | _ \<Rightarrow> d - 1)"

text \<open>The fields that the transaction functions leave alone.\<close>

definition same_but_tx :: "'w SqlRDBHandle \<Rightarrow> 'w SqlRDBHandle \<Rightarrow> bool" where
  "same_but_tx h h' \<longleftrightarrow> magic h' = magic h \<and> config h' = config h \<and> driver h' = driver h \<and>
     driver_ctx h' = driver_ctx h \<and> registry h' = registry h \<and> cache h' = cache h \<and> logger h' = logger h \<and>
     mutex h' = mutex h"

lemma locked_lock: "mutex_idle (mutex h) \<Longrightarrow>
    locked h body = do {
      (r, h', s) \<leftarrow> body (h\<lparr>mutex := (mutex h)\<lparr>mtx_locked := mtx_threadsafe (mutex h) \<or> mtx_locked (mutex h)\<rparr>\<rparr>);
      h' \<leftarrow> unlock_handle h'; Some (r, h', s) }"
  by (simp add: locked_def lock_handle_def mutex_lock_idle)

lemma unlock_restores:
  assumes "mutex_idle (mutex h)"
    and "mutex h' = (mutex h)\<lparr>mtx_locked := mtx_threadsafe (mutex h) \<or> mtx_locked (mutex h)\<rparr>"
  shows "unlock_handle h' = Some (h'\<lparr>mutex := mutex h\<rparr>)"
  using assms mutex_lock_unlock [OF assms(1)] mutex_lock_idle [OF assms(1)] by (simp add: unlock_handle_def)

lemma txn_ok_commit: "txn_ok t \<Longrightarrow> txn_depth t \<noteq> 0 \<Longrightarrow> txn_ok (t\<lparr>txn_depth := txn_depth t - 1\<rparr>)"
  by (auto simp: txn_ok_def get_sp_name_def)

lemma txn_ok_begin: "txn_ok t \<Longrightarrow> txn_depth t = 0 \<Longrightarrow> txn_ok (t\<lparr>txn_depth := 1\<rparr>)"
  by (auto simp: txn_ok_def C2SQL_MAX_TX_DEPTH_def)

lemma txn_ok_name: "txn_ok t \<Longrightarrow> txn_depth t \<noteq> 0 \<Longrightarrow> txn_depth t \<noteq> 1 \<Longrightarrow>
    get_sp_name t (txn_depth t - 1) = Some (sp_name (txn_depth t))"
  by (auto simp: txn_ok_def)

text \<open>
  Refinement: on a ready handle every operation makes exactly the driver calls of \<open>tx_command\<close>
  at the current depth, returns their result, moves the depth accordingly and leaves the handle ready.
\<close>

lemma tx_run_refines:
  fixes h :: "'w SqlRDBHandle"
  assumes rdy: "tx_ready h" and drv: "driver h = Some drv" "driver_ctx h = Some ctx"
    and cmd: "tx_command drv ctx oper (txn_depth (txn h)) w = Some (r, w')"
  shows "\<exists>h'. tx_run oper h w = Some (r, h', w') \<and> tx_ready h' \<and> same_but_tx h h' \<and>
           txn_depth (txn h') = tx_depth_after oper (txn_depth (txn h)) r"
proof -
  let ?h = "h\<lparr>mutex := (mutex h)\<lparr>mtx_locked := mtx_threadsafe (mutex h) \<or> mtx_locked (mutex h)\<rparr>\<rparr>"
  have v: "c2sql_handle_valid (Some h)" and idle: "mutex_idle (mutex h)" and ok: "txn_ok (txn h)"
    using rdy by (simp_all add: tx_ready_def)
  note L = locked_lock [OF idle]
  have U: "unlock_handle h' = Some (h'\<lparr>mutex := mutex h\<rparr>)" if "mutex h' = mutex ?h" for h' :: "'w SqlRDBHandle"
    using that unlock_restores [OF idle] by simp
  have fin: "\<exists>h'. do { (r, h', s) \<leftarrow> tx_finish g r msg delta w'; h' \<leftarrow> unlock_handle h'; Some (r, h', s) } =
        Some (r, h', w') \<and> tx_ready h' \<and> same_but_tx h h' \<and>
        txn_depth (txn h') = (if r = SQL_RDB_OK then txn_depth t + delta else txn_depth t)"
    if "g = ?h\<lparr>txn := t\<rparr>" "txn_ok t" "txn_ok (t\<lparr>txn_depth := txn_depth t + delta\<rparr>)" for g t msg delta
    using that U v idle drv
    by (auto simp: tx_finish_def tx_ready_def same_but_tx_def c2sql_handle_valid_def)
  have self: "?h = ?h\<lparr>txn := txn h\<rparr>" by simp
  show ?thesis
  proof (cases oper)
    case Tx_Begin
    consider (deep) "C2SQL_MAX_TX_DEPTH \<le> txn_depth (txn h)" | (top) "txn_depth (txn h) = 0"
      | (nested) "0 < txn_depth (txn h)" "txn_depth (txn h) < C2SQL_MAX_TX_DEPTH"
      using ok by (force simp: txn_ok_def)
    then show ?thesis
    proof cases
      case deep
      then show ?thesis using Tx_Begin cmd v U ok idle drv
        by (auto simp: SqlRDBBeginTx_def L tx_ready_def same_but_tx_def c2sql_handle_valid_def)
    next
      case top
      then show ?thesis using Tx_Begin cmd v drv fin [OF self ok, of 1 "''BeginTx: driver call failed''"] txn_ok_begin [OF ok]
        by (simp split: if_splits add: SqlRDBBeginTx_def L C2SQL_MAX_TX_DEPTH_def)
    next
      case nested
      obtain t where t: "set_sp_name (txn h) (txn_depth (txn h)) (txn_depth (txn h) + 1) = Some t" "txn_ok t"
        "txn_depth t = txn_depth (txn h)" "get_sp_name t (txn_depth (txn h)) = Some (sp_name (txn_depth (txn h) + 1))"
        "txn_ok (t\<lparr>txn_depth := txn_depth (txn h) + 1\<rparr>)" using set_sp_name_ok [OF ok nested] by blast
      then show ?thesis using Tx_Begin cmd v drv nested fin [OF refl t(2), of 1 "''BeginTx: driver call failed''"]
        by (simp split: if_splits add: SqlRDBBeginTx_def L Let_def)
    qed
  next
    case Tx_Commit
    show ?thesis
    proof (cases "txn_depth (txn h) = 0")
      case True
      then show ?thesis using Tx_Commit cmd v U ok idle drv
        by (auto simp: SqlRDBCommitTx_def L tx_ready_def same_but_tx_def c2sql_handle_valid_def)
    next
      case False
      then show ?thesis using Tx_Commit cmd v drv fin [OF self ok, of "-1" "''CommitTx: driver call failed''"] txn_ok_commit [OF ok] txn_ok_name [OF ok]
        by (auto simp: SqlRDBCommitTx_def L)
    qed
  next
    case Tx_Rollback
    let ?name = "sp_name (txn_depth (txn h))"
    consider (none) "txn_depth (txn h) = 0" | (top) "txn_depth (txn h) = 1"
      | (nested) r1 w1 where "txn_depth (txn h) \<noteq> 0" "txn_depth (txn h) \<noteq> 1" "drv_rollback_sp drv ctx ?name w = Some (r1, w1)"
      using cmd Tx_Rollback by (cases "drv_rollback_sp drv ctx ?name w") (auto split: if_splits)
    then show ?thesis
    proof cases
      case none
      then show ?thesis using Tx_Rollback cmd v U ok idle drv
        by (auto simp: SqlRDBRollbackTx_def L tx_ready_def same_but_tx_def c2sql_handle_valid_def)
    next
      case top
      then show ?thesis using Tx_Rollback cmd v drv txn_ok_commit [OF ok]
          fin [OF self ok, of "-1" "''RollbackTx: driver call failed''"]
        by (auto simp: SqlRDBRollbackTx_def L)
    next
      case nested
      then show ?thesis using Tx_Rollback cmd v drv txn_ok_commit [OF ok] txn_ok_name [OF ok]
          fin [OF self ok, of "-1" "''RollbackTx: driver call failed''"]
        by (cases "r1 = SQL_RDB_OK") (auto simp: SqlRDBRollbackTx_def L)
    qed
  qed
qed

text \<open>Histories of transaction calls on one handle, with the results they returned.\<close>

inductive tx_reach :: "'w SqlRDBHandle \<Rightarrow> 'w \<Rightarrow> (tx_op \<times> SqlRDBResult) list \<Rightarrow> 'w SqlRDBHandle \<Rightarrow> 'w \<Rightarrow> bool" where
  tx_start: "tx_reach h w [] h w"
| tx_step: "tx_reach h w tr h1 w1 \<Longrightarrow> tx_run oper h1 w1 = Some (r, h2, w2) \<Longrightarrow> tx_reach h w (tr @ [(oper, r)]) h2 w2"

text \<open>The depth a history leads to: successful begins open a level, successful ends close one.\<close>

definition tx_depth_of :: "int \<Rightarrow> (tx_op \<times> SqlRDBResult) list \<Rightarrow> int" where
  "tx_depth_of d tr = foldl (\<lambda>d (oper, r). tx_depth_after oper d r) d tr"

lemma tx_run_defined:
  assumes "tx_ready h" and "tx_run oper h w = Some (r, h', w')"
  shows "\<exists>drv ctx. driver h = Some drv \<and> driver_ctx h = Some ctx \<and>
           tx_command drv ctx oper (txn_depth (txn h)) w = Some (r, w')"
proof -
  obtain drv ctx where d: "driver h = Some drv" "driver_ctx h = Some ctx" using assms(1) by (auto simp: tx_ready_def)
  have idle: "mutex_idle (mutex h)" and ok: "txn_ok (txn h)" and v: "c2sql_handle_valid (Some h)"
    using assms(1) by (simp_all add: tx_ready_def)
  note L = locked_lock [OF idle]
  show ?thesis
  proof (cases "tx_command drv ctx oper (txn_depth (txn h)) w")
    case (Some rw)
    then show ?thesis using tx_run_refines [OF assms(1) d, of oper w "fst rw" "snd rw"] assms(2) d by auto
  next
    case None
    have "tx_run oper h w = None"
    proof (cases oper)
      case Tx_Begin
      then have "txn_depth (txn h) < C2SQL_MAX_TX_DEPTH" using None by (auto simp: not_le split: if_splits)
      then show ?thesis using None Tx_Begin v d ok set_sp_name_ok [OF ok]
        by (cases "txn_depth (txn h) = 0") (auto simp: SqlRDBBeginTx_def L Let_def txn_ok_def)
    next
      case Tx_Commit
      then show ?thesis using None v d txn_ok_name [OF ok]
        by (auto simp: SqlRDBCommitTx_def L split: if_splits)
    next
      case Tx_Rollback
      then show ?thesis using None v d txn_ok_name [OF ok]
        by (cases "drv_rollback_sp drv ctx (sp_name (txn_depth (txn h))) w")
          (auto simp: SqlRDBRollbackTx_def L split: if_splits)
    qed
    then show ?thesis using assms(2) by simp
  qed
qed

lemma tx_reach_ready:
  "tx_reach h w tr h' w' \<Longrightarrow> tx_ready h \<Longrightarrow>
     tx_ready h' \<and> same_but_tx h h' \<and> txn_depth (txn h') = tx_depth_of (txn_depth (txn h)) tr"
proof (induction rule: tx_reach.induct)
  case (tx_start h w)
  then show ?case by (simp add: same_but_tx_def tx_depth_of_def)
next
  case (tx_step h w tr h1 w1 oper r h2 w2)
  from tx_step.IH [OF tx_step.prems] have rdy: "tx_ready h1" "same_but_tx h h1"
    "txn_depth (txn h1) = tx_depth_of (txn_depth (txn h)) tr" by blast+
  obtain drv ctx where "driver h1 = Some drv" "driver_ctx h1 = Some ctx"
    "tx_command drv ctx oper (txn_depth (txn h1)) w1 = Some (r, w2)"
    using tx_run_defined [OF rdy(1) tx_step.hyps(2)] by blast
  from tx_run_refines [OF rdy(1) this] show ?case
    using tx_step.hyps(2) rdy(2,3) by (auto simp: same_but_tx_def tx_depth_of_def)
qed

section \<open>Drivers that run transaction control as SQL\<close>

text \<open>The SQL commands of an operation at a given depth, and running them until one fails.\<close>

fun tx_sql :: "tx_op \<Rightarrow> int \<Rightarrow> string list" where
  "tx_sql Tx_Begin d = [if d = 0 then ''BEGIN'' else ''SAVEPOINT '' @ sp_name (d + 1)]"
| "tx_sql Tx_Commit d = [if d = 1 then ''COMMIT'' else ''RELEASE SAVEPOINT '' @ sp_name d]"
| "tx_sql Tx_Rollback d =
     (if d = 1 then [''ROLLBACK'']
      else [''ROLLBACK TO SAVEPOINT '' @ sp_name d, ''RELEASE SAVEPOINT '' @ sp_name d])"

fun exec_all :: "'w SqlRDBDriver \<Rightarrow> ptr \<Rightarrow> string list \<Rightarrow> 'w \<Rightarrow> (SqlRDBResult \<times> 'w) option" where
  "exec_all drv ctx [] w = Some (SQL_RDB_OK, w)"
| "exec_all drv ctx (s # ss) w =
     do { (r, w) \<leftarrow> drv_exec drv ctx s w; if r = SQL_RDB_OK then exec_all drv ctx ss w else Some (r, w) }"

text \<open>The depths at which an operation is not refused.\<close>

definition tx_legal :: "tx_op \<Rightarrow> int \<Rightarrow> bool" where
  "tx_legal oper d \<longleftrightarrow> (if oper = Tx_Begin then d < C2SQL_MAX_TX_DEPTH else d \<noteq> 0)"

text \<open>The contract of a driver whose transaction functions execute the SQL commands.\<close>

locale sql_txn_driver =
  fixes drv :: "'w SqlRDBDriver"
  assumes begin_sql: "drv_begin drv ctx w = drv_exec drv ctx ''BEGIN'' w"
    and commit_sql: "drv_commit drv ctx w = drv_exec drv ctx ''COMMIT'' w"
    and rollback_sql: "drv_rollback drv ctx w = drv_exec drv ctx ''ROLLBACK'' w"
    and savepoint_sql: "length name \<le> C2SQL_SP_NAME_LEN \<Longrightarrow>
      drv_savepoint drv ctx name w = drv_exec drv ctx (''SAVEPOINT '' @ name) w"
    and release_sql: "length name \<le> C2SQL_SP_NAME_LEN \<Longrightarrow>
      drv_release_sp drv ctx name w = drv_exec drv ctx (''RELEASE SAVEPOINT '' @ name) w"
    and rollback_to_sql: "length name \<le> C2SQL_SP_NAME_LEN \<Longrightarrow>
      drv_rollback_sp drv ctx name w = drv_exec drv ctx (''ROLLBACK TO SAVEPOINT '' @ name) w"
begin

lemma exec_all_single: "exec_all drv ctx [s] w = drv_exec drv ctx s w"
  by (cases "drv_exec drv ctx s w") auto

text \<open>An operation that is legal at its depth runs exactly its SQL commands.\<close>

lemma tx_command_sql:
  assumes "0 \<le> d" "d \<le> C2SQL_MAX_TX_DEPTH" and "tx_legal oper d"
  shows "tx_command drv ctx oper d w = exec_all drv ctx (tx_sql oper d) w"
proof (cases oper)
  case Tx_Begin
  then show ?thesis using assms sp_name_short [of "d + 1"]
    by (auto simp: tx_legal_def exec_all_single begin_sql savepoint_sql simp del: exec_all.simps)
next
  case Tx_Commit
  then show ?thesis using assms sp_name_short [of d]
    by (auto simp: tx_legal_def exec_all_single commit_sql release_sql simp del: exec_all.simps)
next
  case Tx_Rollback
  then show ?thesis using assms sp_name_short [of d] exec_all_single
    by (auto simp: tx_legal_def rollback_sql rollback_to_sql release_sql split: option.splits
        intro!: Option.bind_cong)
qed

lemma tx_run_sql:
  assumes rdy: "tx_ready h" and "driver h = Some drv" "driver_ctx h = Some ctx" and "tx_legal oper (txn_depth (txn h))"
    and "exec_all drv ctx (tx_sql oper (txn_depth (txn h))) w = Some (r, w')"
  shows "\<exists>h'. tx_run oper h w = Some (r, h', w') \<and> tx_ready h' \<and> same_but_tx h h' \<and>
           txn_depth (txn h') = tx_depth_after oper (txn_depth (txn h)) r"
proof (rule tx_run_refines [OF rdy assms(2,3)])
  have "0 \<le> txn_depth (txn h)" "txn_depth (txn h) \<le> C2SQL_MAX_TX_DEPTH" using rdy by (simp_all add: tx_ready_def txn_ok_def)
  from tx_command_sql [OF this assms(4)] assms(5)
  show "tx_command drv ctx oper (txn_depth (txn h)) w = Some (r, w')" by simp
qed

end

end
