(* ===== verification/Sessions.thy ===== *)
theory Sessions
  imports Stmt_Ownership Transactions
begin

text \<open>
  Sequences of API calls on one open handle, as a step relation: a state is the handle, the driver's
  world and the set of statements that open iterators own. Every reachable state keeps the handle's
  fixed fields and the ownership of statements.
\<close>

section \<open>The calls\<close>

type_synonym 'w session_state = "'w SqlRDBHandle \<times> 'w \<times> ptr set"

inductive api_step :: "'w session_state \<Rightarrow> 'w session_state \<Rightarrow> bool" where
  st_write: "SqlRDBWrite h name row nm w m = Some (r, h', w', m') \<Longrightarrow> api_step (h, w, F) (h', w', F)"
| st_write_many: "SqlRDBWriteMany h name rows n stride nms w m = Some (r, h', w', m') \<Longrightarrow> api_step (h, w, F) (h', w', F)"
| st_read: "SqlRDBRead h name cond row nm opts w m = Some (r, h', row', nm', w', m') \<Longrightarrow> api_step (h, w, F) (h', w', F)"
| st_read_many: "SqlRDBReadMany h name cond given w m = Some (r, h', it, w', m') \<Longrightarrow>
     api_step (h, w, F) (h', w', case it of None \<Rightarrow> F | Some x \<Rightarrow> insert (raw_stmt x) F)"
| st_next: "SqlRDBStmtNext it h row nm w = Some (r, h', row', nm', w') \<Longrightarrow> api_step (h, w, F) (h', w', F)"
| st_free: "raw_stmt it \<in> F \<Longrightarrow> SqlRDBStmtFree (Some it) h w = Some (r, h', w') \<Longrightarrow>
     api_step (h, w, F) (h', w', F - {raw_stmt it})"
| st_delete: "SqlRDBDelete h name cond out w m = Some (r, h', out', w', m') \<Longrightarrow> api_step (h, w, F) (h', w', F)"
| st_count: "SqlRDBCount h name cond out w m = Some (r, h', out', w', m') \<Longrightarrow> api_step (h, w, F) (h', w', F)"
| st_write_blob: "SqlRDBWriteBlobField h name key col bytes len w m = Some (r, h', w', m') \<Longrightarrow> api_step (h, w, F) (h', w', F)"
| st_read_blob: "SqlRDBReadBlobField h name key col ob ol w m = Some (r, h', out, w', m') \<Longrightarrow> api_step (h, w, F) (h', w', F)"
| st_tx: "tx_run oper h w = Some (r, h', w') \<Longrightarrow> api_step (h, w, F) (h', w', F)"

abbreviation session :: "'w session_state \<Rightarrow> 'w session_state \<Rightarrow> bool" where
  "session \<equiv> api_step\<^sup>*\<^sup>*"

section \<open>What a call may change\<close>

text \<open>The fields no call changes; between calls the mutex is back in its state.\<close>

definition same_connection :: "'w SqlRDBHandle \<Rightarrow> 'w SqlRDBHandle \<Rightarrow> bool" where
  "same_connection h h' \<longleftrightarrow> magic h' = magic h \<and> config h' = config h \<and> driver h' = driver h \<and>
     driver_ctx h' = driver_ctx h \<and> registry h' = registry h \<and> logger h' = logger h \<and> mutex h' = mutex h"

lemma keeps_same_connection: "keeps_handle h h' \<Longrightarrow> same_connection h h'"
  by (simp add: keeps_handle_def same_connection_def)

lemma same_connection_upd [simp]: "same_connection h (set_error g c t) \<longleftrightarrow> same_connection h g"
  "same_connection h (g\<lparr>txn := x\<rparr>) \<longleftrightarrow> same_connection h g" "same_connection h h"
  by (simp_all add: same_connection_def)

lemma locked_same:
  assumes idle: "mutex_idle (mutex h)"
    and body: "\<And>g. ensures (body g) (\<lambda>(r, g', s). same_connection g g')"
  shows "ensures (locked h body) (\<lambda>(r, h', s). same_connection h h')"
proof (rule ensuresI, clarify)
  fix r h' s assume run: "locked h body = Some (r, h', s)"
  let ?mx = "(mutex h)\<lparr>mtx_locked := mtx_threadsafe (mutex h) \<or> mtx_locked (mutex h)\<rparr>"
  have lk: "lock_handle h = Some (h\<lparr>mutex := ?mx\<rparr>)" using mutex_lock_idle [OF idle] by (simp add: lock_handle_def)
  obtain g where g: "body (h\<lparr>mutex := ?mx\<rparr>) = Some (r, g, s)" "unlock_handle g = Some h'"
    using run lk by (auto simp: locked_def bind_Some_iff)
  have k: "same_connection (h\<lparr>mutex := ?mx\<rparr>) g" using ensuresD [OF body g(1)] by simp
  then have "unlock_handle g = Some (g\<lparr>mutex := mutex h\<rparr>)"
    using mutex_lock_unlock [OF idle] mutex_lock_idle [OF idle] by (simp add: unlock_handle_def same_connection_def)
  then show "same_connection h h'" using g(2) k by (auto simp: same_connection_def)
qed

lemmas any_tx_call = any_driver_call
  ensures_any [where x = "drv_savepoint drv ctx name w" for drv ctx name w]
  ensures_any [where x = "drv_release_sp drv ctx name w" for drv ctx name w]
  ensures_any [where x = "drv_rollback_sp drv ctx name w" for drv ctx name w]
  ensures_any [where x = "get_sp_name t i" for t i] ensures_any [where x = "set_sp_name t i n" for t i n]

lemma tx_run_same:
  assumes "mutex_idle (mutex h)"
  shows "ensures (tx_run oper h w) (\<lambda>(r, h', w'). same_connection h h')"
  by (cases oper; simp only: tx_run.simps SqlRDBBeginTx_def SqlRDBCommitTx_def SqlRDBRollbackTx_def tx_finish_def;
      (clarsimp simp: Let_def split: prod.splits | intro conjI impI allI locked_same [OF assms] any_tx_call field_read
        | rule ensuresI)+)

lemma api_step_same:
  assumes "api_step (h, w, F) (h', w', F')" and idle: "mutex_idle (mutex h)"
  shows "same_connection h h'"
  using assms(1)
proof cases
qed (use idle in \<open>auto dest!: Write_frame [THEN ensuresD, rotated] WriteMany_frame [THEN ensuresD, rotated]
  Read_frame [THEN ensuresD, rotated] ReadMany_frame [THEN ensuresD, rotated] StmtNext_frame [THEN ensuresD, rotated]
  StmtFree_frame [THEN ensuresD, rotated] Delete_frame [THEN ensuresD, rotated] Count_frame [THEN ensuresD, rotated]
  WriteBlobField_frame [THEN ensuresD, rotated] ReadBlobField_frame [THEN ensuresD, rotated] tx_run_same [THEN ensuresD, rotated]
  keeps_same_connection\<close>)

lemma session_same:
  assumes "session (h, w, F) (h', w', F')" and "mutex_idle (mutex h)"
  shows "same_connection h h'"
  using assms(1)
proof (induction "(h', w', F')" arbitrary: h' w' F' rule: rtranclp_induct)
  case (step y)
  obtain h1 w1 F1 where y: "y = (h1, w1, F1)" by (metis prod_cases3)
  have IH: "same_connection h h1" using step.hyps(3) y by simp
  then have "mutex_idle (mutex h1)" using assms(2) by (simp add: same_connection_def)
  from api_step_same [OF step.hyps(2) [unfolded y] this] IH show ?case by (simp add: same_connection_def)
qed simp

text \<open>A handle that is ready for transactions stays ready.\<close>

lemma keeps_handle_ready: "keeps_handle h h' \<Longrightarrow> tx_ready h \<Longrightarrow> tx_ready h'"
  by (auto simp: keeps_handle_def tx_ready_def c2sql_handle_valid_def)

lemma tx_run_ready: "tx_run oper h w = Some (r, h', w') \<Longrightarrow> tx_ready h \<Longrightarrow> tx_ready h'"
  by (rule tx_reach_ready [OF tx_step [OF tx_start], THEN conjunct1])

lemma api_step_ready:
  assumes "api_step (h, w, F) (h', w', F')" and rdy: "tx_ready h"
  shows "tx_ready h'"
proof -
  have idle: "mutex_idle (mutex h)" using rdy by (simp add: tx_ready_def)
  show ?thesis using assms(1)
  proof cases
  qed (use rdy idle in \<open>auto dest!: Write_frame [THEN ensuresD, rotated] WriteMany_frame [THEN ensuresD, rotated]
    Read_frame [THEN ensuresD, rotated] ReadMany_frame [THEN ensuresD, rotated] StmtNext_frame [THEN ensuresD, rotated]
    StmtFree_frame [THEN ensuresD, rotated] Delete_frame [THEN ensuresD, rotated] Count_frame [THEN ensuresD, rotated]
    WriteBlobField_frame [THEN ensuresD, rotated] ReadBlobField_frame [THEN ensuresD, rotated]
    elim: keeps_handle_ready tx_run_ready\<close>)
qed

lemma session_ready:
  assumes "session (h, w, F) (h', w', F')" and "tx_ready h"
  shows "tx_ready h'"
  using assms(1)
proof (induction "(h', w', F')" arbitrary: h' w' F' rule: rtranclp_induct)
  case (step y)
  obtain h1 w1 F1 where y: "y = (h1, w1, F1)" by (metis prod_cases3)
  show ?case using api_step_ready [OF step.hyps(2) [unfolded y]] step.hyps(3) [OF y] by blast
qed (use assms(2) in simp)

section \<open>Ownership of statements over a session\<close>

lemma holds_txn [simp]: "holds live (h\<lparr>txn := x\<rparr>) w F \<longleftrightarrow> holds live h w F"
  by (simp add: holds_def)

context stmt_driver begin

lemma tx_run_holds:
  assumes "driver h = Some drv" and "holds live h w F"
  shows "ensures (tx_run oper h w) (\<lambda>(r, h', w'). holds live h' w' F)"
  by (insert assms, cases oper; simp only: tx_run.simps SqlRDBBeginTx_def SqlRDBCommitTx_def SqlRDBRollbackTx_def tx_finish_def;
      (clarsimp simp: Let_def split: prod.splits
        | intro conjI impI allI locked_ensures live_rules ensures_any [where x = "get_sp_name t i" for t i]
          ensures_any [where x = "set_sp_name t i n" for t i n] ensures_any [where x = "driver_ctx x" for x]
        | erule (1) holds_live | rule ensuresI)+)

lemma api_step_holds:
  assumes st: "api_step (h, w, F) (h', w', F')" and drv: "driver h = Some drv" and ho: "holds live h w F"
  shows "holds live h' w' F'"
  using st
proof cases
  case (st_read_many name cond given m r it m')
  then show ?thesis using ensuresD [OF ReadMany_holds [OF drv ho], of name cond given m]
    by (auto simp: iterator_opened_def split: option.splits)
next
  case (st_free it r)
  have "holds live h w (insert (raw_stmt it) (F - {raw_stmt it}))" using ho st_free(2) by (simp add: insert_absorb)
  from ensuresD [OF StmtFree_holds [OF drv this]] st_free show ?thesis by auto
qed (use drv ho in \<open>auto dest!: Write_holds [THEN ensuresD, rotated 2] WriteMany_holds [THEN ensuresD, rotated 2]
  Read_holds [THEN ensuresD, rotated 2] StmtNext_holds [THEN ensuresD, rotated 2] Delete_holds [THEN ensuresD, rotated 2]
  Count_holds [THEN ensuresD, rotated 2] WriteBlobField_holds [THEN ensuresD, rotated 2]
  ReadBlobField_holds [THEN ensuresD, rotated 2] tx_run_holds [THEN ensuresD, rotated 2]\<close>)

lemma session_holds:
  assumes "session (h, w, F) (h', w', F')" and idle: "mutex_idle (mutex h)" and drv: "driver h = Some drv"
    and "holds live h w F"
  shows "holds live h' w' F'"
  using assms(1,4)
proof (induction "(h', w', F')" arbitrary: h' w' F' rule: rtranclp_induct)
  case (step y)
  obtain h1 w1 F1 where y: "y = (h1, w1, F1)" by (metis prod_cases3)
  have "driver h1 = Some drv" using session_same [OF step.hyps(1) [unfolded y] idle] drv by (simp add: same_connection_def)
  from api_step_holds [OF step.hyps(2) [unfolded y] this] step.hyps(3) [OF y] step.prems show ?case by blast
qed simp

end

end
