(* ===== verification/Lifecycle.thy ===== *)
theory Lifecycle
  imports Sessions
begin

text \<open>
  Opening, configuring and closing a handle: the driver selection, the registry of live handles,
  \<^verbatim>\<open>SqlRDBInit\<close>, \<^verbatim>\<open>SqlRDBClose\<close>, \<^verbatim>\<open>SqlRDBSetConfig\<close> and the diagnostics of
  \<^verbatim>\<open>src/c2sql.c\<close>. The handle structs live on an explicit heap, so that a use of a freed one is
  undefined.
\<close>

section \<open>Driver selection\<close>

definition dsn_is_postgres :: "string \<Rightarrow> bool" where
  "dsn_is_postgres dsn \<longleftrightarrow> take 13 dsn = ''postgresql://'' \<or> take 11 dsn = ''postgres://''"

text \<open>The drivers that are compiled in, as drivers of one world; \<^verbatim>\<open>HAVE_POSTGRES\<close> is optional.\<close>

record 'w backends =
  be_sqlite :: "'w SqlRDBDriver"
  be_postgres :: "'w SqlRDBDriver option"

definition select_driver :: "'w backends \<Rightarrow> string \<Rightarrow> 'w SqlRDBDriver option" where
  "select_driver be dsn = (if dsn_is_postgres dsn then be_postgres be else Some (be_sqlite be))"

section \<open>The live handles\<close>

text \<open>
  The process: the allocated handle structs, and the array \<^verbatim>\<open>g_live_handles\<close> with its
  capacity (\<^verbatim>\<open>g_live_count\<close> is the length of the list).
\<close>

record 'w process =
  handles :: "ptr \<rightharpoonup> 'w SqlRDBHandle"
  next_handle :: ptr
  g_live_handles :: "ptr list"
  g_live_capacity :: nat
  pr_mem :: mem

definition pr_alloc :: "'w process \<Rightarrow> bool \<times> 'w process" where
  "pr_alloc P = (let (ok, m) = alloc (pr_mem P) in (ok, P\<lparr>pr_mem := m\<rparr>))"

definition live_register :: "ptr \<Rightarrow> 'w process \<Rightarrow> bool \<times> 'w process" where
  "live_register h P =
     (if length (g_live_handles P) = g_live_capacity P then
        let new_cap = (if g_live_capacity P = 0 then 8 else g_live_capacity P * 2);
            (ok, P) = pr_alloc P
        in if \<not> ok then (False, P)
           else (True, P\<lparr>g_live_capacity := new_cap, g_live_handles := g_live_handles P @ [h]\<rparr>)
      else (True, P\<lparr>g_live_handles := g_live_handles P @ [h]\<rparr>))"

text \<open>The last element takes the place of the removed one.\<close>

definition live_remove :: "ptr \<Rightarrow> 'w process \<Rightarrow> bool \<times> 'w process" where
  "live_remove h P =
     (let xs = g_live_handles P in
      case find_index (\<lambda>q. q = h) xs of
        None \<Rightarrow> (False, P)
      | Some i \<Rightarrow> (True, P\<lparr>g_live_handles := butlast (xs[i := last xs])\<rparr>))"

definition live_contains :: "ptr option \<Rightarrow> 'w process \<Rightarrow> bool" where
  "live_contains h P = (case h of None \<Rightarrow> False | Some p \<Rightarrow> List.member (g_live_handles P) p)"

section \<open>Init and close\<close>

definition new_handle :: "'w SqlRDBDriver \<Rightarrow> ptr option \<Rightarrow> SqlRDBMutex \<Rightarrow> SqlRDBStmtCache \<Rightarrow> 'w SqlRDBHandle" where
  "new_handle drv ctx mx c =
     \<lparr>magic = SQL_RDB_HANDLE_MAGIC, config = DEFAULT_CONFIG, driver = Some drv, driver_ctx = ctx,
      registry = c2sql_internal_schema_registry_init 0, cache = c,
      txn = \<lparr>txn_depth = 0, sp_names = replicate (nat C2SQL_MAX_TX_DEPTH) []\<rparr>,
      error = \<lparr>err_code = SQL_RDB_OK, err_message = []\<rparr>, logger = \<lparr>log_fn = None, log_user = None\<rparr>, mutex = mx\<rparr>"

text \<open>\<^verbatim>\<open>drv->close(driver_ctx)\<close> on a failure path. An open that reports success has returned a context; a
  driver that has not is outside its contract, and the call is then undefined.\<close>

definition close_ctx :: "'w SqlRDBDriver \<Rightarrow> ptr option \<Rightarrow> 'w \<Rightarrow> 'w option" where
  "close_ctx drv ctx w = do { c \<leftarrow> ctx; (r, w) \<leftarrow> drv_close drv c w; Some w }"

definition SqlRDBInit ::
  "'w backends \<Rightarrow> string option \<Rightarrow> 'w \<Rightarrow> 'w process \<Rightarrow> (ptr option \<times> 'w \<times> 'w process) option" where
  "SqlRDBInit be connection_string w P =
     (case connection_string of None \<Rightarrow> Some (None, w, P)
      | Some dsn \<Rightarrow>
        case select_driver be dsn of None \<Rightarrow> Some (None, w, P)
        | Some drv \<Rightarrow>
            do {
              (r, ctx, w) \<leftarrow> drv_open drv dsn w;
              if r \<noteq> SQL_RDB_OK then Some (None, w, P)
              else
                let (ok, P) = pr_alloc P in
                if \<not> ok then do { w \<leftarrow> close_ctx drv ctx w; Some (None, w, P) }
                else
                  let (r, mx, m) = c2sql_internal_mutex_init (threadsafe DEFAULT_CONFIG) (pr_mem P);
                      P = P\<lparr>pr_mem := m\<rparr> in
                  if r \<noteq> SQL_RDB_OK then do { w \<leftarrow> close_ctx drv ctx w; Some (None, w, P) }
                  else do {
                    (r, c, m) \<leftarrow> c2sql_internal_cache_init (stmt_cache_size DEFAULT_CONFIG) (pr_mem P);
                    let P = P\<lparr>pr_mem := m\<rparr>;
                    if r \<noteq> SQL_RDB_OK then do {
                      mx \<leftarrow> c2sql_internal_mutex_destroy mx;
                      w \<leftarrow> close_ctx drv ctx w;
                      Some (None, w, P)
                    } else
                      let p = next_handle P;
                          P = P\<lparr>handles := (handles P)(p \<mapsto> new_handle drv ctx mx c), next_handle := Suc p\<rparr>;
                          (ok, P) = live_register p P in
                      if \<not> ok then do {
                        (c, w) \<leftarrow> c2sql_internal_cache_destroy c (Some drv) w;
                        mx \<leftarrow> c2sql_internal_mutex_destroy mx;
                        w \<leftarrow> close_ctx drv ctx w;
                        Some (None, w, P\<lparr>handles := (handles P)(p := None)\<rparr>)
                      } else Some (Some p, w, P)
                  }
            })"

definition SqlRDBClose :: "ptr option \<Rightarrow> 'w \<Rightarrow> 'w process \<Rightarrow> (SqlRDBResult \<times> 'w \<times> 'w process) option" where
  "SqlRDBClose hp w P =
     (if \<not> live_contains hp P then Some (SQL_RDB_ERR_INVALID_HANDLE, w, P)
      else do {
        p \<leftarrow> hp;
        h \<leftarrow> handles P p;
        if magic h \<noteq> SQL_RDB_HANDLE_MAGIC then Some (SQL_RDB_ERR_INVALID_HANDLE, w, P)
        else do {
          let P = snd (live_remove p P);
          let h = h\<lparr>magic := SQL_RDB_HANDLE_DEAD\<rparr>;
          (h, w) \<leftarrow>
            (case (driver h, driver_ctx h) of
               (Some drv, Some ctx) \<Rightarrow>
                 if 0 < txn_depth (txn h)
                 then do { (r, w) \<leftarrow> drv_rollback drv ctx w; Some (h\<lparr>txn := (txn h)\<lparr>txn_depth := 0\<rparr>\<rparr>, w) }
                 else Some (h, w)
             | _ \<Rightarrow> Some (h, w));
          (c, w) \<leftarrow> c2sql_internal_cache_destroy (cache h) (driver h) w;
          let h = h\<lparr>cache := c, registry := c2sql_internal_schema_registry_destroy (registry h)\<rparr>;
          (h, w) \<leftarrow>
            (case (driver h, driver_ctx h) of
               (Some drv, Some ctx) \<Rightarrow> do { (r, w) \<leftarrow> drv_close drv ctx w; Some (h\<lparr>driver_ctx := None\<rparr>, w) }
             | _ \<Rightarrow> Some (h, w));
          mx \<leftarrow> c2sql_internal_mutex_destroy (mutex h);
          Some (SQL_RDB_OK, w, P\<lparr>handles := (handles P)(p := None)\<rparr>)
        }
      })"

section \<open>Configuration, diagnostics, memory\<close>

definition SqlRDBSetConfig ::
  "'w SqlRDBHandle \<Rightarrow> SqlRDBConfig option \<Rightarrow> 'w \<Rightarrow> mem \<Rightarrow> (SqlRDBResult \<times> 'w SqlRDBHandle \<times> 'w \<times> mem) option" where
  "SqlRDBSetConfig h cfg w m =
     (if \<not> c2sql_handle_valid (Some h) then Some (SQL_RDB_ERR_INVALID_HANDLE, h, w, m)
      else case cfg of None \<Rightarrow> Some (SQL_RDB_ERR_INVALID_ARG, h, w, m)
      | Some cfg \<Rightarrow>
          locked h (\<lambda>h.
            do {
              (r, c, w, m) \<leftarrow>
                (if stmt_cache_size cfg \<noteq> stmt_cache_size (config h)
                 then c2sql_internal_cache_rebuild (cache h) (stmt_cache_size cfg) (driver h) w m
                 else Some (SQL_RDB_OK, cache h, w, m));
              let h = h\<lparr>cache := c\<rparr>;
              let h = (if r = SQL_RDB_OK then
                         let old_threadsafe = threadsafe (config h);
                             h = h\<lparr>config := cfg\<rparr>
                         in if threadsafe cfg \<noteq> old_threadsafe
                            then h\<lparr>mutex := (mutex h)\<lparr>mtx_threadsafe := threadsafe cfg\<rparr>\<rparr> else h
                       else h);
              Some (r, h, w, m)
            }))"

text \<open>The message and \<^verbatim>\<open>*out_code\<close>.\<close>

definition SqlRDBLastError :: "'w SqlRDBHandle option \<Rightarrow> string \<times> SqlRDBResult" where
  "SqlRDBLastError h =
     (case h of None \<Rightarrow> ([], SQL_RDB_OK)
      | Some g \<Rightarrow> if \<not> c2sql_handle_valid h then ([], SQL_RDB_OK) else (err_message (error g), err_code (error g)))"

definition SqlRDBSetLogger ::
  "'w SqlRDBHandle \<Rightarrow> (ptr option \<Rightarrow> SqlRDBResult \<Rightarrow> string option \<Rightarrow> string option \<Rightarrow> 'w \<Rightarrow> 'w) option \<Rightarrow> ptr option
     \<Rightarrow> (SqlRDBResult \<times> 'w SqlRDBHandle \<times> unit) option" where
  "SqlRDBSetLogger h fn user =
     (if \<not> c2sql_handle_valid (Some h) then Some (SQL_RDB_ERR_INVALID_HANDLE, h, ())
      else locked h (\<lambda>h. Some (SQL_RDB_OK, h\<lparr>logger := \<lparr>log_fn = fn, log_user = user\<rparr>\<rparr>, ())))"

text \<open>Freeing a block of the caller: undefined unless it is allocated.\<close>

definition SqlRDBFreeResult :: "ptr option \<Rightarrow> ptr set \<Rightarrow> (SqlRDBResult \<times> ptr set) option" where
  "SqlRDBFreeResult p blocks =
     (case p of None \<Rightarrow> Some (SQL_RDB_OK, blocks)
      | Some q \<Rightarrow> if q \<in> blocks then Some (SQL_RDB_OK, blocks - {q}) else None)"

section \<open>The registry of live handles\<close>

lemma find_index_elem: "find_index (\<lambda>q. q = h) xs = Some i \<Longrightarrow> i < length xs \<and> xs ! i = h"
  using find_index_Some by fastforce

lemma find_index_absent: "find_index (\<lambda>q. q = h) xs = None \<longleftrightarrow> h \<notin> set xs"
  by (auto simp: find_index_None)

text \<open>Moving the last element into the gap removes one element.\<close>

lemma mset_swap_out:
  assumes "i < length xs"
  shows "mset (butlast (xs[i := last xs])) = mset xs - {#xs ! i#}"
proof -
  obtain ys x where xs: "xs = ys @ [x]" using assms by (cases xs rule: rev_cases) auto
  show ?thesis
  proof (cases "i = length ys")
    case True
    then show ?thesis by (simp add: xs)
  next
    case False
    then have i: "i < length ys" using assms xs by simp
    then have "butlast (xs[i := last xs]) = ys[i := x]" by (simp add: xs list_update_append butlast_append)
    moreover have "ys ! i \<in># mset ys" using i by simp
    ultimately show ?thesis using i by (simp add: xs nth_append mset_update)
  qed
qed

lemma live_remove_set:
  assumes "distinct (g_live_handles P)" and "h \<in> set (g_live_handles P)"
  shows "\<exists>ls. live_remove h P = (True, P\<lparr>g_live_handles := ls\<rparr>) \<and> set ls = set (g_live_handles P) - {h} \<and> distinct ls \<and>
           length ls < length (g_live_handles P)"
proof -
  let ?xs = "g_live_handles P"
  obtain i where i: "find_index (\<lambda>q. q = h) ?xs = Some i" using assms(2) find_index_absent by (metis option.exhaust)
  have ix: "i < length ?xs" "?xs ! i = h" using find_index_elem [OF i] by auto
  let ?ls = "butlast (?xs[i := last ?xs])"
  have m: "mset ?ls = mset ?xs - {#h#}" using mset_swap_out [OF ix(1)] ix(2) by simp
  have "distinct (h # ?ls)"
    using assms m by (metis insert_DiffM mset.simps(2) mset_eq_imp_distinct_iff set_mset_mset)
  moreover have "set (h # ?ls) = set ?xs"
    using assms(2) m by (metis insert_DiffM mset.simps(2) mset_eq_setD set_mset_mset)
  ultimately have "set ?ls = set ?xs - {h}" "distinct ?ls" by auto
  then show ?thesis using i ix by (intro exI [of _ ?ls]) (auto simp: live_remove_def Let_def)
qed

section \<open>The state of an open handle\<close>

text \<open>
  The switch of the wrapper and the mutex behind it: thread safe and free, or switched off and held
  since the call that switched it off.
\<close>

definition mutex_sound :: "SqlRDBMutex \<Rightarrow> bool" where
  "mutex_sound mx \<longleftrightarrow> mtx_locked mx = (\<not> mtx_threadsafe mx)"

definition handle_ok :: "'w SqlRDBHandle \<Rightarrow> bool" where
  "handle_ok h \<longleftrightarrow> magic h = SQL_RDB_HANDLE_MAGIC \<and> driver h \<noteq> None \<and> mutex_sound (mutex h) \<and>
     threadsafe (config h) = mtx_threadsafe (mutex h) \<and> txn_ok (txn h) \<and> registry_ok (registry h) \<and>
     (\<exists>es. represents (cache h) es)"

definition process_ok :: "'w process \<Rightarrow> bool" where
  "process_ok P \<longleftrightarrow> distinct (g_live_handles P) \<and> set (g_live_handles P) = dom (handles P) \<and>
     length (g_live_handles P) \<le> g_live_capacity P \<and> (\<forall>p \<in> dom (handles P). p < next_handle P) \<and>
     (\<forall>h \<in> ran (handles P). handle_ok h)"

lemma mutex_sound_idle: "mutex_sound mx \<Longrightarrow> mutex_idle mx"
  by (simp add: mutex_sound_def mutex_idle_def)

lemma new_handle_ok:
  assumes "c2sql_internal_mutex_init True m = (SQL_RDB_OK, mx, m1)" and "represents c es"
  shows "handle_ok (new_handle drv ctx mx c)"
proof -
  have "mutex_sound mx" "mtx_threadsafe mx" using assms(1)
    by (auto simp: c2sql_internal_mutex_init_def mutex_sound_def split: prod.splits if_splits)
  then show ?thesis using assms(2)
    by (auto simp: handle_ok_def new_handle_def DEFAULT_CONFIG_def txn_ok_def C2SQL_MAX_TX_DEPTH_def
      registry_ok_def c2sql_internal_schema_registry_init_def)
qed

lemma live_register_cases:
  assumes "live_register p P = (ok, P')" and "length (g_live_handles P) \<le> g_live_capacity P"
  shows "handles P' = handles P \<and> next_handle P' = next_handle P \<and>
         length (g_live_handles P') \<le> g_live_capacity P' \<and>
         g_live_handles P' = (if ok then g_live_handles P @ [p] else g_live_handles P)"
  using assms by (auto simp: live_register_def pr_alloc_def Let_def split: if_splits prod.splits)

section \<open>Init\<close>

lemma cache_init_default:
  assumes "c2sql_internal_cache_init (stmt_cache_size DEFAULT_CONFIG) m = Some (SQL_RDB_OK, c, m')"
  shows "represents c []" and "capacity c = 64"
  using cache_init_refines [of 64 m] assms by (auto simp: DEFAULT_CONFIG_def)

text \<open>
  A failed \<^verbatim>\<open>SqlRDBInit\<close> leaves the handles as they were; a successful one adds one new,
  freshly initialised handle.
\<close>

definition opened :: "'w backends \<Rightarrow> string option \<Rightarrow> 'w \<Rightarrow> 'w \<Rightarrow> 'w SqlRDBDriver \<Rightarrow> ptr option \<Rightarrow> bool" where
  "opened be dsn w w' drv ctx \<longleftrightarrow>
     (\<exists>d. dsn = Some d \<and> select_driver be d = Some drv \<and> drv_open drv d w = Some (SQL_RDB_OK, ctx, w'))"

definition init_post ::
  "('w SqlRDBDriver \<Rightarrow> ptr option \<Rightarrow> bool) \<Rightarrow> 'w process \<Rightarrow> ptr option \<Rightarrow> 'w process \<Rightarrow> bool" where
  "init_post conn P r P' \<longleftrightarrow> process_ok P' \<and>
     (case r of None \<Rightarrow> handles P' = handles P \<and> g_live_handles P' = g_live_handles P
      | Some p \<Rightarrow> p \<notin> dom (handles P) \<and> g_live_handles P' = g_live_handles P @ [p] \<and>
          (\<exists>drv ctx mx c. conn drv ctx \<and> handles P' = (handles P)(p \<mapsto> new_handle drv ctx mx c) \<and> represents c [] \<and> capacity c = 64 \<and>
             mutex_sound mx))"

lemma process_ok_mem [simp]: "process_ok (P\<lparr>pr_mem := m\<rparr>) \<longleftrightarrow> process_ok P"
  by (simp add: process_ok_def)

lemma pr_alloc_mem: "pr_alloc P = (ok, P') \<Longrightarrow> \<exists>m. P' = P\<lparr>pr_mem := m\<rparr>"
  by (auto simp: pr_alloc_def split: prod.splits)

lemma init_post_fail: "process_ok P \<Longrightarrow> init_post conn P None (P\<lparr>pr_mem := m\<rparr>)" "process_ok P \<Longrightarrow> init_post conn P None P"
  by (simp_all add: init_post_def)

lemma init_post_unregistered:
  assumes ok: "process_ok P"
    and reg: "live_register (next_handle P) (P\<lparr>pr_mem := m, handles := (handles P)(next_handle P \<mapsto> h), next_handle := Suc (next_handle P)\<rparr>) = (False, P')"
  shows "init_post conn P None (P'\<lparr>handles := (handles P')(next_handle P := None)\<rparr>)"
proof -
  have new: "handles P (next_handle P) = None" using ok by (force simp: process_ok_def)
  have P': "handles P' = (handles P)(next_handle P \<mapsto> h)" "g_live_handles P' = g_live_handles P"
    "next_handle P' = Suc (next_handle P)" "length (g_live_handles P') \<le> g_live_capacity P'"
    using live_register_cases [OF reg] ok by (auto simp: process_ok_def)
  then have "(handles P')(next_handle P := None) = handles P" using new by (auto simp: fun_eq_iff)
  then show ?thesis using P'(2-4) ok by (auto simp: init_post_def process_ok_def intro: less_SucI)
qed

lemma init_post_registered:
  assumes ok: "process_ok P" and h: "handle_ok h" "h = new_handle drv ctx mx c" "represents c []" "capacity c = 64" "mutex_sound mx" "conn drv ctx"
    and reg: "live_register (next_handle P) (P\<lparr>pr_mem := m, handles := (handles P)(next_handle P \<mapsto> h), next_handle := Suc (next_handle P)\<rparr>) = (True, P')"
  shows "init_post conn P (Some (next_handle P)) P'"
proof -
  have new: "next_handle P \<notin> dom (handles P)" using ok by (force simp: process_ok_def)
  have P': "handles P' = (handles P)(next_handle P \<mapsto> h)" "g_live_handles P' = g_live_handles P @ [next_handle P]"
    "next_handle P' = Suc (next_handle P)" "length (g_live_handles P') \<le> g_live_capacity P'"
    using live_register_cases [OF reg] ok by (auto simp: process_ok_def)
  have "process_ok P'" using P' ok h(1) new by (auto simp: process_ok_def less_Suc_eq ran_def dom_def)
  then show ?thesis using P'(1,2) new h(2-) unfolding init_post_def by auto
qed

lemma init_registered:
  assumes "process_ok P" and "live_register (next_handle P)
      (P\<lparr>pr_mem := m, handles := (handles P)(next_handle P \<mapsto> new_handle drv ctx mx c), next_handle := Suc (next_handle P)\<rparr>) = (True, P')"
    and "c2sql_internal_mutex_init True m1 = (SQL_RDB_OK, mx, m2)"
    and "c2sql_internal_cache_init (stmt_cache_size DEFAULT_CONFIG) m2 = Some (SQL_RDB_OK, c, m)" and "conn drv ctx"
  shows "init_post conn P (Some (next_handle P)) P'"
proof -
  have "mutex_sound mx" using assms(3)
    by (auto simp: c2sql_internal_mutex_init_def mutex_sound_def split: prod.splits if_splits)
  then show ?thesis using init_post_registered [OF assms(1) new_handle_ok [OF assms(3) cache_init_default(1)] refl _ _ _ _ assms(2)]
      cache_init_default assms(4,5) by blast
qed

lemma DEFAULT_CONFIG_threadsafe: "threadsafe DEFAULT_CONFIG"
  by (simp add: DEFAULT_CONFIG_def)

lemma Init_post:
  assumes "process_ok P"
  shows "ensures (SqlRDBInit be dsn w P) (\<lambda>(r, w', P'). init_post (opened be dsn w w') P r P')"
proof (cases "dsn = None \<or> select_driver be (the dsn) = None")
  case True
  then show ?thesis using assms by (auto simp: SqlRDBInit_def init_post_fail split: option.splits)
next
  case False
  then obtain d drv where d: "dsn = Some d" "select_driver be d = Some drv" by auto
  show ?thesis
    unfolding SqlRDBInit_def d option.case
    by ((clarsimp simp: Let_def init_post_fail assms DEFAULT_CONFIG_threadsafe dest!: pr_alloc_mem split: prod.splits
        | intro conjI impI allI ensuresI [where x = "drv_open drv d w" for drv d w]
            ensures_any [where x = "close_ctx drv ctx w" for drv ctx w]
            ensures_any [where x = "c2sql_internal_mutex_destroy mx" for mx]
            ensures_any [where x = "c2sql_internal_cache_destroy c drv w" for c drv w]
        | erule init_post_unregistered [OF assms]
        | rule ensuresI [where x = "c2sql_internal_cache_init n m" for n m]
        | (erule (2) init_registered [OF assms], simp add: opened_def d))+)
qed

section \<open>Close\<close>

text \<open>A pointer that is not registered is refused without a look at the handle.\<close>

lemma Close_invalid:
  assumes "\<not> live_contains hp P"
  shows "SqlRDBClose hp w P = Some (SQL_RDB_ERR_INVALID_HANDLE, w, P)"
  using assms by (simp add: SqlRDBClose_def)

lemma Close_frees:
  assumes ok: "process_ok P" and "p \<in> set (g_live_handles P)" and run: "SqlRDBClose (Some p) w P = Some (r, w', P')"
  shows "r = SQL_RDB_OK \<and> process_ok P' \<and> handles P' = (handles P)(p := None) \<and>
         set (g_live_handles P') = set (g_live_handles P) - {p}"
proof -
  obtain h where h: "handles P p = Some h" "handle_ok h" using ok assms(2) by (fastforce simp: process_ok_def intro: ranI)
  obtain ls where ls: "live_remove p P = (True, P\<lparr>g_live_handles := ls\<rparr>)" "set ls = set (g_live_handles P) - {p}" "distinct ls"
    "length ls < length (g_live_handles P)"
    using live_remove_set ok assms(2) by (metis process_ok_def)
  have r: "r = SQL_RDB_OK" "P' = P\<lparr>g_live_handles := ls, handles := (handles P)(p := None)\<rparr>"
    using run assms(2) h ls(1)
    by (auto simp: SqlRDBClose_def live_contains_def handle_ok_def Let_def bind_Some_iff split: option.splits if_splits)
  have "process_ok P'" using ok ls r(2) by (auto simp: process_ok_def ran_def)
  then show ?thesis using r ls(2) by simp
qed

text \<open>Closing returns whenever the driver calls it makes return.\<close>

definition close_calls :: "'w SqlRDBDriver \<Rightarrow> ptr \<Rightarrow> int \<Rightarrow> ptr list \<Rightarrow> 'w \<Rightarrow> 'w option" where
  "close_calls drv ctx depth stmts w =
     do {
       w \<leftarrow> (if 0 < depth then do { (r, w) \<leftarrow> drv_rollback drv ctx w; Some w } else Some w);
       w \<leftarrow> finalize_all (Some drv) stmts w;
       (r, w) \<leftarrow> drv_close drv ctx w;
       Some w
     }"

lemma Close_calls:
  assumes live: "p \<in> set (g_live_handles P)" and h: "handles P p = Some h" "handle_ok h" "driver h = Some drv" "driver_ctx h = Some ctx"
    and es: "represents (cache h) es"
  shows "SqlRDBClose (Some p) w P =
     do {
       w \<leftarrow> close_calls drv ctx (txn_depth (txn h)) (map snd es) w;
       Some (SQL_RDB_OK, w, (snd (live_remove p P))\<lparr>handles := (handles (snd (live_remove p P)))(p := None)\<rparr>)
     }"
proof -
  have "\<forall>w. \<exists>c'. c2sql_internal_cache_destroy (cache h) (Some drv) w =
      do { w \<leftarrow> finalize_all (Some drv) (map snd es) w; Some (c', w) }"
    using cache_destroy_refines [OF es, of "Some drv"] by blast
  from choice [OF this] obtain c' where d: "\<And>w. c2sql_internal_cache_destroy (cache h) (Some drv) w =
      do { v \<leftarrow> finalize_all (Some drv) (map snd es) w; Some (c' w, v) }" by blast
  have mx: "c2sql_internal_mutex_destroy (mutex h) = Some (mutex h)"
    using h(2) by (auto simp: handle_ok_def mutex_sound_def c2sql_internal_mutex_destroy_def)
  have m: "magic h = SQL_RDB_HANDLE_MAGIC" using h(2) by (simp add: handle_ok_def)
  have lc: "live_contains (Some p) P" using live by (simp add: live_contains_def)
  note facts = SqlRDBClose_def close_calls_def lc h(1,3,4) m mx d Let_def
  have tail: "do {
        w \<leftarrow> finalize_all (Some drv) (map snd es) v;
        (g, w) \<leftarrow> do { (r, w) \<leftarrow> drv_close drv ctx w; Some (G w, w) };
        Some (K w) } =
      do { w \<leftarrow> finalize_all (Some drv) (map snd es) v; (r, w) \<leftarrow> drv_close drv ctx w; Some (K w) }"
    for v and G :: "'a \<Rightarrow> 'a SqlRDBHandle" and K :: "'a \<Rightarrow> 'b"
    by (cases "finalize_all (Some drv) (map snd es) v") (auto split: prod.splits bind_splits)
  show ?thesis
  proof (cases "0 < txn_depth (txn h)")
    case False
    then show ?thesis by (cases "finalize_all (Some drv) (map snd es) w") (simp_all add: facts split: prod.splits bind_splits)
  next
    case True
    show ?thesis
    proof (cases "drv_rollback drv ctx w")
      case None
      then show ?thesis using True by (simp add: facts)
    next
      case (Some a)
      obtain r v where a: "a = (r, v)" by (cases a)
      then show ?thesis using True Some
        by (cases "finalize_all (Some drv) (map snd es) v") (simp_all add: facts split: prod.splits bind_splits)
    qed
  qed
qed

section \<open>SetConfig\<close>

lemma SetConfig_post:
  assumes ok: "handle_ok h" and sz: "unat (stmt_cache_size cfg) \<le> 2 ^ 62"
  shows "ensures (SqlRDBSetConfig h (Some cfg) w m) (\<lambda>(r, h', w', m'). handle_ok h' \<and>
           config h' = (if r = SQL_RDB_OK then cfg else config h) \<and>
           (r = SQL_RDB_OK \<or> r = SQL_RDB_ERR_NO_MEMORY) \<and> txn h' = txn h \<and> registry h' = registry h)"
proof (rule ensuresI, clarify)
  fix r h' w' m' assume run: "SqlRDBSetConfig h (Some cfg) w m = Some (r, h', w', m')"
  obtain es where es: "represents (cache h) es" using ok by (auto simp: handle_ok_def)
  have v: "c2sql_handle_valid (Some h)" using ok by (simp add: c2sql_handle_valid_def handle_ok_def)
  obtain mx where mx: "c2sql_internal_mutex_lock (mutex h) = Some mx" "mtx_threadsafe mx = mtx_threadsafe (mutex h)" "mtx_locked mx"
    using ok by (cases "mtx_threadsafe (mutex h)")
      (auto simp: handle_ok_def mutex_sound_def c2sql_internal_mutex_lock_def intro!: that)
  obtain r1 c w1 m1 where rb: "(if stmt_cache_size cfg \<noteq> stmt_cache_size (config h)
       then c2sql_internal_cache_rebuild (cache h) (stmt_cache_size cfg) (driver h) w m
       else Some (SQL_RDB_OK, cache h, w, m)) = Some (r1, c, w1, m1)"
    using run v mx(1) by (cases "stmt_cache_size cfg = stmt_cache_size (config h)")
      (auto simp: SqlRDBSetConfig_def locked_def lock_handle_def bind_Some_iff)
  obtain c2 r2 m2 where rf: "c2sql_internal_cache_rebuild (cache h) (stmt_cache_size cfg) (driver h) w m =
      do { w \<leftarrow> finalize_all (driver h) (rev (map snd (drop (unat (stmt_cache_size cfg)) es))) w; Some (r2, c2, w, m2) }"
    "represents c2 (take (unat (stmt_cache_size cfg)) es)" "r2 = SQL_RDB_OK \<or> r2 = SQL_RDB_ERR_NO_MEMORY"
    using cache_rebuild_refines [OF es sz, of "driver h" w m] by blast
  have c: "\<exists>es. represents c es" "r1 = SQL_RDB_OK \<or> r1 = SQL_RDB_ERR_NO_MEMORY"
    using rb es rf by (cases "finalize_all (driver h) (rev (map snd (drop (unat (stmt_cache_size cfg)) es))) w";
        auto split: if_splits)+
  show "handle_ok h' \<and> config h' = (if r = SQL_RDB_OK then cfg else config h) \<and>
      (r = SQL_RDB_OK \<or> r = SQL_RDB_ERR_NO_MEMORY) \<and> txn h' = txn h \<and> registry h' = registry h"
    using run v mx rb c ok
    by (auto simp: SqlRDBSetConfig_def locked_def lock_handle_def unlock_handle_def bind_Some_iff Let_def handle_ok_def
      mutex_sound_def c2sql_internal_mutex_unlock_def split: if_splits)
qed

section \<open>From init to close\<close>

lemma handle_ok_ready: "handle_ok h \<Longrightarrow> driver_ctx h \<noteq> None \<Longrightarrow> tx_ready h"
  by (simp add: handle_ok_def tx_ready_def c2sql_handle_valid_def mutex_sound_idle)

lemma new_handle_holds: "represents c [] \<Longrightarrow> live w = {} \<Longrightarrow> holds live (new_handle drv ctx mx c) w {}"
  by (auto simp: holds_def new_handle_def)

context stmt_driver begin

lemma session_handle_ok:
  assumes ses: "session (h, w, F) (h', w', F')" and ok: "handle_ok h" "driver_ctx h \<noteq> None"
    and "driver h = Some drv" and "holds live h w F"
  shows "handle_ok h'"
proof -
  have rdy: "tx_ready h'" using session_ready [OF ses handle_ok_ready [OF ok]] .
  have same: "same_connection h h'" using session_same [OF ses] ok(1) by (simp add: handle_ok_def mutex_sound_idle)
  have "holds live h' w' F'" using session_holds [OF ses _ assms(4,5)] ok(1) by (simp add: handle_ok_def mutex_sound_idle)
  then show ?thesis using rdy same ok(1) by (auto simp: handle_ok_def same_connection_def tx_ready_def holds_def)
qed

lemma close_calls_live: "ensures (close_calls drv ctx depth ss w) (\<lambda>w'. live w' = live w - set ss)"
  unfolding close_calls_def
  by ((clarsimp | intro conjI impI allI passive_calls finalize_all_live [THEN ensures_mono] | rule ensuresI)+)

text \<open>After a close, the statements of open iterators are the only ones left.\<close>

lemma Close_live:
  assumes "p \<in> set (g_live_handles P)" and h: "handles P p = Some h" "handle_ok h" "driver h = Some drv" "driver_ctx h = Some ctx"
    and "holds live h w F"
  shows "ensures (SqlRDBClose (Some p) w P) (\<lambda>(r, w', P'). live w' = F)"
proof -
  obtain es where es: "represents (cache h) es" "live w = set (map snd es) \<union> F" "set (map snd es) \<inter> F = {}"
    using assms(6) by (auto simp: holds_def)
  have "live w - set (map snd es) = F" using es(2,3) by blast
  then show ?thesis unfolding Close_calls [OF assms(1) h es(1)] using close_calls_live [of ctx "txn_depth (txn h)" "map snd es" w]
    by (auto elim: ensures_mono)
qed

end

end
