(* ===== verification/Migration.thy ===== *)
theory Migration
  imports Lifecycle
begin

text \<open>
  Table synchronisation, \<^verbatim>\<open>src/migration.c\<close>, and \<^verbatim>\<open>SqlRDBRegisterStruct\<close>: the
  introspection queries of both dialects, the comparison of a registered column with a database
  column, the migration of missing trailing columns, and the registration that is rolled back when
  the table does not match. A loop over the rows of a statement does not return (\<open>None\<close>) if the
  driver never runs out of rows.
\<close>

section \<open>Columns of a database table\<close>

definition MIG_MAX_NAME :: nat where
  "MIG_MAX_NAME = 128"

record DbCol =
  dc_cid :: int
  dc_name :: string
  dc_type_class :: SqlRDBType
  dc_notnull :: bool
  dc_pk :: bool
  is_unique :: bool

fun schema_type_class :: "SqlRDBType \<Rightarrow> SqlRDBType" where
  "schema_type_class SQL_TYPE_INT32 = SQL_TYPE_INT64"
| "schema_type_class t = t"

definition type_class_from_str :: "string \<Rightarrow> SqlRDBType" where
  "type_class_from_str s =
     (let up = map toupper (take 31 s) in
      if strstr up ''INT'' then SQL_TYPE_INT64
      else if strstr up ''REAL'' \<or> strstr up ''FLOA'' \<or> strstr up ''DOUB'' then SQL_TYPE_REAL
      else if strstr up ''BLOB'' then SQL_TYPE_BLOB
      else SQL_TYPE_TEXT)"

text \<open>
  Reads whose result code the code ignores: the output variables keep their initial 0 or \<open>NULL\<close>
  when the call fails.
\<close>

definition get_int32 :: "'w SqlRDBDriver \<Rightarrow> ptr \<Rightarrow> int \<Rightarrow> 'w \<Rightarrow> (int \<times> 'w) option" where
  "get_int32 drv stmt i w = do { (r, v, w) \<leftarrow> drv_column_int32 drv stmt i w; Some (if r = SQL_RDB_OK then sint v else 0, w) }"

definition get_text :: "'w SqlRDBDriver \<Rightarrow> ptr \<Rightarrow> int \<Rightarrow> 'w \<Rightarrow> (char list option \<times> nat \<times> 'w) option" where
  "get_text drv stmt i w =
     do { (r, p, n, w) \<leftarrow> drv_column_text drv stmt i w; Some (if r = SQL_RDB_OK then (p, n, w) else (None, 0, w)) }"

text \<open>
  \<^verbatim>\<open>if (p && n < sizeof(dst)) { memcpy(dst, p, n); dst[n] = 0; }\<close> into a cleared array, read
  back as a C string.
\<close>

definition bounded_copy :: "nat \<Rightarrow> char list option \<Rightarrow> nat \<Rightarrow> string option" where
  "bounded_copy sz p n =
     (case p of None \<Rightarrow> Some []
      | Some mem \<Rightarrow> if n < sz then map_option c_string (read_bytes mem 0 n) else Some [])"

section \<open>SQLite introspection\<close>

definition table_info_row :: "'w SqlRDBDriver \<Rightarrow> ptr \<Rightarrow> 'w \<Rightarrow> (DbCol \<times> 'w) option" where
  "table_info_row drv stmt w =
     do {
       (cid, w) \<leftarrow> get_int32 drv stmt 0 w;
       (p, n, w) \<leftarrow> get_text drv stmt 1 w;
       name \<leftarrow> bounded_copy MIG_MAX_NAME p n;
       (p, n, w) \<leftarrow> get_text drv stmt 2 w;
       raw \<leftarrow> bounded_copy 32 p n;
       (nn, w) \<leftarrow> get_int32 drv stmt 3 w;
       (pk, w) \<leftarrow> get_int32 drv stmt 5 w;
       Some (\<lparr>dc_cid = cid, dc_name = name, dc_type_class = type_class_from_str raw, dc_notnull = (nn \<noteq> 0), dc_pk = (pk \<noteq> 0),
              is_unique = False\<rparr>, w)
     }"

text \<open>
  The loop of \<^verbatim>\<open>read_table_info\<close> and \<^verbatim>\<open>read_table_info_pg\<close>, which differ in what they
  read from a row: the flag tells whether the array could not grow.
\<close>

partial_function (option) table_rows ::
  "'w SqlRDBDriver \<Rightarrow> ptr \<Rightarrow> (nat \<Rightarrow> 'w \<Rightarrow> (DbCol \<times> 'w) option) \<Rightarrow> nat \<Rightarrow> DbCol list \<Rightarrow> 'w \<Rightarrow> mem
     \<Rightarrow> (bool \<times> SqlRDBResult \<times> DbCol list \<times> 'w \<times> mem) option" where
  "table_rows drv stmt read_row cap cols w m =
     do {
       (r, has_row, w) \<leftarrow> drv_step drv stmt w;
       if r \<noteq> SQL_RDB_OK \<or> \<not> has_row then Some (False, r, cols, w, m)
       else if length cols = cap \<and> \<not> fst (alloc m) then Some (True, r, cols, w, snd (alloc m))
       else do {
         (col, w) \<leftarrow> read_row (length cols) w;
         table_rows drv stmt read_row (if length cols = cap then if cap = 0 then 8 else cap * 2 else cap) (cols @ [col]) w
           (if length cols = cap then snd (alloc m) else m)
       }
     }"

declare table_rows.simps [code]

definition finish_rows ::
  "'w SqlRDBDriver \<Rightarrow> ptr \<Rightarrow> bool \<times> SqlRDBResult \<times> DbCol list \<times> 'w \<times> mem
     \<Rightarrow> (SqlRDBResult \<times> DbCol list \<times> 'w \<times> mem) option" where
  "finish_rows drv stmt out =
     (case out of (nomem, r, cols, w, m) \<Rightarrow>
        do {
          (r2, w) \<leftarrow> drv_finalize drv stmt w;
          if nomem then Some (SQL_RDB_ERR_NO_MEMORY, [], w, m)
          else if r \<noteq> SQL_RDB_OK then Some (r, [], w, m)
          else Some (SQL_RDB_OK, cols, w, m)
        })"

text \<open>\<^verbatim>\<open>snprintf\<close> into the 256-byte buffer \<^verbatim>\<open>sql\<close>.\<close>

definition pragma_sql :: "string \<Rightarrow> string \<Rightarrow> string" where
  "pragma_sql fn arg = take 255 (''PRAGMA '' @ fn @ ''(\"'' @ arg @ ''\")'')"

definition read_table_info ::
  "'w SqlRDBHandle \<Rightarrow> string \<Rightarrow> 'w \<Rightarrow> mem \<Rightarrow> (SqlRDBResult \<times> DbCol list \<times> 'w \<times> mem) option" where
  "read_table_info h table w m =
     do {
       drv \<leftarrow> driver h;
       ctx \<leftarrow> driver_ctx h;
       (r, st, w) \<leftarrow> drv_prepare drv ctx (pragma_sql ''table_info'' table) w;
       if r \<noteq> SQL_RDB_OK then Some (r, [], w, m)
       else do {
         stmt \<leftarrow> st;
         out \<leftarrow> table_rows drv stmt (\<lambda>n w. table_info_row drv stmt w) 0 [] w m;
         finish_rows drv stmt out
       }
     }"

text \<open>The loop over \<^verbatim>\<open>PRAGMA index_list\<close>: the names of the UNIQUE constraint indexes.\<close>

partial_function (option) index_names ::
  "'w SqlRDBDriver \<Rightarrow> ptr \<Rightarrow> string list \<Rightarrow> 'w \<Rightarrow> (SqlRDBResult \<times> string list \<times> 'w) option" where
  "index_names drv stmt names w =
     do {
       (r, has_row, w) \<leftarrow> drv_step drv stmt w;
       if r \<noteq> SQL_RDB_OK \<or> \<not> has_row then Some (r, names, w)
       else do {
         (uniq, w) \<leftarrow> get_int32 drv stmt 2 w;
         if uniq = 0 then index_names drv stmt names w
         else do {
           (p, n, w) \<leftarrow> get_text drv stmt 3 w;
           origin \<leftarrow> (case p of None \<Rightarrow> Some False
                      | Some mem \<Rightarrow> if n = 1 then map_option (\<lambda>b. b = ''u'') (read_bytes mem 0 1) else Some False);
           if \<not> origin then index_names drv stmt names w
           else do {
             (p, n, w) \<leftarrow> get_text drv stmt 1 w;
             if length names < 64 \<and> p \<noteq> None \<and> n < 96 then do {
               name \<leftarrow> bounded_copy 96 p n;
               index_names drv stmt (names @ [name]) w
             } else index_names drv stmt names w
           }
         }
       }
     }"

declare index_names.simps [code]

text \<open>
  The loops that collect the names in one column of the result: at most \<open>mx\<close> of them, each
  shorter than \<^verbatim>\<open>MIG_MAX_NAME\<close>.
\<close>

partial_function (option) collect_names ::
  "'w SqlRDBDriver \<Rightarrow> ptr \<Rightarrow> int \<Rightarrow> nat \<Rightarrow> string list \<Rightarrow> 'w \<Rightarrow> (SqlRDBResult \<times> string list \<times> 'w) option" where
  "collect_names drv stmt col mx names w =
     do {
       (r, has_row, w) \<leftarrow> drv_step drv stmt w;
       if r \<noteq> SQL_RDB_OK \<or> \<not> has_row then Some (r, names, w)
       else do {
         (p, n, w) \<leftarrow> get_text drv stmt col w;
         if p \<noteq> None \<and> length names < mx \<and> n < MIG_MAX_NAME then do {
           name \<leftarrow> bounded_copy MIG_MAX_NAME p n;
           collect_names drv stmt col mx (names @ [name]) w
         } else collect_names drv stmt col mx names w
       }
     }"

declare collect_names.simps [code]

text \<open>The flag of the first column of that name.\<close>

definition mark_unique :: "string \<Rightarrow> DbCol list \<Rightarrow> DbCol list" where
  "mark_unique name cols =
     (case find_index (\<lambda>c. dc_name c = name) cols of
        None \<Rightarrow> cols
      | Some k \<Rightarrow> cols[k := (cols ! k)\<lparr>is_unique := True\<rparr>])"

text \<open>The loop over the collected indexes.\<close>

fun apply_indexes ::
  "'w SqlRDBDriver \<Rightarrow> ptr \<Rightarrow> string list \<Rightarrow> DbCol list \<Rightarrow> 'w \<Rightarrow> (SqlRDBResult \<times> DbCol list \<times> 'w) option" where
  "apply_indexes drv ctx [] cols w = Some (SQL_RDB_OK, cols, w)"
| "apply_indexes drv ctx (idx # rest) cols w =
     do {
       (r, st, w) \<leftarrow> drv_prepare drv ctx (pragma_sql ''index_info'' idx) w;
       if r \<noteq> SQL_RDB_OK then Some (r, cols, w)
       else do {
         stmt \<leftarrow> st;
         (r, refs, w) \<leftarrow> collect_names drv stmt 2 8 [] w;
         (r2, w) \<leftarrow> drv_finalize drv stmt w;
         if r \<noteq> SQL_RDB_OK then Some (r, cols, w)
         else apply_indexes drv ctx rest (case refs of [name] \<Rightarrow> mark_unique name cols | _ \<Rightarrow> cols) w
       }
     }"

definition apply_unique_flags ::
  "'w SqlRDBHandle \<Rightarrow> string \<Rightarrow> DbCol list \<Rightarrow> 'w \<Rightarrow> (SqlRDBResult \<times> DbCol list \<times> 'w) option" where
  "apply_unique_flags h table cols w =
     do {
       drv \<leftarrow> driver h;
       ctx \<leftarrow> driver_ctx h;
       (r, st, w) \<leftarrow> drv_prepare drv ctx (pragma_sql ''index_list'' table) w;
       if r \<noteq> SQL_RDB_OK then Some (r, cols, w)
       else do {
         stmt \<leftarrow> st;
         (r, names, w) \<leftarrow> index_names drv stmt [] w;
         (r2, w) \<leftarrow> drv_finalize drv stmt w;
         if r \<noteq> SQL_RDB_OK then Some (r, cols, w) else apply_indexes drv ctx names cols w
       }
     }"

text \<open>
  The scan of the text after the last parenthesis; it does not return at a character that neither of
  its inner loops skips.
\<close>

definition is_separator :: "char \<Rightarrow> bool" where
  "is_separator c \<longleftrightarrow> c = CHR '' '' \<or> c = CHR 9 \<or> c = CHR '','' \<or> c = CHR 10"

partial_function (option) strict_scan :: "string \<Rightarrow> bool option" where
  "strict_scan s =
     (if s = [] then Some False
      else let q = dropWhile is_separator s in
        if length q < 6 then Some False
        else if map toupper (take 6 q) = ''STRICT'' \<and> (length q = 6 \<or> \<not> isalnum (q ! 6)) then Some True
        else strict_scan (dropWhile (\<lambda>c. isalnum c \<or> c = CHR ''_'') q))"

declare strict_scan.simps [code]

text \<open>The text after the last \<^verbatim>\<open>)\<close>, if there is one.\<close>

definition after_last_paren :: "string \<Rightarrow> string option" where
  "after_last_paren s =
     (if CHR '')'' \<in> set s then Some (rev (takeWhile (\<lambda>c. c \<noteq> CHR '')'') (rev s))) else None)"

definition check_strict :: "'w SqlRDBHandle \<Rightarrow> string \<Rightarrow> 'w \<Rightarrow> (SqlRDBResult \<times> bool \<times> 'w) option" where
  "check_strict h table w =
     do {
       drv \<leftarrow> driver h;
       ctx \<leftarrow> driver_ctx h;
       (r, st, w) \<leftarrow> drv_prepare drv ctx
          (take 255 (''SELECT sql FROM sqlite_schema WHERE type='' @ squote ''table'' @ '' AND name='' @ squote table)) w;
       if r \<noteq> SQL_RDB_OK then Some (r, False, w)
       else do {
         stmt \<leftarrow> st;
         (r, has_row, w) \<leftarrow> drv_step drv stmt w;
         if r \<noteq> SQL_RDB_OK \<or> \<not> has_row then do { (r2, w) \<leftarrow> drv_finalize drv stmt w; Some (SQL_RDB_OK, False, w) }
         else do {
           (p, n, w) \<leftarrow> get_text drv stmt 0 w;
           strict \<leftarrow> (case p of None \<Rightarrow> Some False
                      | Some mem \<Rightarrow>
                          do {
                            s \<leftarrow> read_bytes mem 0 n;
                            case after_last_paren s of None \<Rightarrow> Some False | Some t \<Rightarrow> strict_scan t
                          });
           (r2, w) \<leftarrow> drv_finalize drv stmt w;
           Some (SQL_RDB_OK, strict, w)
         }
       }
     }"

section \<open>PostgreSQL introspection\<close>

definition type_class_from_pg :: "string \<Rightarrow> SqlRDBType" where
  "type_class_from_pg s =
     (if strstr s ''int'' then SQL_TYPE_INT64
      else if strstr s ''double'' \<or> strstr s ''real'' \<or> strstr s ''numeric'' \<or> strstr s ''float'' then SQL_TYPE_REAL
      else if strstr s ''bytea'' then SQL_TYPE_BLOB
      else SQL_TYPE_TEXT)"

definition pg_collect_names ::
  "'w SqlRDBHandle \<Rightarrow> string \<Rightarrow> string \<Rightarrow> nat \<Rightarrow> 'w \<Rightarrow> (SqlRDBResult \<times> string list \<times> 'w) option" where
  "pg_collect_names h sql table mx w =
     do {
       drv \<leftarrow> driver h;
       ctx \<leftarrow> driver_ctx h;
       (r, st, w) \<leftarrow> drv_prepare drv ctx sql w;
       if r \<noteq> SQL_RDB_OK then Some (r, [], w)
       else do {
         stmt \<leftarrow> st;
         (r, w) \<leftarrow> drv_bind_text drv stmt 1 (Some (table @ [NUL])) (-1) w;
         if r \<noteq> SQL_RDB_OK then do { (r2, w) \<leftarrow> drv_finalize drv stmt w; Some (r, [], w) }
         else do {
           (r, names, w) \<leftarrow> collect_names drv stmt 0 mx [] w;
           (r2, w) \<leftarrow> drv_finalize drv stmt w;
           Some (r, names, w)
         }
       }
     }"

definition PG_COLUMNS_SQL :: string where
  "PG_COLUMNS_SQL =
     ''SELECT column_name, data_type, is_nullable '' @ ''FROM information_schema.columns '' @
     ''WHERE table_name = $1 AND table_schema = current_schema() '' @ ''ORDER BY ordinal_position''"

definition PG_INDEX_JOIN :: string where
  "PG_INDEX_JOIN =
     ''SELECT a.attname FROM pg_index i '' @
     ''JOIN pg_attribute a ON a.attrelid = i.indrelid AND a.attnum = ANY(i.indkey) ''"

definition PG_PRIMARY_SQL :: string where
  "PG_PRIMARY_SQL = PG_INDEX_JOIN @ ''WHERE i.indrelid = $1::regclass AND i.indisprimary''"

definition PG_UNIQUE_SQL :: string where
  "PG_UNIQUE_SQL =
     PG_INDEX_JOIN @ ''WHERE i.indrelid = $1::regclass AND i.indisunique AND NOT i.indisprimary '' @
     ''AND array_length(i.indkey, 1) = 1''"

definition pg_info_row :: "'w SqlRDBDriver \<Rightarrow> ptr \<Rightarrow> nat \<Rightarrow> 'w \<Rightarrow> (DbCol \<times> 'w) option" where
  "pg_info_row drv stmt k w =
     do {
       (p, n, w) \<leftarrow> get_text drv stmt 0 w;
       name \<leftarrow> bounded_copy MIG_MAX_NAME p n;
       (p, n, w) \<leftarrow> get_text drv stmt 1 w;
       raw \<leftarrow> bounded_copy 40 p n;
       (p, n, w) \<leftarrow> get_text drv stmt 2 w;
       notnull \<leftarrow> (case p of None \<Rightarrow> Some False
                   | Some mem \<Rightarrow> if 2 \<le> n then map_option (\<lambda>b. b = ''N'' \<or> b = ''n'') (read_bytes mem 0 1) else Some False);
       Some (\<lparr>dc_cid = int k, dc_name = name, dc_type_class = type_class_from_pg raw, dc_notnull = notnull, dc_pk = False,
              is_unique = False\<rparr>, w)
     }"

text \<open>The nested loops that set a flag on every column whose name was collected.\<close>

definition mark_all :: "(DbCol \<Rightarrow> DbCol) \<Rightarrow> string list \<Rightarrow> DbCol list \<Rightarrow> DbCol list" where
  "mark_all upd names cols = foldl (\<lambda>cols name. map (\<lambda>c. if dc_name c = name then upd c else c) cols) cols names"

definition read_table_info_pg ::
  "'w SqlRDBHandle \<Rightarrow> string \<Rightarrow> 'w \<Rightarrow> mem \<Rightarrow> (SqlRDBResult \<times> DbCol list \<times> 'w \<times> mem) option" where
  "read_table_info_pg h table w m =
     do {
       drv \<leftarrow> driver h;
       ctx \<leftarrow> driver_ctx h;
       (r, st, w) \<leftarrow> drv_prepare drv ctx PG_COLUMNS_SQL w;
       if r \<noteq> SQL_RDB_OK then Some (r, [], w, m)
       else do {
         stmt \<leftarrow> st;
         (r, w) \<leftarrow> drv_bind_text drv stmt 1 (Some (table @ [NUL])) (-1) w;
         if r \<noteq> SQL_RDB_OK then do { (r2, w) \<leftarrow> drv_finalize drv stmt w; Some (r, [], w, m) }
         else do {
           out \<leftarrow> table_rows drv stmt (pg_info_row drv stmt) 0 [] w m;
           (r, cols, w, m) \<leftarrow> finish_rows drv stmt out;
           if r \<noteq> SQL_RDB_OK then Some (r, [], w, m)
           else do {
             (r, pks, w) \<leftarrow> pg_collect_names h PG_PRIMARY_SQL table 64 w;
             if r \<noteq> SQL_RDB_OK then Some (r, [], w, m)
             else do {
               let cols = mark_all (\<lambda>c. c\<lparr>dc_pk := True\<rparr>) pks cols;
               (r, uqs, w) \<leftarrow> pg_collect_names h PG_UNIQUE_SQL table 64 w;
               if r \<noteq> SQL_RDB_OK then Some (r, [], w, m)
               else Some (SQL_RDB_OK, mark_all (\<lambda>c. c\<lparr>is_unique := True\<rparr>) uqs cols, w, m)
             }
           }
         }
       }
     }"

definition read_existing ::
  "'w SqlRDBHandle \<Rightarrow> string \<Rightarrow> 'w \<Rightarrow> mem \<Rightarrow> (SqlRDBResult \<times> DbCol list \<times> 'w \<times> mem) option" where
  "read_existing h table w m =
     do {
       drv \<leftarrow> driver h;
       if drv_dialect drv = C2SQL_DIALECT_POSTGRES then read_table_info_pg h table w m
       else do {
         (r, cols, w, m) \<leftarrow> read_table_info h table w m;
         if r \<noteq> SQL_RDB_OK then Some (r, cols, w, m)
         else do {
           (r, cols, w) \<leftarrow> apply_unique_flags h table cols w;
           Some (r, if r \<noteq> SQL_RDB_OK then [] else cols, w, m)
         }
       }
     }"

section \<open>Comparison\<close>

definition compare_columns :: "column \<Rightarrow> DbCol \<Rightarrow> int" where
  "compare_columns sc dc =
     (let sc_notnull = (\<not> has_flag sc SQL_COL_FLAG_NULLABLE);
          sc_pk = has_flag sc SQL_COL_FLAG_PRIMARY_KEY;
          sc_unique = has_flag sc SQL_COL_FLAG_UNIQUE;
          sc_unique = (if sc_pk then False else sc_unique)
      in if col_name sc \<noteq> dc_name dc then 1
         else if schema_type_class (col_type sc) \<noteq> dc_type_class dc then 2
         else if sc_notnull \<noteq> dc_notnull dc then 3
         else if sc_pk \<noteq> dc_pk dc then 4
         else if sc_unique \<and> \<not> is_unique dc then 5
         else 0)"

text \<open>The comparison loops: index and kind of the first mismatch.\<close>

fun first_mismatch :: "nat \<Rightarrow> column list \<Rightarrow> DbCol list \<Rightarrow> (nat \<times> int) option" where
  "first_mismatch i (sc # scs) (dc # dcs) =
     (if compare_columns sc dc \<noteq> 0 then Some (i, compare_columns sc dc) else first_mismatch (Suc i) scs dcs)"
| "first_mismatch i _ _ = None"

section \<open>Migration\<close>

text \<open>The loop that adds the missing columns.\<close>

fun add_columns ::
  "'w SqlRDBHandle \<Rightarrow> SqlRDBSchema \<Rightarrow> column list \<Rightarrow> 'w \<Rightarrow> mem \<Rightarrow> (SqlRDBResult \<times> 'w SqlRDBHandle \<times> 'w \<times> mem) option" where
  "add_columns h schema [] w m = Some (SQL_RDB_OK, h, w, m)"
| "add_columns h schema (c # cs) w m =
     do {
       drv \<leftarrow> driver h;
       ctx \<leftarrow> driver_ctx h;
       (r, sql, k, m) \<leftarrow> c2sql_internal_qb_build
          \<lparr>qs_op = C2SQL_QB_ALTER_ADD, qs_schema = schema, qs_cond = None, qs_new_col = Some c, qs_target_col = None,
           qs_dialect = drv_dialect drv\<rparr> m;
       if r \<noteq> SQL_RDB_OK then Some (r, h, w, m)
       else do {
         s \<leftarrow> sql;
         (r, w) \<leftarrow> drv_exec drv ctx s w;
         if r \<noteq> SQL_RDB_OK then
           Some (r, set_error h r (''Migrate: ALTER TABLE ADD COLUMN '' @ squote (col_name c) @ '' failed''), w, m)
         else add_columns h schema cs w m
       }
     }"

definition mismatch :: "'w SqlRDBHandle \<Rightarrow> string \<Rightarrow> 'w \<Rightarrow> mem \<Rightarrow> (SqlRDBResult \<times> 'w SqlRDBHandle \<times> 'w \<times> mem) option" where
  "mismatch h msg w m =
     Some (SQL_RDB_ERR_SCHEMA_MISMATCH, set_error h SQL_RDB_ERR_SCHEMA_MISMATCH msg, w, m)"

text \<open>The part after the STRICT check, for the columns \<open>db_cols\<close> the database has.\<close>

definition sync_columns ::
  "'w SqlRDBHandle \<Rightarrow> SqlRDBSchema \<Rightarrow> DbCol list \<Rightarrow> 'w \<Rightarrow> mem \<Rightarrow> (SqlRDBResult \<times> 'w SqlRDBHandle \<times> 'w \<times> mem) option" where
  "sync_columns h schema db_cols w m =
     (let cols = sch_cols schema; db_n = length db_cols; name = sch_name schema in
      case first_mismatch 0 cols db_cols of
        Some (i, diff) \<Rightarrow>
          mismatch h (''Migrate: column '' @ dec_of_nat i @ '' of '' @ squote name @ '' mismatch (kind='' @ dec_of_int diff @ '')'') w m
      | None \<Rightarrow>
          if length cols < db_n then
            mismatch h (''Migrate: '' @ squote name @ '' has '' @ dec_of_nat db_n @ '' columns, schema has '' @
              dec_of_nat (length cols)) w m
          else if db_n < length cols then
            if \<not> auto_migrate (config h) then
              mismatch h (''Migrate: '' @ squote name @ '' missing '' @ dec_of_nat (length cols - db_n) @
                '' trailing column(s); set auto_migrate=true'') w m
            else do {
              (r, h, w, m) \<leftarrow> add_columns h schema (drop db_n cols) w m;
              if r \<noteq> SQL_RDB_OK then Some (r, h, w, m)
              else do {
                (r, db_cols, w, m) \<leftarrow> read_existing h name w m;
                if r \<noteq> SQL_RDB_OK then Some (r, h, w, m)
                else if length db_cols \<noteq> length cols then
                  mismatch h (''Migrate: post-migration column count mismatch ('' @ dec_of_nat (length db_cols) @ '' vs '' @
                    dec_of_nat (length cols) @ '')'') w m
                else case first_mismatch 0 cols db_cols of
                    Some (i, diff) \<Rightarrow>
                      mismatch h (''Migrate: post-migration column '' @ dec_of_nat i @ '' mismatch (kind='' @ dec_of_int diff @ '')'') w m
                  | None \<Rightarrow> Some (SQL_RDB_OK, h, w, m)
              }
            }
          else Some (SQL_RDB_OK, h, w, m))"

definition c2sql_internal_migrate_table ::
  "'w SqlRDBHandle \<Rightarrow> SqlRDBSchema \<Rightarrow> 'w \<Rightarrow> mem \<Rightarrow> (SqlRDBResult \<times> 'w SqlRDBHandle \<times> 'w \<times> mem) option" where
  "c2sql_internal_migrate_table h schema w m =
     do {
       drv \<leftarrow> driver h;
       ctx \<leftarrow> driver_ctx h;
       (r, sql, k, m) \<leftarrow> c2sql_internal_qb_build
          \<lparr>qs_op = C2SQL_QB_CREATE, qs_schema = schema, qs_cond = None, qs_new_col = None, qs_target_col = None,
           qs_dialect = drv_dialect drv\<rparr> m;
       if r \<noteq> SQL_RDB_OK then Some (r, h, w, m)
       else do {
         s \<leftarrow> sql;
         (r, w) \<leftarrow> drv_exec drv ctx s w;
         if r \<noteq> SQL_RDB_OK then
           Some (r, set_error h r (''Migrate: CREATE TABLE failed for '' @ squote (sch_name schema)), w, m)
         else do {
           (r, db_cols, w, m) \<leftarrow> read_existing h (sch_name schema) w m;
           if r \<noteq> SQL_RDB_OK then Some (r, h, w, m)
           else if db_cols = [] then Some (SQL_RDB_ERR_INTERNAL, h, w, m)
           else do {
             (is_strict, w) \<leftarrow>
               (if drv_dialect drv = C2SQL_DIALECT_POSTGRES then Some (True, w)
                else do { (r, b, w) \<leftarrow> check_strict h (sch_name schema) w; Some (b, w) });
             if \<not> is_strict \<and> require_strict (config h) then
               mismatch h (''Migrate: '' @ squote (sch_name schema) @ '' is non-STRICT but require_strict=true'') w m
             else
               sync_columns h schema db_cols
                 (if is_strict then w
                  else c2sql_internal_log (Some (logger h)) SQL_RDB_OK None
                    (Some ''Migrate: table is non-STRICT (allowed)'') w) m
           }
         }
       }
     }"

definition SqlRDBRegisterStruct ::
  "'w SqlRDBHandle \<Rightarrow> string option \<Rightarrow> column_arg list option \<Rightarrow> nat \<Rightarrow> 'w \<Rightarrow> mem
     \<Rightarrow> (SqlRDBResult \<times> 'w SqlRDBHandle \<times> 'w \<times> mem) option" where
  "SqlRDBRegisterStruct h struct_name cols col_count w m =
     (if \<not> c2sql_handle_valid (Some h) then Some (SQL_RDB_ERR_INVALID_HANDLE, h, w, m)
      else if struct_name = None \<or> cols = None \<or> col_count = 0 then
        Some (SQL_RDB_ERR_INVALID_ARG,
              set_error h SQL_RDB_ERR_INVALID_ARG ''RegisterStruct: struct_name, cols, col_count required'', w, m)
      else
        locked h (\<lambda>h.
          do {
            (r, h, m) \<leftarrow> c2sql_internal_schema_register h struct_name cols col_count m;
            if r \<noteq> SQL_RDB_OK then Some (r, h, w, m)
            else case c2sql_internal_schema_lookup h struct_name of
                None \<Rightarrow> Some (SQL_RDB_ERR_INTERNAL, h, w, m)
              | Some p \<Rightarrow>
                  do {
                    schema \<leftarrow> schema_at (registry h) p;
                    (r, h, w, m) \<leftarrow> c2sql_internal_migrate_table h schema w m;
                    if r \<noteq> SQL_RDB_OK then
                      Some (r, snd (c2sql_internal_schema_unregister h struct_name), w, m)
                    else Some (r, h, w, m)
                  }
          }))"

end
