(* ===== verification/Migration_Correct.thy ===== *)
theory Migration_Correct
  imports Migration
begin

text \<open>
  What a successful registration guarantees, what a failed one leaves behind, and when the scan for
  the STRICT keyword returns.
\<close>

section \<open>The comparison\<close>

text \<open>A database column that carries everything the registered column asks for.\<close>

definition column_matches :: "column \<Rightarrow> DbCol \<Rightarrow> bool" where
  "column_matches sc dc \<longleftrightarrow> dc_name dc = col_name sc \<and> dc_type_class dc = schema_type_class (col_type sc) \<and>
     dc_notnull dc = (\<not> has_flag sc SQL_COL_FLAG_NULLABLE) \<and> dc_pk dc = has_flag sc SQL_COL_FLAG_PRIMARY_KEY \<and>
     (has_flag sc SQL_COL_FLAG_UNIQUE \<and> \<not> has_flag sc SQL_COL_FLAG_PRIMARY_KEY \<longrightarrow> is_unique dc)"

lemma compare_columns_zero: "compare_columns sc dc = 0 \<longleftrightarrow> column_matches sc dc"
  by (auto simp: compare_columns_def column_matches_def Let_def)

lemma first_mismatch_None:
  "length dcs = length scs \<Longrightarrow> first_mismatch i scs dcs = None \<longleftrightarrow> list_all2 column_matches scs dcs"
proof (induction scs arbitrary: i dcs)
  case (Cons sc scs)
  then show ?case by (cases dcs) (auto simp: compare_columns_zero)
qed simp

section \<open>Migration\<close>

text \<open>Migration touches the error context of the handle only.\<close>

definition only_error :: "'w SqlRDBHandle \<Rightarrow> 'w SqlRDBHandle \<Rightarrow> bool" where
  "only_error h h' \<longleftrightarrow> h' = h\<lparr>error := error h'\<rparr>"

lemma only_error_simps [simp]: "only_error h h" "only_error h (set_error g c t) \<longleftrightarrow> only_error h g"
  by (cases h, cases g, auto simp: only_error_def set_error_def)+

lemma mismatch_ensures:
  "(\<And>t. P (SQL_RDB_ERR_SCHEMA_MISMATCH, set_error h SQL_RDB_ERR_SCHEMA_MISMATCH t, w, m)) \<Longrightarrow> ensures (mismatch h msg w m) P"
  by (simp add: mismatch_def)

lemma only_error_trans: "only_error h g \<Longrightarrow> only_error g k \<Longrightarrow> only_error h k"
  by (cases h, cases g, cases k) (simp add: only_error_def)

lemma only_error_fields:
  assumes "only_error h h'"
  shows "registry h' = registry h" "mutex h' = mutex h" "driver h' = driver h" "driver_ctx h' = driver_ctx h"
    "magic h' = magic h" "cache h' = cache h" "txn h' = txn h" "config h' = config h" "logger h' = logger h"
  using assms by (cases h, cases h', simp add: only_error_def)+

lemma add_columns_only: "ensures (add_columns h schema cs w m) (\<lambda>(r, h', w', m'). only_error h h')"
proof (induction cs arbitrary: w m)
  case (Cons c cs)
  show ?case
    by ((clarsimp | intro conjI impI allI ensures_any [where x = "driver h"] ensures_any [where x = "driver_ctx h"]
        ensures_any [where x = "drv_exec drv ctx s w" for drv ctx s w] any_pure Cons.IH [THEN ensures_mono] | rule ensuresI)+)
qed simp

text \<open>
  A successful comparison has seen the database's columns and found that they match: either the first
  time, in the world \<open>w0\<close> it started from, or, after it added columns, in the read that ends in the
  final world \<open>w'\<close>.
\<close>

definition columns_seen :: "'w SqlRDBHandle \<Rightarrow> SqlRDBSchema \<Rightarrow> 'w \<Rightarrow> 'w \<Rightarrow> bool" where
  "columns_seen h schema w0 w' \<longleftrightarrow>
     (\<exists>m cols w1 m1. read_existing h (sch_name schema) w0 m = Some (SQL_RDB_OK, cols, w1, m1) \<and>
        list_all2 column_matches (sch_cols schema) cols) \<or>
     (\<exists>g w2 m cols m1. only_error h g \<and> read_existing g (sch_name schema) w2 m = Some (SQL_RDB_OK, cols, w', m1) \<and>
        list_all2 column_matches (sch_cols schema) cols)"

text \<open>Without automatic migration the comparison decides whether the table matches and does nothing else.\<close>

lemma sync_columns_decides:
  assumes "\<not> auto_migrate (config h)"
  shows "\<exists>r h'. sync_columns h schema db_cols w m = Some (r, h', w, m) \<and> only_error h h' \<and>
           r = (if list_all2 column_matches (sch_cols schema) db_cols then SQL_RDB_OK else SQL_RDB_ERR_SCHEMA_MISMATCH)"
proof (cases "length db_cols = length (sch_cols schema)")
  case True
  then show ?thesis using first_mismatch_None [OF True, of 0]
    by (auto simp: sync_columns_def Let_def mismatch_def split: option.splits prod.splits)
next
  case False
  then have "\<not> list_all2 column_matches (sch_cols schema) db_cols" by (auto dest: list_all2_lengthD)
  then show ?thesis using False assms
    by (auto simp: sync_columns_def Let_def mismatch_def split: option.splits prod.splits)
qed

text \<open>The world in which the comparison starts is the one after \<^verbatim>\<open>CREATE TABLE IF NOT EXISTS\<close>.\<close>

definition table_matches :: "'w SqlRDBHandle \<Rightarrow> SqlRDBSchema \<Rightarrow> 'w \<Rightarrow> 'w \<Rightarrow> bool" where
  "table_matches h schema w w' \<longleftrightarrow>
     (\<exists>drv ctx sql m k m1 w0. driver h = Some drv \<and> driver_ctx h = Some ctx \<and>
        c2sql_internal_qb_build
          \<lparr>qs_op = C2SQL_QB_CREATE, qs_schema = schema, qs_cond = None, qs_new_col = None, qs_target_col = None,
           qs_dialect = drv_dialect drv\<rparr> m = Some (SQL_RDB_OK, Some sql, k, m1) \<and>
        drv_exec drv ctx sql w = Some (SQL_RDB_OK, w0) \<and> columns_seen h schema w0 w')"

lemma sync_columns_post:
  assumes "read_existing h (sch_name schema) w0 m0 = Some (SQL_RDB_OK, db_cols, w1, m1)"
  shows "ensures (sync_columns h schema db_cols w m)
           (\<lambda>(r, h', w', m'). only_error h h' \<and> (r = SQL_RDB_OK \<longrightarrow> columns_seen h schema w0 w'))"
proof -
  have seen: "columns_seen h schema w0 w'"
    if "first_mismatch 0 (sch_cols schema) db_cols = None" "length db_cols = length (sch_cols schema)" for w'
    using that assms first_mismatch_None [OF that(2), of 0] unfolding columns_seen_def by metis
  have again: "columns_seen h schema w0 w3"
    if "only_error h g" "read_existing g (sch_name schema) w2 m2 = Some (SQL_RDB_OK, cols, w3, m3)"
      "first_mismatch 0 (sch_cols schema) cols = None" "length cols = length (sch_cols schema)" for g w2 m2 cols w3 m3
    using that first_mismatch_None [OF that(4), of 0] unfolding columns_seen_def by metis
  show ?thesis unfolding sync_columns_def Let_def
    by ((rule mismatch_ensures add_columns_only [THEN ensures_mono] ensures_option conjI impI allI
          ensuresI [where x = "read_existing g n w m" for g n w m]
        | (erule (3) again) | (rule seen; simp)
        | clarsimp split: prod.splits | rule ensuresI)+)
qed

lemma migrate_post:
  "ensures (c2sql_internal_migrate_table h schema w m)
     (\<lambda>(r, h', w', m'). only_error h h' \<and> (r = SQL_RDB_OK \<longrightarrow> table_matches h schema w w'))"
proof -
  define post where "post = (\<lambda>(r, h', w', m' :: mem). only_error h h' \<and> (r = SQL_RDB_OK \<longrightarrow> table_matches h schema w w'))"
  have failed: "post (r, h, w', m')" "post (r, set_error h c t, w', m')" if "r \<noteq> SQL_RDB_OK" for r c t w' m'
    using that by (auto simp: post_def)
  have created: "ensures (sync_columns h schema db_cols w2 m2) post"
    if "driver h = Some drv" "driver_ctx h = Some ctx"
      "c2sql_internal_qb_build
          \<lparr>qs_op = C2SQL_QB_CREATE, qs_schema = schema, qs_cond = None, qs_new_col = None, qs_target_col = None,
           qs_dialect = d\<rparr> m = Some (SQL_RDB_OK, Some sql, k, m0)"
      "drv_exec drv ctx sql w = Some (SQL_RDB_OK, w0)"
      "read_existing h (sch_name schema) w0 m0 = Some (SQL_RDB_OK, db_cols, w1, m1)" "d = drv_dialect drv"
    for d drv ctx sql k m0 w0 db_cols w1 m1 w2 m2
    by (rule sync_columns_post [OF that(5), THEN ensures_mono]) (use that in \<open>auto simp: table_matches_def post_def\<close>)
  have "ensures (c2sql_internal_migrate_table h schema w m) post"
    unfolding c2sql_internal_migrate_table_def
    by ((rule mismatch_ensures conjI impI allI field_read failed
          ensuresI [where x = "drv_exec drv ctx s w" for drv ctx s w]
          ensuresI [where x = "c2sql_internal_qb_build spec m" for spec m]
          ensures_any [where x = "check_strict h n w" for h n w]
          ensuresI [where x = "read_existing g n w m" for g n w m]
        | (erule (4) created, simp) | clarsimp | rule ensuresI)+)
  then show ?thesis by (simp add: post_def)
qed

section \<open>Registration is all or nothing\<close>

lemma registry_ok_entries:
  "registry_ok reg \<Longrightarrow> reg_entries reg' = reg_entries reg \<Longrightarrow> length (reg_entries reg') \<le> reg_capacity reg' \<Longrightarrow> registry_ok reg'"
  by (simp add: registry_ok_def)

lemma lookup_registered:
  assumes "c2sql_internal_schema_lookup h (Some name) = Some p" and "schema_at (registry h) p = Some s"
    and "reg_entries (registry h) = es @ [t]" and "sch_name t = name" and "name \<notin> sch_name ` set es"
  shows "s = t"
proof -
  obtain s' where "schema_at (registry h) p = Some s'" "sch_name s' = name" "s' \<in> set (reg_entries (registry h))"
    using schema_lookup_Some [OF assms(1)] by blast
  then show ?thesis using assms by auto
qed

text \<open>The body of \<^verbatim>\<open>SqlRDBRegisterStruct\<close> under the lock.\<close>

definition register_locked ::
  "string \<Rightarrow> column_arg list \<Rightarrow> nat \<Rightarrow> 'w \<Rightarrow> mem \<Rightarrow> 'w SqlRDBHandle \<Rightarrow> (SqlRDBResult \<times> 'w SqlRDBHandle \<times> 'w \<times> mem) option" where
  "register_locked name cols n w m h =
     do {
       (r, h, m) \<leftarrow> c2sql_internal_schema_register h (Some name) (Some cols) n m;
       if r \<noteq> SQL_RDB_OK then Some (r, h, w, m)
       else case c2sql_internal_schema_lookup h (Some name) of
           None \<Rightarrow> Some (SQL_RDB_ERR_INTERNAL, h, w, m)
         | Some p \<Rightarrow>
             do {
               schema \<leftarrow> schema_at (registry h) p;
               (r, h, w, m) \<leftarrow> c2sql_internal_migrate_table h schema w m;
               if r \<noteq> SQL_RDB_OK then
                 Some (r, snd (c2sql_internal_schema_unregister h (Some name)), w, m)
               else Some (r, h, w, m)
             }
     }"

lemma RegisterStruct_locked:
  "c2sql_handle_valid (Some h) \<Longrightarrow> n \<noteq> 0 \<Longrightarrow>
     SqlRDBRegisterStruct h (Some name) (Some cols) n w m = locked h (register_locked name cols n w m)"
  by (simp add: SqlRDBRegisterStruct_def register_locked_def [abs_def])

lemma register_body_post:
  assumes ok: "registry_ok (registry h)" and v: "c2sql_handle_valid (Some h)" and n: "n \<le> length cols" "n \<noteq> 0"
    and run: "register_locked name cols n w m h = Some (r, h', w', m')"
  shows "mutex h' = mutex h \<and> registry_ok (registry h') \<and>
     (if r = SQL_RDB_OK
      then reg_entries (registry h') = reg_entries (registry h) @ [schema_of name (take n cols)] \<and>
           (\<exists>g. driver g = driver h \<and> driver_ctx g = driver_ctx h \<and> table_matches g (schema_of name (take n cols)) w w')
      else reg_entries (registry h') = reg_entries (registry h))"
proof -
  note run = run [unfolded register_locked_def]
  let ?s = "schema_of name (take n cols)"
  have cap: "length (reg_entries (registry h)) \<le> reg_capacity (registry h)" using ok by (simp add: registry_ok_def)
  obtain r1 h1 m1 where reg: "c2sql_internal_schema_register h (Some name) (Some cols) n m = Some (r1, h1, m1)"
    "mutex h1 = mutex h" "length (reg_entries (registry h1)) \<le> reg_capacity (registry h1)"
    "if r1 = SQL_RDB_OK then register_args_ok (registry h) name (take n cols) \<and>
       reg_entries (registry h1) = reg_entries (registry h) @ [?s] else reg_entries (registry h1) = reg_entries (registry h)"
    using schema_register_cases [OF v n cap, of name m] by (metis (mono_tags, lifting))
  have d1: "driver h1 = driver h" "driver_ctx h1 = driver_ctx h" and v1: "c2sql_handle_valid (Some h1)"
    using ensuresD [OF schema_register_only reg(1)] v by (simp_all add: registry_only_def c2sql_handle_valid_def)
  have rok1: "registry_ok (registry h1)" using registry_ok_register [OF ok v n(1) reg(1)] .
  show ?thesis
  proof (cases "r1 = SQL_RDB_OK")
    case False
    then show ?thesis using run reg rok1 by (auto split: if_splits)
  next
    case True
    have args: "name \<notin> sch_name ` set (reg_entries (registry h))" and es: "reg_entries (registry h1) = reg_entries (registry h) @ [?s]"
      using reg(4) True by (auto simp: register_args_ok_def)
    obtain p where p: "c2sql_internal_schema_lookup h1 (Some name) = Some p"
      using schema_lookup_None [OF v1, of name] es by (cases "c2sql_internal_schema_lookup h1 (Some name)") (auto simp: schema_of_def)
    have at: "schema_at (registry h1) p = Some ?s"
      using schema_lookup_Some [OF p] lookup_registered [OF p _ es _ args] by (auto simp: schema_of_def)
    obtain r2 h2 w2 m2 where mig: "c2sql_internal_migrate_table h1 ?s w m1 = Some (r2, h2, w2, m2)"
      using run reg(1) True p at by (auto simp: bind_Some_iff)
    have post: "only_error h1 h2" "r2 = SQL_RDB_OK \<longrightarrow> table_matches h1 ?s w w2" using ensuresD [OF migrate_post mig] by auto
    note same = only_error_fields [OF post(1)]
    have v2: "c2sql_handle_valid (Some h2)" using v1 same by (simp add: c2sql_handle_valid_def)
    show ?thesis
    proof (cases "r2 = SQL_RDB_OK")
      case r2: True
      then have "r = SQL_RDB_OK" "h' = h2" "w' = w2" using run reg(1) True p at mig by auto
      then show ?thesis using same reg(2) rok1 es post(2) r2 d1 by auto
    next
      case False
      then have h': "r = r2" "h' = snd (c2sql_internal_schema_unregister h2 (Some name))" using run reg(1) True p at mig by auto
      have dist: "distinct (map sch_name (reg_entries (registry h2)))" using rok1 same by (simp add: registry_ok_def)
      have "filter (\<lambda>s. sch_name s \<noteq> name) (reg_entries (registry h)) = reg_entries (registry h)"
        using args by (auto simp: filter_id_conv)
      then have "reg_entries (registry h') = reg_entries (registry h)" "mutex h' = mutex h2" "reg_capacity (registry h') = reg_capacity (registry h2)"
        using h'(2) schema_unregister_filter [OF v2 dist, of name] es same by (simp_all add: schema_of_def)
      then show ?thesis using False h'(1) reg(2,3) same ok es by (auto intro: registry_ok_entries)
    qed
  qed
qed

section \<open>The scan for STRICT\<close>

text \<open>It returns on every text made of words and separators.\<close>

lemma strict_scan_total:
  assumes "list_all (\<lambda>c. is_separator c \<or> ident_char c) s"
  shows "strict_scan s \<noteq> None"
  using assms
proof (induction "length s" arbitrary: s rule: less_induct)
  case less
  let ?q = "dropWhile is_separator s" and ?word = "\<lambda>c. isalnum c \<or> c = CHR ''_''"
  show ?case
  proof (cases "length ?q < 6")
    case True
    then show ?thesis by (subst strict_scan.simps) (auto simp: Let_def)
  next
    case False
    then obtain c cs where q: "?q = c # cs" by (cases ?q) auto
    have len: "length ?q \<le> length s" by (rule length_dropWhile_le)
    have sub: "set ?q \<subseteq> set s" by (rule set_dropWhileD [THEN subsetI])
    have "\<not> is_separator c" using q hd_dropWhile [of is_separator s] by (cases ?q) auto
    then have w: "?word c" using less.prems q sub by (fastforce simp: list_all_iff ident_char_def)
    have shorter: "length (dropWhile ?word ?q) < length s"
      using q w len length_dropWhile_le [of ?word cs] by simp
    have "list_all (\<lambda>c. is_separator c \<or> ident_char c) (dropWhile ?word ?q)"
      using less.prems sub set_dropWhileD by (fastforce simp: list_all_iff)
    from less.hyps [OF shorter this] show ?thesis by (subst strict_scan.simps) (auto simp: Let_def)
  qed
qed

text \<open>It does not return at any other character with at least five more after it.\<close>

lemma strict_scan_stuck:
  assumes "\<not> is_separator c" and "\<not> ident_char c" and "5 \<le> length cs"
  shows "strict_scan (c # cs) = None"
proof (rule ccontr)
  have up: "toupper c \<noteq> CHR ''S''"
    using assms(2) by (auto simp: toupper_def char_class_defs)
  assume "strict_scan (c # cs) \<noteq> None"
  then obtain b where "strict_scan (c # cs) = Some b" by blast
  moreover have "s \<noteq> c # cs" if "strict_scan s = Some b" for s b
  proof (rule strict_scan.raw_induct [where P = "\<lambda>s b. s \<noteq> c # cs", OF _ that])
    fix scan :: "string \<Rightarrow> bool option" and s b
    assume IH: "\<And>s b. scan s = Some b \<Longrightarrow> s \<noteq> c # cs"
      and body: "(if s = [] then Some False
      else let q = dropWhile is_separator s in
        if length q < 6 then Some False
        else if map toupper (take 6 q) = ''STRICT'' \<and> (length q = 6 \<or> \<not> isalnum (q ! 6)) then Some True
        else scan (dropWhile (\<lambda>c. isalnum c \<or> c = CHR ''_'') q)) = Some b"
    show "s \<noteq> c # cs"
    proof
      assume s: "s = c # cs"
      then have "scan (c # cs) = Some b" using body assms up by (auto simp: Let_def ident_char_def split: if_splits)
      then show False using IH by blast
    qed
  qed
  ultimately show False by blast
qed

end
