(* ===== verification/Migration_Stmts.thy ===== *)
theory Migration_Stmts
  imports Migration_Correct
begin

text \<open>Introspection and migration close every statement they open.\<close>

text \<open>A logger that does not touch the driver's statements.\<close>

definition logger_quiet :: "('w \<Rightarrow> ptr set) \<Rightarrow> 'w SqlRDBLoggerCtx \<Rightarrow> bool" where
  "logger_quiet live l \<longleftrightarrow>
     (case log_fn l of None \<Rightarrow> True | Some fn \<Rightarrow> \<forall>u code sql msg w. live (fn u code sql msg w) = live w)"

lemma quiet_log: "logger_quiet live l \<Longrightarrow> live (c2sql_internal_log (Some l) code sql msg w) = live w"
  by (simp add: logger_quiet_def c2sql_internal_log_def split: option.splits)

lemma unregister_fields:
  "cache (snd (c2sql_internal_schema_unregister h name)) = cache h"
  "driver (snd (c2sql_internal_schema_unregister h name)) = driver h"
  by (simp_all add: c2sql_internal_schema_unregister_def Let_def split: option.splits)

context stmt_driver begin

lemma get_int32_live: "ensures (get_int32 drv s i w) (\<lambda>(v, w'). live w' = live w)"
  unfolding get_int32_def ensures_simps by (rule column_int32 [THEN ensures_mono]) auto

lemma get_text_live: "ensures (get_text drv s i w) (\<lambda>(p, n, w'). live w' = live w)"
  unfolding get_text_def ensures_simps by (rule column_text [THEN ensures_mono]) auto

lemmas row_reads = get_int32_live [THEN ensures_mono] get_text_live [THEN ensures_mono]

lemma table_info_row_live: "ensures (table_info_row drv s w) (\<lambda>(c, w'). live w' = live w)"
  unfolding table_info_row_def
  by ((clarsimp | intro conjI impI allI row_reads | rule ensuresI [where x = "bounded_copy k p n" for k p n])+)

lemma pg_info_row_live: "ensures (pg_info_row drv s k w) (\<lambda>(c, w'). live w' = live w)"
  unfolding pg_info_row_def
  by ((clarsimp split: option.splits | intro conjI impI allI row_reads
      | rule ensuresI [where x = "bounded_copy k p n" for k p n] | rule ensures_any)+)

text \<open>The loops: induction on their finite executions.\<close>

lemma collect_names_live: "ensures (collect_names drv s col mx names w) (\<lambda>(r, ns, w'). live w' = live w)"
proof (rule ensuresI)
  fix y assume "collect_names drv s col mx names w = Some y"
  then have "drv = drv \<longrightarrow> (case y of (r, ns, w') \<Rightarrow> live w' = live w)"
  proof (rule collect_names.raw_induct [where P = "\<lambda>d s col mx names w y. d = drv \<longrightarrow> (case y of (r, ns, w') \<Rightarrow> live w' = live w)", rotated])
    fix f :: "'w SqlRDBDriver \<Rightarrow> ptr \<Rightarrow> int \<Rightarrow> nat \<Rightarrow> string list \<Rightarrow> 'w \<Rightarrow> (SqlRDBResult \<times> string list \<times> 'w) option"
      and d s col mx names w y
    let ?body = "\<lambda>d. drv_step d s w \<bind> (\<lambda>(r, has_row, w). if r \<noteq> SQL_RDB_OK \<or> \<not> has_row then Some (r, names, w)
         else get_text d s col w \<bind> (\<lambda>(p, n, w). if p \<noteq> None \<and> length names < mx \<and> n < MIG_MAX_NAME
            then bounded_copy MIG_MAX_NAME p n \<bind> (\<lambda>name. f d s col mx (names @ [name]) w)
            else f d s col mx names w))"
    assume IH: "\<And>d s col mx names w y. f d s col mx names w = Some y \<Longrightarrow> d = drv \<longrightarrow> (case y of (r, ns, w') \<Rightarrow> live w' = live w)"
      and body: "?body d = Some y"
    have rec: "ensures (f drv s col mx names w) (\<lambda>(r, ns, w'). live w' = live w)" for names w
      using IH by (auto intro: ensuresI)
    have E: "ensures (?body drv) (\<lambda>(r, ns, w'). live w' = live w)"
      by ((clarsimp | intro conjI impI allI row_reads passive_calls rec [THEN ensures_mono]
          | rule ensuresI [where x = "bounded_copy k p n" for k p n])+)
    show "d = drv \<longrightarrow> (case y of (r, ns, w') \<Rightarrow> live w' = live w)"
    proof
      assume "d = drv"
      from ensuresD [OF E body [unfolded this]] show "case y of (r, ns, w') \<Rightarrow> live w' = live w" .
    qed
  qed
  then show "case y of (r, ns, w') \<Rightarrow> live w' = live w" by blast
qed

lemma index_names_live: "ensures (index_names drv s names w) (\<lambda>(r, ns, w'). live w' = live w)"
proof (rule ensuresI)
  fix y assume "index_names drv s names w = Some y"
  then have "drv = drv \<longrightarrow> (case y of (r, ns, w') \<Rightarrow> live w' = live w)"
  proof (rule index_names.raw_induct [where P = "\<lambda>d s names w y. d = drv \<longrightarrow> (case y of (r, ns, w') \<Rightarrow> live w' = live w)", rotated])
    fix f :: "'w SqlRDBDriver \<Rightarrow> ptr \<Rightarrow> string list \<Rightarrow> 'w \<Rightarrow> (SqlRDBResult \<times> string list \<times> 'w) option" and d s names w y
    let ?body = "\<lambda>d. drv_step d s w \<bind> (\<lambda>(r, has_row, w). if r \<noteq> SQL_RDB_OK \<or> \<not> has_row then Some (r, names, w)
       else get_int32 d s 2 w \<bind> (\<lambda>(uniq, w). if uniq = 0 then f d s names w
         else get_text d s 3 w \<bind> (\<lambda>(p, n, w).
           (case p of None \<Rightarrow> Some False
            | Some mem \<Rightarrow> if n = 1 then map_option (\<lambda>b. b = ''u'') (read_bytes mem 0 1) else Some False) \<bind> (\<lambda>origin.
           if \<not> origin then f d s names w
           else get_text d s 1 w \<bind> (\<lambda>(p, n, w). if length names < 64 \<and> p \<noteq> None \<and> n < 96
             then bounded_copy 96 p n \<bind> (\<lambda>name. f d s (names @ [name]) w) else f d s names w)))))"
    assume IH: "\<And>d s names w y. f d s names w = Some y \<Longrightarrow> d = drv \<longrightarrow> (case y of (r, ns, w') \<Rightarrow> live w' = live w)"
      and body: "?body d = Some y"
    have rec: "ensures (f drv s names w) (\<lambda>(r, ns, w'). live w' = live w)" for names w
      using IH by (auto intro: ensuresI)
    have E: "ensures (?body drv) (\<lambda>(r, ns, w'). live w' = live w)"
      by ((clarsimp split: option.splits | intro conjI impI allI row_reads passive_calls rec [THEN ensures_mono]
          | rule ensuresI [where x = "bounded_copy k p n" for k p n] | rule ensuresI [where x = "read_bytes b i n" for b i n]
          | rule ensures_option)+)
    show "d = drv \<longrightarrow> (case y of (r, ns, w') \<Rightarrow> live w' = live w)"
    proof
      assume "d = drv"
      from ensuresD [OF E body [unfolded this]] show "case y of (r, ns, w') \<Rightarrow> live w' = live w" .
    qed
  qed
  then show "case y of (r, ns, w') \<Rightarrow> live w' = live w" by blast
qed

lemma table_rows_live:
  assumes rd: "\<And>k w. ensures (rd k w) (\<lambda>(c, w'). live w' = live w)"
  shows "ensures (table_rows drv s rd cap cols w m) (\<lambda>(b, r, cs, w', m'). live w' = live w)"
proof (rule ensuresI)
  fix y assume "table_rows drv s rd cap cols w m = Some y"
  then have "drv = drv \<and> rd = rd \<longrightarrow> (case y of (b, r, cs, w', m') \<Rightarrow> live w' = live w)"
  proof (rule table_rows.raw_induct [where
      P = "\<lambda>d s g cap cols w m y. d = drv \<and> g = rd \<longrightarrow> (case y of (b, r, cs, w', m') \<Rightarrow> live w' = live w)", rotated])
    fix f :: "'w SqlRDBDriver \<Rightarrow> ptr \<Rightarrow> (nat \<Rightarrow> 'w \<Rightarrow> (DbCol \<times> 'w) option) \<Rightarrow> nat \<Rightarrow> DbCol list \<Rightarrow> 'w \<Rightarrow> mem
        \<Rightarrow> (bool \<times> SqlRDBResult \<times> DbCol list \<times> 'w \<times> mem) option" and d s g cap cols w m y
    let ?body = "\<lambda>d g. drv_step d s w \<bind> (\<lambda>(r, has_row, w). if r \<noteq> SQL_RDB_OK \<or> \<not> has_row then Some (False, r, cols, w, m)
       else if length cols = cap \<and> \<not> fst (alloc m) then Some (True, r, cols, w, snd (alloc m))
       else g (length cols) w \<bind> (\<lambda>(col, w). f d s g (if length cols = cap then if cap = 0 then 8 else cap * 2 else cap)
              (cols @ [col]) w (if length cols = cap then snd (alloc m) else m)))"
    assume IH: "\<And>d s g cap cols w m y. f d s g cap cols w m = Some y \<Longrightarrow>
        d = drv \<and> g = rd \<longrightarrow> (case y of (b, r, cs, w', m') \<Rightarrow> live w' = live w)" and body: "?body d g = Some y"
    have rec: "ensures (f drv s rd cap cols w m) (\<lambda>(b, r, cs, w', m'). live w' = live w)" for cap cols w m
      using IH by (auto intro: ensuresI)
    have E: "ensures (?body drv rd) (\<lambda>(b, r, cs, w', m'). live w' = live w)"
      by ((clarsimp | intro conjI impI allI passive_calls rd [THEN ensures_mono] rec [THEN ensures_mono])+)
    show "d = drv \<and> g = rd \<longrightarrow> (case y of (b, r, cs, w', m') \<Rightarrow> live w' = live w)"
    proof
      assume eq: "d = drv \<and> g = rd"
      from ensuresD [OF E body [unfolded conjunct1 [OF eq] conjunct2 [OF eq]]]
      show "case y of (b, r, cs, w', m') \<Rightarrow> live w' = live w" .
    qed
  qed
  then show "case y of (b, r, cs, w', m') \<Rightarrow> live w' = live w" by blast
qed

text \<open>A statement opened and closed leaves the open statements as they were.\<close>

lemma prepare_live:
  assumes "\<And>s w'. s \<notin> live w \<Longrightarrow> live w' = insert s (live w) \<Longrightarrow> P (SQL_RDB_OK, Some s, w')"
    and "\<And>r st w'. r \<noteq> SQL_RDB_OK \<Longrightarrow> live w' = live w \<Longrightarrow> P (r, st, w')"
  shows "ensures (drv_prepare drv ctx sql w) P"
  by (rule prepare [THEN ensures_mono]) (use assms in \<open>auto split: if_splits\<close>)

lemmas migration_rules = passive_calls finalize [THEN ensures_mono] collect_names_live [THEN ensures_mono]
  index_names_live [THEN ensures_mono] table_rows_live [OF table_info_row_live, THEN ensures_mono]
  table_rows_live [OF pg_info_row_live, THEN ensures_mono] row_reads

lemma read_table_info_live:
  assumes "driver h = Some drv"
  shows "ensures (read_table_info h table w m) (\<lambda>(r, cols, w', m'). live w' = live w)"
  unfolding read_table_info_def finish_rows_def
  by (insert assms, (clarsimp | intro conjI impI allI prepare_live migration_rules ensures_any [where x = "driver_ctx h"])+)

lemma pg_collect_names_live:
  assumes "driver h = Some drv"
  shows "ensures (pg_collect_names h sql table mx w) (\<lambda>(r, names, w'). live w' = live w)"
  unfolding pg_collect_names_def
  by (insert assms, (clarsimp | intro conjI impI allI prepare_live migration_rules ensures_any [where x = "driver_ctx h"])+)

lemma read_table_info_pg_live:
  assumes "driver h = Some drv"
  shows "ensures (read_table_info_pg h table w m) (\<lambda>(r, cols, w', m'). live w' = live w)"
  unfolding read_table_info_pg_def finish_rows_def
  by (insert assms, (clarsimp simp: Let_def | intro conjI impI allI prepare_live migration_rules
      pg_collect_names_live [OF assms, THEN ensures_mono] ensures_any [where x = "driver_ctx h"])+)

lemma apply_indexes_live: "ensures (apply_indexes drv ctx idxs cols w) (\<lambda>(r, cols', w'). live w' = live w)"
proof (induction idxs arbitrary: cols w)
  case (Cons i idxs)
  show ?case by ((clarsimp | intro conjI impI allI prepare_live migration_rules Cons.IH [THEN ensures_mono])+)
qed simp

lemma apply_unique_flags_live:
  assumes "driver h = Some drv"
  shows "ensures (apply_unique_flags h table cols w) (\<lambda>(r, cols', w'). live w' = live w)"
  unfolding apply_unique_flags_def
  by (insert assms, (clarsimp | intro conjI impI allI prepare_live migration_rules apply_indexes_live [THEN ensures_mono]
      ensures_any [where x = "driver_ctx h"])+)

lemma read_existing_live:
  assumes "driver h = Some drv"
  shows "ensures (read_existing h table w m) (\<lambda>(r, cols, w', m'). live w' = live w)"
  unfolding read_existing_def
  by (insert assms, (clarsimp | intro conjI impI allI read_table_info_pg_live [THEN ensures_mono]
      read_table_info_live [THEN ensures_mono] apply_unique_flags_live [THEN ensures_mono])+)

lemma check_strict_live:
  assumes "driver h = Some drv"
  shows "ensures (check_strict h table w) (\<lambda>(r, b, w'). live w' = live w)"
  unfolding check_strict_def
  by (insert assms, (clarsimp split: option.splits | intro conjI impI allI prepare_live migration_rules
      ensures_any [where x = "driver_ctx h"] | rule ensures_any)+)

lemma add_columns_live:
  assumes "driver h = Some drv"
  shows "ensures (add_columns h schema cs w m) (\<lambda>(r, h', w', m'). live w' = live w)"
proof (induction cs arbitrary: w m)
  case (Cons c cs)
  show ?case
    by (insert assms, (clarsimp | intro conjI impI allI migration_rules any_pure Cons.IH [THEN ensures_mono]
        ensures_any [where x = "driver_ctx h"] | rule ensuresI)+)
qed simp

lemma sync_columns_live:
  assumes "driver h = Some drv"
  shows "ensures (sync_columns h schema db_cols w m) (\<lambda>(r, h', w', m'). live w' = live w)"
proof -
  have "ensures (add_columns h schema cs w m) (\<lambda>(r, h', w', m'). live w' = live w \<and> driver h' = Some drv)" for cs
  proof (rule ensuresI)
    fix y assume run: "add_columns h schema cs w m = Some y"
    show "case y of (r, h', w', m') \<Rightarrow> live w' = live w \<and> driver h' = Some drv"
      using ensuresD [OF add_columns_only run] ensuresD [OF add_columns_live [OF assms] run] assms
      by (cases y) (simp add: only_error_fields(3))
  qed
  note added = this [THEN ensures_mono]
  show ?thesis unfolding sync_columns_def Let_def
    by ((rule mismatch_ensures added ensures_option conjI impI allI read_existing_live [THEN ensures_mono]
        | assumption | clarsimp)+)
qed

lemma migrate_live:
  assumes "driver h = Some drv" and "logger_quiet live (logger h)"
  shows "ensures (c2sql_internal_migrate_table h schema w m) (\<lambda>(r, h', w', m'). live w' = live w)"
  unfolding c2sql_internal_migrate_table_def
  by (insert assms, (rule mismatch_ensures conjI impI allI ensures_any [where x = "driver_ctx h"] any_pure
        read_existing_live [THEN ensures_mono] check_strict_live [THEN ensures_mono]
        sync_columns_live [THEN ensures_mono] exec [THEN ensures_mono]
      | assumption | clarsimp simp: quiet_log | rule ensuresI)+)

text \<open>Registering a struct keeps the ownership of statements on every path.\<close>

lemma RegisterStruct_holds:
  assumes "driver h = Some drv" and "holds live h w F" and "logger_quiet live (logger h)"
  shows "ensures (SqlRDBRegisterStruct h name cols n w m) (\<lambda>(r, h', w', m'). holds live h' w' F)"
proof -
  have body: "holds live h' w' F"
    if "registry_only (h\<lparr>mutex := x\<rparr>) h1" "c2sql_internal_migrate_table h1 schema w m1 = Some (r, h2, w', m2)"
      "cache h' = cache h2" for x h1 schema m1 r h2 w' m2 h'
  proof -
    have "driver h1 = Some drv" "logger_quiet live (logger h1)" using that assms by (simp_all add: registry_only_def)
    from ensuresD [OF migrate_live [OF this] that(2)] have "live w' = live w" by simp
    moreover have "cache h2 = cache h1" using ensuresD [OF migrate_post that(2)] only_error_fields(6) by auto
    ultimately show ?thesis using that assms(2) by (auto simp: registry_only_def holds_def)
  qed
  have quit: "holds live h1 w F" if "registry_only (h\<lparr>mutex := x\<rparr>) h1" for x h1
    using that assms(2) by (simp add: registry_only_def holds_def)
  show ?thesis unfolding SqlRDBRegisterStruct_def
    by (insert assms, (rule locked_ensures schema_register_only [THEN ensures_mono] ensures_option conjI impI allI
          any_pure ensuresI [where x = "c2sql_internal_migrate_table h1 s w m1" for h1 s w m1]
        | (erule quit) | (erule (1) body, simp add: unregister_fields) | clarsimp)+)
qed

end

end
