(* ===== verification/Service.thy ===== *)
theory Service
  imports Migration_Stmts
begin

text \<open>
  The whole life of a handle between \<^verbatim>\<open>SqlRDBInit\<close> and \<^verbatim>\<open>SqlRDBClose\<close>: the calls of
  \<open>Sessions\<close> interleaved with the registration of structs, changes of the configuration and of the
  logger. The invariant of the open handle, ownership of the driver's statements included, holds after
  every such sequence.
\<close>

section \<open>The calls\<close>

inductive service_step :: "('w \<Rightarrow> ptr set) \<Rightarrow> 'w session_state \<Rightarrow> 'w session_state \<Rightarrow> bool" for live where
  sv_api: "api_step s s' \<Longrightarrow> service_step live s s'"
| sv_register: "n \<le> length cols \<Longrightarrow> SqlRDBRegisterStruct h name (Some cols) n w m = Some (r, h', w', m') \<Longrightarrow>
     service_step live (h, w, F) (h', w', F)"
| sv_config: "unat (stmt_cache_size cfg) \<le> 2 ^ 62 \<Longrightarrow> SqlRDBSetConfig h (Some cfg) w m = Some (r, h', w', m') \<Longrightarrow>
     service_step live (h, w, F) (h', w', F)"
| sv_logger: "logger_quiet live \<lparr>log_fn = fn, log_user = user\<rparr> \<Longrightarrow> SqlRDBSetLogger h fn user = Some (r, h', u) \<Longrightarrow>
     service_step live (h, w, F) (h', w, F)"

abbreviation service :: "('w \<Rightarrow> ptr set) \<Rightarrow> 'w session_state \<Rightarrow> 'w session_state \<Rightarrow> bool" where
  "service live \<equiv> (service_step live)\<^sup>*\<^sup>*"

section \<open>The invariant\<close>

definition open_handle :: "'w SqlRDBDriver \<Rightarrow> ptr \<Rightarrow> ('w \<Rightarrow> ptr set) \<Rightarrow> 'w session_state \<Rightarrow> bool" where
  "open_handle drv ctx live s =
     (case s of (h, w, F) \<Rightarrow> handle_ok h \<and> driver h = Some drv \<and> driver_ctx h = Some ctx \<and>
        logger_quiet live (logger h) \<and> holds live h w F)"

text \<open>The mutex of a sound handle is taken and given back.\<close>

lemma locked_sound:
  assumes "mutex_sound (mutex h)" and run: "locked h body = Some (r, h', s)"
    and kept: "\<And>g mx. body (h\<lparr>mutex := mx\<rparr>) = Some (r, g, s) \<Longrightarrow> mutex g = mx"
  obtains mx g where "body (h\<lparr>mutex := mx\<rparr>) = Some (r, g, s)" and "h' = g\<lparr>mutex := mutex h\<rparr>"
proof -
  have idle: "mutex_idle (mutex h)" using assms(1) by (rule mutex_sound_idle)
  let ?mx = "(mutex h)\<lparr>mtx_locked := mtx_threadsafe (mutex h) \<or> mtx_locked (mutex h)\<rparr>"
  have lk: "lock_handle h = Some (h\<lparr>mutex := ?mx\<rparr>)" using mutex_lock_idle [OF idle] by (simp add: lock_handle_def)
  obtain g where g: "body (h\<lparr>mutex := ?mx\<rparr>) = Some (r, g, s)" "unlock_handle g = Some h'"
    using run lk by (auto simp: locked_def bind_Some_iff)
  have "unlock_handle g = Some (g\<lparr>mutex := mutex h\<rparr>)"
    using kept [OF g(1)] mutex_lock_unlock [OF idle] mutex_lock_idle [OF idle] by (simp add: unlock_handle_def)
  then show ?thesis using that [OF g(1)] g(2) by simp
qed

section \<open>Each call keeps it\<close>

text \<open>What registration leaves alone.\<close>

lemma unregister_only: "registry_only h (snd (c2sql_internal_schema_unregister h name))"
  by (simp add: c2sql_internal_schema_unregister_def Let_def registry_only_def split: option.splits)

lemma only_error_registry: "only_error h h' \<Longrightarrow> registry_only h h'"
  by (simp add: registry_only_def only_error_fields)

lemma registry_only_trans: "registry_only h g \<Longrightarrow> registry_only g k \<Longrightarrow> registry_only h k"
  by (simp add: registry_only_def)

lemma register_locked_only: "ensures (register_locked name cols n w m h) (\<lambda>(r, h', w', m'). registry_only h h')"
proof -
  have migrated: "ensures (c2sql_internal_migrate_table h1 schema w m1) (\<lambda>(r, h', w', m'). registry_only h h')"
    if "registry_only h h1" for h1 schema w m1
    by (rule migrate_post [THEN ensures_mono]) (auto intro: registry_only_trans [OF that] only_error_registry)
  show ?thesis unfolding register_locked_def
    by ((rule schema_register_only [THEN ensures_mono] ensures_option conjI impI allI any_pure
          migrated [THEN ensures_mono] registry_only_trans [OF _ unregister_only] | assumption | clarsimp)+)
qed

lemma RegisterStruct_post:
  assumes ok: "handle_ok h" and n: "n \<le> length cols"
    and run: "SqlRDBRegisterStruct h name (Some cols) n w m = Some (r, h', w', m')"
  shows "registry_only h h' \<and> registry_ok (registry h') \<and>
     (if r = SQL_RDB_OK
      then \<exists>t. name = Some t \<and> reg_entries (registry h') = reg_entries (registry h) @ [schema_of t (take n cols)] \<and>
             (\<exists>g. driver g = driver h \<and> driver_ctx g = driver_ctx h \<and> table_matches g (schema_of t (take n cols)) w w')
      else reg_entries (registry h') = reg_entries (registry h))"
proof -
  have v: "c2sql_handle_valid (Some h)" and reg: "registry_ok (registry h)" and snd: "mutex_sound (mutex h)"
    using ok by (simp_all add: handle_ok_def c2sql_handle_valid_def)
  show ?thesis
  proof (cases "name = None \<or> n = 0")
    case True
    then show ?thesis using run v reg by (auto simp: SqlRDBRegisterStruct_def)
  next
    case False
    then obtain t where t: "name = Some t" by auto
    have lk: "locked h (register_locked t cols n w m) = Some (r, h', w', m')"
      using run RegisterStruct_locked [OF v] t False by simp
    obtain mx g where g: "register_locked t cols n w m (h\<lparr>mutex := mx\<rparr>) = Some (r, g, w', m')" "h' = g\<lparr>mutex := mutex h\<rparr>"
    proof (rule locked_sound [OF snd lk])
      fix g mx assume "register_locked t cols n w m (h\<lparr>mutex := mx\<rparr>) = Some (r, g, w', m')"
      from ensuresD [OF register_locked_only this] show "mutex g = mx" by (simp add: registry_only_def)
    qed
    have "registry_only h h'" using ensuresD [OF register_locked_only g(1)] g(2) by (simp add: registry_only_def)
    then show ?thesis using register_body_post [OF _ _ n _ g(1)] reg v False g(2) t
      by (auto simp: c2sql_handle_valid_def split: if_splits)
  qed
qed

lemma SetLogger_cases:
  assumes ok: "handle_ok h" and run: "SqlRDBSetLogger h fn user = Some (r, h', u)"
  shows "r = SQL_RDB_OK \<and> h' = h\<lparr>logger := \<lparr>log_fn = fn, log_user = user\<rparr>\<rparr>"
proof -
  have v: "c2sql_handle_valid (Some h)" and snd: "mutex_sound (mutex h)" using ok by (simp_all add: handle_ok_def c2sql_handle_valid_def)
  have "locked h (\<lambda>h. Some (SQL_RDB_OK, h\<lparr>logger := \<lparr>log_fn = fn, log_user = user\<rparr>\<rparr>, ())) = Some (r, h', u)"
    using run v by (simp add: SqlRDBSetLogger_def)
  then show ?thesis by (rule locked_sound [OF snd]) (cases h, auto)+
qed

context stmt_driver begin

text \<open>Shrinking the cache closes exactly the statements it drops.\<close>

lemma rebuild_holds:
  assumes "holds live h w F" and "driver h = Some drv" and sz: "unat cap \<le> 2 ^ 62"
  shows "ensures (c2sql_internal_cache_rebuild (cache h) cap (driver h) w m)
           (\<lambda>(r, c, w', m'). holds live (h\<lparr>cache := c\<rparr>) w' F)"
proof -
  obtain es where es: "represents (cache h) es" "distinct (map snd es)" "live w = set (map snd es) \<union> F"
    "set (map snd es) \<inter> F = {}" using assms(1) by (auto simp: holds_def)
  let ?kept = "map snd (take (unat cap) es)" and ?dead = "map snd (drop (unat cap) es)"
  obtain c r m' where rb: "c2sql_internal_cache_rebuild (cache h) cap (driver h) w m =
      do { w \<leftarrow> finalize_all (driver h) (rev ?dead) w; Some (r, c, w, m') }" "represents c (take (unat cap) es)"
    using cache_rebuild_refines [OF es(1) sz, of "driver h" w m] by blast
  have sp: "map snd es = ?kept @ ?dead" by (metis append_take_drop_id map_append)
  have kd: "distinct ?kept" "set ?kept \<inter> set ?dead = {}" "set (map snd es) = set ?kept \<union> set ?dead"
    using es(2) unfolding sp by auto
  have "holds live (h\<lparr>cache := c\<rparr>) w' F" if "live w' = live w - set ?dead" for w'
  proof -
    have "live w' = set ?kept \<union> F" using that kd(2,3) es(3,4) by blast
    moreover have "set ?kept \<inter> F = {}" using kd(3) es(4) by blast
    ultimately show ?thesis unfolding holds_def using rb(2) kd(1) by auto
  qed
  then show ?thesis unfolding assms(2) rb(1) [unfolded assms(2)]
    by (simp only: ensures_simps) (rule finalize_all_live [THEN ensures_mono], simp)
qed

lemma SetConfig_holds:
  assumes "handle_ok h" and ho: "holds live h w F" and drv: "driver h = Some drv" and sz: "unat (stmt_cache_size cfg) \<le> 2 ^ 62"
  shows "ensures (SqlRDBSetConfig h (Some cfg) w m) (\<lambda>(r, h', w', m').
           holds live h' w' F \<and> driver h' = driver h \<and> driver_ctx h' = driver_ctx h \<and> logger h' = logger h)"
proof -
  have rb: "ensures (c2sql_internal_cache_rebuild (cache h) (stmt_cache_size cfg) (Some drv) w m)
      (\<lambda>(r, c, w', m'). \<forall>g. cache g = c \<longrightarrow> holds live g w' F)"
    by (rule rebuild_holds [OF ho drv sz, unfolded drv, THEN ensures_mono]) (auto simp: holds_def)
  have kept: "holds live g w F" if "cache g = cache h" for g using ho that by (simp add: holds_def)
  show ?thesis unfolding SqlRDBSetConfig_def
    by (insert ho drv, (rule locked_ensures rb [THEN ensures_mono] conjI impI allI
        | clarsimp simp: Let_def kept)+)
qed

lemma service_step_open:
  assumes st: "service_step live s s'" and inv: "open_handle drv ctx live s"
  shows "open_handle drv ctx live s'"
  using st
proof cases
  case sv_api
  obtain h w F h' w' F' where s: "s = (h, w, F)" "s' = (h', w', F')" by (metis prod_cases3)
  have step: "session (h, w, F) (h', w', F')" using sv_api s by auto
  have I: "handle_ok h" "driver h = Some drv" "driver_ctx h = Some ctx" "logger_quiet live (logger h)" "holds live h w F"
    using inv s by (simp_all add: open_handle_def)
  have idle: "mutex_idle (mutex h)" using I(1) by (simp add: handle_ok_def mutex_sound_idle)
  have "same_connection h h'" using session_same [OF step idle] .
  moreover have "handle_ok h'" using session_handle_ok [OF step I(1) _ I(2,5)] I(3) by simp
  moreover have "holds live h' w' F'" using session_holds [OF step idle I(2,5)] .
  ultimately show ?thesis using I s by (simp add: open_handle_def same_connection_def)
next
  case (sv_register n cols h name w m r h' w' m' F)
  have I: "handle_ok h" "driver h = Some drv" "driver_ctx h = Some ctx" "logger_quiet live (logger h)" "holds live h w F"
    using inv sv_register(1) by (simp_all add: open_handle_def)
  have "registry_only h h'" "registry_ok (registry h')" using RegisterStruct_post [OF I(1) sv_register(3,4)] by auto
  moreover have "holds live h' w' F" using ensuresD [OF RegisterStruct_holds [OF I(2,5,4)] sv_register(4)] by simp
  ultimately show ?thesis using I sv_register(2) by (auto simp: open_handle_def registry_only_def handle_ok_def)
next
  case (sv_config cfg h w m r h' w' m' F)
  have I: "handle_ok h" "driver h = Some drv" "driver_ctx h = Some ctx" "logger_quiet live (logger h)" "holds live h w F"
    using inv sv_config(1) by (simp_all add: open_handle_def)
  show ?thesis using ensuresD [OF SetConfig_post [OF I(1) sv_config(3)] sv_config(4)]
      ensuresD [OF SetConfig_holds [OF I(1,5,2) sv_config(3)] sv_config(4)] I sv_config(2)
    by (simp add: open_handle_def)
next
  case (sv_logger fn user h r h' u w F)
  have ok: "handle_ok h" using inv sv_logger(1) by (simp add: open_handle_def)
  show ?thesis using SetLogger_cases [OF ok sv_logger(4)] sv_logger(1,2,3) inv
    by (simp add: open_handle_def handle_ok_def holds_def)
qed

lemma service_open:
  assumes "service live s s'" and "open_handle drv ctx live s"
  shows "open_handle drv ctx live s'"
  using assms by (induction rule: rtranclp_induct) (auto intro: service_step_open)

text \<open>A handle just opened on a driver without open statements satisfies the invariant.\<close>

lemma new_handle_open:
  assumes "handle_ok (new_handle drv (Some ctx) mx c)" and "represents c []" and "live w = {}"
  shows "open_handle drv ctx live (new_handle drv (Some ctx) mx c, w, {})"
  using assms new_handle_holds [of c live w drv "Some ctx" mx]
  by (simp add: open_handle_def logger_quiet_def new_handle_def)

text \<open>Closing a handle in any state a service can reach leaves the statements of open iterators only.\<close>

lemma service_close:
  assumes "service live (h0, w0, F0) (h, w, F)" and "open_handle drv ctx live (h0, w0, F0)"
    and "p \<in> set (g_live_handles P)" and "handles P p = Some h"
  shows "ensures (SqlRDBClose (Some p) w P) (\<lambda>(r, w', P'). live w' = F)"
  using Close_live [OF assms(3,4)] service_open [OF assms(1,2)] by (simp add: open_handle_def)

end

end
