(* ===== verification/Query_Text.thy ===== *)
theory Query_Text
  imports Query_Builder
begin

text \<open>
  Properties of the generated SQL text: the placeholders match the parameters that are bound, the
  text never depends on a user's value, and the WHERE clause determines the condition it was
  printed from (a reference parser inverts the printer).
\<close>

section \<open>Identifiers and values of a statement\<close>

definition schema_idents :: "SqlRDBSchema \<Rightarrow> bool" where
  "schema_idents s \<longleftrightarrow> ident_chars (sch_name s) \<and> list_all (\<lambda>c. ident_chars (col_name c)) (sch_cols s)"

fun cond_columns :: "SqlRDBCondition \<Rightarrow> string list" where
  "cond_columns COND_ALL = []"
| "cond_columns (COND_LEAF col oper v) = [col]"
| "cond_columns (COND_AND l r) = cond_columns l @ cond_columns r"
| "cond_columns (COND_OR l r) = cond_columns l @ cond_columns r"

text \<open>The operands a specification carries besides the schema use identifier characters only.\<close>

definition spec_idents :: "SqlRDBQuerySpec \<Rightarrow> bool" where
  "spec_idents spec \<longleftrightarrow> schema_idents (qs_schema spec) \<and>
     (\<forall>col. qs_new_col spec = Some col \<longrightarrow> ident_chars (col_name col))"

text \<open>The condition with every value replaced by 0.\<close>

fun erase_values :: "SqlRDBCondition \<Rightarrow> SqlRDBCondition" where
  "erase_values COND_ALL = COND_ALL"
| "erase_values (COND_LEAF col oper v) = COND_LEAF col oper (CV_int 0)"
| "erase_values (COND_AND l r) = COND_AND (erase_values l) (erase_values r)"
| "erase_values (COND_OR l r) = COND_OR (erase_values l) (erase_values r)"

section \<open>A reference parser for the WHERE clause\<close>

datatype shape = Sh_leaf string SqlRDBOp | Sh_and shape shape | Sh_or shape shape | Sh_all

text \<open>The comparison a condition asks for: an operator out of range counts as equality.\<close>

fun known_op :: "SqlRDBOp \<Rightarrow> SqlRDBOp" where
  "known_op (SQL_OP_OTHER _) = SQL_OP_EQ"
| "known_op oper = oper"

fun shape_of :: "SqlRDBCondition \<Rightarrow> shape" where
  "shape_of COND_ALL = Sh_all"
| "shape_of (COND_LEAF col oper v) = Sh_leaf col (known_op oper)"
| "shape_of (COND_AND l r) = Sh_and (shape_of l) (shape_of r)"
| "shape_of (COND_OR l r) = Sh_or (shape_of l) (shape_of r)"

text \<open>No part of the condition is the one that selects all rows.\<close>

fun all_free :: "SqlRDBCondition \<Rightarrow> bool" where
  "all_free COND_ALL \<longleftrightarrow> False"
| "all_free (COND_LEAF col oper v) \<longleftrightarrow> True"
| "all_free (COND_AND l r) \<longleftrightarrow> all_free l \<and> all_free r"
| "all_free (COND_OR l r) \<longleftrightarrow> all_free l \<and> all_free r"

definition expect :: "string \<Rightarrow> string \<Rightarrow> string option" where
  "expect pat s = (if take (length pat) s = pat then Some (drop (length pat) s) else None)"

text \<open>The comparison operators of SQL.\<close>

definition parse_op :: "string \<Rightarrow> SqlRDBOp option" where
  "parse_op t = map_of [(''='', SQL_OP_EQ), (''!='', SQL_OP_NE), (''<'', SQL_OP_LT), (''<='', SQL_OP_LE), (''>'', SQL_OP_GT), (''>='', SQL_OP_GE)] t"

text \<open>The placeholder of a dialect: a question mark, or a dollar sign and a number.\<close>

definition parse_placeholder :: "C2SqlDialect \<Rightarrow> string \<Rightarrow> string option" where
  "parse_placeholder d s =
     (if d = C2SQL_DIALECT_POSTGRES then do {
        s \<leftarrow> expect ''$'' s;
        if takeWhile isdigit s = [] then None else Some (dropWhile isdigit s)
      } else expect ''?'' s)"

definition parse_leaf :: "C2SqlDialect \<Rightarrow> string \<Rightarrow> (shape \<times> string) option" where
  "parse_leaf d s =
     do {
       s \<leftarrow> expect ''\"'' s;
       let col = takeWhile (\<lambda>c. c \<noteq> DQ) s;
       s \<leftarrow> expect ''\" '' (dropWhile (\<lambda>c. c \<noteq> DQ) s);
       oper \<leftarrow> parse_op (takeWhile (\<lambda>c. c \<noteq> CHR '' '') s);
       s \<leftarrow> expect '' '' (dropWhile (\<lambda>c. c \<noteq> CHR '' '') s);
       s \<leftarrow> parse_placeholder d s;
       Some (Sh_leaf col oper, s)
     }"

fun parse_cond :: "C2SqlDialect \<Rightarrow> nat \<Rightarrow> string \<Rightarrow> (shape \<times> string) option" where
  "parse_cond d 0 s = None"
| "parse_cond d (Suc fuel) s =
     (case expect ''('' s of
        None \<Rightarrow> parse_leaf d s
      | Some s \<Rightarrow>
          do {
            (l, s) \<leftarrow> parse_cond d fuel s;
            case expect '' AND '' s of
              Some s \<Rightarrow> do { (r, s) \<leftarrow> parse_cond d fuel s; s \<leftarrow> expect '')'' s; Some (Sh_and l r, s) }
            | None \<Rightarrow> do { s \<leftarrow> expect '' OR '' s; (r, s) \<leftarrow> parse_cond d fuel s; s \<leftarrow> expect '')'' s; Some (Sh_or l r, s) }
          })"

section \<open>Lemmas\<close>

lemma expect_append [simp]: "expect pat (pat @ s) = Some s"
  by (simp add: expect_def)

lemma expect_Cons_neq: "c \<noteq> d \<Longrightarrow> expect (c # pat) (d # s) = None"
  by (simp add: expect_def)

lemma op_to_sql_str_nospace: "CHR '' '' \<notin> set (op_to_sql_str oper)"
  by (cases oper) auto

lemma space_not_digit: "\<not> isdigit (CHR '' '')" "\<not> isdigit (CHR '')'')"
  by (simp_all add: isdigit_def ord_char_def)

lemma parse_placeholder_print:
  assumes "s = [] \<or> \<not> isdigit (hd s)"
  shows "parse_placeholder d (placeholder d k @ s) = Some s"
proof (cases "d = C2SQL_DIALECT_POSTGRES")
  case True
  let ?n = "take 14 (dec_of_nat k)"
  have n: "placeholder d k = CHR ''$'' # ?n" "?n \<noteq> []" using True by (simp_all add: placeholder_def)
  have dig: "\<forall>c \<in> set ?n. isdigit c" using dec_of_nat_isdigit by (auto dest: in_set_takeD)
  have "takeWhile isdigit (?n @ s) = ?n" "dropWhile isdigit (?n @ s) = s"
    using dig assms by (cases s; simp add: takeWhile_append2 dropWhile_append2)+
  then show ?thesis using True n by (simp add: parse_placeholder_def expect_def)
qed (simp add: parse_placeholder_def placeholder_def expect_def)

lemma parse_leaf_print:
  assumes "DQ \<notin> set col" and "s = [] \<or> \<not> isdigit (hd s)"
  shows "parse_leaf d (sql_cond d (COND_LEAF col oper v) k @ s) = Some (Sh_leaf col (known_op oper), s)"
proof -
  have t1: "takeWhile (\<lambda>c. c \<noteq> DQ) (col @ DQ # xs) = col" "dropWhile (\<lambda>c. c \<noteq> DQ) (col @ DQ # xs) = DQ # xs" for xs
    using assms by (auto simp: takeWhile_append dropWhile_append)
  have t2: "takeWhile (\<lambda>c. c \<noteq> CHR '' '') (op_to_sql_str oper @ CHR '' '' # xs) = op_to_sql_str oper"
    "dropWhile (\<lambda>c. c \<noteq> CHR '' '') (op_to_sql_str oper @ CHR '' '' # xs) = CHR '' '' # xs" for xs
    using op_to_sql_str_nospace [of oper] by (auto simp: takeWhile_append dropWhile_append)
  have "parse_op (op_to_sql_str oper) = Some (known_op oper)" by (cases oper) (simp_all add: parse_op_def)
  then show ?thesis
    by (simp add: parse_leaf_def parse_placeholder_print [OF assms(2)] expect_def t1 t2)
qed

text \<open>Where the text of a condition is missing, the parser finds none.\<close>

lemma parse_cond_missing: "parse_cond d fuel (CHR '' '' # s) = None" "parse_cond d fuel (CHR '')'' # s) = None"
  by (cases fuel; simp add: expect_def parse_leaf_def)+

lemma parse_cond_print:
  assumes "\<forall>col \<in> set (cond_columns c). DQ \<notin> set col" and "size c < fuel" and "c \<noteq> COND_ALL" and "s = [] \<or> \<not> isdigit (hd s)"
  shows "parse_cond d fuel (sql_cond d c k @ s) = (if all_free c then Some (shape_of c, s) else None)"
  using assms
proof (induction c arbitrary: fuel k s)
  case (COND_LEAF col oper v)
  then obtain f where f: "fuel = Suc f" by (cases fuel) auto
  have "expect ''('' (sql_cond d (COND_LEAF col oper v) k @ s) = None"
    by (simp add: expect_def)
  then show ?case using COND_LEAF.prems parse_leaf_print [of col s d oper v k]
    by (simp add: f del: sql_cond.simps)
next
  case (COND_AND l r)
  then obtain f where f: "fuel = Suc f" by (cases fuel) auto
  have L: "parse_cond d f (sql_cond d l k @ CHR '' '' # xs) = (if all_free l then Some (shape_of l, CHR '' '' # xs) else None)" for xs
    using COND_AND.IH(1) [of f "CHR '' '' # xs"] COND_AND.prems parse_cond_missing
    by (cases "l = COND_ALL") (simp_all add: f space_not_digit)
  have R: "parse_cond d f (sql_cond d r j @ CHR '')'' # xs) = (if all_free r then Some (shape_of r, CHR '')'' # xs) else None)" for xs j
    using COND_AND.IH(2) [of f "CHR '')'' # xs"] COND_AND.prems parse_cond_missing
    by (cases "r = COND_ALL") (simp_all add: f space_not_digit)
  show ?case using L R by (simp add: f expect_def [of "''(''"] expect_def [of "'' AND ''"] expect_def [of "'')''"])
next
  case (COND_OR l r)
  then obtain f where f: "fuel = Suc f" by (cases fuel) auto
  have L: "parse_cond d f (sql_cond d l k @ CHR '' '' # xs) = (if all_free l then Some (shape_of l, CHR '' '' # xs) else None)" for xs
    using COND_OR.IH(1) [of f "CHR '' '' # xs"] COND_OR.prems parse_cond_missing
    by (cases "l = COND_ALL") (simp_all add: f space_not_digit)
  have R: "parse_cond d f (sql_cond d r j @ CHR '')'' # xs) = (if all_free r then Some (shape_of r, CHR '')'' # xs) else None)" for xs j
    using COND_OR.IH(2) [of f "CHR '')'' # xs"] COND_OR.prems parse_cond_missing
    by (cases "r = COND_ALL") (simp_all add: f space_not_digit)
  show ?case using L R
    by (simp add: f expect_def [of "''(''"] expect_def [of "'' AND ''"] expect_def [of "'' OR ''"] expect_def [of "'')''"])
qed simp

text \<open>Erasing the values changes neither the validation nor the text.\<close>

lemma append_cond_erase: "append_cond (erase_values c) d = append_cond c d"
  by (induction c) auto

lemma validate_erase: "validate_cond_columns (erase_values c) s = validate_cond_columns c s"
  by (induction c) (auto simp: Let_def)

lemma erase_values_ALL: "erase_values c = COND_ALL \<longleftrightarrow> c = COND_ALL"
  by (cases c) auto

lemma build_where_erase:
  "build_where (spec\<lparr>qs_cond := map_option erase_values cond\<rparr>) = build_where (spec\<lparr>qs_cond := cond\<rparr>)"
  by (cases cond)
     (auto simp: fun_eq_iff build_where_def cond_needs_where_def append_cond_erase validate_erase erase_values_ALL Let_def)

lemma builders_erase:
  fixes spec cond
  defines "e \<equiv> spec\<lparr>qs_cond := map_option erase_values cond\<rparr>" and "c \<equiv> spec\<lparr>qs_cond := cond\<rparr>"
  shows "upsert_set e = upsert_set c" "build_insert e = build_insert c" "build_create e = build_create c"
    "build_alter_add e = build_alter_add c" "build_select e = build_select c" "build_count e = build_count c"
    "build_delete e = build_delete c" "build_update_field e = build_update_field c"
    "build_select_field e = build_select_field c"
  by (simp_all add: fun_eq_iff e_def c_def upsert_set_def build_insert_def insert_emitters_def build_create_def
      build_alter_add_def build_select_def build_count_def build_delete_def build_update_field_def
      build_select_field_def build_where_erase Let_def)

lemma qb_build_erase:
  "c2sql_internal_qb_build (spec\<lparr>qs_cond := map_option erase_values cond\<rparr>) m =
   c2sql_internal_qb_build (spec\<lparr>qs_cond := cond\<rparr>) m"
proof -
  have "build_upsert (spec\<lparr>qs_cond := map_option erase_values cond\<rparr>) = build_upsert (spec\<lparr>qs_cond := cond\<rparr>)"
    by (rule ext)+ (simp only: build_upsert_def builders_erase)
  then have "build_dispatch (qs_op spec) (spec\<lparr>qs_cond := map_option erase_values cond\<rparr>) =
        build_dispatch (qs_op spec) (spec\<lparr>qs_cond := cond\<rparr>)"
    by (cases "qs_op spec") (simp_all add: builders_erase split: option.splits)
  then show ?thesis by (cases "buf_init m") (simp add: c2sql_internal_qb_build_def)
qed

lemma validated_columns:
  "validate_cond_columns c s = SQL_RDB_OK \<Longrightarrow> set (cond_columns c) \<subseteq> col_name ` set (sch_cols s)"
  by (induction c) (auto simp: schema_has_column_def list_ex_iff Let_def split: if_splits)

section \<open>Characters of the generated text\<close>

lemma ident_chars_special:
  assumes "ident_chars s"
  shows "count_list s (CHR ''?'') = 0" "CHR ''?'' \<notin> set s" "NUL \<notin> set s" "DQ \<notin> set s" "CHR ''$'' \<notin> set s"
  using assms by (auto intro!: count_list_notin simp: list_all_iff char_class_defs dest!: bspec)

lemma count_join_comma:
  "count_list (join_comma xs) (CHR ''?'') = sum_list (map (\<lambda>s. count_list s (CHR ''?'')) xs)"
  by (cases xs) (auto simp: count_list_concat_map comp_def)

lemma set_join_comma: "NUL \<in> set (join_comma xs) \<longleftrightarrow> (\<exists>s \<in> set xs. NUL \<in> set s)"
  by (cases xs) auto

lemma dec_of_nat_special:
  "NUL \<notin> set (dec_of_nat k)" "CHR ''$'' \<notin> set (dec_of_nat k)"
  by (auto simp: isdigit_def ord_char_def dest!: dec_of_nat_isdigit)

lemma placeholder_special: "NUL \<notin> set (placeholder d k)"
  using dec_of_nat_special(1) [of k] by (auto simp: placeholder_def dest!: in_set_takeD)

lemma type_special:
  "count_list (type_to_sql_str t d) (CHR ''?'') = 0" "NUL \<notin> set (type_to_sql_str t d)"
  by (cases t; cases d; simp add: type_to_sql_str_def)+

lemma constraints_special:
  "count_list (sql_constraints c) (CHR ''?'') = 0" "NUL \<notin> set (sql_constraints c)"
  by (simp_all add: sql_constraints_def)

lemma op_special: "count_list (op_to_sql_str oper) (CHR ''?'') = 0" "NUL \<notin> set (op_to_sql_str oper)"
  by (cases oper; simp)+

lemma cond_special:
  assumes "\<forall>col \<in> set (cond_columns c). ident_chars col"
  shows "count_list (sql_cond C2SQL_DIALECT_SQLITE c k) (CHR ''?'') = leaf_count c"
    and "NUL \<notin> set (sql_cond d c k)"
  using assms
  by (induction c arbitrary: k)
     (auto simp: placeholder_def [of C2SQL_DIALECT_SQLITE] placeholder_special op_special ident_chars_special)

lemma where_special:
  assumes "spec_idents spec" and "where_result spec = SQL_RDB_OK"
  shows "qs_dialect spec = C2SQL_DIALECT_SQLITE \<Longrightarrow>
      count_list (sql_where (qs_dialect spec) (qs_cond spec) k) (CHR ''?'') = cond_count (qs_cond spec)"
    and "NUL \<notin> set (sql_where (qs_dialect spec) (qs_cond spec) k)"
proof -
  have c: "\<forall>col \<in> set (cond_columns c). ident_chars col" if "qs_cond spec = Some c" for c
    using assms that validated_columns [of c "qs_schema spec"]
    by (fastforce simp: where_result_def spec_idents_def schema_idents_def list_all_iff)
  show "qs_dialect spec = C2SQL_DIALECT_SQLITE \<Longrightarrow>
      count_list (sql_where (qs_dialect spec) (qs_cond spec) k) (CHR ''?'') = cond_count (qs_cond spec)"
    "NUL \<notin> set (sql_where (qs_dialect spec) (qs_cond spec) k)"
    using cond_special [OF c] by (auto simp: sql_where_def cond_count_def split: option.splits)
qed

lemma sum_list_zero: "(\<And>x. x \<in> set xs \<Longrightarrow> f x = 0) \<Longrightarrow> sum_list (map f xs) = (0::nat)"
  by (induction xs) auto

lemma schema_special:
  assumes "schema_idents s"
  shows "count_list (sch_name s) (CHR ''?'') = 0" "NUL \<notin> set (sch_name s)"
    and "c \<in> set (sch_cols s) \<Longrightarrow> count_list (col_name c) (CHR ''?'') = 0"
    and "c \<in> set (sch_cols s) \<Longrightarrow> NUL \<notin> set (col_name c)"
  using assms by (auto simp: schema_idents_def list_all_iff [where P = "\<lambda>c. ident_chars (col_name c)"]
      ident_chars_special)

lemma non_pk_cols_subset: "set (non_pk_cols s) \<subseteq> set (sch_cols s)"
  by (auto simp: non_pk_cols_def in_set_enumerate_eq)

lemma schema_column_special:
  assumes "schema_idents s" and "schema_has_column s col"
  shows "count_list col (CHR ''?'') = 0" and "NUL \<notin> set col"
  using assms schema_special [OF assms(1)] by (auto simp: schema_has_column_def list_ex_iff)

lemma insert_special:
  assumes "schema_idents s"
  shows "count_list (sql_insert C2SQL_DIALECT_SQLITE s) (CHR ''?'') = length (sch_cols s)"
    and "NUL \<notin> set (sql_insert d s)"
  using schema_special [OF assms] placeholder_special
  by (auto simp: sql_insert_def dquote_def count_join_comma set_join_comma comp_def sum_list_zero
      placeholder_def [of C2SQL_DIALECT_SQLITE] sum_list_triv simp del: upt_Suc)

lemma column_special:
  assumes "ident_chars (col_name c)"
  shows "count_list (sql_column d c) (CHR ''?'') = 0" and "NUL \<notin> set (sql_column d c)"
  using ident_chars_special [OF assms] by (simp_all add: sql_column_def dquote_def type_special constraints_special)

lemma field_resultD:
  assumes "field_result spec = SQL_RDB_OK"
  shows "schema_has_column (qs_schema spec) (the (qs_target_col spec))" and "where_result spec = SQL_RDB_OK"
  using assms by (auto simp: field_result_def split: if_splits)

lemma set_excluded:
  assumes "schema_idents s" and "c \<in> set (non_pk_cols s)"
  shows "count_list (col_name c) (CHR ''?'') = 0" "NUL \<notin> set (col_name c)"
  using schema_special [OF assms(1)] non_pk_cols_subset [of s] assms(2) by auto

lemma pk_special:
  assumes "schema_idents s" and "0 \<le> pk_index s" and "pk_index s < int (length (sch_cols s))"
  shows "count_list (col_name (sch_cols s ! nat (pk_index s))) (CHR ''?'') = 0"
    and "NUL \<notin> set (col_name (sch_cols s ! nat (pk_index s)))"
  using schema_special [OF assms(1)] nth_mem [of "nat (pk_index s)" "sch_cols s"] assms(2,3) by auto

text \<open>No statement contains a NUL byte, so the buffer holds it as one C string.\<close>

lemma sql_text_no_NUL:
  assumes "spec_idents spec" and "spec_ok oper spec" and "qb_result oper spec = SQL_RDB_OK"
  shows "NUL \<notin> set (sql_text oper spec)"
proof -
  have si: "schema_idents (qs_schema spec)" using assms(1) by (simp add: spec_idents_def)
  have cols: "c \<in> set (sch_cols (qs_schema spec)) \<Longrightarrow> NUL \<notin> set (sql_column (qs_dialect spec) c)" for c
    using si by (intro column_special) (auto simp: schema_idents_def list_all_iff [where P = "\<lambda>c. ident_chars (col_name c)"])
  show ?thesis
    using assms si where_special(2) [OF assms(1)] schema_special [OF si] cols
      schema_column_special [OF si] insert_special(2) [OF si] set_excluded(2) [OF si] pk_special(2) [OF si]
      column_special(2)
    by (cases oper)
       (auto simp: dquote_def set_join_comma placeholder_special field_resultD spec_idents_def)
qed

text \<open>In the SQLite dialect a statement has as many question marks as parameters to bind.\<close>

lemma sql_text_placeholders:
  assumes "spec_idents spec" and "spec_ok oper spec" and "qb_result oper spec = SQL_RDB_OK"
    and "qs_dialect spec = C2SQL_DIALECT_SQLITE"
  shows "count_list (sql_text oper spec) (CHR ''?'') = bind_total oper spec"
proof -
  have si: "schema_idents (qs_schema spec)" using assms(1) by (simp add: spec_idents_def)
  have cols: "c \<in> set (sch_cols (qs_schema spec)) \<Longrightarrow> count_list (sql_column C2SQL_DIALECT_SQLITE c) (CHR ''?'') = 0" for c
    using si by (intro column_special) (auto simp: schema_idents_def list_all_iff [where P = "\<lambda>c. ident_chars (col_name c)"])
  note wh = where_special(1) [OF assms(1) _ assms(4), unfolded assms(4)]
  show ?thesis
    using assms si wh schema_special [OF si] cols
      schema_column_special [OF si] insert_special(1) [OF si] set_excluded(1) [OF si] pk_special(1) [OF si]
      column_special(1)
    by (cases oper)
       (auto simp: dquote_def count_join_comma comp_def sum_list_zero field_resultD spec_idents_def
          placeholder_def [of C2SQL_DIALECT_SQLITE])
qed

text \<open>
  With names the schema registry accepts, the builder returns the intended text or reports an unknown
  column or exhausted memory; in the first case it also returns the number of parameters.
\<close>

lemma qb_build_sql:
  assumes "spec_ok (qs_op spec) spec" and "spec_idents spec"
  shows "\<exists>r sql k m'. c2sql_internal_qb_build spec m = Some (r, sql, k, m') \<and>
           (r = qb_result (qs_op spec) spec \<or> r = SQL_RDB_ERR_NO_MEMORY) \<and>
           (r = SQL_RDB_OK \<longrightarrow> sql = Some (sql_text (qs_op spec) spec) \<and> k = bind_total (qs_op spec) spec) \<and>
           (r \<noteq> SQL_RDB_OK \<longrightarrow> sql = None) \<and> (m = [] \<longrightarrow> r = qb_result (qs_op spec) spec \<and> m' = [])"
  by (rule qb_build_correct [OF assms(1) sql_text_no_NUL [OF assms(2,1)]])

lemma qb_build_OK_D:
  assumes "spec_ok (qs_op spec) spec" and "spec_idents spec" and "c2sql_internal_qb_build spec m = Some (SQL_RDB_OK, sql, k, m')"
  shows "qb_result (qs_op spec) spec = SQL_RDB_OK" and "sql = Some (sql_text (qs_op spec) spec)"
    and "k = bind_total (qs_op spec) spec"
  using qb_build_sql [OF assms(1,2), of m] assms(3) by auto

end
