(* ===== verification/Postgres_Driver.thy ===== *)
theory Postgres_Driver
  imports Lifecycle
begin

text \<open>
  The PostgreSQL driver of \<^verbatim>\<open>src/postgres_driver.c\<close>. libpq is a parameter: a record of the
  functions the driver calls, over a library state \<open>'p\<close>. The driver's own heap (\<^verbatim>\<open>PgCtx\<close> and
  \<^verbatim>\<open>PgStmt\<close> objects) is explicit, so that a use of a finalized statement is undefined.
\<close>

section \<open>The C library conversions the driver uses\<close>

definition isspace :: "char \<Rightarrow> bool" where
  "isspace c \<longleftrightarrow> c = CHR 0x20 \<or> (9 \<le> ord_char c \<and> ord_char c \<le> 13)"

text \<open>The number at the start of a string, as \<^verbatim>\<open>strtoll(s, NULL, 10)\<close> reads it.\<close>

definition parse_int :: "string \<Rightarrow> int" where
  "parse_int s =
     (let t = dropWhile isspace s;
          (neg, t) = (case t of c # u \<Rightarrow> if c = CHR ''-'' then (True, u) else if c = CHR ''+'' then (False, u) else (False, t)
                      | [] \<Rightarrow> (False, t));
          v = int (nat_of_dec 0 (takeWhile isdigit t))
      in if neg then - v else v)"

definition strtoll :: "string \<Rightarrow> 64 word" where
  "strtoll s = word_of_int (max (- (2 ^ 63)) (min (2 ^ 63 - 1) (parse_int s)))"

definition atoi :: "string \<Rightarrow> int" where
  "atoi s = sint (word_of_int (max (- (2 ^ 63)) (min (2 ^ 63 - 1) (parse_int s))) :: 32 word)"

section \<open>libpq\<close>

datatype ExecStatusType = PGRES_COMMAND_OK | PGRES_TUPLES_OK | PGRES_FATAL_ERROR | PGRES_OTHER int

text \<open>
  One bound parameter: element \<open>i\<close> of the arrays \<^verbatim>\<open>values\<close>, \<^verbatim>\<open>lengths\<close>,
  \<^verbatim>\<open>formats\<close>, \<^verbatim>\<open>types\<close> and \<^verbatim>\<open>owned\<close>.
\<close>

record pg_param =
  pv_value :: "char list option"
  pv_length :: int
  pv_format :: int
  pv_type :: nat
  pv_owned :: bool

text \<open>
  The functions of libpq, and the two conversions between a \<^verbatim>\<open>double\<close> and text
  (\<^verbatim>\<open>printf("%.17g")\<close> and \<^verbatim>\<open>strtod\<close>) on bit patterns.
\<close>

record 'p libpq =
  PQconnectdb :: "string \<Rightarrow> 'p \<Rightarrow> ptr option \<times> 'p"
  PQstatus_ok :: "ptr \<Rightarrow> 'p \<Rightarrow> bool"
  PQfinish :: "ptr \<Rightarrow> 'p \<Rightarrow> 'p"
  PQexec :: "ptr \<Rightarrow> string \<Rightarrow> 'p \<Rightarrow> ptr option \<times> 'p"
  PQexecParams :: "ptr \<Rightarrow> string \<Rightarrow> pg_param list \<Rightarrow> 'p \<Rightarrow> ptr option \<times> 'p"
  PQresultStatus :: "ptr \<Rightarrow> 'p \<Rightarrow> ExecStatusType"
  PQcmdTuples :: "ptr \<Rightarrow> 'p \<Rightarrow> string option"
  PQntuples :: "ptr \<Rightarrow> 'p \<Rightarrow> int"
  PQgetisnull :: "ptr option \<Rightarrow> int \<Rightarrow> int \<Rightarrow> 'p \<Rightarrow> bool"
  PQgetvalue :: "ptr option \<Rightarrow> int \<Rightarrow> int \<Rightarrow> 'p \<Rightarrow> string"
  PQgetlength :: "ptr option \<Rightarrow> int \<Rightarrow> int \<Rightarrow> 'p \<Rightarrow> nat"
  PQclear :: "ptr \<Rightarrow> 'p \<Rightarrow> 'p"
  PQunescapeBytea :: "string \<Rightarrow> 'p \<Rightarrow> char list option \<times> 'p"
  fmt_real :: "64 word \<Rightarrow> string"
  strtod :: "string \<Rightarrow> 64 word"

section \<open>State of the driver\<close>

definition C2SQL_PG_BYTEAOID :: nat where
  "C2SQL_PG_BYTEAOID = 17"

record PgCtx =
  pc_conn :: ptr
  last_changes :: int

record PgStmt =
  ps_ctx :: ptr
  ps_sql :: string
  ps_params :: "pg_param list"
  ps_res :: "ptr option"
  ps_nrows :: int
  ps_row :: int
  ps_executed :: bool
  ps_blob_tmp :: "char list option"

record 'p pg_world =
  pg_ctxs :: "ptr \<rightharpoonup> PgCtx"
  pg_stmts :: "ptr \<rightharpoonup> PgStmt"
  pg_next :: ptr
  pg_lib :: 'p
  pg_mem :: mem

definition pg_alloc :: "'p pg_world \<Rightarrow> bool \<times> 'p pg_world" where
  "pg_alloc w = (let (ok, m) = alloc (pg_mem w) in (ok, w\<lparr>pg_mem := m\<rparr>))"

definition set_ctx :: "ptr \<Rightarrow> PgCtx \<Rightarrow> 'p pg_world \<Rightarrow> 'p pg_world" where
  "set_ctx p c w = w\<lparr>pg_ctxs := (pg_ctxs w)(p \<mapsto> c)\<rparr>"

definition set_stmt :: "ptr \<Rightarrow> PgStmt \<Rightarrow> 'p pg_world \<Rightarrow> 'p pg_world" where
  "set_stmt p s w = w\<lparr>pg_stmts := (pg_stmts w)(p \<mapsto> s)\<rparr>"

section \<open>Connection and exec\<close>

definition pg_open :: "'p libpq \<Rightarrow> string \<Rightarrow> 'p pg_world \<Rightarrow> (SqlRDBResult \<times> ptr option \<times> 'p pg_world) option" where
  "pg_open pq dsn w =
     (let (conn, l) = PQconnectdb pq dsn (pg_lib w); w = w\<lparr>pg_lib := l\<rparr> in
      case conn of None \<Rightarrow> Some (SQL_RDB_ERR_NO_MEMORY, None, w)
      | Some conn \<Rightarrow>
          if \<not> PQstatus_ok pq conn (pg_lib w) then
            Some (SQL_RDB_ERR_DB_OPEN, None, w\<lparr>pg_lib := PQfinish pq conn (pg_lib w)\<rparr>)
          else
            let (ok, w) = pg_alloc w in
            if \<not> ok then Some (SQL_RDB_ERR_NO_MEMORY, None, w\<lparr>pg_lib := PQfinish pq conn (pg_lib w)\<rparr>)
            else
              let p = pg_next w in
              Some (SQL_RDB_OK, Some p, set_ctx p \<lparr>pc_conn = conn, last_changes = 0\<rparr> (w\<lparr>pg_next := Suc p\<rparr>)))"

definition pg_close :: "'p libpq \<Rightarrow> ptr \<Rightarrow> 'p pg_world \<Rightarrow> (SqlRDBResult \<times> 'p pg_world) option" where
  "pg_close pq ctx w =
     do {
       c \<leftarrow> pg_ctxs w ctx;
       let w = w\<lparr>pg_lib := PQfinish pq (pc_conn c) (pg_lib w)\<rparr>;
       Some (SQL_RDB_OK, w\<lparr>pg_ctxs := (pg_ctxs w)(ctx := None)\<rparr>)
     }"

text \<open>\<^verbatim>\<open>(ct && *ct) ? atoi(ct) : 0\<close>.\<close>

definition changes_of :: "string option \<Rightarrow> int" where
  "changes_of ct = (case ct of None \<Rightarrow> 0 | Some s \<Rightarrow> if s = [] then 0 else atoi s)"

definition pg_exec :: "'p libpq \<Rightarrow> ptr \<Rightarrow> string \<Rightarrow> 'p pg_world \<Rightarrow> (SqlRDBResult \<times> 'p pg_world) option" where
  "pg_exec pq ctx sql w =
     do {
       c \<leftarrow> pg_ctxs w ctx;
       let (res, l) = PQexec pq (pc_conn c) sql (pg_lib w); w = w\<lparr>pg_lib := l\<rparr> in
       case res of None \<Rightarrow> Some (SQL_RDB_ERR_NO_MEMORY, w)
       | Some res \<Rightarrow>
           let st = PQresultStatus pq res (pg_lib w);
               r = (if st = PGRES_COMMAND_OK \<or> st = PGRES_TUPLES_OK then SQL_RDB_OK else SQL_RDB_ERR_DRIVER);
               w = (if r = SQL_RDB_OK
                    then set_ctx ctx (c\<lparr>last_changes := changes_of (PQcmdTuples pq res (pg_lib w))\<rparr>) w else w)
           in Some (r, w\<lparr>pg_lib := PQclear pq res (pg_lib w)\<rparr>)
     }"

text \<open>\<^verbatim>\<open>snprintf\<close> into the 160-byte buffer, the format being a prefix and the name.\<close>

definition pg_exec_fmt :: "'p libpq \<Rightarrow> ptr \<Rightarrow> string \<Rightarrow> string \<Rightarrow> 'p pg_world \<Rightarrow> (SqlRDBResult \<times> 'p pg_world) option" where
  "pg_exec_fmt pq ctx prefix name w = pg_exec pq ctx (take 159 (prefix @ name)) w"

definition pg_begin :: "'p libpq \<Rightarrow> ptr \<Rightarrow> 'p pg_world \<Rightarrow> (SqlRDBResult \<times> 'p pg_world) option" where
  "pg_begin pq ctx w = pg_exec pq ctx ''BEGIN'' w"

definition pg_commit :: "'p libpq \<Rightarrow> ptr \<Rightarrow> 'p pg_world \<Rightarrow> (SqlRDBResult \<times> 'p pg_world) option" where
  "pg_commit pq ctx w = pg_exec pq ctx ''COMMIT'' w"

definition pg_rollback :: "'p libpq \<Rightarrow> ptr \<Rightarrow> 'p pg_world \<Rightarrow> (SqlRDBResult \<times> 'p pg_world) option" where
  "pg_rollback pq ctx w = pg_exec pq ctx ''ROLLBACK'' w"

definition pg_savepoint :: "'p libpq \<Rightarrow> ptr \<Rightarrow> string \<Rightarrow> 'p pg_world \<Rightarrow> (SqlRDBResult \<times> 'p pg_world) option" where
  "pg_savepoint pq ctx name w = pg_exec_fmt pq ctx ''SAVEPOINT '' name w"

definition pg_release_sp :: "'p libpq \<Rightarrow> ptr \<Rightarrow> string \<Rightarrow> 'p pg_world \<Rightarrow> (SqlRDBResult \<times> 'p pg_world) option" where
  "pg_release_sp pq ctx name w = pg_exec_fmt pq ctx ''RELEASE SAVEPOINT '' name w"

definition pg_rollback_sp :: "'p libpq \<Rightarrow> ptr \<Rightarrow> string \<Rightarrow> 'p pg_world \<Rightarrow> (SqlRDBResult \<times> 'p pg_world) option" where
  "pg_rollback_sp pq ctx name w = pg_exec_fmt pq ctx ''ROLLBACK TO SAVEPOINT '' name w"

definition pg_changes :: "ptr \<Rightarrow> 'p pg_world \<Rightarrow> (int \<times> 'p pg_world) option" where
  "pg_changes ctx w = do { c \<leftarrow> pg_ctxs w ctx; Some (last_changes c, w) }"

section \<open>Prepared statements\<close>

text \<open>
  \<^verbatim>\<open>pg_count_params\<close>: the scan for \<^verbatim>\<open>$N\<close>; an index beyond \<^verbatim>\<open>INT_MAX\<close> overflows the
  accumulator, which is undefined.
\<close>

function pg_scan :: "string \<Rightarrow> int \<Rightarrow> int option" where
  "pg_scan [] mx = Some mx"
| "pg_scan (c # cs) mx =
     (if c = CHR ''$'' \<and> (case cs of [] \<Rightarrow> False | d # _ \<Rightarrow> isdigit d) then
        let v = int (nat_of_dec 0 (takeWhile isdigit cs)) in
        if 2 ^ 31 - 1 < v then None else pg_scan (dropWhile isdigit cs) (if mx < v then v else mx)
      else pg_scan cs mx)"
  by pat_completeness auto
termination
  by (relation "measure (\<lambda>(s, mx). length s)") (auto simp: less_Suc_eq_le length_dropWhile_le)

definition pg_count_params :: "string \<Rightarrow> int option" where
  "pg_count_params sql = pg_scan sql 0"

definition empty_param :: pg_param where
  "empty_param = \<lparr>pv_value = None, pv_length = 0, pv_format = 0, pv_type = 0, pv_owned = False\<rparr>"

definition pg_prepare :: "ptr \<Rightarrow> string \<Rightarrow> 'p pg_world \<Rightarrow> (SqlRDBResult \<times> ptr option \<times> 'p pg_world) option" where
  "pg_prepare ctx sql w =
     (let (ok, w) = pg_alloc w in
      if \<not> ok then Some (SQL_RDB_ERR_NO_MEMORY, None, w)
      else
        let (ok, w) = pg_alloc w in
        if \<not> ok then Some (SQL_RDB_ERR_NO_MEMORY, None, w)
        else do {
          n \<leftarrow> pg_count_params sql;
          let (ok1, w1) = (if 0 < n then pg_alloc w else (True, w));
              (ok2, w2) = (if 0 < n then pg_alloc w1 else (True, w1));
              (ok3, w3) = (if 0 < n then pg_alloc w2 else (True, w2));
              (ok4, w4) = (if 0 < n then pg_alloc w3 else (True, w3));
              (ok5, w5) = (if 0 < n then pg_alloc w4 else (True, w4))
          in if \<not> (ok1 \<and> ok2 \<and> ok3 \<and> ok4 \<and> ok5) then Some (SQL_RDB_ERR_NO_MEMORY, None, w5)
             else
               let p = pg_next w5 in
               Some (SQL_RDB_OK, Some p,
                     set_stmt p \<lparr>ps_ctx = ctx, ps_sql = sql, ps_params = replicate (nat n) empty_param, ps_res = None,
                                 ps_nrows = 0, ps_row = -1, ps_executed = False, ps_blob_tmp = None\<rparr>
                       (w5\<lparr>pg_next := Suc p\<rparr>))
        })"

text \<open>\<open>data\<close> is the memory its pointer points to; \<open>len\<close> bytes of it are copied.\<close>

definition store_param ::
  "ptr \<Rightarrow> int \<Rightarrow> char list option \<Rightarrow> int \<Rightarrow> int \<Rightarrow> nat \<Rightarrow> 'p pg_world \<Rightarrow> (SqlRDBResult \<times> 'p pg_world) option" where
  "store_param stmt index data len fmt oid w =
     do {
       s \<leftarrow> pg_stmts w stmt;
       if index < 1 \<or> int (length (ps_params s)) < index then Some (SQL_RDB_ERR_INVALID_ARG, w)
       else
         let i = nat (index - 1);
             cleared = empty_param\<lparr>pv_format := fmt, pv_type := oid\<rparr>;
             s1 = s\<lparr>ps_params := (ps_params s)[i := cleared]\<rparr>;
             w = set_stmt stmt s1 w
         in case data of None \<Rightarrow> Some (SQL_RDB_OK, w)
            | Some mem \<Rightarrow>
                let (ok, w) = pg_alloc w in
                if \<not> ok then Some (SQL_RDB_ERR_NO_MEMORY, w)
                else if len < 0 then None
                else do {
                  buf \<leftarrow> read_bytes mem 0 (nat len);
                  Some (SQL_RDB_OK,
                        set_stmt stmt (s1\<lparr>ps_params := (ps_params s1)
                          [i := cleared\<lparr>pv_value := Some buf, pv_owned := True, pv_length := len\<rparr>]\<rparr>) w)
                }
     }"

definition pg_bind_int64 :: "ptr \<Rightarrow> int \<Rightarrow> 64 word \<Rightarrow> 'p pg_world \<Rightarrow> (SqlRDBResult \<times> 'p pg_world) option" where
  "pg_bind_int64 stmt index v w =
     (let tmp = dec_of_int (sint v) in store_param stmt index (Some (tmp @ [NUL])) (int (length tmp) + 1) 0 0 w)"

definition pg_bind_int32 :: "ptr \<Rightarrow> int \<Rightarrow> 32 word \<Rightarrow> 'p pg_world \<Rightarrow> (SqlRDBResult \<times> 'p pg_world) option" where
  "pg_bind_int32 stmt index v w =
     (let tmp = dec_of_int (sint v) in store_param stmt index (Some (tmp @ [NUL])) (int (length tmp) + 1) 0 0 w)"

definition pg_bind_real :: "'p libpq \<Rightarrow> ptr \<Rightarrow> int \<Rightarrow> 64 word \<Rightarrow> 'p pg_world \<Rightarrow> (SqlRDBResult \<times> 'p pg_world) option" where
  "pg_bind_real pq stmt index v w =
     (let tmp = fmt_real pq v in store_param stmt index (Some (tmp @ [NUL])) (int (length tmp) + 1) 0 0 w)"

definition pg_bind_text ::
  "ptr \<Rightarrow> int \<Rightarrow> char list option \<Rightarrow> int \<Rightarrow> 'p pg_world \<Rightarrow> (SqlRDBResult \<times> 'p pg_world) option" where
  "pg_bind_text stmt index val len w =
     do {
       s \<leftarrow> pg_stmts w stmt;
       if index < 1 \<or> int (length (ps_params s)) < index then Some (SQL_RDB_ERR_INVALID_ARG, w)
       else
         let i = nat (index - 1);
             s1 = s\<lparr>ps_params := (ps_params s)[i := empty_param]\<rparr>;
             w = set_stmt stmt s1 w
         in case val of None \<Rightarrow> Some (SQL_RDB_OK, w)
            | Some mem \<Rightarrow>
                do {
                  slen \<leftarrow> (if len < 0 then (if NUL \<in> set mem then Some (length (takeWhile (\<lambda>c. c \<noteq> NUL) mem)) else None)
                          else Some (nat len));
                  let (ok, w) = pg_alloc w in
                  if \<not> ok then Some (SQL_RDB_ERR_NO_MEMORY, w)
                  else do {
                    buf \<leftarrow> read_bytes mem 0 slen;
                    Some (SQL_RDB_OK,
                          set_stmt stmt (s1\<lparr>ps_params := (ps_params s1)
                            [i := empty_param\<lparr>pv_value := Some (buf @ [NUL]), pv_owned := True, pv_length := int slen\<rparr>]\<rparr>) w)
                  }
                }
     }"

definition pg_bind_blob ::
  "ptr \<Rightarrow> int \<Rightarrow> char list option \<Rightarrow> nat \<Rightarrow> 'p pg_world \<Rightarrow> (SqlRDBResult \<times> 'p pg_world) option" where
  "pg_bind_blob stmt index val len w =
     store_param stmt index val (sint (word_of_nat len :: 32 word)) 1 C2SQL_PG_BYTEAOID w"

definition pg_bind_null :: "ptr \<Rightarrow> int \<Rightarrow> 'p pg_world \<Rightarrow> (SqlRDBResult \<times> 'p pg_world) option" where
  "pg_bind_null stmt index w = store_param stmt index None 0 0 0 w"

section \<open>Execution and results\<close>

definition pg_step :: "'p libpq \<Rightarrow> ptr \<Rightarrow> 'p pg_world \<Rightarrow> (SqlRDBResult \<times> bool \<times> 'p pg_world) option" where
  "pg_step pq stmt w =
     do {
       s \<leftarrow> pg_stmts w stmt;
       if \<not> ps_executed s then do {
         c \<leftarrow> pg_ctxs w (ps_ctx s);
         let (res, l) = PQexecParams pq (pc_conn c) (ps_sql s) (ps_params s) (pg_lib w);
             w = w\<lparr>pg_lib := l\<rparr>;
             st = (case res of None \<Rightarrow> PGRES_FATAL_ERROR | Some r \<Rightarrow> PQresultStatus pq r (pg_lib w))
         in if st \<noteq> PGRES_TUPLES_OK \<and> st \<noteq> PGRES_COMMAND_OK then
              let w = (case res of None \<Rightarrow> w | Some r \<Rightarrow> w\<lparr>pg_lib := PQclear pq r (pg_lib w)\<rparr>)
              in Some (SQL_RDB_ERR_DRIVER, False, set_stmt stmt (s\<lparr>ps_res := None\<rparr>) w)
            else do {
              r \<leftarrow> res;
              let w = set_ctx (ps_ctx s) (c\<lparr>last_changes := changes_of (PQcmdTuples pq r (pg_lib w))\<rparr>) w;
                  n = PQntuples pq r (pg_lib w);
                  s = s\<lparr>ps_res := Some r, ps_nrows := n, ps_row := 0, ps_executed := True\<rparr>
              in Some (SQL_RDB_OK, 0 < n, set_stmt stmt s w)
            }
       } else
         let s = s\<lparr>ps_row := ps_row s + 1\<rparr>
         in Some (SQL_RDB_OK, ps_row s < ps_nrows s, set_stmt stmt s w)
     }"

definition pg_column_int64 :: "'p libpq \<Rightarrow> ptr \<Rightarrow> int \<Rightarrow> 'p pg_world \<Rightarrow> (SqlRDBResult \<times> 64 word \<times> 'p pg_world) option" where
  "pg_column_int64 pq stmt index w =
     do {
       s \<leftarrow> pg_stmts w stmt;
       Some (SQL_RDB_OK,
             if PQgetisnull pq (ps_res s) (ps_row s) index (pg_lib w) then 0
             else strtoll (PQgetvalue pq (ps_res s) (ps_row s) index (pg_lib w)), w)
     }"

definition pg_column_int32 :: "'p libpq \<Rightarrow> ptr \<Rightarrow> int \<Rightarrow> 'p pg_world \<Rightarrow> (SqlRDBResult \<times> 32 word \<times> 'p pg_world) option" where
  "pg_column_int32 pq stmt index w =
     do {
       s \<leftarrow> pg_stmts w stmt;
       Some (SQL_RDB_OK,
             if PQgetisnull pq (ps_res s) (ps_row s) index (pg_lib w) then 0
             else ucast (strtoll (PQgetvalue pq (ps_res s) (ps_row s) index (pg_lib w))), w)
     }"

definition pg_column_real :: "'p libpq \<Rightarrow> ptr \<Rightarrow> int \<Rightarrow> 'p pg_world \<Rightarrow> (SqlRDBResult \<times> 64 word \<times> 'p pg_world) option" where
  "pg_column_real pq stmt index w =
     do {
       s \<leftarrow> pg_stmts w stmt;
       Some (SQL_RDB_OK,
             if PQgetisnull pq (ps_res s) (ps_row s) index (pg_lib w) then 0
             else strtod pq (PQgetvalue pq (ps_res s) (ps_row s) index (pg_lib w)), w)
     }"

definition pg_column_text ::
  "'p libpq \<Rightarrow> ptr \<Rightarrow> int \<Rightarrow> 'p pg_world \<Rightarrow> (SqlRDBResult \<times> char list option \<times> nat \<times> 'p pg_world) option" where
  "pg_column_text pq stmt index w =
     do {
       s \<leftarrow> pg_stmts w stmt;
       Some (SQL_RDB_OK, Some (PQgetvalue pq (ps_res s) (ps_row s) index (pg_lib w) @ [NUL]),
             PQgetlength pq (ps_res s) (ps_row s) index (pg_lib w), w)
     }"

definition pg_column_blob ::
  "'p libpq \<Rightarrow> ptr \<Rightarrow> int \<Rightarrow> 'p pg_world \<Rightarrow> (SqlRDBResult \<times> char list option \<times> nat \<times> 'p pg_world) option" where
  "pg_column_blob pq stmt index w =
     do {
       s \<leftarrow> pg_stmts w stmt;
       let s = s\<lparr>ps_blob_tmp := None\<rparr>;
       let w = set_stmt stmt s w;
       if PQgetisnull pq (ps_res s) (ps_row s) index (pg_lib w) then Some (SQL_RDB_OK, None, 0, w)
       else
         let (bin, l) = PQunescapeBytea pq (PQgetvalue pq (ps_res s) (ps_row s) index (pg_lib w)) (pg_lib w);
             w = w\<lparr>pg_lib := l\<rparr>
         in case bin of None \<Rightarrow> Some (SQL_RDB_ERR_NO_MEMORY, None, 0, w)
            | Some b \<Rightarrow> Some (SQL_RDB_OK, Some b, length b, set_stmt stmt (s\<lparr>ps_blob_tmp := Some b\<rparr>) w)
     }"

definition pg_column_isnull :: "'p libpq \<Rightarrow> ptr \<Rightarrow> int \<Rightarrow> 'p pg_world \<Rightarrow> (SqlRDBResult \<times> bool \<times> 'p pg_world) option" where
  "pg_column_isnull pq stmt index w =
     do {
       s \<leftarrow> pg_stmts w stmt;
       Some (SQL_RDB_OK, PQgetisnull pq (ps_res s) (ps_row s) index (pg_lib w), w)
     }"

text \<open>\<^verbatim>\<open>clear_results\<close>: the statement after it and the library state after \<^verbatim>\<open>PQclear\<close>.\<close>

definition clear_results :: "'p libpq \<Rightarrow> PgStmt \<Rightarrow> 'p \<Rightarrow> PgStmt \<times> 'p" where
  "clear_results pq s l =
     (s\<lparr>ps_res := None, ps_blob_tmp := None, ps_executed := False, ps_row := -1, ps_nrows := 0\<rparr>,
      case ps_res s of None \<Rightarrow> l | Some r \<Rightarrow> PQclear pq r l)"

definition clear_params :: "PgStmt \<Rightarrow> PgStmt" where
  "clear_params s = s\<lparr>ps_params := map (\<lambda>_. empty_param) (ps_params s)\<rparr>"

definition pg_reset :: "'p libpq \<Rightarrow> ptr \<Rightarrow> 'p pg_world \<Rightarrow> (SqlRDBResult \<times> 'p pg_world) option" where
  "pg_reset pq stmt w =
     do {
       s \<leftarrow> pg_stmts w stmt;
       let (s, l) = clear_results pq s (pg_lib w) in
       Some (SQL_RDB_OK, set_stmt stmt (clear_params s) (w\<lparr>pg_lib := l\<rparr>))
     }"

definition pg_finalize :: "'p libpq \<Rightarrow> ptr \<Rightarrow> 'p pg_world \<Rightarrow> (SqlRDBResult \<times> 'p pg_world) option" where
  "pg_finalize pq stmt w =
     do {
       s \<leftarrow> pg_stmts w stmt;
       let (s, l) = clear_results pq s (pg_lib w) in
       Some (SQL_RDB_OK, w\<lparr>pg_lib := l, pg_stmts := (pg_stmts w)(stmt := None)\<rparr>)
     }"

definition g_postgres_driver :: "'p libpq \<Rightarrow> 'p pg_world SqlRDBDriver" where
  "g_postgres_driver pq =
     \<lparr>drv_name = ''postgres'', drv_dialect = C2SQL_DIALECT_POSTGRES, drv_open = pg_open pq, drv_close = pg_close pq,
      drv_exec = pg_exec pq, drv_prepare = pg_prepare, drv_bind_int64 = pg_bind_int64, drv_bind_int32 = pg_bind_int32,
      drv_bind_real = pg_bind_real pq, drv_bind_text = pg_bind_text, drv_bind_blob = pg_bind_blob,
      drv_bind_null = pg_bind_null, drv_step = pg_step pq, drv_column_int64 = pg_column_int64 pq,
      drv_column_int32 = pg_column_int32 pq, drv_column_real = pg_column_real pq, drv_column_text = pg_column_text pq,
      drv_column_blob = pg_column_blob pq, drv_column_isnull = pg_column_isnull pq, drv_reset = pg_reset pq,
      drv_finalize = pg_finalize pq, drv_begin = pg_begin pq, drv_commit = pg_commit pq, drv_rollback = pg_rollback pq,
      drv_savepoint = pg_savepoint pq, drv_release_sp = pg_release_sp pq, drv_rollback_sp = pg_rollback_sp pq,
      drv_changes = pg_changes\<rparr>"

section \<open>Transaction control is SQL\<close>

interpretation pg_txn: sql_txn_driver "g_postgres_driver pq" for pq
  by unfold_locales
    (simp_all add: g_postgres_driver_def pg_begin_def pg_commit_def pg_rollback_def pg_savepoint_def pg_release_sp_def
      pg_rollback_sp_def pg_exec_fmt_def C2SQL_SP_NAME_LEN_def)

section \<open>The open statements\<close>

text \<open>
  The \<^verbatim>\<open>PgStmt\<close> objects that were allocated and not freed. Every call of the driver but
  \<^verbatim>\<open>prepare\<close> and \<^verbatim>\<open>finalize\<close> works on an open statement and keeps it open.
\<close>

definition pg_live :: "'p pg_world \<Rightarrow> ptr set" where
  "pg_live w = {s \<in> dom (pg_stmts w). s < pg_next w}"

lemma pg_live_upd [simp]:
  "pg_live (w\<lparr>pg_lib := l\<rparr>) = pg_live w" "pg_live (w\<lparr>pg_mem := m\<rparr>) = pg_live w" "pg_live (set_ctx p c w) = pg_live w"
  "pg_stmts (set_ctx p c w) = pg_stmts w"
  by (simp_all add: pg_live_def set_ctx_def)

lemma pg_live_set_stmt [simp]: "pg_stmts w p = Some s' \<Longrightarrow> pg_live (set_stmt p s w) = pg_live w"
  by (auto simp: pg_live_def set_stmt_def)

lemma pg_stmts_set_stmt [simp]: "pg_stmts (set_stmt p s w) p = Some s"
  by (simp add: set_stmt_def)

lemma pg_alloc_live: "pg_alloc w = (ok, w') \<Longrightarrow> pg_live w' = pg_live w \<and> pg_stmts w' = pg_stmts w \<and> pg_next w' = pg_next w"
  by (auto simp: pg_alloc_def pg_live_def split: prod.splits)

lemma pg_exec_live: "ensures (pg_exec pq ctx sql w) (\<lambda>(r, w'). pg_live w' = pg_live w)"
  unfolding pg_exec_def by (auto simp: Let_def intro!: ensuresI split: option.splits prod.splits)

lemma pg_close_live: "ensures (pg_close pq ctx w) (\<lambda>(r, w'). pg_live w' = pg_live w)"
  unfolding pg_close_def by (rule ensuresI) (auto simp: Let_def bind_Some_iff pg_live_def)

lemma store_param_live: "ensures (store_param p i data len fmt oid w) (\<lambda>(r, w'). pg_live w' = pg_live w)"
  unfolding store_param_def
  by ((clarsimp simp: Let_def bind_Some_iff clear_results_def dest!: pg_alloc_live split: option.splits prod.splits
      | intro conjI impI allI ensures_any [where x = "read_bytes b i n" for b i n] ensuresI)+)

lemma pg_bind_text_live: "ensures (pg_bind_text p i v len w) (\<lambda>(r, w'). pg_live w' = pg_live w)"
  unfolding pg_bind_text_def
  by ((clarsimp simp: Let_def bind_Some_iff clear_results_def dest!: pg_alloc_live split: option.splits prod.splits
      | intro conjI impI allI ensures_any [where x = "read_bytes b i n" for b i n] ensuresI)+)

lemma pg_step_live: "ensures (pg_step pq p w) (\<lambda>(r, b, w'). pg_live w' = pg_live w)"
  unfolding pg_step_def
  by ((clarsimp simp: Let_def bind_Some_iff clear_results_def dest!: pg_alloc_live split: option.splits prod.splits
      | intro conjI impI allI ensures_any [where x = "read_bytes b i n" for b i n] ensuresI)+)

lemma pg_column_blob_live: "ensures (pg_column_blob pq p i w) (\<lambda>(r, v, n, w'). pg_live w' = pg_live w)"
  unfolding pg_column_blob_def
  by ((clarsimp simp: Let_def bind_Some_iff clear_results_def dest!: pg_alloc_live split: option.splits prod.splits
      | intro conjI impI allI ensures_any [where x = "read_bytes b i n" for b i n] ensuresI)+)

lemma pg_reset_live: "ensures (pg_reset pq p w) (\<lambda>(r, w'). pg_live w' = pg_live w)"
  unfolding pg_reset_def by (rule ensuresI) (auto simp: bind_Some_iff clear_results_def)

lemma pg_finalize_live: "ensures (pg_finalize pq p w) (\<lambda>(r, w'). pg_live w' = pg_live w - {p})"
  unfolding pg_finalize_def by (rule ensuresI) (auto simp: bind_Some_iff clear_results_def pg_live_def split: if_splits)

lemma pg_prepare_live:
  "ensures (pg_prepare ctx sql w) (\<lambda>(r, st, w').
     if r = SQL_RDB_OK then \<exists>s. st = Some s \<and> s \<notin> pg_live w \<and> pg_live w' = insert s (pg_live w) else pg_live w' = pg_live w)"
proof (rule ensuresI, clarify)
  fix r st w' assume run: "pg_prepare ctx sql w = Some (r, st, w')"
  have new: "p \<notin> pg_live w \<and> pg_live (set_stmt p s (v\<lparr>pg_next := Suc p\<rparr>)) = insert p (pg_live w)"
    if "pg_stmts v = pg_stmts w" "pg_next v = pg_next w" "p = pg_next v" for p s and v :: "'a pg_world"
    using that by (auto simp: pg_live_def set_stmt_def)
  show "if r = SQL_RDB_OK then \<exists>s. st = Some s \<and> s \<notin> pg_live w \<and> pg_live w' = insert s (pg_live w) else pg_live w' = pg_live w"
    using run unfolding pg_prepare_def
    by (auto simp: Let_def bind_Some_iff new dest!: pg_alloc_live split: if_splits prod.splits)
qed

lemmas pg_statement_ops = pg_exec_live pg_close_live store_param_live pg_bind_text_live pg_step_live pg_column_blob_live pg_reset_live
  pg_finalize_live pg_prepare_live

lemmas pg_thin_ops = g_postgres_driver_def pg_begin_def pg_commit_def pg_rollback_def pg_bind_int64_def pg_bind_int32_def
  pg_bind_real_def pg_bind_blob_def pg_bind_null_def pg_column_int64_def pg_column_real_def pg_column_text_def
  pg_column_isnull_def pg_column_int32_def pg_changes_def pg_savepoint_def pg_release_sp_def pg_rollback_sp_def pg_exec_fmt_def

interpretation pg_stmts: stmt_driver "g_postgres_driver pq" pg_live for pq
  by unfold_locales (simp_all add: pg_thin_ops Let_def pg_statement_ops ensuresI)

end
