(* ===== verification/Query_Params.thy ===== *)
theory Query_Params
  imports Query_Text Postgres_Driver
begin

text \<open>
  The PostgreSQL driver finds the number of parameters by scanning the text for the largest
  \<^verbatim>\<open>$N\<close>. On the text the query builder generates for that dialect, the scan finds exactly the
  number of parameters the library binds.
\<close>

section \<open>The scan on fragments\<close>

text \<open>A suffix that does not continue a number.\<close>

definition no_digit :: "string \<Rightarrow> bool" where
  "no_digit t \<longleftrightarrow> (case t of [] \<Rightarrow> True | c # _ \<Rightarrow> \<not> isdigit c)"

lemma pg_scan_plain: "CHR ''$'' \<notin> set s \<Longrightarrow> pg_scan (s @ t) mx = pg_scan t mx"
  by (induction s) auto

lemma dec_of_nat_length: "n < 10 ^ k \<Longrightarrow> 0 < k \<Longrightarrow> length (dec_of_nat n) \<le> k"
proof (induction k arbitrary: n)
  case (Suc k)
  show ?case
  proof (cases "n < 10")
    case False
    then have "n div 10 < 10 ^ k" "0 < k" using Suc.prems by (auto simp: div_less_iff_less_mult intro: Nat.gr0I)
    from Suc.IH [OF this] False show ?thesis by (simp add: dec_of_nat.simps [of n])
  qed (simp add: dec_of_nat.simps [of n])
qed simp

lemma placeholder_postgres:
  assumes "k < 2 ^ 31"
  shows "placeholder C2SQL_DIALECT_POSTGRES k = CHR ''$'' # dec_of_nat k"
proof -
  have "length (dec_of_nat k) \<le> 14" by (rule dec_of_nat_length) (use assms in simp_all)
  then show ?thesis by (simp add: placeholder_def)
qed

lemma takeWhile_digits:
  assumes "no_digit t"
  shows "takeWhile isdigit (dec_of_nat k @ t) = dec_of_nat k" and "dropWhile isdigit (dec_of_nat k @ t) = t"
proof -
  have d: "\<forall>c \<in> set (dec_of_nat k). isdigit c" using dec_of_nat_isdigit by blast
  have t: "takeWhile isdigit t = []" "dropWhile isdigit t = t" using assms by (cases t; simp add: no_digit_def)+
  show "takeWhile isdigit (dec_of_nat k @ t) = dec_of_nat k" using d t(1) by (simp add: takeWhile_append2)
  show "dropWhile isdigit (dec_of_nat k @ t) = t" using d t(2) by (simp add: dropWhile_append2)
qed

lemma pg_scan_placeholder:
  assumes "k < 2 ^ 31" and "no_digit t"
  shows "pg_scan (placeholder C2SQL_DIALECT_POSTGRES k @ t) mx = pg_scan t (if mx < int k then int k else mx)"
proof -
  obtain d ds where d: "dec_of_nat k = d # ds" by (cases "dec_of_nat k") auto
  then have dig: "isdigit d" using dec_of_nat_isdigit [of d k] by simp
  note s = takeWhile_digits [OF assms(2), of k]
  have v: "nat_of_dec (ord_char d - 48) ds = k" using nat_of_dec_dec_of_nat [of k] d by simp
  have "int k \<le> 2 ^ 31 - 1" using assms(1) by simp
  then show ?thesis using s dig v by (simp add: placeholder_postgres [OF assms(1)] d Let_def)
qed

lemma no_digit_simps [simp]: "no_digit []" "no_digit (c # s) \<longleftrightarrow> \<not> isdigit c"
  by (simp_all add: no_digit_def)

lemma punctuation_no_digit [simp]:
  "\<not> isdigit (CHR '' '')" "\<not> isdigit (CHR '')'')" "\<not> isdigit (CHR '','')" "\<not> isdigit (CHR ''\"'')"
  by (simp_all add: isdigit_def ord_char_def)

section \<open>The scan on statements\<close>

lemma pg_scan_cond:
  assumes "\<forall>col \<in> set (cond_columns c). ident_chars col" and "k + leaf_count c < 2 ^ 31" and "no_digit t"
  shows "pg_scan (sql_cond C2SQL_DIALECT_POSTGRES c k @ t) (int k) = pg_scan t (int (k + leaf_count c))"
  using assms
proof (induction c arbitrary: k t)
  case (COND_LEAF col oper v)
  have "CHR ''$'' \<notin> set (''\"'' @ col @ ''\" '' @ op_to_sql_str oper @ '' '')"
    using COND_LEAF.prems(1) ident_chars_special(5) [of col] by (cases oper) auto
  from pg_scan_plain [OF this] pg_scan_placeholder [of "Suc k" t "int k"] COND_LEAF.prems(2,3)
  show ?case by simp
next
  case (COND_AND a b)
  have p: "\<forall>col \<in> set (cond_columns a). ident_chars col" "\<forall>col \<in> set (cond_columns b). ident_chars col"
    "k + leaf_count a < 2 ^ 31" "k + leaf_count a + leaf_count b < 2 ^ 31" using COND_AND.prems by auto
  have "pg_scan (sql_cond C2SQL_DIALECT_POSTGRES (COND_AND a b) k @ t) (int k) =
      pg_scan (sql_cond C2SQL_DIALECT_POSTGRES a k @ '' AND '' @ sql_cond C2SQL_DIALECT_POSTGRES b (k + leaf_count a) @ '')'' @ t) (int k)"
    by simp
  also have "\<dots> = pg_scan (sql_cond C2SQL_DIALECT_POSTGRES b (k + leaf_count a) @ '')'' @ t) (int (k + leaf_count a))"
    using COND_AND.IH(1) [OF p(1,3), of "'' AND '' @ sql_cond C2SQL_DIALECT_POSTGRES b (k + leaf_count a) @ '')'' @ t"] by simp
  finally show ?case using COND_AND.IH(2) [OF p(2,4), of "'')'' @ t"] by (simp add: add.assoc)
next
  case (COND_OR a b)
  have p: "\<forall>col \<in> set (cond_columns a). ident_chars col" "\<forall>col \<in> set (cond_columns b). ident_chars col"
    "k + leaf_count a < 2 ^ 31" "k + leaf_count a + leaf_count b < 2 ^ 31" using COND_OR.prems by auto
  have "pg_scan (sql_cond C2SQL_DIALECT_POSTGRES (COND_OR a b) k @ t) (int k) =
      pg_scan (sql_cond C2SQL_DIALECT_POSTGRES a k @ '' OR '' @ sql_cond C2SQL_DIALECT_POSTGRES b (k + leaf_count a) @ '')'' @ t) (int k)"
    by simp
  also have "\<dots> = pg_scan (sql_cond C2SQL_DIALECT_POSTGRES b (k + leaf_count a) @ '')'' @ t) (int (k + leaf_count a))"
    using COND_OR.IH(1) [OF p(1,3), of "'' OR '' @ sql_cond C2SQL_DIALECT_POSTGRES b (k + leaf_count a) @ '')'' @ t"] by simp
  finally show ?case using COND_OR.IH(2) [OF p(2,4), of "'')'' @ t"] by (simp add: add.assoc)
qed simp

lemma pg_scan_where:
  assumes "spec_idents spec" and "where_result spec = SQL_RDB_OK" and "k + cond_count (qs_cond spec) < 2 ^ 31"
  shows "pg_scan (sql_where C2SQL_DIALECT_POSTGRES (qs_cond spec) k) (int k) = Some (int (k + cond_count (qs_cond spec)))"
proof (cases "qs_cond spec")
  case (Some c)
  have "set (cond_columns c) \<subseteq> col_name ` set (sch_cols (qs_schema spec))"
    using assms(2) Some validated_columns by (simp add: where_result_def)
  then have "\<forall>col \<in> set (cond_columns c). ident_chars col"
    using assms(1) by (fastforce simp: spec_idents_def schema_idents_def list_all_iff)
  from pg_scan_cond [OF this, of k "[]"] pg_scan_plain [of "'' WHERE ''"] show ?thesis
    using Some assms(3) by (auto simp: sql_where_def cond_count_def)
qed (simp add: sql_where_def cond_count_def)

lemma pg_scan_placeholders:
  assumes "k + n < 2 ^ 31" and "no_digit t"
  shows "pg_scan (join_comma (map (placeholder C2SQL_DIALECT_POSTGRES) [Suc k..<Suc k + n]) @ t) (int k) = pg_scan t (int (k + n))"
proof -
  have tail: "pg_scan (concat (map (\<lambda>i. CHR '','' # placeholder C2SQL_DIALECT_POSTGRES i) [Suc k..<Suc k + n]) @ t) (int k) =
      pg_scan t (int (k + n))" if "k + n < 2 ^ 31" for k
    using that
  proof (induction n arbitrary: k)
    case (Suc n)
    let ?rest = "concat (map (\<lambda>i. CHR '','' # placeholder C2SQL_DIALECT_POSTGRES i) [Suc (Suc k)..<Suc (Suc k) + n]) @ t"
    have nd: "no_digit ?rest" using assms(2) by (cases n) (simp_all add: upt_rec)
    have "[Suc k..<Suc k + Suc n] = Suc k # [Suc (Suc k)..<Suc (Suc k) + n]" by (simp add: upt_rec)
    then have "pg_scan (concat (map (\<lambda>i. CHR '','' # placeholder C2SQL_DIALECT_POSTGRES i) [Suc k..<Suc k + Suc n]) @ t) (int k) =
        pg_scan (placeholder C2SQL_DIALECT_POSTGRES (Suc k) @ ?rest) (int k)" by simp
    also have "\<dots> = pg_scan ?rest (int (Suc k))" using pg_scan_placeholder [OF _ nd, of "Suc k" "int k"] Suc.prems by simp
    finally show ?case using Suc.IH [of "Suc k"] Suc.prems by simp
  qed simp
  show ?thesis
  proof (cases n)
    case (Suc p)
    let ?rest = "concat (map (\<lambda>i. CHR '','' # placeholder C2SQL_DIALECT_POSTGRES i) [Suc (Suc k)..<Suc (Suc k) + p]) @ t"
    have "no_digit (CHR '','' # placeholder C2SQL_DIALECT_POSTGRES (Suc k) @ ?rest)" by simp
    have "pg_scan (concat (map (\<lambda>i. CHR '','' # placeholder C2SQL_DIALECT_POSTGRES i) [Suc k..<Suc k + n]) @ t) (int k) =
        pg_scan (join_comma (map (placeholder C2SQL_DIALECT_POSTGRES) [Suc k..<Suc k + n]) @ t) (int k)"
      by (simp add: Suc upt_rec [of "Suc k"] o_def)
    then show ?thesis using tail [OF assms(1)] by simp
  qed simp
qed

text \<open>Text without a dollar sign.\<close>

abbreviation plain :: "string \<Rightarrow> bool" where
  "plain s \<equiv> CHR ''$'' \<notin> set s"

lemma plain_join: "(\<And>x. x \<in> set xs \<Longrightarrow> plain x) \<Longrightarrow> plain (join_comma xs)"
  by (cases xs) auto

lemma plain_parts [simp]:
  "plain (type_to_sql_str t d)" "plain (sql_constraints c)" "CHR ''$'' \<in> set (dquote n) \<longleftrightarrow> CHR ''$'' \<in> set n"
  by (auto simp: type_to_sql_str_def sql_constraints_def dquote_def split: SqlRDBType.splits)

lemma plain_names:
  assumes "spec_idents spec"
  shows "plain (sch_name (qs_schema spec))" and "c \<in> set (sch_cols (qs_schema spec)) \<Longrightarrow> plain (col_name c)"
    and "qs_new_col spec = Some col \<Longrightarrow> plain (col_name col)"
    and "schema_has_column (qs_schema spec) n \<Longrightarrow> plain n"
  using assms ident_chars_special(5)
  by (auto simp: spec_idents_def schema_idents_def schema_has_column_def list_all_iff list_ex_iff)

lemma pg_scan_only: "plain s \<Longrightarrow> pg_scan s mx = Some mx"
  using pg_scan_plain [of s "[]"] by simp

lemma pg_scan_insert:
  assumes "spec_idents spec" and "length (sch_cols (qs_schema spec)) < 2 ^ 31"
  shows "pg_scan (sql_insert C2SQL_DIALECT_POSTGRES (qs_schema spec) @ t) 0 =
    pg_scan t (int (length (sch_cols (qs_schema spec))))"
proof -
  let ?s = "qs_schema spec"
  have "plain (join_comma (map (\<lambda>c. dquote (col_name c)) (sch_cols ?s)))"
    by (rule plain_join) (use plain_names(2) [OF assms(1)] in auto)
  then have p: "plain (''INSERT INTO '' @ dquote (sch_name ?s) @ '' ('' @
     join_comma (map (\<lambda>c. dquote (col_name c)) (sch_cols ?s)) @ '') VALUES ('')"
    using plain_names(1) [OF assms(1)] by simp
  show ?thesis using pg_scan_plain [OF p] pg_scan_placeholders [of 0 "length (sch_cols ?s)" "'')'' @ t"] assms(2)
    by (simp add: sql_insert_def)
qed

lemma pg_count_sql_text:
  assumes id: "spec_idents spec" and ok: "spec_ok oper spec" and res: "qb_result oper spec = SQL_RDB_OK"
    and d: "qs_dialect spec = C2SQL_DIALECT_POSTGRES" and n: "bind_total oper spec < 2 ^ 31"
  shows "pg_count_params (sql_text oper spec) = Some (int (bind_total oper spec))"
proof -
  note names = plain_names [OF id]
  have cols: "plain (join_comma (map (\<lambda>c. dquote (col_name c)) (sch_cols (qs_schema spec))))"
    by (rule plain_join) (use names(2) in auto)
  have scan: "pg_scan (s @ sql_where C2SQL_DIALECT_POSTGRES (qs_cond spec) 0) 0 = Some (int (cond_count (qs_cond spec)))"
    if "plain s" "where_result spec = SQL_RDB_OK" "cond_count (qs_cond spec) < 2 ^ 31" for s
    using pg_scan_plain [OF that(1)] pg_scan_where [OF id that(2), of 0] that(3) by simp
  show ?thesis
  proof (cases oper)
    case C2SQL_QB_CREATE
    have "plain (join_comma (map (sql_column C2SQL_DIALECT_POSTGRES) (sch_cols (qs_schema spec))))"
      by (rule plain_join) (use names(2) in \<open>auto simp: sql_column_def\<close>)
    then show ?thesis using names(1) d by (simp add: C2SQL_QB_CREATE pg_count_params_def pg_scan_only)
  next
    case C2SQL_QB_ALTER_ADD
    then obtain c where "qs_new_col spec = Some c" using ok by auto
    then show ?thesis using names(1) names(3) by (simp add: C2SQL_QB_ALTER_ADD pg_count_params_def pg_scan_only sql_column_def)
  next
    case C2SQL_QB_INSERT
    then show ?thesis using pg_scan_insert [OF id, of "[]"] n d by (simp add: pg_count_params_def)
  next
    case C2SQL_QB_UPSERT
    have "plain (join_comma (map (\<lambda>c. dquote (col_name c) @ ''=excluded.'' @ dquote (col_name c)) (non_pk_cols (qs_schema spec))))"
      by (rule plain_join) (use names(2) non_pk_cols_subset [of "qs_schema spec"] in auto)
    moreover have "plain (col_name (sch_cols (qs_schema spec) ! nat (pk_index (qs_schema spec))))"
      by (rule names(2)) (use ok C2SQL_QB_UPSERT in auto)
    ultimately show ?thesis using pg_scan_insert [OF id] n d by (simp add: C2SQL_QB_UPSERT pg_count_params_def pg_scan_only)
  next
    case C2SQL_QB_SELECT
    then show ?thesis using res n d cols names(1)
      scan [of "''SELECT '' @ join_comma (map (\<lambda>c. dquote (col_name c)) (sch_cols (qs_schema spec))) @ '' FROM '' @ dquote (sch_name (qs_schema spec))"]
      by (simp add: pg_count_params_def)
  next
    case C2SQL_QB_COUNT
    then show ?thesis using res n d names(1) scan [of "''SELECT COUNT(*) FROM '' @ dquote (sch_name (qs_schema spec))"]
      by (simp add: pg_count_params_def)
  next
    case C2SQL_QB_DELETE
    then show ?thesis using res n d names(1) scan [of "''DELETE FROM '' @ dquote (sch_name (qs_schema spec))"]
      by (simp add: pg_count_params_def)
  next
    case C2SQL_QB_UPDATE_FIELD
    obtain col where col: "qs_target_col spec = Some col" using ok C2SQL_QB_UPDATE_FIELD by auto
    have f: "schema_has_column (qs_schema spec) col" "where_result spec = SQL_RDB_OK"
      using field_resultD res C2SQL_QB_UPDATE_FIELD col by force+
    have nd: "no_digit (sql_where C2SQL_DIALECT_POSTGRES (qs_cond spec) 1)" by (simp add: sql_where_def split: option.splits)
    have p: "plain (''UPDATE '' @ dquote (sch_name (qs_schema spec)) @ '' SET '' @ dquote col @ ''='')"
      using names(1) names(4) [OF f(1)] by simp
    show ?thesis using pg_scan_plain [OF p] pg_scan_placeholder [OF _ nd, of 1 0] pg_scan_where [OF id f(2), of 1] n d col
      by (simp add: C2SQL_QB_UPDATE_FIELD pg_count_params_def)
  next
    case C2SQL_QB_SELECT_FIELD
    obtain col where col: "qs_target_col spec = Some col" using ok C2SQL_QB_SELECT_FIELD by auto
    have f: "schema_has_column (qs_schema spec) col" "where_result spec = SQL_RDB_OK"
      using field_resultD res C2SQL_QB_SELECT_FIELD col by force+
    show ?thesis using f(2) n d col names(1) names(4) [OF f(1)]
        scan [of "''SELECT '' @ dquote col @ '' FROM '' @ dquote (sch_name (qs_schema spec))"]
      by (simp add: C2SQL_QB_SELECT_FIELD pg_count_params_def)
  qed
qed

end
