(* ===== verification/Postgres_Rows.thy ===== *)
theory Postgres_Rows
  imports Postgres_Driver
begin

text \<open>
  How a row reaches PostgreSQL: binding a struct fills the parameter arrays of the statement with the
  encoding of the value each member stands for, and reading an integer back inverts its text form.
\<close>

section \<open>Integers as text\<close>

lemma isdigit_not_space: "isdigit c \<Longrightarrow> \<not> isspace c"
  by (auto simp: isspace_def isdigit_def ord_char_def)

lemma takeWhile_dec [simp]: "takeWhile isdigit (dec_of_nat n) = dec_of_nat n"
  using dec_of_nat_isdigit by (simp add: takeWhile_eq_all_conv)

lemma parse_int_dec_of_int: "parse_int (dec_of_int i) = i"
proof (cases "i < 0")
  case True
  have "isspace (CHR ''-'') = False" by (simp add: isspace_def ord_char_def)
  then show ?thesis using True by (simp add: parse_int_def dec_of_int_def)
next
  case False
  obtain d ds where d: "dec_of_nat (nat i) = d # ds" by (cases "dec_of_nat (nat i)") auto
  have dig: "isdigit d" using dec_of_nat_isdigit [of d "nat i"] d by simp
  have sign: "d \<noteq> CHR ''-''" "d \<noteq> CHR ''+''" using dig by (auto simp: isdigit_def ord_char_def)
  have all: "takeWhile isdigit (d # ds) = d # ds" using takeWhile_dec [of "nat i"] d by simp
  have v: "nat_of_dec 0 (d # ds) = nat i" using nat_of_dec_dec_of_nat [of "nat i"] d by simp
  have "dropWhile isspace (d # ds) = d # ds" using isdigit_not_space [OF dig] by simp
  then show ?thesis using False sign by (simp add: parse_int_def dec_of_int_def d Let_def all v del: takeWhile.simps dropWhile.simps nat_of_dec.simps)
qed

section \<open>An integer through the driver\<close>

text \<open>
  A statement that gives one of its integer parameters back: in the first row of its result, column
  \<open>j\<close> is the decimal text of parameter \<open>i\<close>. Every integer that is stored in a row and selected from it
  comes back this way.
\<close>

definition returns_param :: "'p libpq \<Rightarrow> string \<Rightarrow> nat \<Rightarrow> int \<Rightarrow> bool" where
  "returns_param pq sql i j \<longleftrightarrow>
     (\<forall>conn ps l r l' n. PQexecParams pq conn sql ps l = (Some r, l') \<longrightarrow> i < length ps \<longrightarrow>
        pv_format (ps ! i) = 0 \<longrightarrow> pv_value (ps ! i) = Some (dec_of_int n @ [NUL]) \<longrightarrow>
        \<not> PQgetisnull pq (Some r) 0 j l' \<and> PQgetvalue pq (Some r) 0 j l' = dec_of_int n)"

lemma strtoll_int: "- (2 ^ 63) \<le> i \<Longrightarrow> i \<le> 2 ^ 63 - 1 \<Longrightarrow> strtoll (dec_of_int i) = word_of_int i"
  by (simp add: strtoll_def parse_int_dec_of_int)

lemma strtoll_dec_of_int: "strtoll (dec_of_int (sint v)) = v"
  using sint_ge [of v] sint_lt [of v] by (simp add: strtoll_int)

lemma ucast_scast: "ucast (scast (k :: 32 word) :: 64 word) = k"
proof (rule bit_word_eqI)
  fix n assume "n < LENGTH(32)"
  then have "min 31 n = n" by simp
  then show "bit (ucast (scast k :: 64 word) :: 32 word) n = bit k n" using \<open>n < LENGTH(32)\<close> by (simp add: bit_unsigned_iff bit_signed_iff)
qed

lemma strtoll_dec_of_int32: "ucast (strtoll (dec_of_int (sint (v :: 32 word)))) = v"
proof -
  have "- (2 ^ 63) \<le> sint v" "sint v \<le> 2 ^ 63 - 1" using sint_ge [of v] sint_lt [of v] by simp_all
  then show ?thesis using ucast_scast [of v] by (simp add: strtoll_int)
qed

text \<open>What binding an integer text leaves for the server, and where a first row is read from.\<close>

lemma bind_int_stored:
  assumes "pg_stmts w stmt = Some s" and "store_param stmt i (Some (t @ [NUL])) (int (length t) + 1) 0 0 w = Some (SQL_RDB_OK, w1)"
  shows "1 \<le> i \<and> i \<le> int (length (ps_params s)) \<and> (\<exists>p. pg_stmts w1 stmt = Some (s\<lparr>ps_params := (ps_params s)[nat (i - 1) := p]\<rparr>) \<and>
    pv_format p = 0 \<and> pv_value p = Some (t @ [NUL]))"
  using assms
  by (auto simp: store_param_def Let_def empty_param_def read_bytes_def nat_add_distrib set_stmt_def split: if_splits prod.splits)

lemma first_row:
  assumes "pg_stmts w stmt = Some s" and "\<not> ps_executed s" and "pg_step pq stmt w = Some (SQL_RDB_OK, True, w')"
  shows "\<exists>conn r l'. PQexecParams pq conn (ps_sql s) (ps_params s) (pg_lib w) = (Some r, l') \<and> pg_lib w' = l' \<and>
    (\<exists>s'. pg_stmts w' stmt = Some s' \<and> ps_res s' = Some r \<and> ps_row s' = 0)"
proof -
  obtain c where c1: "pg_ctxs w (ps_ctx s) = Some c" using assms by (auto simp: pg_step_def bind_Some_iff)
  obtain res l' where c2: "PQexecParams pq (pc_conn c) (ps_sql s) (ps_params s) (pg_lib w) = (res, l')" by fastforce
  note c = c1 c2
  then obtain r where r: "res = Some r" using assms by (cases res) (auto simp: pg_step_def)
  have "pg_lib w' = l' \<and> (\<exists>s'. pg_stmts w' stmt = Some s' \<and> ps_res s' = Some r \<and> ps_row s' = 0)"
    using assms c r by (auto simp: pg_step_def Let_def set_stmt_def set_ctx_def split: if_splits)
  then show ?thesis using c(2) r by blast
qed

lemma int_text_returns:
  assumes "returns_param pq (ps_sql s) (nat (i - 1)) j" and s: "pg_stmts w stmt = Some s" "\<not> ps_executed s"
    and b: "store_param stmt i (Some (dec_of_int n @ [NUL])) (int (length (dec_of_int n)) + 1) 0 0 w = Some (SQL_RDB_OK, w1)"
    and st: "pg_step pq stmt w1 = Some (SQL_RDB_OK, True, w2)"
  shows "\<exists>s2. pg_stmts w2 stmt = Some s2 \<and> \<not> PQgetisnull pq (ps_res s2) (ps_row s2) j (pg_lib w2) \<and>
    PQgetvalue pq (ps_res s2) (ps_row s2) j (pg_lib w2) = dec_of_int n"
proof -
  obtain p where p: "pg_stmts w1 stmt = Some (s\<lparr>ps_params := (ps_params s)[nat (i - 1) := p]\<rparr>)" "pv_format p = 0"
    "pv_value p = Some (dec_of_int n @ [NUL])" and i: "nat (i - 1) < length (ps_params s)"
    using bind_int_stored [OF s(1) b] by auto
  obtain conn r l' s2 where "PQexecParams pq conn (ps_sql s) ((ps_params s)[nat (i - 1) := p]) (pg_lib w1) = (Some r, l')"
    "pg_lib w2 = l'" "pg_stmts w2 stmt = Some s2" "ps_res s2 = Some r" "ps_row s2 = 0"
    using first_row [OF p(1) _ st] s(2) by auto
  then show ?thesis using assms(1) i p(2,3) unfolding returns_param_def by fastforce
qed

lemma int64_returns:
  assumes "returns_param pq (ps_sql s) (nat (i - 1)) j" and "pg_stmts w stmt = Some s" "\<not> ps_executed s"
    and "pg_bind_int64 stmt i v w = Some (SQL_RDB_OK, w1)" and "pg_step pq stmt w1 = Some (SQL_RDB_OK, True, w2)"
  shows "pg_column_int64 pq stmt j w2 = Some (SQL_RDB_OK, v, w2)"
  using int_text_returns [OF assms(1-3) _ assms(5), of "sint v"] assms(4)
  by (auto simp: pg_bind_int64_def pg_column_int64_def Let_def strtoll_dec_of_int)

lemma int32_returns:
  assumes "returns_param pq (ps_sql s) (nat (i - 1)) j" and "pg_stmts w stmt = Some s" "\<not> ps_executed s"
    and "pg_bind_int32 stmt i v w = Some (SQL_RDB_OK, w1)" and "pg_step pq stmt w1 = Some (SQL_RDB_OK, True, w2)"
  shows "pg_column_int32 pq stmt j w2 = Some (SQL_RDB_OK, v, w2)"
  using int_text_returns [OF assms(1-3) _ assms(5), of "sint v"] assms(4)
  by (auto simp: pg_bind_int32_def pg_column_int32_def Let_def strtoll_dec_of_int32)

section \<open>The parameter of a value\<close>

text \<open>The parameter that carries a value: numbers and texts in text format, blobs in binary format.\<close>

definition pg_text_param :: "string \<Rightarrow> int \<Rightarrow> pg_param" where
  "pg_text_param t len = empty_param\<lparr>pv_value := Some (t @ [NUL]), pv_owned := True, pv_length := len\<rparr>"

definition pg_encode :: "'p libpq \<Rightarrow> cell \<Rightarrow> pg_param" where
  "pg_encode pq c =
     (case c of
        Cell_Null \<Rightarrow> empty_param
      | Cell_Int v \<Rightarrow> (let t = dec_of_int (sint v) in pg_text_param t (int (length t) + 1))
      | Cell_Real v \<Rightarrow> (let t = fmt_real pq v in pg_text_param t (int (length t) + 1))
      | Cell_Text t \<Rightarrow> pg_text_param t (int (length t))
      | Cell_Blob b \<Rightarrow> \<lparr>pv_value = Some b, pv_length = int (length b), pv_format = 1, pv_type = C2SQL_PG_BYTEAOID, pv_owned = True\<rparr>)"

text \<open>An open statement, an index in range and memory to copy the value into.\<close>

definition bindable :: "'p pg_world \<Rightarrow> ptr \<Rightarrow> PgStmt \<Rightarrow> int \<Rightarrow> bool" where
  "bindable w stmt s i \<longleftrightarrow> pg_stmts w stmt = Some s \<and> 1 \<le> i \<and> i \<le> int (length (ps_params s)) \<and> pg_mem w = []"

definition bound :: "'p pg_world \<Rightarrow> ptr \<Rightarrow> PgStmt \<Rightarrow> int \<Rightarrow> pg_param \<Rightarrow> 'p pg_world" where
  "bound w stmt s i p = set_stmt stmt (s\<lparr>ps_params := (ps_params s)[nat (i - 1) := p]\<rparr>) w"

lemma set_stmt_twice [simp]: "set_stmt p a (set_stmt p b w) = set_stmt p a w"
  by (simp add: set_stmt_def)

lemma set_stmt_mem [simp]: "(set_stmt p a w)\<lparr>pg_mem := m\<rparr> = set_stmt p a (w\<lparr>pg_mem := m\<rparr>)" "pg_mem (set_stmt p a w) = pg_mem w"
  by (simp_all add: set_stmt_def)

lemma pg_mem_unchanged: "pg_mem w = [] \<Longrightarrow> w\<lparr>pg_mem := []\<rparr> = w"
  by (cases w) simp

lemma store_param_bound:
  assumes "bindable w stmt s i" and "length bs = nat len" and "0 \<le> len"
  shows "store_param stmt i (Some (bs @ rest)) len fmt oid w =
    Some (SQL_RDB_OK, bound w stmt s i \<lparr>pv_value = Some bs, pv_length = len, pv_format = fmt, pv_type = oid, pv_owned = True\<rparr>)"
  using assms
    by (simp add: pg_mem_unchanged store_param_def bindable_def bound_def Let_def pg_alloc_def empty_param_def read_bytes_def)

lemma bind_null_bound:
  "bindable w stmt s i \<Longrightarrow> pg_bind_null stmt i w = Some (SQL_RDB_OK, bound w stmt s i empty_param)"
  by (simp add: pg_bind_null_def store_param_def bindable_def bound_def Let_def empty_param_def)

lemma bind_text_bound:
  assumes "bindable w stmt s i" and "length t = nat len" and "0 \<le> len"
  shows "pg_bind_text stmt i (Some (t @ rest)) len w = Some (SQL_RDB_OK, bound w stmt s i (pg_text_param t len))"
  using assms
    by (simp add: pg_mem_unchanged pg_bind_text_def bindable_def bound_def Let_def pg_alloc_def pg_text_param_def read_bytes_def)

section \<open>Binding a row\<close>

lemma pg_bind_one:
  assumes b: "bindable w stmt s i" and m: "member_ok (length row) col" and sz: "col_size col < 2 ^ 31"
  shows "bind_one (g_postgres_driver pq) stmt i col row w =
    Some (SQL_RDB_OK, bound w stmt s i (pg_encode pq (column_cell col row)))"
proof -
  have off: "col_offset col + col_size col \<le> length row" using m by (simp add: member_ok_def)
  have split: "drop (col_offset col) row = region col row @ drop (col_size col) (drop (col_offset col) row)"
    unfolding region_def by (simp only: append_take_drop_id)
  have len: "length (region col row) = col_size col" using off by (rule length_region)
  note M = bind_one_member [OF m sz]
  show ?thesis
  proof (cases "col_type col")
    case SQL_TYPE_TEXT
    let ?t = "takeWhile (\<lambda>c. c \<noteq> NUL) (region col row)"
    have t: "drop (col_offset col) row = ?t @ dropWhile (\<lambda>c. c \<noteq> NUL) (region col row) @ drop (col_size col) (drop (col_offset col) row)"
      using split by (metis append.assoc takeWhile_dropWhile_id)
    then show ?thesis using SQL_TYPE_TEXT bind_text_bound [OF b, of ?t "int (length ?t)"]
      by (simp add: M g_postgres_driver_def column_cell_def pg_encode_def)
  next
    case SQL_TYPE_BLOB
    then show ?thesis using split store_param_bound [OF b, of "region col row" "int (col_size col)"] len blob_length [OF sz]
      by (simp add: M g_postgres_driver_def pg_bind_blob_def column_cell_def pg_encode_def)
  next
    case (SQL_TYPE_OTHER x)
    then show ?thesis using m by (simp add: member_ok_def)
  qed (use store_param_bound [OF b, where rest = "[]"] in \<open>simp_all add: M g_postgres_driver_def pg_bind_int32_def pg_bind_int64_def
    pg_bind_real_def column_cell_def pg_encode_def pg_text_param_def empty_param_def Let_def nat_add_distrib sint_up_scast is_up\<close>)
qed

text \<open>The loop over the columns, from column \<open>i\<close> on.\<close>

lemma pg_bind_cols:
  assumes "pg_stmts w stmt = Some s" and "pg_mem w = []" and "i + length cols \<le> length (ps_params s)"
    and "\<forall>c \<in> set cols. member_ok (length row) c \<and> col_size c < 2 ^ 31"
    and "\<forall>k < length cols. c2sql_internal_null_bit_get nm (i + k) = Some (nulls (i + k)) \<and>
           (nulls (i + k) \<longrightarrow> has_flag (cols ! k) SQL_COL_FLAG_NULLABLE)"
  shows "bind_cols (g_postgres_driver pq) stmt i cols row nm w =
    Some (SQL_RDB_OK, set_stmt stmt (s\<lparr>ps_params := take i (ps_params s) @ map (pg_encode pq) (row_cells nulls i cols row) @
      drop (i + length cols) (ps_params s)\<rparr>) w)"
  using assms
proof (induction cols arbitrary: i s w)
  case Nil
  have "set_stmt stmt s w = w" using Nil.prems(1) by (cases w) (auto simp: set_stmt_def)
  then show ?case by (simp add: row_cells_def)
next
  case (Cons c cols)
  let ?x = "pg_encode pq (if nulls i then Cell_Null else column_cell c row)"
  let ?s1 = "s\<lparr>ps_params := (ps_params s)[i := ?x]\<rparr>"
  have bd: "bindable w stmt s (int i + 1)" using Cons.prems(1-3) by (simp add: bindable_def)
  have nb: "c2sql_internal_null_bit_get nm i = Some (nulls i)" "nulls i \<longrightarrow> has_flag c SQL_COL_FLAG_NULLABLE"
    using Cons.prems(5) by force+
  have m: "member_ok (length row) c" "col_size c < 2 ^ 31" using Cons.prems(4) by auto
  have first: "bind_cols (g_postgres_driver pq) stmt i (c # cols) row nm w =
      bind_cols (g_postgres_driver pq) stmt (Suc i) cols row nm (set_stmt stmt ?s1 w)"
    using nb bind_null_bound [OF bd] pg_bind_one [OF bd m, of pq]
    by (cases "nulls i") (auto simp: bound_def g_postgres_driver_def pg_encode_def)
  have prems: "\<forall>k < length cols. c2sql_internal_null_bit_get nm (Suc i + k) = Some (nulls (Suc i + k)) \<and>
      (nulls (Suc i + k) \<longrightarrow> has_flag (cols ! k) SQL_COL_FLAG_NULLABLE)"
    using Cons.prems(5) by force
  have "bind_cols (g_postgres_driver pq) stmt (Suc i) cols row nm (set_stmt stmt ?s1 w) =
      Some (SQL_RDB_OK, set_stmt stmt (?s1\<lparr>ps_params := take (Suc i) (ps_params ?s1) @
        map (pg_encode pq) (row_cells nulls (Suc i) cols row) @ drop (Suc i + length cols) (ps_params ?s1)\<rparr>) (set_stmt stmt ?s1 w))"
    by (rule Cons.IH) (use Cons.prems prems in simp_all)
  moreover have "take (Suc i) ((ps_params s)[i := ?x]) = take i (ps_params s) @ [?x]"
    using Cons.prems(3) by (simp add: take_Suc_conv_app_nth)
  ultimately show ?case unfolding first by (simp add: row_cells_def)
qed

text \<open>Every column of the row reaches its parameter.\<close>

lemma pg_bind_row:
  assumes "pg_stmts w stmt = Some s" and "pg_mem w = []" and "length (ps_params s) = length (sch_cols schema)"
    and "\<forall>c \<in> set (sch_cols schema). member_ok (length row) c \<and> col_size c < 2 ^ 31"
    and "\<forall>k < length (sch_cols schema). c2sql_internal_null_bit_get nm k = Some (nulls k) \<and>
           (nulls k \<longrightarrow> has_flag (sch_cols schema ! k) SQL_COL_FLAG_NULLABLE)"
  shows "c2sql_internal_tm_bind_row (g_postgres_driver pq) stmt schema (Some row) nm w =
    Some (SQL_RDB_OK, set_stmt stmt (s\<lparr>ps_params := map (pg_encode pq) (row_cells nulls 0 (sch_cols schema) row)\<rparr>) w)"
  using pg_bind_cols [of w stmt s 0 "sch_cols schema" row nm nulls pq] assms by (simp add: c2sql_internal_tm_bind_row_def)

end
