(* ===== verification/Crud_Correct.thy ===== *)
theory Crud_Correct
  imports Stmt_Lifecycle Query_Text
begin

text \<open>
  What the row operations give back: conditions are bound in the order of the placeholders, and the
  caller's buffers are written only on success.
\<close>

section \<open>Binding a condition\<close>

fun cond_values :: "SqlRDBCondition \<Rightarrow> cond_value list" where
  "cond_values COND_ALL = []"
| "cond_values (COND_LEAF col oper v) = [v]"
| "cond_values (COND_AND a b) = cond_values a @ cond_values b"
| "cond_values (COND_OR a b) = cond_values a @ cond_values b"

text \<open>The values bound one after the other, up to the first failure.\<close>

fun bind_seq :: "'w SqlRDBDriver \<Rightarrow> ptr \<Rightarrow> cond_value list \<Rightarrow> int \<Rightarrow> 'w \<Rightarrow> (SqlRDBResult \<times> int \<times> 'w) option" where
  "bind_seq drv stmt [] idx w = Some (SQL_RDB_OK, idx, w)"
| "bind_seq drv stmt (v # vs) idx w =
     do {
       (r, w) \<leftarrow> bind_leaf drv stmt idx v w;
       if r \<noteq> SQL_RDB_OK then Some (r, idx + 1, w) else bind_seq drv stmt vs (idx + 1) w
     }"

lemma bind_seq_append:
  "bind_seq drv stmt (us @ vs) idx w =
     do {
       (r, idx, w) \<leftarrow> bind_seq drv stmt us idx w;
       if r \<noteq> SQL_RDB_OK then Some (r, idx, w) else bind_seq drv stmt vs idx w
     }"
proof (induction us arbitrary: idx w)
  case (Cons u us)
  show ?case
  proof (cases "bind_leaf drv stmt idx u w")
    case (Some a)
    then show ?thesis by (cases a) (simp add: Cons.IH)
  qed simp
qed simp

lemma bind_cond_values_seq: "bind_cond_values drv stmt c idx w = bind_seq drv stmt (cond_values c) idx w"
proof (induction c arbitrary: idx w)
  case (COND_LEAF col oper v)
  show ?case
  proof (cases "bind_leaf drv stmt idx v w")
    case (Some a)
    then show ?thesis by (cases a) simp
  qed simp
qed (auto simp: bind_seq_append split: bind_splits intro!: arg_cong2 [where f = Option.bind] ext)

lemma length_cond_values: "length (cond_values c) = leaf_count c"
  by (induction c) auto

section \<open>Output buffers\<close>

definition allows_many :: "'w SqlRDBHandle \<Rightarrow> SqlRDBReadOpts option \<Rightarrow> bool" where
  "allows_many h opts \<longleftrightarrow> (case opts of None \<Rightarrow> False | Some o2 \<Rightarrow> allow_multi o2) \<or> multirow_default (config h) = 1"

definition row_delivered :: "SqlRDBResult \<Rightarrow> bool" where
  "row_delivered r \<longleftrightarrow> r = SQL_RDB_OK \<or> r = SQL_RDB_WARN_TRUNCATED"

lemma row_delivered_simps [simp]:
  "row_delivered SQL_RDB_OK" "row_delivered SQL_RDB_WARN_TRUNCATED" "\<not> row_delivered SQL_RDB_ERR_NO_MEMORY"
  "\<not> row_delivered SQL_RDB_ERR_MULTIPLE_ROWS" "\<not> row_delivered SQL_RDB_ERR_NOT_FOUND"
  by (simp_all add: row_delivered_def)

lemma read_single_untouched:
  "ensures (read_single h drv schema stmt owned row nm w m)
     (\<lambda>(r, h', row', nm', w', m'). row_delivered r \<or> row' = row \<and> nm' = nm)"
  unfolding read_single_def
  by ((clarsimp simp: Let_def row_delivered_def split: prod.splits | intro conjI impI allI any_call | rule ensuresI)+)

lemma Read_untouched:
  assumes "\<not> allows_many h opts"
  shows "ensures (SqlRDBRead h name cond row nm opts w m)
     (\<lambda>(r, h', row', nm', w', m'). row_delivered r \<or> row' = row \<and> nm' = nm)"
proof (cases "name = None \<or> row = None")
  case False
  then obtain n b where n: "name = Some n" "row = Some b" by auto
  have a: "(case opts of None \<Rightarrow> False | Some o2 \<Rightarrow> allow_multi o2) = False" "multirow_default (config h) \<noteq> 1"
    using assms by (auto simp: allows_many_def)
  show ?thesis unfolding SqlRDBRead_def n
    by ((clarsimp simp: Let_def a split: option.splits prod.splits
      | intro conjI impI allI any_call field_read read_single_untouched [THEN ensures_mono] with_schema_ensures
          build_and_get_frame [THEN ensures_mono]
          locked_ensures [where P = "\<lambda>r h' (row', nm', w', m'). row_delivered r \<or> row' = b \<and> nm' = nm", THEN ensures_mono]
      | rule ensuresI)+)
qed (auto simp: SqlRDBRead_def split: option.splits)

lemma build_and_prepare_none:
  "ensures (build_and_prepare h spec w m) (\<lambda>(r, st, w', m'). (st = None) = (r \<noteq> SQL_RDB_OK))"
  unfolding build_and_prepare_def
  by ((clarsimp simp: Let_def split: prod.splits | intro conjI impI allI any_call | rule ensuresI)+)

lemma blob_column_error_fails: "blob_column_error fname schema name h = Some (r, h') \<Longrightarrow> r \<noteq> SQL_RDB_OK"
  by (auto simp: blob_column_error_def Let_def split: if_splits)

text \<open>A buffer is handed out exactly when the call succeeds.\<close>

definition publishes :: "SqlRDBResult \<Rightarrow> 'a option \<Rightarrow> bool" where
  "publishes r out \<longleftrightarrow> (out \<noteq> None) = (r = SQL_RDB_OK)"

lemma publishes_simps [simp]: "publishes r None \<longleftrightarrow> r \<noteq> SQL_RDB_OK" "publishes r (Some x) \<longleftrightarrow> r = SQL_RDB_OK"
  by (simp_all add: publishes_def)

lemma ReadBlobField_publishes:
  "ensures (SqlRDBReadBlobField h name key col ob ol w m) (\<lambda>(r, h', out, w', m'). publishes r out)"
  unfolding SqlRDBReadBlobField_def
  by ((clarsimp simp: Let_def blob_column_error_fails split: option.splits prod.splits
      | intro conjI impI allI any_driver_call any_pure field_read build_and_prepare_none [THEN ensures_mono]
          ensures_any [where x = "bind_cond_from drv s cond i w" for drv s cond i w]
          locked_ensures [where P = "\<lambda>r h' (out, w', m'). publishes r out"] with_schema_ensures
      | rule ensuresI)+)

section \<open>The commit of a batch\<close>

text \<open>
  The driver with another report of its commit: the same effect on the world, the code changed by \<open>f\<close>.
  \<^verbatim>\<open>SqlRDBWriteMany\<close> does the same and returns the same with either.
\<close>

definition recode_commit :: "(SqlRDBResult \<Rightarrow> SqlRDBResult) \<Rightarrow> 'w SqlRDBDriver \<Rightarrow> 'w SqlRDBDriver" where
  "recode_commit f drv = drv\<lparr>drv_commit := (\<lambda>ctx w. do { (r, w) \<leftarrow> drv_commit drv ctx w; Some (f r, w) })\<rparr>"

abbreviation with_recoded :: "(SqlRDBResult \<Rightarrow> SqlRDBResult) \<Rightarrow> 'w SqlRDBDriver \<Rightarrow> 'w SqlRDBHandle \<Rightarrow> 'w SqlRDBHandle" where
  "with_recoded f drv h \<equiv> h\<lparr>driver := Some (recode_commit f drv)\<rparr>"

lemma recode_others [simp]:
  "drv_prepare (recode_commit f drv) = drv_prepare drv" "drv_finalize (recode_commit f drv) = drv_finalize drv"
  "drv_reset (recode_commit f drv) = drv_reset drv" "drv_step (recode_commit f drv) = drv_step drv"
  "drv_begin (recode_commit f drv) = drv_begin drv" "drv_rollback (recode_commit f drv) = drv_rollback drv"
  "drv_dialect (recode_commit f drv) = drv_dialect drv" "drv_bind_null (recode_commit f drv) = drv_bind_null drv"
  "finalize_if (Some (recode_commit f drv)) = finalize_if (Some drv)" "bind_one (recode_commit f drv) = bind_one drv"
  by (simp_all add: recode_commit_def finalize_if_def bind_one_def fun_eq_iff cong: SqlRDBType.case_cong)

lemma recode_cache [simp]: "c2sql_internal_cache_put c sql s (Some (recode_commit f drv)) w m = c2sql_internal_cache_put c sql s (Some drv) w m"
proof -
  have "evict_lru_tail c (Some (recode_commit f drv)) w = evict_lru_tail c (Some drv) w" for c w
    unfolding evict_lru_tail_def entry_finalize_and_free_def recode_others ..
  moreover have "cache_insert c sql s (Some (recode_commit f drv)) w m = cache_insert c sql s (Some drv) w m" for c w m
    unfolding cache_insert_def recode_others ..
  ultimately show ?thesis unfolding c2sql_internal_cache_put_def recode_others by presburger
qed

lemma recode_bind_cols [simp]: "bind_cols (recode_commit f drv) s i cols row nm w = bind_cols drv s i cols row nm w"
  by (induction cols arbitrary: i w) (simp_all cong: if_cong)

lemma recode_write_rows [simp]: "write_rows (recode_commit f drv) s schema rows stride nms i n w = write_rows drv s schema rows stride nms i n w"
  by (induction n arbitrary: i w) (simp_all add: c2sql_internal_tm_bind_row_def cong: if_cong option.case_cong)

lemma recode_get:
  assumes "driver h = Some drv"
  shows "get_or_prepare (with_recoded f drv h) sql w m =
    do { (r, st, owned, h, w, m) \<leftarrow> get_or_prepare h sql w m; Some (r, st, owned, with_recoded f drv h, w, m) }"
  using assms by (auto simp: get_or_prepare_def Let_def split: Option.bind_splits)

lemma recode_build:
  assumes "driver h = Some drv"
  shows "build_and_get (with_recoded f drv h) spec w m =
    do { (r, st, h, w, m) \<leftarrow> build_and_get h spec w m; Some (r, st, with_recoded f drv h, w, m) }"
  using assms by (auto simp: build_and_get_def recode_get Let_def split: Option.bind_splits)

lemma recode_locked:
  assumes "\<And>mx. body' (with_recoded f drv (h\<lparr>mutex := mx\<rparr>)) =
    do { (r, g, s) \<leftarrow> body (h\<lparr>mutex := mx\<rparr>); Some (r, with_recoded f drv g, s) }"
  shows "locked (with_recoded f drv h) body' = do { (r, g, s) \<leftarrow> locked h body; Some (r, with_recoded f drv g, s) }"
proof (cases "c2sql_internal_mutex_lock (mutex h)")
  case (Some mx)
  have "(with_recoded f drv h)\<lparr>mutex := mx\<rparr> = with_recoded f drv (h\<lparr>mutex := mx\<rparr>)" by simp
  then have "body' ((with_recoded f drv h)\<lparr>mutex := mx\<rparr>) = do { (r, g, s) \<leftarrow> body (h\<lparr>mutex := mx\<rparr>); Some (r, with_recoded f drv g, s) }"
    by (simp only: assms [of mx])
  then show ?thesis using Some
    by (cases "body (h\<lparr>mutex := mx\<rparr>)") (auto simp: locked_def lock_handle_def unlock_handle_def split: Option.bind_splits)
qed (simp add: locked_def lock_handle_def)

lemma recode_schema:
  assumes "\<And>schema. body' schema = do { (r, g, s) \<leftarrow> body schema; Some (r, with_recoded f drv g, s) }"
  shows "with_schema (with_recoded f drv h) fname name out body' =
    do { (r, g, s) \<leftarrow> with_schema h fname name out body; Some (r, with_recoded f drv g, s) }"
proof -
  have "c2sql_internal_schema_lookup (with_recoded f drv h) (Some name) = c2sql_internal_schema_lookup h (Some name)"
    by (simp add: c2sql_internal_schema_lookup_def c2sql_handle_valid_def)
  then show ?thesis using assms by (auto simp: with_schema_def set_error_def split: option.splits Option.bind_splits)
qed

lemma recode_release: "driver h = Some drv \<Longrightarrow> release_cached_stmt (with_recoded f drv h) s owned w = release_cached_stmt h s owned w"
  by (simp add: release_cached_stmt_def)

lemma WriteMany_recode:
  assumes "driver h = Some drv"
  shows "SqlRDBWriteMany (with_recoded f drv h) name rows n stride nms w m =
    do { (r, g, s) \<leftarrow> SqlRDBWriteMany h name rows n stride nms w m; Some (r, with_recoded f drv g, s) }"
proof -
  have valid: "c2sql_handle_valid (Some (with_recoded f drv h)) = c2sql_handle_valid (Some h)" by (simp add: c2sql_handle_valid_def)
  have commit: "drv_commit (recode_commit f drv) ctx w = do { (r, w) \<leftarrow> drv_commit drv ctx w; Some (f r, w) }" for ctx w
    by (simp add: recode_commit_def)
  have keep: "driver g = Some drv" if "build_and_get (h\<lparr>mutex := mx\<rparr>) spec w m = Some (r, st, g, w', m')" for mx spec r st g w' m'
    using that ensuresD [OF build_and_get_frame that] assms by (auto simp: keeps_handle_def)
  show ?thesis
  proof (cases "c2sql_handle_valid (Some h) \<and> (\<exists>nm bs. name = Some nm \<and> rows = Some bs) \<and> n \<noteq> 0 \<and> stride \<noteq> 0")
    case False
    then show ?thesis unfolding SqlRDBWriteMany_def valid by (auto split: option.splits)
  next
    case True
    then obtain nm bs where a: "c2sql_handle_valid (Some h)" "name = Some nm" "rows = Some bs" "n \<noteq> 0" "stride \<noteq> 0" by blast
    show ?thesis unfolding SqlRDBWriteMany_def valid a(2,3) option.case prod.case
    proof (simp only: a not_True_eq_False if_False simp_thms, rule recode_locked, rule recode_schema, goal_cases)
      case (1 mx schema)
      show ?case
      proof (cases "build_and_get (h\<lparr>mutex := mx\<rparr>) (query (write_op schema) schema None None (drv_dialect drv)) w m")
        case (Some x)
        obtain r st g w1 m1 where x: "x = (r, st, g, w1, m1)" by (metis prod_cases5)
        note K = keep [OF Some [unfolded x]]
        show ?thesis using assms Some K
          by (cases "driver_ctx h")
            (auto simp: x recode_build recode_release commit Let_def cong: if_cong split: option.splits Option.bind_splits)
      qed (use assms in \<open>auto simp: recode_build split: Option.bind_splits\<close>)
    qed
  qed
qed

end
