(* ===== verification/Registry_Safety.thy ===== *)
theory Registry_Safety
  imports Query_Text Crud
begin

text \<open>
  Names that pass the registry's check are safe inside quoted identifiers, and every schema in the
  registry is one the query builder can handle.
\<close>

lemma ident_tail_iff: "ident_tail len s \<longleftrightarrow> (s = [] \<or> len + length s \<le> MAX_IDENT_LEN) \<and> ident_chars s"
  by (induction s arbitrary: len) (auto simp: ident_char_def)

lemma isalpha_iff: "isalpha c \<or> c = CHR ''_'' \<longleftrightarrow> ident_char c \<and> \<not> isdigit c"
  by (auto simp: char_class_defs)

text \<open>The check, as a description of the accepted names.\<close>

definition sql_identifier :: "string \<Rightarrow> bool" where
  "sql_identifier s \<longleftrightarrow> s \<noteq> [] \<and> length s \<le> MAX_IDENT_LEN \<and> ident_chars s \<and> \<not> isdigit (hd s) \<and> map toupper s \<notin> set RESERVED_WORDS"

lemma identifier_valid_iff: "identifier_valid (Some s) \<longleftrightarrow> sql_identifier s"
proof (cases s)
  case (Cons c cs)
  have "(\<not> isalpha c \<and> c \<noteq> CHR ''_'') \<longleftrightarrow> \<not> (ident_char c \<and> \<not> isdigit c)" using isalpha_iff [of c] by blast
  moreover have "Suc 0 \<le> MAX_IDENT_LEN" by (simp add: MAX_IDENT_LEN_def)
  ultimately show ?thesis using Cons by (auto simp: identifier_valid_def sql_identifier_def ident_tail_iff)
qed (simp add: identifier_valid_def sql_identifier_def)

lemma identifier_chars: "identifier_valid (Some s) \<Longrightarrow> ident_chars s"
  by (simp add: identifier_valid_iff sql_identifier_def)

lemma schema_ok_idents: "schema_ok s \<Longrightarrow> schema_idents s"
  by (auto simp: schema_ok_def schema_idents_def column_ok_def list_all_iff intro: identifier_chars [unfolded list_all_iff, rule_format])

lemma pk_of_bounds: "pk_of cols < int (length cols)"
  by (auto simp: pk_of_def find_index_Some split: option.splits)

text \<open>The specification of a write is one the builder accepts.\<close>

lemma schema_ok_write: "schema_ok s \<Longrightarrow> spec_ok (write_op s) (query (write_op s) s None None d)"
  using pk_of_bounds [of "sch_cols s"] by (auto simp: write_op_def query_def schema_ok_def)

lemma query_idents: "schema_ok s \<Longrightarrow> spec_idents (query oper s cond target d)"
  by (simp add: spec_idents_def query_def schema_ok_idents)

section \<open>Lookup\<close>

text \<open>What a name leads to.\<close>

definition registered :: "'w SqlRDBHandle \<Rightarrow> string \<Rightarrow> SqlRDBSchema option" where
  "registered h name =
     (case c2sql_internal_schema_lookup h (Some name) of None \<Rightarrow> None | Some p \<Rightarrow> schema_at (registry h) p)"

lemma registered_find:
  assumes "c2sql_handle_valid (Some h)"
  shows "registered h name = find (\<lambda>s. sch_name s = name) (reg_entries (registry h))"
proof (cases "c2sql_internal_schema_lookup h (Some name)")
  case None
  then have "name \<notin> sch_name ` set (reg_entries (registry h))" using schema_lookup_None [OF assms] by simp
  then have "find (\<lambda>s. sch_name s = name) (reg_entries (registry h)) = None" unfolding find_None_iff by blast
  then show ?thesis using None by (simp add: registered_def)
next
  case (Some p)
  then obtain i where i: "find_index (\<lambda>s. sch_name s = name) (reg_entries (registry h)) = Some i" "p = (reg_block (registry h), i)"
    using assms by (auto simp: c2sql_internal_schema_lookup_def)
  have at: "i < length (reg_entries (registry h))" "sch_name (reg_entries (registry h) ! i) = name"
    "\<forall>j < i. sch_name (reg_entries (registry h) ! j) \<noteq> name"
    using i(1) by (auto simp: find_index_Some)
  then have "find (\<lambda>s. sch_name s = name) (reg_entries (registry h)) = Some (reg_entries (registry h) ! i)"
    unfolding find_Some_iff by blast
  then show ?thesis using Some i(2) at(1) by (simp add: registered_def schema_at_def nth_opt_def)
qed

lemma registered_after_register:
  assumes ok: "registry_ok (registry h)" and v: "c2sql_handle_valid (Some h)" and n: "n \<le> length cols" "n \<noteq> 0"
    and run: "c2sql_internal_schema_register h (Some name) (Some cols) n m = Some (SQL_RDB_OK, h', m')"
  shows "registered h' name = Some (schema_of name (take n cols)) \<and>
         (\<forall>other. other \<noteq> name \<longrightarrow> registered h' other = registered h other) \<and>
         reg_entries (registry (snd (c2sql_internal_schema_unregister h' (Some name)))) = reg_entries (registry h)"
proof -
  let ?s = "schema_of name (take n cols)"
  have cap: "length (reg_entries (registry h)) \<le> reg_capacity (registry h)" using ok by (simp add: registry_ok_def)
  have es: "reg_entries (registry h') = reg_entries (registry h) @ [?s]"
    and new: "name \<notin> sch_name ` set (reg_entries (registry h))"
    using schema_register_cases [OF v n cap, of name m] run by (auto simp: register_args_ok_def)
  have v': "c2sql_handle_valid (Some h')"
    using ensuresD [OF schema_register_only run] v by (simp add: registry_only_def c2sql_handle_valid_def)
  have dist: "distinct (map sch_name (reg_entries (registry h')))"
    using registry_ok_register [OF ok v n(1) run] by (simp add: registry_ok_def)
  have "find (\<lambda>s. sch_name s = name) (reg_entries (registry h)) = None" using new by (auto simp: find_None_iff)
  moreover have "find P (xs @ [x]) = (case find P xs of None \<Rightarrow> if P x then Some x else None | Some y \<Rightarrow> Some y)"
    for P and xs :: "SqlRDBSchema list" and x by (induction xs) auto
  moreover have "filter (\<lambda>s. sch_name s \<noteq> name) (reg_entries (registry h)) = reg_entries (registry h)"
    using new by (auto simp: filter_id_conv)
  ultimately show ?thesis using schema_unregister_filter [OF v' dist, of name]
    by (auto simp: registered_find [OF v] registered_find [OF v'] es schema_of_def split: option.splits)
qed

end
