(* ===== verification/Sqlite_Driver.thy ===== *)
theory Sqlite_Driver
  imports Lifecycle
begin

text \<open>
  The SQLite driver of \<^verbatim>\<open>src/sqlite_driver.c\<close>. The SQLite library is a parameter: a record of
  the functions the driver calls, over a library state \<open>'s\<close>; a call that the library leaves
  undefined (a finalized statement) is \<open>None\<close>.
\<close>

section \<open>The SQLite API\<close>

datatype sqlite_rc = SQLITE_OK | SQLITE_ROW | SQLITE_DONE | SQLITE_NOMEM | SQLITE_OTHER int

record 's sqlite3_api =
  sqlite3_open_v2 :: "string \<Rightarrow> 's \<Rightarrow> sqlite_rc \<times> ptr option \<times> 's"
  sqlite3_close_v2 :: "ptr \<Rightarrow> 's \<Rightarrow> (sqlite_rc \<times> 's) option"
  sqlite3_exec :: "ptr \<Rightarrow> string \<Rightarrow> 's \<Rightarrow> (sqlite_rc \<times> 's) option"
  sqlite3_changes :: "ptr \<Rightarrow> 's \<Rightarrow> int option"
  sqlite3_prepare_v2 :: "ptr \<Rightarrow> string \<Rightarrow> 's \<Rightarrow> (sqlite_rc \<times> ptr option \<times> 's) option"
  sqlite3_bind_int64 :: "ptr \<Rightarrow> int \<Rightarrow> 64 word \<Rightarrow> 's \<Rightarrow> (sqlite_rc \<times> 's) option"
  sqlite3_bind_int :: "ptr \<Rightarrow> int \<Rightarrow> 32 word \<Rightarrow> 's \<Rightarrow> (sqlite_rc \<times> 's) option"
  sqlite3_bind_double :: "ptr \<Rightarrow> int \<Rightarrow> 64 word \<Rightarrow> 's \<Rightarrow> (sqlite_rc \<times> 's) option"
  sqlite3_bind_text :: "ptr \<Rightarrow> int \<Rightarrow> char list option \<Rightarrow> int \<Rightarrow> 's \<Rightarrow> (sqlite_rc \<times> 's) option"
  sqlite3_bind_blob :: "ptr \<Rightarrow> int \<Rightarrow> char list option \<Rightarrow> int \<Rightarrow> 's \<Rightarrow> (sqlite_rc \<times> 's) option"
  sqlite3_bind_null :: "ptr \<Rightarrow> int \<Rightarrow> 's \<Rightarrow> (sqlite_rc \<times> 's) option"
  sqlite3_step :: "ptr \<Rightarrow> 's \<Rightarrow> (sqlite_rc \<times> 's) option"
  sqlite3_column_int64 :: "ptr \<Rightarrow> int \<Rightarrow> 's \<Rightarrow> (64 word \<times> 's) option"
  sqlite3_column_double :: "ptr \<Rightarrow> int \<Rightarrow> 's \<Rightarrow> (64 word \<times> 's) option"
  sqlite3_column_text :: "ptr \<Rightarrow> int \<Rightarrow> 's \<Rightarrow> (char list option \<times> 's) option"
  sqlite3_column_blob :: "ptr \<Rightarrow> int \<Rightarrow> 's \<Rightarrow> (char list option \<times> 's) option"
  sqlite3_column_bytes :: "ptr \<Rightarrow> int \<Rightarrow> 's \<Rightarrow> (int \<times> 's) option"
  sqlite3_column_isnull :: "ptr \<Rightarrow> int \<Rightarrow> 's \<Rightarrow> bool option" \<comment> \<open>\<^verbatim>\<open>sqlite3_column_type(...) == SQLITE_NULL\<close>\<close>
  sqlite3_reset :: "ptr \<Rightarrow> 's \<Rightarrow> (sqlite_rc \<times> 's) option"
  sqlite3_finalize :: "ptr \<Rightarrow> 's \<Rightarrow> (sqlite_rc \<times> 's) option"

section \<open>Error translation\<close>

fun map_open_error :: "sqlite_rc \<Rightarrow> SqlRDBResult" where
  "map_open_error SQLITE_OK = SQL_RDB_OK"
| "map_open_error SQLITE_NOMEM = SQL_RDB_ERR_NO_MEMORY"
| "map_open_error _ = SQL_RDB_ERR_DB_OPEN"

fun map_error :: "sqlite_rc \<Rightarrow> SqlRDBResult" where
  "map_error SQLITE_OK = SQL_RDB_OK"
| "map_error SQLITE_DONE = SQL_RDB_OK"
| "map_error SQLITE_ROW = SQL_RDB_OK"
| "map_error SQLITE_NOMEM = SQL_RDB_ERR_NO_MEMORY"
| "map_error _ = SQL_RDB_ERR_DRIVER"

definition mapped :: "(sqlite_rc \<times> 's) option \<Rightarrow> (SqlRDBResult \<times> 's) option" where
  "mapped x = map_option (\<lambda>(rc, s). (map_error rc, s)) x"

section \<open>Connection and transactions\<close>

definition sqlite_open :: "'s sqlite3_api \<Rightarrow> string \<Rightarrow> 's \<Rightarrow> (SqlRDBResult \<times> ptr option \<times> 's) option" where
  "sqlite_open api dsn w =
     (let (rc, db, w) = sqlite3_open_v2 api dsn w in
      if rc \<noteq> SQLITE_OK then
        case db of None \<Rightarrow> Some (map_open_error rc, None, w)
        | Some d \<Rightarrow> do { (rc2, w) \<leftarrow> sqlite3_close_v2 api d w; Some (map_open_error rc, None, w) }
      else Some (SQL_RDB_OK, db, w))"

definition sqlite_close :: "'s sqlite3_api \<Rightarrow> ptr \<Rightarrow> 's \<Rightarrow> (SqlRDBResult \<times> 's) option" where
  "sqlite_close api ctx w = mapped (sqlite3_close_v2 api ctx w)"

definition sqlite_exec :: "'s sqlite3_api \<Rightarrow> ptr \<Rightarrow> string \<Rightarrow> 's \<Rightarrow> (SqlRDBResult \<times> 's) option" where
  "sqlite_exec api ctx sql w = mapped (sqlite3_exec api ctx sql w)"

text \<open>\<^verbatim>\<open>snprintf\<close> into the 256-byte buffer, the format being a prefix and the name.\<close>

definition exec_fmt :: "'s sqlite3_api \<Rightarrow> ptr \<Rightarrow> string \<Rightarrow> string \<Rightarrow> 's \<Rightarrow> (SqlRDBResult \<times> 's) option" where
  "exec_fmt api ctx prefix name w = sqlite_exec api ctx (take 255 (prefix @ name)) w"

definition sqlite_begin :: "'s sqlite3_api \<Rightarrow> ptr \<Rightarrow> 's \<Rightarrow> (SqlRDBResult \<times> 's) option" where
  "sqlite_begin api ctx w = sqlite_exec api ctx ''BEGIN'' w"

definition sqlite_commit :: "'s sqlite3_api \<Rightarrow> ptr \<Rightarrow> 's \<Rightarrow> (SqlRDBResult \<times> 's) option" where
  "sqlite_commit api ctx w = sqlite_exec api ctx ''COMMIT'' w"

definition sqlite_rollback :: "'s sqlite3_api \<Rightarrow> ptr \<Rightarrow> 's \<Rightarrow> (SqlRDBResult \<times> 's) option" where
  "sqlite_rollback api ctx w = sqlite_exec api ctx ''ROLLBACK'' w"

definition sqlite_savepoint :: "'s sqlite3_api \<Rightarrow> ptr \<Rightarrow> string \<Rightarrow> 's \<Rightarrow> (SqlRDBResult \<times> 's) option" where
  "sqlite_savepoint api ctx name w = exec_fmt api ctx ''SAVEPOINT '' name w"

definition sqlite_release_sp :: "'s sqlite3_api \<Rightarrow> ptr \<Rightarrow> string \<Rightarrow> 's \<Rightarrow> (SqlRDBResult \<times> 's) option" where
  "sqlite_release_sp api ctx name w = exec_fmt api ctx ''RELEASE SAVEPOINT '' name w"

definition sqlite_rollback_sp :: "'s sqlite3_api \<Rightarrow> ptr \<Rightarrow> string \<Rightarrow> 's \<Rightarrow> (SqlRDBResult \<times> 's) option" where
  "sqlite_rollback_sp api ctx name w = exec_fmt api ctx ''ROLLBACK TO SAVEPOINT '' name w"

definition sqlite_changes :: "'s sqlite3_api \<Rightarrow> ptr \<Rightarrow> 's \<Rightarrow> (int \<times> 's) option" where
  "sqlite_changes api ctx w = do { n \<leftarrow> sqlite3_changes api ctx w; Some (n, w) }"

section \<open>Statements\<close>

definition sqlite_prepare :: "'s sqlite3_api \<Rightarrow> ptr \<Rightarrow> string \<Rightarrow> 's \<Rightarrow> (SqlRDBResult \<times> ptr option \<times> 's) option" where
  "sqlite_prepare api ctx sql w =
     do {
       (rc, stmt, w) \<leftarrow> sqlite3_prepare_v2 api ctx sql w;
       if rc \<noteq> SQLITE_OK then Some (SQL_RDB_ERR_DRIVER, None, w) else Some (SQL_RDB_OK, stmt, w)
     }"

definition sqlite_bind_int64 :: "'s sqlite3_api \<Rightarrow> ptr \<Rightarrow> int \<Rightarrow> 64 word \<Rightarrow> 's \<Rightarrow> (SqlRDBResult \<times> 's) option" where
  "sqlite_bind_int64 api stmt index v w = mapped (sqlite3_bind_int64 api stmt index v w)"

definition sqlite_bind_int32 :: "'s sqlite3_api \<Rightarrow> ptr \<Rightarrow> int \<Rightarrow> 32 word \<Rightarrow> 's \<Rightarrow> (SqlRDBResult \<times> 's) option" where
  "sqlite_bind_int32 api stmt index v w = mapped (sqlite3_bind_int api stmt index v w)"

definition sqlite_bind_real :: "'s sqlite3_api \<Rightarrow> ptr \<Rightarrow> int \<Rightarrow> 64 word \<Rightarrow> 's \<Rightarrow> (SqlRDBResult \<times> 's) option" where
  "sqlite_bind_real api stmt index v w = mapped (sqlite3_bind_double api stmt index v w)"

definition sqlite_bind_text :: "'s sqlite3_api \<Rightarrow> ptr \<Rightarrow> int \<Rightarrow> char list option \<Rightarrow> int \<Rightarrow> 's \<Rightarrow> (SqlRDBResult \<times> 's) option" where
  "sqlite_bind_text api stmt index v len w = mapped (sqlite3_bind_text api stmt index v len w)"

text \<open>The length is cast to \<^verbatim>\<open>int\<close>.\<close>

definition sqlite_bind_blob :: "'s sqlite3_api \<Rightarrow> ptr \<Rightarrow> int \<Rightarrow> char list option \<Rightarrow> nat \<Rightarrow> 's \<Rightarrow> (SqlRDBResult \<times> 's) option" where
  "sqlite_bind_blob api stmt index v len w =
     mapped (sqlite3_bind_blob api stmt index v (sint (word_of_nat len :: 32 word)) w)"

definition sqlite_bind_null :: "'s sqlite3_api \<Rightarrow> ptr \<Rightarrow> int \<Rightarrow> 's \<Rightarrow> (SqlRDBResult \<times> 's) option" where
  "sqlite_bind_null api stmt index w = mapped (sqlite3_bind_null api stmt index w)"

definition sqlite_step :: "'s sqlite3_api \<Rightarrow> ptr \<Rightarrow> 's \<Rightarrow> (SqlRDBResult \<times> bool \<times> 's) option" where
  "sqlite_step api stmt w =
     do {
       (rc, w) \<leftarrow> sqlite3_step api stmt w;
       if rc = SQLITE_ROW then Some (SQL_RDB_OK, True, w)
       else if rc = SQLITE_DONE then Some (SQL_RDB_OK, False, w)
       else Some (SQL_RDB_ERR_DRIVER, False, w)
     }"

definition sqlite_column_int64 :: "'s sqlite3_api \<Rightarrow> ptr \<Rightarrow> int \<Rightarrow> 's \<Rightarrow> (SqlRDBResult \<times> 64 word \<times> 's) option" where
  "sqlite_column_int64 api stmt index w = do { (v, w) \<leftarrow> sqlite3_column_int64 api stmt index w; Some (SQL_RDB_OK, v, w) }"

definition sqlite_column_int32 :: "'s sqlite3_api \<Rightarrow> ptr \<Rightarrow> int \<Rightarrow> 's \<Rightarrow> (SqlRDBResult \<times> 32 word \<times> 's) option" where
  "sqlite_column_int32 api stmt index w =
     do { (v, w) \<leftarrow> sqlite3_column_int64 api stmt index w; Some (SQL_RDB_OK, ucast v, w) }"

definition sqlite_column_real :: "'s sqlite3_api \<Rightarrow> ptr \<Rightarrow> int \<Rightarrow> 's \<Rightarrow> (SqlRDBResult \<times> 64 word \<times> 's) option" where
  "sqlite_column_real api stmt index w = do { (v, w) \<leftarrow> sqlite3_column_double api stmt index w; Some (SQL_RDB_OK, v, w) }"

definition sqlite_column_text ::
  "'s sqlite3_api \<Rightarrow> ptr \<Rightarrow> int \<Rightarrow> 's \<Rightarrow> (SqlRDBResult \<times> char list option \<times> nat \<times> 's) option" where
  "sqlite_column_text api stmt index w =
     do {
       (p, w) \<leftarrow> sqlite3_column_text api stmt index w;
       (n, w) \<leftarrow> sqlite3_column_bytes api stmt index w;
       Some (SQL_RDB_OK, p, nat (n mod 2 ^ 64), w)
     }"

definition sqlite_column_blob ::
  "'s sqlite3_api \<Rightarrow> ptr \<Rightarrow> int \<Rightarrow> 's \<Rightarrow> (SqlRDBResult \<times> char list option \<times> nat \<times> 's) option" where
  "sqlite_column_blob api stmt index w =
     do {
       (p, w) \<leftarrow> sqlite3_column_blob api stmt index w;
       (n, w) \<leftarrow> sqlite3_column_bytes api stmt index w;
       Some (SQL_RDB_OK, p, nat (n mod 2 ^ 64), w)
     }"

definition sqlite_column_isnull :: "'s sqlite3_api \<Rightarrow> ptr \<Rightarrow> int \<Rightarrow> 's \<Rightarrow> (SqlRDBResult \<times> bool \<times> 's) option" where
  "sqlite_column_isnull api stmt index w = do { b \<leftarrow> sqlite3_column_isnull api stmt index w; Some (SQL_RDB_OK, b, w) }"

definition sqlite_reset :: "'s sqlite3_api \<Rightarrow> ptr \<Rightarrow> 's \<Rightarrow> (SqlRDBResult \<times> 's) option" where
  "sqlite_reset api stmt w = mapped (sqlite3_reset api stmt w)"

definition sqlite_finalize :: "'s sqlite3_api \<Rightarrow> ptr \<Rightarrow> 's \<Rightarrow> (SqlRDBResult \<times> 's) option" where
  "sqlite_finalize api stmt w = mapped (sqlite3_finalize api stmt w)"

definition g_sqlite3_driver :: "'s sqlite3_api \<Rightarrow> 's SqlRDBDriver" where
  "g_sqlite3_driver api =
     \<lparr>drv_name = ''sqlite3'', drv_dialect = C2SQL_DIALECT_SQLITE, drv_open = sqlite_open api, drv_close = sqlite_close api,
      drv_exec = sqlite_exec api, drv_prepare = sqlite_prepare api, drv_bind_int64 = sqlite_bind_int64 api,
      drv_bind_int32 = sqlite_bind_int32 api, drv_bind_real = sqlite_bind_real api, drv_bind_text = sqlite_bind_text api,
      drv_bind_blob = sqlite_bind_blob api, drv_bind_null = sqlite_bind_null api, drv_step = sqlite_step api,
      drv_column_int64 = sqlite_column_int64 api, drv_column_int32 = sqlite_column_int32 api,
      drv_column_real = sqlite_column_real api, drv_column_text = sqlite_column_text api,
      drv_column_blob = sqlite_column_blob api, drv_column_isnull = sqlite_column_isnull api, drv_reset = sqlite_reset api,
      drv_finalize = sqlite_finalize api, drv_begin = sqlite_begin api, drv_commit = sqlite_commit api,
      drv_rollback = sqlite_rollback api, drv_savepoint = sqlite_savepoint api, drv_release_sp = sqlite_release_sp api,
      drv_rollback_sp = sqlite_rollback_sp api, drv_changes = sqlite_changes api\<rparr>"

section \<open>Transaction control is SQL\<close>

interpretation sqlite_txn: sql_txn_driver "g_sqlite3_driver api" for api
  by unfold_locales
    (simp_all add: g_sqlite3_driver_def sqlite_begin_def sqlite_commit_def sqlite_rollback_def sqlite_savepoint_def
      sqlite_release_sp_def sqlite_rollback_sp_def exec_fmt_def C2SQL_SP_NAME_LEN_def)

section \<open>The open statements\<close>

text \<open>
  What the driver relies on, for the set \<open>live\<close> of statements that SQLite has open: a successful
  \<^verbatim>\<open>sqlite3_prepare_v2\<close> opens a new one (its documentation excepts an empty statement text),
  \<^verbatim>\<open>sqlite3_finalize\<close> closes its argument, and every other call leaves them alone.
\<close>

definition quiet :: "('s \<Rightarrow> ptr set) \<Rightarrow> 's \<Rightarrow> ('a \<times> 's) option \<Rightarrow> bool" where
  "quiet live w x \<longleftrightarrow> ensures x (\<lambda>(a, w'). live w' = live w)"

definition sqlite_opens :: "'s sqlite3_api \<Rightarrow> ('s \<Rightarrow> ptr set) \<Rightarrow> bool" where
  "sqlite_opens api live \<longleftrightarrow>
     (\<forall>db sql w. ensures (sqlite3_prepare_v2 api db sql w) (\<lambda>(rc, st, w').
        if rc = SQLITE_OK then \<exists>s. st = Some s \<and> s \<notin> live w \<and> live w' = insert s (live w) else live w' = live w)) \<and>
     (\<forall>s w. ensures (sqlite3_finalize api s w) (\<lambda>(rc, w'). live w' = live w - {s}))"

definition sqlite_keeps :: "'s sqlite3_api \<Rightarrow> ('s \<Rightarrow> ptr set) \<Rightarrow> bool" where
  "sqlite_keeps api live \<longleftrightarrow>
     (\<forall>db w. quiet live w (sqlite3_close_v2 api db w)) \<and>
     (\<forall>db sql w. quiet live w (sqlite3_exec api db sql w)) \<and>
     (\<forall>s w. quiet live w (sqlite3_reset api s w)) \<and> (\<forall>s w. quiet live w (sqlite3_step api s w)) \<and>
     (\<forall>s i v w. quiet live w (sqlite3_bind_int64 api s i v w)) \<and>
     (\<forall>s i v w. quiet live w (sqlite3_bind_int api s i v w)) \<and>
     (\<forall>s i v w. quiet live w (sqlite3_bind_double api s i v w)) \<and>
     (\<forall>s i v n w. quiet live w (sqlite3_bind_text api s i v n w)) \<and>
     (\<forall>s i v n w. quiet live w (sqlite3_bind_blob api s i v n w)) \<and>
     (\<forall>s i w. quiet live w (sqlite3_bind_null api s i w)) \<and>
     (\<forall>s i w. quiet live w (sqlite3_column_int64 api s i w)) \<and>
     (\<forall>s i w. quiet live w (sqlite3_column_double api s i w)) \<and>
     (\<forall>s i w. quiet live w (sqlite3_column_text api s i w)) \<and>
     (\<forall>s i w. quiet live w (sqlite3_column_blob api s i w)) \<and>
     (\<forall>s i w. quiet live w (sqlite3_column_bytes api s i w))"

lemma quiet_mapped: "quiet live w x \<Longrightarrow> ensures (mapped x) (\<lambda>(r, w'). live w' = live w)"
  by (cases x) (auto simp: quiet_def mapped_def)

lemma quiet_ensures: "quiet live w x \<Longrightarrow> (\<And>a w'. live w' = live w \<Longrightarrow> P (a, w')) \<Longrightarrow> ensures x P"
  by (cases x) (auto simp: quiet_def)

lemmas sqlite_thin_ops = g_sqlite3_driver_def sqlite_close_def sqlite_begin_def sqlite_commit_def sqlite_rollback_def sqlite_exec_def
  sqlite_bind_int64_def sqlite_bind_int32_def sqlite_bind_real_def sqlite_bind_text_def sqlite_bind_blob_def
  sqlite_bind_null_def sqlite_reset_def sqlite_finalize_def sqlite_changes_def sqlite_column_isnull_def
  sqlite_savepoint_def sqlite_release_sp_def sqlite_rollback_sp_def exec_fmt_def

lemma sqlite_prepare_live:
  assumes "sqlite_opens api live"
  shows "ensures (sqlite_prepare api db sql w) (\<lambda>(r, st, w').
     if r = SQL_RDB_OK then \<exists>s. st = Some s \<and> s \<notin> live w \<and> live w' = insert s (live w) else live w' = live w)"
proof -
  have "ensures (sqlite3_prepare_v2 api db sql w) (\<lambda>(rc, st, w').
      if rc = SQLITE_OK then \<exists>s. st = Some s \<and> s \<notin> live w \<and> live w' = insert s (live w) else live w' = live w)"
    using assms by (simp add: sqlite_opens_def)
  then show ?thesis unfolding sqlite_prepare_def ensures_simps by (rule ensures_mono) (auto split: if_splits)
qed

lemma sqlite_finalize_live:
  assumes "sqlite_opens api live"
  shows "ensures (sqlite_finalize api s w) (\<lambda>(r, w'). live w' = live w - {s})"
proof -
  have "ensures (sqlite3_finalize api s w) (\<lambda>(rc, w'). live w' = live w - {s})" using assms by (simp add: sqlite_opens_def)
  then show ?thesis by (cases "sqlite3_finalize api s w") (auto simp: sqlite_finalize_def mapped_def)
qed

lemma sqlite_step_live:
  assumes "sqlite_keeps api live"
  shows "ensures (sqlite_step api s w) (\<lambda>(r, b, w'). live w' = live w)"
  unfolding sqlite_step_def ensures_simps
  by (rule quiet_ensures [of live w]) (use assms in \<open>auto simp: sqlite_keeps_def\<close>)

lemma sqlite_column_live:
  assumes "sqlite_keeps api live"
  shows "ensures (sqlite_column_int64 api s i w) (\<lambda>(r, v, w'). live w' = live w)"
    and "ensures (sqlite_column_int32 api s i w) (\<lambda>(r, v, w'). live w' = live w)"
    and "ensures (sqlite_column_real api s i w) (\<lambda>(r, v, w'). live w' = live w)"
    and "ensures (sqlite_column_text api s i w) (\<lambda>(r, p, n, w'). live w' = live w)"
    and "ensures (sqlite_column_blob api s i w) (\<lambda>(r, p, n, w'). live w' = live w)"
proof -
  have "quiet live w (sqlite3_column_int64 api s i w)" "quiet live w (sqlite3_column_double api s i w)"
    "quiet live w (sqlite3_column_text api s i w)" "quiet live w (sqlite3_column_blob api s i w)"
    "quiet live w (sqlite3_column_bytes api s i w)" for w
    using assms by (simp_all add: sqlite_keeps_def)
  note col = this [THEN quiet_ensures]
  show "ensures (sqlite_column_int64 api s i w) (\<lambda>(r, v, w'). live w' = live w)"
    "ensures (sqlite_column_int32 api s i w) (\<lambda>(r, v, w'). live w' = live w)"
    "ensures (sqlite_column_real api s i w) (\<lambda>(r, v, w'). live w' = live w)"
    unfolding sqlite_column_int64_def sqlite_column_int32_def sqlite_column_real_def by (auto intro: col(1,2))
  show "ensures (sqlite_column_text api s i w) (\<lambda>(r, p, n, w'). live w' = live w)"
    unfolding sqlite_column_text_def ensures_simps by (rule col(3)) (clarsimp, rule col(5), simp)
  show "ensures (sqlite_column_blob api s i w) (\<lambda>(r, p, n, w'). live w' = live w)"
    unfolding sqlite_column_blob_def ensures_simps by (rule col(4)) (clarsimp, rule col(5), simp)
qed

lemma sqlite_stmt_driver:
  assumes "sqlite_opens api live" and "sqlite_keeps api live"
  shows "stmt_driver (g_sqlite3_driver api) live"
  by unfold_locales
    (use assms(2) in \<open>simp_all add: sqlite_thin_ops sqlite_keeps_def quiet_mapped sqlite_column_live [OF assms(2)]
      sqlite_step_live [OF assms(2)] sqlite_prepare_live [OF assms(1)]
      sqlite_finalize_live [OF assms(1), unfolded sqlite_finalize_def] ensuresI\<close>)

end
