(* ===== verification/Examples.thy ===== *)
theory Examples
  imports Cache_Trace Service Query_Params Postgres_Rows Crud_Correct Registry_Safety Sqlite_Driver
begin

text \<open>Concrete data on which the properties of the development are instantiated.\<close>

definition demo_cols :: "column list" where
  "demo_cols =
     [\<lparr>col_name = ''id'', col_type = SQL_TYPE_INT64, col_offset = 0, col_size = 8, col_flags = 1\<rparr>,
      \<lparr>col_name = ''name'', col_type = SQL_TYPE_TEXT, col_offset = 8, col_size = 4, col_flags = 2\<rparr>]"

definition demo_schema :: SqlRDBSchema where
  "demo_schema = \<lparr>sch_name = ''person'', sch_cols = demo_cols, pk_index = 0\<rparr>"

definition demo_cond :: SqlRDBCondition where
  "demo_cond = COND_AND (COND_LEAF ''id'' SQL_OP_GE (CV_int 7)) (COND_LEAF ''name'' SQL_OP_NE (CV_text ''x''))"

definition demo_select :: "C2SqlDialect \<Rightarrow> SqlRDBQuerySpec" where
  "demo_select d = query C2SQL_QB_SELECT demo_schema (Some demo_cond) None d"

lemma demo_select_ok: "spec_ok (qs_op (demo_select d)) (demo_select d)" "spec_idents (demo_select d)"
  by (simp_all add: demo_select_def query_def demo_schema_def demo_cols_def spec_idents_def schema_idents_def char_class_defs)

section \<open>A small SQLite\<close>

text \<open>
  A database that answers every statement text from a table of rows and runs every command, except
  that \<^verbatim>\<open>COMMIT\<close> may fail: the open statements, the text and the row a statement is at,
  and the commands that were run.
\<close>

record demo_db =
  db_open :: "(ptr \<times> string \<times> nat) list"
  db_next :: ptr
  db_log :: "string list"

definition demo_live :: "demo_db \<Rightarrow> ptr set" where
  "demo_live w = {p \<in> set (map fst (db_open w)). p < db_next w}"

definition demo_prepare :: "ptr \<Rightarrow> string \<Rightarrow> demo_db \<Rightarrow> (sqlite_rc \<times> ptr option \<times> demo_db) option" where
  "demo_prepare db sql w =
     Some (SQLITE_OK, Some (db_next w), w\<lparr>db_open := (db_next w, sql, 0) # db_open w, db_next := Suc (db_next w)\<rparr>)"

definition demo_finalize :: "ptr \<Rightarrow> demo_db \<Rightarrow> (sqlite_rc \<times> demo_db) option" where
  "demo_finalize s w = Some (SQLITE_OK, w\<lparr>db_open := filter (\<lambda>e. fst e \<noteq> s) (db_open w)\<rparr>)"

definition demo_step :: "(string \<Rightarrow> cell list list) \<Rightarrow> ptr \<Rightarrow> demo_db \<Rightarrow> (sqlite_rc \<times> demo_db) option" where
  "demo_step rows s w =
     (case map_of (db_open w) s of None \<Rightarrow> None
      | Some (sql, k) \<Rightarrow>
          Some (if k < length (rows sql) then SQLITE_ROW else SQLITE_DONE,
                w\<lparr>db_open := map (\<lambda>(p, t, i). if p = s then (p, t, Suc i) else (p, t, i)) (db_open w)\<rparr>))"

definition demo_cell :: "(string \<Rightarrow> cell list list) \<Rightarrow> ptr \<Rightarrow> int \<Rightarrow> demo_db \<Rightarrow> cell" where
  "demo_cell rows s i w =
     (case map_of (db_open w) s of None \<Rightarrow> Cell_Null
      | Some (sql, k) \<Rightarrow>
          case nth_opt (rows sql) (k - 1) of None \<Rightarrow> Cell_Null
          | Some r \<Rightarrow> (case nth_opt r (nat i) of None \<Rightarrow> Cell_Null | Some c \<Rightarrow> c))"

definition demo_text :: "cell \<Rightarrow> char list option" where
  "demo_text c = (case c of Cell_Text t \<Rightarrow> Some (t @ [NUL]) | Cell_Blob b \<Rightarrow> Some b | _ \<Rightarrow> None)"

definition demo_bytes :: "cell \<Rightarrow> int" where
  "demo_bytes c = (case c of Cell_Text t \<Rightarrow> int (length t) | Cell_Blob b \<Rightarrow> int (length b) | _ \<Rightarrow> 0)"

definition demo_int :: "cell \<Rightarrow> 64 word" where
  "demo_int c = (case c of Cell_Int v \<Rightarrow> v | Cell_Real v \<Rightarrow> v | _ \<Rightarrow> 0)"

definition demo_sqlite :: "(string \<Rightarrow> cell list list) \<Rightarrow> sqlite_rc \<Rightarrow> demo_db sqlite3_api" where
  "demo_sqlite rows commit_rc =
     \<lparr>sqlite3_open_v2 = (\<lambda>dsn w. (SQLITE_OK, Some 0, w)),
      sqlite3_close_v2 = (\<lambda>db w. Some (SQLITE_OK, w)),
      sqlite3_exec = (\<lambda>db sql w. Some (if sql = ''COMMIT'' then commit_rc else SQLITE_OK, w\<lparr>db_log := db_log w @ [sql]\<rparr>)),
      sqlite3_changes = (\<lambda>db w. Some 1),
      sqlite3_prepare_v2 = demo_prepare,
      sqlite3_bind_int64 = (\<lambda>s i v w. Some (SQLITE_OK, w)),
      sqlite3_bind_int = (\<lambda>s i v w. Some (SQLITE_OK, w)),
      sqlite3_bind_double = (\<lambda>s i v w. Some (SQLITE_OK, w)),
      sqlite3_bind_text = (\<lambda>s i v n w. Some (SQLITE_OK, w)),
      sqlite3_bind_blob = (\<lambda>s i v n w. Some (SQLITE_OK, w)),
      sqlite3_bind_null = (\<lambda>s i w. Some (SQLITE_OK, w)),
      sqlite3_step = demo_step rows,
      sqlite3_column_int64 = (\<lambda>s i w. Some (demo_int (demo_cell rows s i w), w)),
      sqlite3_column_double = (\<lambda>s i w. Some (demo_int (demo_cell rows s i w), w)),
      sqlite3_column_text = (\<lambda>s i w. Some (demo_text (demo_cell rows s i w), w)),
      sqlite3_column_blob = (\<lambda>s i w. Some (demo_text (demo_cell rows s i w), w)),
      sqlite3_column_bytes = (\<lambda>s i w. Some (demo_bytes (demo_cell rows s i w), w)),
      sqlite3_column_isnull = (\<lambda>s i w. Some (demo_cell rows s i w = Cell_Null)),
      sqlite3_reset = (\<lambda>s w. Some (SQLITE_OK, w)),
      sqlite3_finalize = demo_finalize\<rparr>"

lemma demo_sqlite_opens: "sqlite_opens (demo_sqlite rows rc) demo_live"
  by (auto simp: sqlite_opens_def demo_sqlite_def demo_prepare_def demo_finalize_def demo_live_def)

lemma demo_step_live: "demo_step rows s w = Some (r, w') \<Longrightarrow> demo_live w' = demo_live w"
  by (auto simp: demo_step_def demo_live_def image_iff split: option.splits prod.splits if_splits) force+

lemma demo_sqlite_keeps: "sqlite_keeps (demo_sqlite rows rc) demo_live"
proof -
  have "ensures (demo_step rows s w) (\<lambda>(r, w'). demo_live w' = demo_live w)" for s w
    using demo_step_live by (intro ensuresI) blast
  moreover have "demo_live (w\<lparr>db_log := l\<rparr>) = demo_live w" for w l by (simp add: demo_live_def)
  ultimately show ?thesis unfolding sqlite_keeps_def quiet_def by (simp add: demo_sqlite_def)
qed

definition demo_db0 :: demo_db where
  "demo_db0 = \<lparr>db_open = [], db_next = 1, db_log = []\<rparr>"

section \<open>A process with one open handle\<close>

definition demo_backends :: "(string \<Rightarrow> cell list list) \<Rightarrow> sqlite_rc \<Rightarrow> demo_db backends" where
  "demo_backends rows rc = \<lparr>be_sqlite = g_sqlite3_driver (demo_sqlite rows rc), be_postgres = None\<rparr>"

definition demo_process :: "demo_db process" where
  "demo_process = \<lparr>handles = (\<lambda>_. None), next_handle = 7, g_live_handles = [], g_live_capacity = 0, pr_mem = []\<rparr>"

definition demo_mutex :: SqlRDBMutex where
  "demo_mutex = fst (snd (c2sql_internal_mutex_init True []))"

definition demo_cache :: SqlRDBStmtCache where
  "demo_cache = fst (snd (the (c2sql_internal_cache_init 64 [])))"

definition demo_handle :: "(string \<Rightarrow> cell list list) \<Rightarrow> sqlite_rc \<Rightarrow> demo_db SqlRDBHandle" where
  "demo_handle rows rc = new_handle (g_sqlite3_driver (demo_sqlite rows rc)) (Some 0) demo_mutex demo_cache"

lemma demo_process_ok: "process_ok demo_process"
  by (simp add: process_ok_def demo_process_def)

lemma demo_cache_rep: "represents demo_cache []" "capacity demo_cache = 64"
proof -
  have "map_option fst (c2sql_internal_cache_init 64 []) = Some SQL_RDB_OK" by code_simp
  then obtain c m' where c: "c2sql_internal_cache_init 64 [] = Some (SQL_RDB_OK, c, m')" "represents c []" "capacity c = 64"
    using cache_init_refines [of 64 "[]"] by auto
  then show "represents demo_cache []" "capacity demo_cache = 64" by (simp_all add: demo_cache_def)
qed

lemma demo_handle_ok: "handle_ok (demo_handle rows rc)"
  unfolding demo_handle_def
  by (rule new_handle_ok [OF _ demo_cache_rep(1), of "[]" _ "[]"]) (simp add: demo_mutex_def c2sql_internal_mutex_init_def)

lemma demo_driver [simp]: "driver (demo_handle rows rc) = Some (g_sqlite3_driver (demo_sqlite rows rc))"
  "driver_ctx (demo_handle rows rc) = Some 0"
  by (simp_all add: demo_handle_def new_handle_def)

lemma demo_db0_live: "demo_live demo_db0 = {}"
  by (simp add: demo_live_def demo_db0_def)

lemma demo_holds: "holds demo_live (demo_handle rows rc) demo_db0 {}"
  unfolding demo_handle_def by (rule new_handle_holds [where live = demo_live, OF demo_cache_rep(1) demo_db0_live])

lemma demo_open: "open_handle (g_sqlite3_driver (demo_sqlite rows rc)) 0 demo_live (demo_handle rows rc, demo_db0, {})"
  by (simp add: open_handle_def demo_handle_ok demo_holds) (simp add: demo_handle_def new_handle_def logger_quiet_def)

text \<open>The handle after the struct of \<open>demo_schema\<close> was registered.\<close>

definition demo_registered :: "(string \<Rightarrow> cell list list) \<Rightarrow> sqlite_rc \<Rightarrow> demo_db SqlRDBHandle" where
  "demo_registered rows rc = (demo_handle rows rc)\<lparr>registry := \<lparr>reg_entries = [demo_schema], reg_capacity = 8, reg_block = 1\<rparr>\<rparr>"

lemma demo_schema_ok: "schema_ok demo_schema"
  by code_simp

lemma demo_registered_ok: "registry_ok (registry (demo_registered rows rc))" "c2sql_handle_valid (Some (demo_registered rows rc))"
  using demo_schema_ok demo_handle_ok [of rows rc]
  by (simp_all add: registry_ok_def demo_registered_def handle_ok_def c2sql_handle_valid_def)

text \<open>The caller's column definitions of that struct.\<close>

definition demo_args :: "column_arg list" where
  "demo_args =
     [\<lparr>col_name = Some ''id'', col_type = SQL_TYPE_INT64, col_offset = 0, col_size = 8, col_flags = 1\<rparr>,
      \<lparr>col_name = Some ''name'', col_type = SQL_TYPE_TEXT, col_offset = 8, col_size = 4, col_flags = 2\<rparr>]"

text \<open>A struct in memory, a table that holds it with the second column NULL, and a statement at that row.\<close>

definition demo_row :: "char list" where
  "demo_row = le_bytes 8 (5 :: 64 word) @ ''ab'' @ [NUL, NUL]"

definition demo_rows :: "string \<Rightarrow> cell list list" where
  "demo_rows sql = [[Cell_Int 5, Cell_Null]]"

definition demo_stepped :: demo_db where
  "demo_stepped = \<lparr>db_open = [(1, ''SELECT'', 1)], db_next = 2, db_log = []\<rparr>"

lemma demo_serves:
  "drv_column_isnull (g_sqlite3_driver (demo_sqlite demo_rows rc)) 1 0 demo_stepped = Some (SQL_RDB_OK, False, demo_stepped)"
  "drv_column_int64 (g_sqlite3_driver (demo_sqlite demo_rows rc)) 1 0 demo_stepped = Some (SQL_RDB_OK, 5, demo_stepped)"
  "drv_column_isnull (g_sqlite3_driver (demo_sqlite demo_rows rc)) 1 1 demo_stepped = Some (SQL_RDB_OK, True, demo_stepped)"
  by (simp_all add: g_sqlite3_driver_def demo_sqlite_def sqlite_column_isnull_def sqlite_column_int64_def demo_cell_def
    demo_stepped_def demo_rows_def demo_int_def nth_opt_def)

section \<open>A small PostgreSQL\<close>

text \<open>A server that accepts every command and returns no rows; its state is the commands it ran.\<close>

definition demo_pq :: "string list libpq" where
  "demo_pq =
     \<lparr>PQconnectdb = (\<lambda>dsn l. (Some 0, l)), PQstatus_ok = (\<lambda>c l. True), PQfinish = (\<lambda>c l. l),
      PQexec = (\<lambda>c sql l. (Some 0, l @ [sql])), PQexecParams = (\<lambda>c sql ps l. (Some 0, l @ [sql])),
      PQresultStatus = (\<lambda>r l. PGRES_COMMAND_OK), PQcmdTuples = (\<lambda>r l. None), PQntuples = (\<lambda>r l. 0),
      PQgetisnull = (\<lambda>r i j l. True), PQgetvalue = (\<lambda>r i j l. []), PQgetlength = (\<lambda>r i j l. 0),
      PQclear = (\<lambda>r l. l), PQunescapeBytea = (\<lambda>t l. (None, l)), fmt_real = (\<lambda>v. ''0''), strtod = (\<lambda>t. 0)\<rparr>"

definition demo_pg_world :: "string list pg_world" where
  "demo_pg_world = \<lparr>pg_ctxs = [0 \<mapsto> \<lparr>pc_conn = 0, last_changes = 0\<rparr>], pg_stmts = Map.empty, pg_next = 1, pg_lib = [], pg_mem = []\<rparr>"

definition demo_pg_stmt :: PgStmt where
  "demo_pg_stmt =
     \<lparr>ps_ctx = 0, ps_sql = ''INSERT'', ps_params = replicate 2 empty_param, ps_res = None, ps_nrows = 0, ps_row = -1,
      ps_executed = False, ps_blob_tmp = None\<rparr>"

definition demo_pg_handle :: "string list pg_world SqlRDBHandle" where
  "demo_pg_handle = new_handle (g_postgres_driver demo_pq) (Some 0) demo_mutex demo_cache"

lemma demo_pg_handle_ok: "handle_ok demo_pg_handle"
  unfolding demo_pg_handle_def
  by (rule new_handle_ok [OF _ demo_cache_rep(1), of "[]" _ "[]"]) (simp add: demo_mutex_def c2sql_internal_mutex_init_def)

lemma demo_pg_driver [simp]: "driver demo_pg_handle = Some (g_postgres_driver demo_pq)" "driver_ctx demo_pg_handle = Some 0"
  by (simp_all add: demo_pg_handle_def new_handle_def)

lemma demo_pg_live: "pg_live demo_pg_world = {}"
  by (simp add: pg_live_def demo_pg_world_def)

lemma demo_pg_open: "open_handle (g_postgres_driver demo_pq) 0 pg_live (demo_pg_handle, demo_pg_world, {})"
  using new_handle_holds [where live = pg_live, OF demo_cache_rep(1) demo_pg_live, of "g_postgres_driver demo_pq" "Some 0" demo_mutex]
  by (simp add: open_handle_def demo_pg_handle_ok) (simp add: demo_pg_handle_def new_handle_def logger_quiet_def)

section \<open>A database that has the table\<close>

definition demo_tables :: "string \<Rightarrow> cell list list" where
  "demo_tables sql =
     (if sql = ''PRAGMA table_info(\"person\")'' then
        [[Cell_Int 0, Cell_Text ''id'', Cell_Text ''INTEGER'', Cell_Int 1, Cell_Null, Cell_Int 1],
         [Cell_Int 1, Cell_Text ''name'', Cell_Text ''TEXT'', Cell_Int 0, Cell_Null, Cell_Int 0]]
      else if take 22 sql = ''SELECT sql FROM sqlite'' then [[Cell_Text ''CREATE TABLE \"person\" (...) STRICT'']]
      else [])"

section \<open>A server that returns a parameter\<close>

text \<open>The first parameter, without the terminating NUL, is the only value of the only row; its state is that text.\<close>

definition echo_pq :: "string list libpq" where
  "echo_pq = demo_pq
     \<lparr>PQexecParams := (\<lambda>c sql ps l. (Some 0, case ps of [] \<Rightarrow> [] | p # _ \<Rightarrow> (case pv_value p of None \<Rightarrow> [] | Some t \<Rightarrow> [butlast t]))),
      PQresultStatus := (\<lambda>r l. PGRES_TUPLES_OK), PQntuples := (\<lambda>r l. 1), PQgetisnull := (\<lambda>r i j l. l = []),
      PQgetvalue := (\<lambda>r i j l. case l of [] \<Rightarrow> [] | t # _ \<Rightarrow> t)\<rparr>"

definition echo_world :: "string list pg_world" where
  "echo_world = demo_pg_world\<lparr>pg_stmts := [1 \<mapsto> demo_pg_stmt]\<rparr>"

lemma echo_returns: "returns_param echo_pq sql 0 0"
  by (auto simp: returns_param_def echo_pq_def split: list.splits)

section \<open>A database that has the table \<^verbatim>\<open>persons\<close>\<close>

definition persons_tables :: "string \<Rightarrow> cell list list" where
  "persons_tables sql =
     (if sql = ''PRAGMA table_info(\"persons\")'' then
        [[Cell_Int 0, Cell_Text ''id'', Cell_Text ''INTEGER'', Cell_Int 1, Cell_Null, Cell_Int 1],
         [Cell_Int 1, Cell_Text ''name'', Cell_Text ''TEXT'', Cell_Int 1, Cell_Null, Cell_Int 0],
         [Cell_Int 2, Cell_Text ''score'', Cell_Text ''REAL'', Cell_Int 0, Cell_Null, Cell_Int 0]]
      else if take 22 sql = ''SELECT sql FROM sqlite'' then [[Cell_Text ''CREATE TABLE \"persons\" (...) STRICT'']]
      else [])"

section \<open>A struct of two integers\<close>

definition demo_pair :: SqlRDBSchema where
  "demo_pair =
     \<lparr>sch_name = ''item'',
      sch_cols =
        [\<lparr>col_name = ''id'', col_type = SQL_TYPE_INT64, col_offset = 0, col_size = 8, col_flags = 1\<rparr>,
         \<lparr>col_name = ''qty'', col_type = SQL_TYPE_INT64, col_offset = 8, col_size = 8, col_flags = 0\<rparr>],
      pk_index = 0\<rparr>"

definition demo_items :: "sqlite_rc \<Rightarrow> demo_db SqlRDBHandle" where
  "demo_items rc = (demo_handle (\<lambda>_. []) rc)\<lparr>registry := \<lparr>reg_entries = [demo_pair], reg_capacity = 8, reg_block = 1\<rparr>\<rparr>"

definition demo_item :: "char list" where
  "demo_item = le_bytes 8 (5 :: 64 word) @ le_bytes 8 (6 :: 64 word)"

section \<open>A process with a given handle\<close>

definition demo_process_with :: "ptr \<Rightarrow> 'w SqlRDBHandle \<Rightarrow> 'w process" where
  "demo_process_with p h = \<lparr>handles = [p \<mapsto> h], next_handle = Suc p, g_live_handles = [p], g_live_capacity = 8, pr_mem = []\<rparr>"

lemma demo_process_with_ok: "handle_ok h \<Longrightarrow> process_ok (demo_process_with p h)"
  by (simp add: process_ok_def demo_process_with_def)

end
