(* ===== verification/Total_Calls.thy ===== *)
theory Total_Calls
  imports Sessions Registry_Safety
begin

text \<open>
  Total correctness of the row, iterator, blob and transaction calls: on a sound handle, with a
  driver that answers every call on an open statement and with arguments that describe real objects,
  every call returns. It never reads or writes outside an object, never uses a statement that was
  closed, never closes one twice and never blocks on its own mutex.
\<close>

section \<open>A total-correctness judgement\<close>

definition delivers :: "'a option \<Rightarrow> ('a \<Rightarrow> bool) \<Rightarrow> bool" where
  "delivers x P \<longleftrightarrow> (\<exists>a. x = Some a \<and> P a)"

lemma delivers_simps [simp]:
  "delivers (Some a) P \<longleftrightarrow> P a" "\<not> delivers None P"
  "delivers (Option.bind x f) P \<longleftrightarrow> delivers x (\<lambda>a. delivers (f a) P)"
  "delivers (map_option g x) P \<longleftrightarrow> delivers x (\<lambda>a. P (g a))"
  by (auto simp: delivers_def bind_Some_iff)

lemma deliversD: "delivers x P \<Longrightarrow> \<exists>a. x = Some a \<and> P a"
  by (simp add: delivers_def)

lemma delivers_mono: "delivers x P \<Longrightarrow> (\<And>a. P a \<Longrightarrow> Q a) \<Longrightarrow> delivers x Q"
  by (auto simp: delivers_def)

text \<open>A call that returns, with what partial correctness knows of its result.\<close>

lemma delivers_also: "delivers x P \<Longrightarrow> ensures x Q \<Longrightarrow> (\<And>a. P a \<Longrightarrow> Q a \<Longrightarrow> R a) \<Longrightarrow> delivers x R"
  by (auto simp: delivers_def ensures_def)

lemma delivers_alloc: "(\<And>ok m'. delivers (f ok m') P) \<Longrightarrow> delivers (case alloc m of (ok, m') \<Rightarrow> f ok m') P"
  by (cases "alloc m") simp

section \<open>Statements the library prepares\<close>

definition generated :: "C2SqlDialect \<Rightarrow> string \<Rightarrow> bool" where
  "generated d sql \<longleftrightarrow>
     (\<exists>spec. qs_dialect spec = d \<and> spec_ok (qs_op spec) spec \<and> spec_idents spec \<and>
        qb_result (qs_op spec) spec = SQL_RDB_OK \<and> bind_total (qs_op spec) spec < 2 ^ 31 \<and>
        sql = sql_text (qs_op spec) spec)"

lemma qb_build_generated:
  assumes "spec_ok (qs_op spec) spec" and "spec_idents spec" and "bind_total (qs_op spec) spec < 2 ^ 31"
  obtains r sql k m' where "c2sql_internal_qb_build spec m = Some (r, sql, k, m')"
    and "r = SQL_RDB_OK \<Longrightarrow> \<exists>t. sql = Some t \<and> generated (qs_dialect spec) t"
proof -
  obtain r sql k m' where b: "c2sql_internal_qb_build spec m = Some (r, sql, k, m')"
    "r = qb_result (qs_op spec) spec \<or> r = SQL_RDB_ERR_NO_MEMORY"
    "r = SQL_RDB_OK \<longrightarrow> sql = Some (sql_text (qs_op spec) spec)"
    using qb_build_sql [OF assms(1,2), of m] by blast
  have "generated (qs_dialect spec) (sql_text (qs_op spec) spec)" if "r = SQL_RDB_OK"
    unfolding generated_def using assms b(2) that by (intro exI [of _ spec]) auto
  then show ?thesis using that [OF b(1)] b(3) by blast
qed

text \<open>The memory of a text or blob argument covers what the driver reads of it.\<close>

definition text_arg :: "char list \<Rightarrow> int \<Rightarrow> bool" where
  "text_arg mem len \<longleftrightarrow> (if len < 0 then NUL \<in> set mem else nat len \<le> length mem)"

definition blob_arg :: "char list \<Rightarrow> nat \<Rightarrow> bool" where
  "blob_arg mem len \<longleftrightarrow> len \<le> length mem \<and> len < 2 ^ 31"

text \<open>The memory of a text or blob result is at least as long as the length reported with it.\<close>

definition covers :: "char list option \<Rightarrow> nat \<Rightarrow> bool" where
  "covers p n \<longleftrightarrow> (case p of None \<Rightarrow> True | Some mem \<Rightarrow> n \<le> length mem)"

section \<open>Arguments that describe real objects\<close>

text \<open>
  A member lies inside the struct and has room for the value of its type. The text of a
  \<^verbatim>\<open>TEXT\<close> member may fill it completely.
\<close>

definition member_safe :: "nat \<Rightarrow> column \<Rightarrow> bool" where
  "member_safe len col \<longleftrightarrow> col_offset col + col_size col \<le> len \<and>
     (case col_type col of
        SQL_TYPE_INT32 \<Rightarrow> 4 \<le> col_size col
      | SQL_TYPE_INT64 \<Rightarrow> 8 \<le> col_size col
      | SQL_TYPE_REAL \<Rightarrow> 8 \<le> col_size col
      | SQL_TYPE_BLOB \<Rightarrow> col_size col < 2 ^ 31
      | _ \<Rightarrow> True)"

definition row_covers :: "char list \<Rightarrow> column list \<Rightarrow> bool" where
  "row_covers row cols \<longleftrightarrow> (\<forall>c \<in> set cols. member_safe (length row) c)"

text \<open>A bitmap with a bit for each of the first \<open>n\<close> columns, or none at all.\<close>

definition bitmap_covers :: "null_map \<Rightarrow> nat \<Rightarrow> bool" where
  "bitmap_covers nm n \<longleftrightarrow> (case nm of None \<Rightarrow> True | Some bs \<Rightarrow> SQL_RDB_NULL_BITMAP_BYTES n \<le> length bs)"

lemma bounded_strlen_le: "k \<le> length s \<Longrightarrow> \<exists>n \<le> k. bounded_strlen s k = Some n"
proof (induction s k rule: bounded_strlen.induct)
  case (3 c cs k)
  then show ?case by (auto simp: Suc_le_eq dest!: less_imp_le)
qed auto

lemma delivers_read_bytes: "off + n \<le> length buf \<Longrightarrow> (\<And>bs. length bs = n \<Longrightarrow> P bs) \<Longrightarrow> delivers (read_bytes buf off n) P"
  by (simp add: read_bytes_def)

lemma delivers_write_bytes:
  "off + length bs \<le> length buf \<Longrightarrow> (\<And>buf'. length buf' = length buf \<Longrightarrow> P buf') \<Longrightarrow> delivers (write_bytes buf off bs) P"
  by (simp add: write_bytes_def)

lemma delivers_copy_from:
  "covers p k \<Longrightarrow> n \<le> k \<Longrightarrow> off + n \<le> length row \<Longrightarrow> (\<And>row'. length row' = length row \<Longrightarrow> P row') \<Longrightarrow>
     delivers (copy_from row off p n) P"
  unfolding copy_from_def covers_def
  by (auto split: option.splits intro!: delivers_read_bytes delivers_write_bytes)

lemma delivers_null_bit_get: "bitmap_covers nm n \<Longrightarrow> i < n \<Longrightarrow> (\<And>b. P b) \<Longrightarrow> delivers (c2sql_internal_null_bit_get nm i) P"
  using bitmap_bytes_enough [of i n]
  by (auto simp: bitmap_covers_def null_bit_get_bit c2sql_internal_null_bit_get_def [of None] split: option.splits)

lemma delivers_null_bit_set:
  "bitmap_covers nm n \<Longrightarrow> i < n \<Longrightarrow> (\<And>nm'. bitmap_covers nm' n \<Longrightarrow> map_option length nm' = map_option length nm \<Longrightarrow> P nm') \<Longrightarrow>
     delivers (c2sql_internal_null_bit_set nm i) P"
  using bitmap_bytes_enough [of i n]
  by (auto simp: bitmap_covers_def c2sql_internal_null_bit_set_def index_bits nth_opt_def split: option.splits)

lemma member_safe_mono: "member_safe len col \<Longrightarrow> len \<le> len' \<Longrightarrow> member_safe len' col"
  by (auto simp: member_safe_def)

text \<open>The temporary row of \<^verbatim>\<open>SqlRDBRead\<close> is as long as the members need.\<close>

lemma foldl_largest:
  fixes f :: "'a \<Rightarrow> nat"
  shows "b \<le> foldl (\<lambda>b c. if b < f c then f c else b) b xs \<and>
         (\<forall>x \<in> set xs. f x \<le> foldl (\<lambda>b c. if b < f c then f c else b) b xs) \<and>
         (b \<le> L \<and> (\<forall>x \<in> set xs. f x \<le> L) \<longrightarrow> foldl (\<lambda>b c. if b < f c then f c else b) b xs \<le> L)"
proof (induction xs arbitrary: b)
  case (Cons x xs)
  show ?case using Cons.IH [of "if b < f x then f x else b"] by (auto split: if_splits)
qed simp

lemma row_extent_bounds:
  assumes "\<forall>c \<in> set cols. col_offset c + col_size c \<le> L" and "L < 2 ^ 64"
  shows "row_extent cols \<le> L" and "\<forall>c \<in> set cols. col_offset c + col_size c \<le> row_extent cols"
proof -
  have "\<forall>c \<in> set cols. (col_offset c + col_size c) mod 2 ^ 64 = col_offset c + col_size c"
    using assms by (auto intro!: mod_less)
  then show "row_extent cols \<le> L" and "\<forall>c \<in> set cols. col_offset c + col_size c \<le> row_extent cols"
    using foldl_largest [of 0 "\<lambda>c. (col_offset c + col_size c) mod 2 ^ 64" cols L] assms(1)
    unfolding row_extent_def Let_def by simp_all
qed

text \<open>
  An array of \<open>n\<close> structs, \<open>stride\<close> bytes apart, with its bitmaps one after the other.
\<close>

definition rows_cover :: "char list \<Rightarrow> nat \<Rightarrow> null_map \<Rightarrow> nat \<Rightarrow> column list \<Rightarrow> bool" where
  "rows_cover rows stride nms n cols \<longleftrightarrow> n * stride \<le> length rows \<and> (\<forall>c \<in> set cols. member_safe stride c) \<and>
     (case nms of None \<Rightarrow> True | Some bs \<Rightarrow> n * SQL_RDB_NULL_BITMAP_BYTES (length cols) \<le> length bs)"

lemma rows_cover_at:
  assumes "rows_cover rows stride nms n cols" and "i < n"
  shows "row_covers (drop (i * stride) rows) cols" and "i * stride \<le> length rows"
    and "nms = Some bs \<Longrightarrow> i * SQL_RDB_NULL_BITMAP_BYTES (length cols) \<le> length bs"
    and "nms = Some bs \<Longrightarrow> bitmap_covers (Some (drop (i * SQL_RDB_NULL_BITMAP_BYTES (length cols)) bs)) (length cols)"
proof -
  have k: "i * k + k \<le> n * k" for k using mult_le_mono1 [of "Suc i" n k] assms(2) by simp
  show "row_covers (drop (i * stride) rows) cols" "i * stride \<le> length rows"
    using assms(1) k [of stride] by (auto simp: rows_cover_def row_covers_def intro: member_safe_mono)
  let ?b = "SQL_RDB_NULL_BITMAP_BYTES (length cols)"
  assume "nms = Some bs"
  then have "n * ?b \<le> length bs" using assms(1) by (simp add: rows_cover_def)
  then show "i * ?b \<le> length bs" "bitmap_covers (Some (drop (i * ?b) bs)) (length cols)"
    using k [of ?b] by (auto simp: bitmap_covers_def)
qed

text \<open>The blobs of a condition are real, and the condition has fewer than \<open>2 ^ 31 - 1\<close> leaves.\<close>

fun values_safe :: "SqlRDBCondition \<Rightarrow> bool" where
  "values_safe COND_ALL \<longleftrightarrow> True"
| "values_safe (COND_LEAF col oper v) \<longleftrightarrow> (case v of CV_blob p n \<Rightarrow> blob_arg p n | _ \<Rightarrow> True)"
| "values_safe (COND_AND a b) \<longleftrightarrow> values_safe a \<and> values_safe b"
| "values_safe (COND_OR a b) \<longleftrightarrow> values_safe a \<and> values_safe b"

definition cond_safe :: "SqlRDBCondition option \<Rightarrow> bool" where
  "cond_safe cond \<longleftrightarrow> Suc (cond_count cond) < 2 ^ 31 \<and> (case cond of None \<Rightarrow> True | Some c \<Rightarrow> values_safe c)"

lemma cond_safe_count: "cond_safe cond \<Longrightarrow> Suc (cond_count cond) < 2 ^ 31"
  by (simp add: cond_safe_def)

section \<open>A driver that answers\<close>

text \<open>
  \<open>usable w\<close> is the condition under which the driver answers; every call keeps it. A call on a
  statement asks for an open one.
\<close>

locale total_driver = stmt_driver drv live for drv :: "'w SqlRDBDriver" and live +
  fixes ctx :: ptr and usable :: "'w \<Rightarrow> bool"
  assumes prepare_total: "usable w \<Longrightarrow> generated (drv_dialect drv) sql \<Longrightarrow>
      delivers (drv_prepare drv ctx sql w) (\<lambda>(r, st, w'). usable w')"
    and finalize_total: "usable w \<Longrightarrow> s \<in> live w \<Longrightarrow> delivers (drv_finalize drv s w) (\<lambda>(r, w'). usable w')"
    and reset_total: "usable w \<Longrightarrow> s \<in> live w \<Longrightarrow> delivers (drv_reset drv s w) (\<lambda>(r, w'). usable w')"
    and step_total: "usable w \<Longrightarrow> s \<in> live w \<Longrightarrow> delivers (drv_step drv s w) (\<lambda>(r, b, w'). usable w')"
    and bind_int64_total: "usable w \<Longrightarrow> s \<in> live w \<Longrightarrow> delivers (drv_bind_int64 drv s i v w) (\<lambda>(r, w'). usable w')"
    and bind_int32_total: "usable w \<Longrightarrow> s \<in> live w \<Longrightarrow> delivers (drv_bind_int32 drv s i u w) (\<lambda>(r, w'). usable w')"
    and bind_real_total: "usable w \<Longrightarrow> s \<in> live w \<Longrightarrow> delivers (drv_bind_real drv s i v w) (\<lambda>(r, w'). usable w')"
    and bind_text_total: "usable w \<Longrightarrow> s \<in> live w \<Longrightarrow> text_arg mem len \<Longrightarrow>
      delivers (drv_bind_text drv s i (Some mem) len w) (\<lambda>(r, w'). usable w')"
    and bind_blob_total: "usable w \<Longrightarrow> s \<in> live w \<Longrightarrow> blob_arg mem n \<Longrightarrow>
      delivers (drv_bind_blob drv s i (Some mem) n w) (\<lambda>(r, w'). usable w')"
    and bind_null_total: "usable w \<Longrightarrow> s \<in> live w \<Longrightarrow> delivers (drv_bind_null drv s i w) (\<lambda>(r, w'). usable w')"
    and column_int64_total: "usable w \<Longrightarrow> s \<in> live w \<Longrightarrow>
      delivers (drv_column_int64 drv s i w) (\<lambda>(r, v, w'). usable w')"
    and column_real_total: "usable w \<Longrightarrow> s \<in> live w \<Longrightarrow> delivers (drv_column_real drv s i w) (\<lambda>(r, v, w'). usable w')"
    and column_text_total: "usable w \<Longrightarrow> s \<in> live w \<Longrightarrow>
      delivers (drv_column_text drv s i w) (\<lambda>(r, p, n, w'). usable w' \<and> covers p n)"
    and column_blob_total: "usable w \<Longrightarrow> s \<in> live w \<Longrightarrow>
      delivers (drv_column_blob drv s i w) (\<lambda>(r, p, n, w'). usable w' \<and> covers p n)"
    and column_isnull_total: "usable w \<Longrightarrow> s \<in> live w \<Longrightarrow>
      delivers (drv_column_isnull drv s i w) (\<lambda>(r, b, w'). usable w')"
    and begin_total: "usable w \<Longrightarrow> delivers (drv_begin drv ctx w) (\<lambda>(r, w'). usable w')"
    and commit_total: "usable w \<Longrightarrow> delivers (drv_commit drv ctx w) (\<lambda>(r, w'). usable w')"
    and rollback_total: "usable w \<Longrightarrow> delivers (drv_rollback drv ctx w) (\<lambda>(r, w'). usable w')"
    and savepoint_total: "usable w \<Longrightarrow> delivers (drv_savepoint drv ctx name w) (\<lambda>(r, w'). usable w')"
    and release_sp_total: "usable w \<Longrightarrow> delivers (drv_release_sp drv ctx name w) (\<lambda>(r, w'). usable w')"
    and rollback_sp_total: "usable w \<Longrightarrow> delivers (drv_rollback_sp drv ctx name w) (\<lambda>(r, w'). usable w')"
    and changes_total: "usable w \<Longrightarrow> delivers (drv_changes drv ctx w) (\<lambda>(n, w'). usable w')"
    and close_total: "usable w \<Longrightarrow> delivers (drv_close drv ctx w) (\<lambda>_. True)"
begin

text \<open>The contract and the ownership contract together, as rules for the calls of a body.\<close>

lemmas statement_rules =
  delivers_also [OF reset_total reset] delivers_also [OF step_total step]
  delivers_also [OF bind_int64_total bind_int64] delivers_also [OF bind_int32_total bind_int32]
  delivers_also [OF bind_real_total bind_real] delivers_also [OF bind_text_total bind_text]
  delivers_also [OF bind_blob_total bind_blob] delivers_also [OF bind_null_total bind_null]
  delivers_also [OF column_int64_total column_int64] delivers_also [OF column_real_total column_real]
  delivers_also [OF column_text_total column_text] delivers_also [OF column_blob_total column_blob]
  delivers_also [OF column_isnull_total column_isnull]

lemmas connection_rules =
  delivers_also [OF begin_total begin_tx] delivers_also [OF commit_total commit_tx]
  delivers_also [OF rollback_total rollback_tx] delivers_also [OF savepoint_total savepoint]
  delivers_also [OF release_sp_total release_sp] delivers_also [OF rollback_sp_total rollback_sp]
  delivers_also [OF changes_total changes]

lemmas call_rules = statement_rules connection_rules delivers_read_bytes delivers_write_bytes

lemma bind_one_total:
  assumes "usable w" and "s \<in> live w" and "member_safe (length row) col"
  shows "delivers (bind_one drv s i col row w) (\<lambda>(r, w'). usable w' \<and> live w' = live w)"
proof -
  have off: "at_offset row (col_offset col) = Some (drop (col_offset col) row)"
    using assms(3) by (simp add: member_safe_def at_offset_def)
  have "col_size col \<le> length (drop (col_offset col) row)" using assms(3) by (auto simp: member_safe_def)
  from bounded_strlen_le [OF this] obtain n where
    n: "n \<le> col_size col" "bounded_strlen (drop (col_offset col) row) (col_size col) = Some n" by blast
  show ?thesis
    unfolding bind_one_def off using assms n
    by (cases "col_type col")
      (auto simp: member_safe_def text_arg_def blob_arg_def Let_def intro!: call_rules)
qed

lemma bind_cols_total:
  assumes "usable w" and "s \<in> live w" and "row_covers row cols" and "bitmap_covers nm (i + length cols)"
  shows "delivers (bind_cols drv s i cols row nm w) (\<lambda>(r, w'). usable w' \<and> live w' = live w)"
  using assms
proof (induction cols arbitrary: i w)
  case (Cons col cols)
  have IH: "delivers (bind_cols drv s (Suc i) cols row nm v) (\<lambda>(r, w'). usable w' \<and> live w' = live w)"
    if "usable v" "live v = live w" for v
    using Cons.IH [of v "Suc i"] Cons.prems that by (simp add: row_covers_def)
  have m: "member_safe (length row) col" using Cons.prems(3) by (simp add: row_covers_def)
  show ?case using Cons.prems(1,2)
    by (auto intro!: delivers_null_bit_get [OF Cons.prems(4)] call_rules bind_one_total [OF _ _ m, THEN delivers_mono] IH)
qed simp

lemma bind_row_total:
  assumes "usable w" and "s \<in> live w" and "row_covers row (sch_cols schema)" and "bitmap_covers nm (length (sch_cols schema))"
  shows "delivers (c2sql_internal_tm_bind_row drv s schema (Some row) nm w) (\<lambda>(r, w'). usable w' \<and> live w' = live w)"
  using bind_cols_total [OF assms(1-3), of nm 0] assms(4) by (simp add: c2sql_internal_tm_bind_row_def)

lemma read_one_total:
  assumes "usable w" and "s \<in> live w" and "member_safe (length row) col"
  shows "delivers (read_one drv s i col row w) (\<lambda>(r, row', w'). usable w' \<and> live w' = live w \<and> length row' = length row)"
  unfolding read_one_def using assms
  by (cases "col_type col")
    (auto simp: member_safe_def Let_def intro!: call_rules delivers_copy_from)

lemma read_cols_total:
  assumes "usable w" and "s \<in> live w" and "row_covers row cols" and "bitmap_covers nm (i + length cols)"
  shows "delivers (read_cols drv s i cols tr row nm w) (\<lambda>(r, row', nm', w'). usable w' \<and> live w' = live w \<and>
           length row' = length row \<and> map_option length nm' = map_option length nm)"
  using assms
proof (induction cols arbitrary: i tr row nm w)
  case (Cons col cols)
  have IH: "delivers (read_cols drv s (Suc i) cols tr row2 nm2 v) (\<lambda>(r, row', nm', w'). usable w' \<and> live w' = live w \<and>
      length row' = length row \<and> map_option length nm' = map_option length nm)"
    if "usable v" "live v = live w" "length row2 = length row" "map_option length nm2 = map_option length nm"
      "bitmap_covers nm2 (i + length (col # cols))" for v row2 nm2 tr
    using Cons.IH [of v row2 nm2 "Suc i" tr] Cons.prems that by (simp add: row_covers_def)
  have m: "member_safe (length row) col" using Cons.prems(3) by (simp add: row_covers_def)
  show ?case using Cons.prems(1,2,4)
    by (auto intro!: delivers_null_bit_set [OF Cons.prems(4)] call_rules read_one_total [OF _ _ m, THEN delivers_mono] IH)
qed simp

lemma read_row_total:
  assumes "usable w" and "s \<in> live w" and "row_covers row (sch_cols schema)" and "bitmap_covers nm (length (sch_cols schema))"
  shows "delivers (c2sql_internal_tm_read_row drv s schema (Some row) nm w) (\<lambda>(r, row', nm', w'). usable w' \<and> live w' = live w \<and>
           (\<exists>row2. row' = Some row2 \<and> length row2 = length row) \<and> map_option length nm' = map_option length nm)"
  unfolding c2sql_internal_tm_read_row_def
  using read_cols_total [OF assms(1-3), of nm 0 False] assms(4) by (auto elim!: delivers_mono)

lemma bind_cond_values_total:
  assumes "usable w" and "s \<in> live w" and "values_safe c"
  shows "delivers (bind_cond_values drv s c idx w) (\<lambda>(r, idx', w'). usable w' \<and> live w' = live w)"
  using assms
proof (induction c arbitrary: idx w)
  case (COND_LEAF col oper v)
  then show ?case by (cases v) (auto simp: text_arg_def intro!: call_rules)
next
  case (COND_AND a b)
  show ?case using COND_AND.prems
    by (auto intro!: COND_AND.IH(1) [THEN delivers_mono] COND_AND.IH(2) [THEN delivers_mono])
next
  case (COND_OR a b)
  show ?case using COND_OR.prems
    by (auto intro!: COND_OR.IH(1) [THEN delivers_mono] COND_OR.IH(2) [THEN delivers_mono])
qed simp

lemma bind_cond_from_total:
  assumes "usable w" and "s \<in> live w" and "cond_safe cond"
  shows "delivers (bind_cond_from drv s cond i w) (\<lambda>(r, w'). usable w' \<and> live w' = live w)"
  unfolding bind_cond_from_def using assms
  by (cases cond) (auto simp: cond_safe_def intro!: bind_cond_values_total [THEN delivers_mono])

lemma finalize_all_total:
  assumes "usable w" and "distinct ss" and "set ss \<subseteq> live w"
  shows "delivers (finalize_all (Some drv) ss w) usable"
  using assms
proof (induction ss arbitrary: w)
  case (Cons s ss)
  have "delivers (finalize_all (Some drv) ss v) usable" if "usable v" "live v = live w - {s}" for v
    using Cons.IH [of v] Cons.prems that by auto
  then show ?case using Cons.prems by (auto simp: finalize_if_def intro!: delivers_also [OF finalize_total finalize])
qed simp

lemma put_total:
  assumes "holds live h w F" and new: "s \<notin> live w" and live2: "live w2 = insert s (live w)" and "usable w2"
  shows "delivers (c2sql_internal_cache_put (cache h) sql s (Some drv) w2 m) (\<lambda>(r, c, w3, m'). usable w3)"
proof -
  obtain es where es: "represents (cache h) es" "distinct (map snd es)" "live w = set (map snd es) \<union> F"
    using assms(1) by (auto simp: holds_def)
  obtain dead es2 r m2 where l: "lru_put (unat (capacity (cache h))) sql s es m = (dead, es2, r, m2)" by (metis prod_cases4)
  obtain c where c: "c2sql_internal_cache_put (cache h) sql s (Some drv) w2 m =
      do { w \<leftarrow> finalize_all (Some drv) dead w2; Some (r, c, w, m2) }"
    using cache_put_refines [OF es(1) l, of "Some drv" w2] by auto
  have ms: "mset (dead @ map snd es2) = mset (s # map snd es)"
    using lru_put_conserves [OF l represents_keys [OF es(1)]] by simp
  have "distinct (s # map snd es)" using new es(2,3) by simp
  then have "distinct dead" using ms mset_eq_imp_distinct_iff by (metis distinct_append)
  moreover have "set dead \<subseteq> live w2" using mset_eq_setD [OF ms] es(3) live2 by auto
  ultimately show ?thesis unfolding c using finalize_all_total [OF assms(4)] by (auto elim: delivers_mono)
qed

lemma get_or_prepare_total:
  assumes drv: "driver h = Some drv" "driver_ctx h = Some ctx" and h: "holds live h w F" and u: "usable w"
    and sql: "generated (drv_dialect drv) sql"
  shows "delivers (get_or_prepare h sql w m) (\<lambda>(r, st, owned, h', w', m'). usable w')"
proof -
  obtain es where es: "represents (cache h) es" using h by (auto simp: holds_def)
  obtain r0 st0 c where g: "c2sql_internal_cache_get (cache h) sql = Some (r0, st0, c)"
    using cache_get_refines [OF es, of sql] by blast
  note hg = holds_get [OF h g]
  have stored: "delivers (c2sql_internal_cache_put c sql s (Some drv) w2 m) (\<lambda>(r, c2, w3, m').
      usable w3 \<and> (\<exists>r2 st2 c3. c2sql_internal_cache_get c2 sql = Some (r2, st2, c3)))"
    if "s \<notin> live w" "live w2 = insert s (live w)" "usable w2" for s w2
  proof -
    have put: "delivers (c2sql_internal_cache_put c sql s (Some drv) w2 m) (\<lambda>(r, c2, w3, m'). usable w3)"
      using put_total [OF hg(1) that, of sql m] by simp
    then obtain r c2 w3 m' where p: "c2sql_internal_cache_put c sql s (Some drv) w2 m = Some (r, c2, w3, m')"
      by (auto dest: deliversD)
    have "holds live (h\<lparr>cache := c\<rparr>\<lparr>cache := c2\<rparr>) w3 F" by (rule holds_put [OF hg(1) that(1,2)]) (use p in simp)
    then obtain es2 where "represents c2 es2" by (auto simp: holds_def)
    from cache_get_refines [OF this, of sql] show ?thesis using p put by auto
  qed
  show ?thesis
    unfolding get_or_prepare_def g using drv u
    by (auto simp: Let_def intro!: delivers_also [OF prepare_total [OF u sql] prepare] delivers_mono [OF stored])
qed

lemma build_and_get_total:
  assumes drv: "driver h = Some drv" "driver_ctx h = Some ctx" and h: "holds live h w F" and u: "usable w"
    and spec: "spec_ok (qs_op spec) spec" "spec_idents spec" "bind_total (qs_op spec) spec < 2 ^ 31"
      "qs_dialect spec = drv_dialect drv"
  shows "delivers (build_and_get h spec w m) (\<lambda>(r, st, h', w', m'). usable w' \<and> keeps_handle h h' \<and>
           (case st of None \<Rightarrow> True | Some (s, owned) \<Rightarrow> s \<in> live w'))"
proof -
  obtain r0 sql k m0 where b: "c2sql_internal_qb_build spec m = Some (r0, sql, k, m0)"
    and gen: "r0 = SQL_RDB_OK \<Longrightarrow> \<exists>t. sql = Some t \<and> generated (drv_dialect drv) t"
    using qb_build_generated [OF spec(1-3)] spec(4) by metis
  note got = delivers_also [OF get_or_prepare_total [OF drv h u]
      ensures_both [OF get_or_prepare_holds [OF drv(1) h] get_or_prepare_frame]]
  show ?thesis
  proof (cases "r0 = SQL_RDB_OK")
    case True
    then obtain t where t: "sql = Some t" "generated (drv_dialect drv) t" using gen by blast
    have "delivers (get_or_prepare h t w m0) (\<lambda>(r, st, owned, h', w', m'). usable w' \<and>
        keeps_handle h h' \<and> (r = SQL_RDB_OK \<longrightarrow> (\<exists>s. st = Some s \<and> s \<in> live w')))"
      by (rule got) (use t in \<open>auto split: if_splits\<close>)
    then show ?thesis unfolding build_and_get_def b using t True by (auto elim!: delivers_mono)
  qed (simp add: build_and_get_def b u)
qed

lemma build_and_prepare_total:
  assumes drv: "driver h = Some drv" "driver_ctx h = Some ctx" and h: "holds live h w F" and u: "usable w"
    and spec: "spec_ok (qs_op spec) spec" "spec_idents spec" "bind_total (qs_op spec) spec < 2 ^ 31"
      "qs_dialect spec = drv_dialect drv"
  shows "delivers (build_and_prepare h spec w m) (\<lambda>(r, st, w', m'). usable w' \<and>
           (case st of None \<Rightarrow> True | Some s \<Rightarrow> s \<in> live w'))"
proof -
  obtain r0 sql k m0 where b: "c2sql_internal_qb_build spec m = Some (r0, sql, k, m0)"
    and gen: "r0 = SQL_RDB_OK \<Longrightarrow> \<exists>t. sql = Some t \<and> generated (drv_dialect drv) t"
    using qb_build_generated [OF spec(1-3)] spec(4) by metis
  show ?thesis unfolding build_and_prepare_def b using gen drv u
    by (cases "r0 = SQL_RDB_OK") (auto intro!: delivers_also [OF prepare_total [OF u] prepare])
qed

lemma release_total:
  "driver h = Some drv \<Longrightarrow> usable w \<Longrightarrow> s \<in> live w \<Longrightarrow> delivers (release_cached_stmt h s owned w) usable"
  unfolding release_cached_stmt_def
  by (auto intro!: delivers_mono [OF finalize_total] delivers_mono [OF reset_total])

lemma write_rows_total:
  assumes "usable w" and "s \<in> live w" and rows: "rows_cover rows stride nms n (sch_cols schema)" and "i + k \<le> n"
  shows "delivers (write_rows drv s schema rows stride nms i k w) (\<lambda>(r, w'). usable w' \<and> live w' = live w)"
  using assms(1,2,4)
proof (induction k arbitrary: i w)
  case (Suc k)
  have IH: "delivers (write_rows drv s schema rows stride nms (Suc i) k v) (\<lambda>(r, w'). usable w' \<and> live w' = live w)"
    if "usable v" "live v = live w" for v using Suc.IH [of v "Suc i"] Suc.prems that by simp
  note at = rows_cover_at [OF rows, of i]
  let ?b = "SQL_RDB_NULL_BITMAP_BYTES (length (sch_cols schema))"
  obtain nm where nm: "bitmap_covers nm (length (sch_cols schema))"
    "(case nms of None \<Rightarrow> Some None | Some bs \<Rightarrow> if i * ?b \<le> length bs then Some (Some (drop (i * ?b) bs)) else None) = Some nm"
  proof (cases nms)
    case None
    then show ?thesis using that [of None] by (simp add: bitmap_covers_def)
  next
    case (Some bs)
    then show ?thesis using that [of "Some (drop (i * ?b) bs)"] at(3,4) Suc.prems(3) by simp
  qed
  show ?case using Suc.prems at(1,2) nm
    by (auto simp: at_offset_def Let_def intro!: IH call_rules bind_row_total [THEN delivers_mono])
qed simp

lemma read_single_total:
  assumes drv: "driver h = Some drv" and u: "usable w" and s: "s \<in> live w"
    and row: "row_covers row (sch_cols schema)" "length row < 2 ^ 64" and nm: "bitmap_covers nm (length (sch_cols schema))"
  shows "delivers (read_single h drv schema s owned row nm w m) (\<lambda>(r, h', row', nm', w', m'). usable w')"
proof -
  let ?n = "length (sch_cols schema)" and ?e = "row_extent (sch_cols schema)"
  define tmp where "tmp = replicate (if ?e = 0 then 1 else ?e) NUL"
  have inside: "\<forall>c \<in> set (sch_cols schema). col_offset c + col_size c \<le> length row"
    using row(1) by (auto simp: row_covers_def member_safe_def)
  note ext = row_extent_bounds [OF inside row(2)]
  have len: "?e \<le> length tmp" by (simp add: tmp_def)
  have tmp: "row_covers tmp (sch_cols schema)"
    using row(1) ext(2) len by (fastforce simp: row_covers_def member_safe_def)
  have read: "delivers (c2sql_internal_tm_read_row drv s schema (Some tmp) tn w) (\<lambda>(r, row', nm', w'). usable w' \<and>
      live w' = live w \<and> (\<exists>row2. row' = Some row2 \<and> ?e \<le> length row2) \<and> map_option length nm' = map_option length tn)"
    if "bitmap_covers tn ?n" for tn
    using read_row_total [OF u s tmp that] len by (auto elim!: delivers_mono)
  have merged: "delivers (merge_null_map nm tn (SQL_RDB_NULL_BITMAP_BYTES ?n)) (\<lambda>_. True)"
    if "map_option length tn = map_option length tn0" "bitmap_covers tn0 ?n" for tn tn0
    using that nm by (cases nm; cases tn; cases tn0) (auto simp: merge_null_map_def bitmap_covers_def)
  obtain ok1 m1 where a1: "alloc m = (ok1, m1)" by (metis surj_pair)
  obtain ok2 m2 where a2: "(if nm = None then (False, m1) else alloc m1) = (ok2, m2)" by (metis surj_pair)
  let ?b = "SQL_RDB_NULL_BITMAP_BYTES ?n"
  define tn where "tn = (if ok2 then Some (replicate (if ?b = 0 then 1 else ?b) (0 :: 8 word)) else None)"
  have tn: "bitmap_covers tn ?n" by (simp add: tn_def bitmap_covers_def)
  show ?thesis
    unfolding read_single_def Let_def a1 prod.case a2 tn_def [symmetric] tmp_def [symmetric] using drv u s ext(1)
    by (auto intro!: release_total read [OF tn, THEN delivers_mono] call_rules merged [OF _ tn, THEN delivers_mono]
        release_total [THEN delivers_mono])
qed

end

section \<open>The calls\<close>

text \<open>A handle in use: sound, open on this connection, every open statement accounted for.\<close>

definition serving ::
  "'w SqlRDBDriver \<Rightarrow> ptr \<Rightarrow> ('w \<Rightarrow> bool) \<Rightarrow> ('w \<Rightarrow> ptr set) \<Rightarrow> 'w SqlRDBHandle \<Rightarrow> 'w \<Rightarrow> ptr set \<Rightarrow> bool" where
  "serving drv ctx usable live h w F \<longleftrightarrow> c2sql_handle_valid (Some h) \<and> mutex_idle (mutex h) \<and> driver h = Some drv \<and>
     driver_ctx h = Some ctx \<and> registry_ok (registry h) \<and> txn_ok (txn h) \<and> holds live h w F \<and> usable w"

text \<open>The struct and bitmap passed with a struct name.\<close>

definition row_arg :: "'w SqlRDBHandle \<Rightarrow> string option \<Rightarrow> char list option \<Rightarrow> null_map \<Rightarrow> bool" where
  "row_arg h name row nm \<longleftrightarrow>
     (case (name, row) of
        (Some n, Some r) \<Rightarrow> (case registered h n of None \<Rightarrow> True
           | Some s \<Rightarrow> row_covers r (sch_cols s) \<and> length r < 2 ^ 64 \<and> bitmap_covers nm (length (sch_cols s)))
      | _ \<Rightarrow> True)"

definition rows_arg :: "'w SqlRDBHandle \<Rightarrow> string option \<Rightarrow> char list option \<Rightarrow> nat \<Rightarrow> nat \<Rightarrow> null_map \<Rightarrow> bool" where
  "rows_arg h name rows n stride nms \<longleftrightarrow>
     (case (name, rows) of
        (Some nm, Some r) \<Rightarrow> (case registered h nm of None \<Rightarrow> True | Some s \<Rightarrow> rows_cover r stride nms n (sch_cols s))
      | _ \<Rightarrow> True)"

text \<open>The struct and bitmap passed with an iterator; its schema pointer still points into the registry.\<close>

definition next_arg :: "'w SqlRDBHandle \<Rightarrow> SqlRDBStmt \<Rightarrow> char list option \<Rightarrow> null_map \<Rightarrow> bool" where
  "next_arg h it row nm \<longleftrightarrow>
     (case row of None \<Rightarrow> True
      | Some r \<Rightarrow> (case schema_at (registry h) (it_schema it) of None \<Rightarrow> False
           | Some s \<Rightarrow> row_covers r (sch_cols s) \<and> bitmap_covers nm (length (sch_cols s))))"

lemma locked_delivers:
  assumes idle: "mutex_idle (mutex h)"
    and body: "\<And>mx. delivers (body (h\<lparr>mutex := mx\<rparr>)) (\<lambda>(r, g, s). mutex g = mx \<and> P r s)"
  shows "delivers (locked h body) (\<lambda>(r, h', s). P r s)"
proof -
  let ?mx = "(mutex h)\<lparr>mtx_locked := mtx_threadsafe (mutex h) \<or> mtx_locked (mutex h)\<rparr>"
  obtain r g s where g: "body (h\<lparr>mutex := ?mx\<rparr>) = Some (r, g, s)" "mutex g = ?mx" "P r s"
    using deliversD [OF body [of ?mx]] by auto
  then show ?thesis using locked_returns [where body = body, OF idle g(1,2)] by simp
qed

lemma with_schema_delivers:
  assumes v: "c2sql_handle_valid (Some h)" and reg: "registry_ok (registry h)"
    and none: "P (SQL_RDB_ERR_UNKNOWN_STRUCT, set_error h SQL_RDB_ERR_UNKNOWN_STRUCT (fname @ '': unknown struct '' @ squote name), out)"
    and some: "\<And>p schema. c2sql_internal_schema_lookup h (Some name) = Some p \<Longrightarrow> registered h name = Some schema \<Longrightarrow>
      schema_ok schema \<Longrightarrow> delivers (body schema) P"
  shows "delivers (with_schema h fname name out body) P"
proof (cases "c2sql_internal_schema_lookup h (Some name)")
  case None
  then show ?thesis using none by (simp add: with_schema_def)
next
  case (Some p)
  then obtain i where i: "find_index (\<lambda>s. sch_name s = name) (reg_entries (registry h)) = Some i" "p = (reg_block (registry h), i)"
    using v by (auto simp: c2sql_internal_schema_lookup_def)
  then have at: "schema_at (registry h) p = Some (reg_entries (registry h) ! i)" "i < length (reg_entries (registry h))"
    by (auto simp: schema_at_def nth_opt_def find_index_Some)
  have "schema_ok (reg_entries (registry h) ! i)" using reg at(2) by (simp add: registry_ok_def list_all_length)
  then show ?thesis using some [OF Some] Some at(1) by (simp add: with_schema_def registered_def)
qed

lemma valid_mutex [simp]: "c2sql_handle_valid (Some (h\<lparr>mutex := x\<rparr>)) = c2sql_handle_valid (Some h)"
  "registered (h\<lparr>mutex := x\<rparr>) name = registered h name"
  by (auto simp: c2sql_handle_valid_def registered_def c2sql_internal_schema_lookup_def split: option.splits)

lemma blob_error_mutex: "blob_column_error fname schema name h = Some (r, h') \<Longrightarrow> mutex h' = mutex h"
  by (drule blob_column_error_frame) (simp add: keeps_handle_def)

lemma query_fields [simp]:
  "qs_op (query oper s cond target d) = oper" "qs_schema (query oper s cond target d) = s"
  "qs_cond (query oper s cond target d) = cond" "qs_target_col (query oper s cond target d) = target"
  "qs_dialect (query oper s cond target d) = d"
  by (simp_all add: query_def)

lemma write_params: "schema_ok s \<Longrightarrow> bind_total (write_op s) (query (write_op s) s None None d) < 2 ^ 31"
  by (simp add: write_op_def schema_ok_def C2SQL_MAX_COLUMNS_def)

context total_driver begin

lemma serving_mutex: "serving drv ctx usable live h w F \<Longrightarrow>
    c2sql_handle_valid (Some h) \<and> driver (h\<lparr>mutex := x\<rparr>) = Some drv \<and> driver_ctx (h\<lparr>mutex := x\<rparr>) = Some ctx \<and>
    registry_ok (registry (h\<lparr>mutex := x\<rparr>)) \<and> holds live (h\<lparr>mutex := x\<rparr>) w F \<and> usable w"
  by (simp add: serving_def)

text \<open>A statement for a query on a well-formed schema.\<close>

lemma query_get_total:
  assumes "driver h = Some drv" and "driver_ctx h = Some ctx" and "holds live h w F" and "usable w" and "schema_ok s"
    and "spec_ok oper (query oper s cond target (drv_dialect drv))"
    and "bind_total oper (query oper s cond target (drv_dialect drv)) < 2 ^ 31"
    and "\<And>r st h' w' m'. usable w' \<Longrightarrow> mutex h' = mutex h \<Longrightarrow> driver h' = Some drv \<Longrightarrow> driver_ctx h' = Some ctx \<Longrightarrow>
      (case st of None \<Rightarrow> True | Some (q, owned) \<Rightarrow> q \<in> live w') \<Longrightarrow> P (r, st, h', w', m')"
  shows "delivers (build_and_get h (query oper s cond target (drv_dialect drv)) w m) P"
  using build_and_get_total [OF assms(1-4), of "query oper s cond target (drv_dialect drv)" m]
    assms(1,2,6-8) query_idents [OF assms(5)]
  by (auto simp: keeps_handle_def elim!: delivers_mono)

lemma query_prepare_total:
  assumes "driver h = Some drv" and "driver_ctx h = Some ctx" and "holds live h w F" and "usable w" and "schema_ok s"
    and "spec_ok oper (query oper s cond target (drv_dialect drv))"
    and "bind_total oper (query oper s cond target (drv_dialect drv)) < 2 ^ 31"
    and "\<And>r st w' m'. usable w' \<Longrightarrow> (case st of None \<Rightarrow> True | Some q \<Rightarrow> q \<in> live w') \<Longrightarrow> P (r, st, w', m')"
  shows "delivers (build_and_prepare h (query oper s cond target (drv_dialect drv)) w m) P"
  using build_and_prepare_total [OF assms(1-4), of "query oper s cond target (drv_dialect drv)" m]
    assms(6-8) query_idents [OF assms(5)]
  by (auto elim!: delivers_mono)

lemma Write_total:
  assumes "serving drv ctx usable live h w F" and "row_arg h name row nm"
  shows "delivers (SqlRDBWrite h name row nm w m) (\<lambda>(r, h', w', m'). usable w')"
  unfolding SqlRDBWrite_def using assms
  by (auto simp: serving_def row_arg_def split: option.splits
      intro!: locked_delivers with_schema_delivers query_get_total [where F = F] schema_ok_write write_params
        call_rules release_total [THEN delivers_mono] bind_row_total [THEN delivers_mono])

lemma WriteMany_total:
  assumes "serving drv ctx usable live h w F" and "rows_arg h name rows n stride nms"
  shows "delivers (SqlRDBWriteMany h name rows n stride nms w m) (\<lambda>(r, h', w', m'). usable w')"
  unfolding SqlRDBWriteMany_def using assms
  by (auto simp: serving_def rows_arg_def Let_def split: option.splits
      intro!: locked_delivers with_schema_delivers query_get_total [where F = F] schema_ok_write write_params
        call_rules release_total [THEN delivers_mono] write_rows_total [where n = n and i = 0, simplified, THEN delivers_mono])

lemma Read_total:
  assumes "serving drv ctx usable live h w F" and "row_arg h name row nm" and "cond_safe cond"
  shows "delivers (SqlRDBRead h name cond row nm opts w m) (\<lambda>(r, h', row', nm', w', m'). usable w')"
  unfolding SqlRDBRead_def using assms cond_safe_count [OF assms(3)]
  by (auto simp: serving_def row_arg_def Let_def split: option.splits
      intro!: locked_delivers [where P = "\<lambda>r (row', nm', w', m'). usable w'", THEN delivers_mono]
        with_schema_delivers query_get_total [where F = F]
        call_rules release_total [THEN delivers_mono] bind_cond_from_total [THEN delivers_mono]
        read_row_total [THEN delivers_mono] delivers_also [OF read_single_total read_single_frame])

lemma StmtNext_total:
  assumes "serving drv ctx usable live h w F" and "raw_stmt it \<in> F" and "next_arg h it row nm"
  shows "delivers (SqlRDBStmtNext (Some it) h row nm w) (\<lambda>(r, h', row', nm', w'). usable w')"
proof -
  have "raw_stmt it \<in> live w" using assms(1,2) by (auto simp: serving_def holds_def)
  then show ?thesis unfolding SqlRDBStmtNext_def using assms
    by (auto simp: serving_def next_arg_def split: option.splits
        intro!: locked_delivers call_rules read_row_total [THEN delivers_mono])
qed

lemma StmtFree_total:
  assumes "serving drv ctx usable live h w F" and "raw_stmt it \<in> F"
  shows "delivers (SqlRDBStmtFree (Some it) h w) (\<lambda>(r, h', w'). usable w')"
proof -
  have "raw_stmt it \<in> live w" using assms(1,2) by (auto simp: serving_def holds_def)
  then show ?thesis unfolding SqlRDBStmtFree_def using assms
    by (auto simp: serving_def intro!: locked_delivers finalize_total [THEN delivers_mono])
qed

lemma Delete_total:
  assumes "serving drv ctx usable live h w F" and "cond_safe cond"
  shows "delivers (SqlRDBDelete h name cond out w m) (\<lambda>(r, h', out', w', m'). usable w')"
  unfolding SqlRDBDelete_def using assms cond_safe_count [OF assms(2)]
  by (auto simp: serving_def Let_def split: option.splits
      intro!: locked_delivers with_schema_delivers query_get_total [where F = F]
        call_rules release_total [THEN delivers_mono] bind_cond_from_total [THEN delivers_mono])

lemma Count_total:
  assumes "serving drv ctx usable live h w F" and "cond_safe cond"
  shows "delivers (SqlRDBCount h name cond out w m) (\<lambda>(r, h', out', w', m'). usable w')"
  unfolding SqlRDBCount_def using assms cond_safe_count [OF assms(2)]
  by (auto simp: serving_def Let_def split: option.splits
      intro!: locked_delivers with_schema_delivers query_get_total [where F = F]
        call_rules release_total [THEN delivers_mono] bind_cond_from_total [THEN delivers_mono])

lemma ReadMany_total:
  assumes "serving drv ctx usable live h w F" and "cond_safe cond"
  shows "delivers (SqlRDBReadMany h name cond given w m) (\<lambda>(r, h', it, w', m'). usable w')"
  unfolding SqlRDBReadMany_def using assms cond_safe_count [OF assms(2)]
  by (auto simp: serving_def Let_def split: option.splits
      intro!: locked_delivers with_schema_delivers query_prepare_total [where F = F] delivers_alloc
        call_rules finalize_total [THEN delivers_mono] bind_cond_from_total [THEN delivers_mono])

lemma count_matching_rows_total:
  assumes "driver h = Some drv" and "driver_ctx h = Some ctx" and "holds live h w F" and "usable w" and "schema_ok s"
    and "cond_safe cond"
  shows "delivers (count_matching_rows h s col cond w m) (\<lambda>(r, n, w', m'). usable w')"
  unfolding count_matching_rows_def using assms cond_safe_count [OF assms(6)]
  by (auto intro!: query_prepare_total [where F = F] finalize_total [THEN delivers_mono] call_rules
      bind_cond_from_total [THEN delivers_mono] split: option.splits)

lemma WriteBlobField_total:
  assumes "serving drv ctx usable live h w F" and "cond_safe key" and "\<And>bs. bytes = Some bs \<Longrightarrow> blob_arg bs len"
  shows "delivers (SqlRDBWriteBlobField h name key col bytes len w m) (\<lambda>(r, h', w', m'). usable w')"
  unfolding SqlRDBWriteBlobField_def using assms cond_safe_count [OF assms(2)]
  by (auto simp: serving_def dest!: blob_error_mutex split: option.splits
      intro!: locked_delivers with_schema_delivers query_get_total [where F = F] call_rules
        delivers_also [OF count_matching_rows_total [where F = F] count_matching_rows_holds [where F = F]]
        release_total [THEN delivers_mono] bind_cond_from_total [THEN delivers_mono])

lemma ReadBlobField_total:
  assumes "serving drv ctx usable live h w F" and "cond_safe key"
  shows "delivers (SqlRDBReadBlobField h name key col ob ol w m) (\<lambda>(r, h', out, w', m'). usable w')"
  unfolding SqlRDBReadBlobField_def using assms cond_safe_count [OF assms(2)]
  by (auto simp: serving_def covers_def Let_def dest!: blob_error_mutex split: option.splits
      intro!: locked_delivers with_schema_delivers query_prepare_total [where F = F] call_rules delivers_alloc
        finalize_total [THEN delivers_mono] bind_cond_from_total [THEN delivers_mono])

lemma tx_run_total:
  assumes "serving drv ctx usable live h w F"
  shows "delivers (tx_run oper h w) (\<lambda>(r, h', w'). usable w')"
proof -
  have u: "usable w" and d: "driver h = Some drv" "driver_ctx h = Some ctx" using assms by (simp_all add: serving_def)
  have rdy: "tx_ready h" using assms by (simp add: serving_def tx_ready_def)
  have "delivers (tx_command drv ctx oper (txn_depth (txn h)) w) (\<lambda>(r, w'). usable w')"
    using u by (cases oper) (auto intro!: connection_rules)
  then obtain r w' where "tx_command drv ctx oper (txn_depth (txn h)) w = Some (r, w')" "usable w'"
    by (auto dest: deliversD)
  then show ?thesis using tx_run_refines [OF rdy d] by fastforce
qed

end

end
