(* ===== verification/Client.thy ===== *)
theory Client
  imports Total_Calls Service
begin

text \<open>
  A client of one handle: any sequence of calls, each made with arguments that describe real objects
  in the state in which it is made. No such call is ever undefined and none fails to return; closing
  the handle at any point returns as well and leaves only the statements of iterators that were not
  freed.
\<close>

section \<open>The calls a client makes\<close>

text \<open>An iterator is named by its position in the list of open iterators; a wrong position passes \<^verbatim>\<open>NULL\<close>.\<close>

datatype request =
    Rq_Write "string option" "char list option" null_map
  | Rq_WriteMany "string option" "char list option" nat nat null_map
  | Rq_Read "string option" "SqlRDBCondition option" "char list option" null_map "SqlRDBReadOpts option"
  | Rq_ReadMany "string option" "SqlRDBCondition option" bool
  | Rq_Next nat "char list option" null_map
  | Rq_Free nat
  | Rq_Delete "string option" "SqlRDBCondition option" "nat option"
  | Rq_Count "string option" "SqlRDBCondition option" "nat option"
  | Rq_WriteBlob "string option" "SqlRDBCondition option" "string option" "char list option" nat
  | Rq_ReadBlob "string option" "SqlRDBCondition option" "string option" bool bool
  | Rq_Tx tx_op
  | Rq_Config SqlRDBConfig

type_synonym 'w client = "'w SqlRDBHandle \<times> 'w \<times> SqlRDBStmt list \<times> mem"

definition drop_nth :: "nat \<Rightarrow> 'a list \<Rightarrow> 'a list" where
  "drop_nth i xs = take i xs @ drop (Suc i) xs"

fun perform :: "request \<Rightarrow> 'w client \<Rightarrow> (SqlRDBResult \<times> 'w client) option" where
  "perform (Rq_Write name row nm) (h, w, its, m) =
     do { (r, h, w, m) \<leftarrow> SqlRDBWrite h name row nm w m; Some (r, h, w, its, m) }"
| "perform (Rq_WriteMany name rows n stride nms) (h, w, its, m) =
     do { (r, h, w, m) \<leftarrow> SqlRDBWriteMany h name rows n stride nms w m; Some (r, h, w, its, m) }"
| "perform (Rq_Read name cond row nm opts) (h, w, its, m) =
     do { (r, h, row, nm, w, m) \<leftarrow> SqlRDBRead h name cond row nm opts w m; Some (r, h, w, its, m) }"
| "perform (Rq_ReadMany name cond given) (h, w, its, m) =
     do {
       (r, h, it, w, m) \<leftarrow> SqlRDBReadMany h name cond given w m;
       Some (r, h, w, case it of None \<Rightarrow> its | Some x \<Rightarrow> its @ [x], m)
     }"
| "perform (Rq_Next i row nm) (h, w, its, m) =
     do { (r, h, row, nm, w) \<leftarrow> SqlRDBStmtNext (nth_opt its i) h row nm w; Some (r, h, w, its, m) }"
| "perform (Rq_Free i) (h, w, its, m) =
     do { (r, h, w) \<leftarrow> SqlRDBStmtFree (nth_opt its i) h w; Some (r, h, w, drop_nth i its, m) }"
| "perform (Rq_Delete name cond out) (h, w, its, m) =
     do { (r, h, out, w, m) \<leftarrow> SqlRDBDelete h name cond out w m; Some (r, h, w, its, m) }"
| "perform (Rq_Count name cond out) (h, w, its, m) =
     do { (r, h, out, w, m) \<leftarrow> SqlRDBCount h name cond out w m; Some (r, h, w, its, m) }"
| "perform (Rq_WriteBlob name key col bytes len) (h, w, its, m) =
     do { (r, h, w, m) \<leftarrow> SqlRDBWriteBlobField h name key col bytes len w m; Some (r, h, w, its, m) }"
| "perform (Rq_ReadBlob name key col ob ol) (h, w, its, m) =
     do { (r, h, out, w, m) \<leftarrow> SqlRDBReadBlobField h name key col ob ol w m; Some (r, h, w, its, m) }"
| "perform (Rq_Tx oper) (h, w, its, m) =
     do { (r, h, w) \<leftarrow> tx_run oper h w; Some (r, h, w, its, m) }"
| "perform (Rq_Config cfg) (h, w, its, m) =
     do { (r, h, w, m) \<leftarrow> SqlRDBSetConfig h (Some cfg) w m; Some (r, h, w, its, m) }"

text \<open>The obligations of the caller.\<close>

fun request_ok :: "request \<Rightarrow> 'w client \<Rightarrow> bool" where
  "request_ok (Rq_Write name row nm) (h, w, its, m) \<longleftrightarrow> row_arg h name row nm"
| "request_ok (Rq_WriteMany name rows n stride nms) (h, w, its, m) \<longleftrightarrow> rows_arg h name rows n stride nms"
| "request_ok (Rq_Read name cond row nm opts) (h, w, its, m) \<longleftrightarrow> row_arg h name row nm \<and> cond_safe cond"
| "request_ok (Rq_ReadMany name cond given) (h, w, its, m) \<longleftrightarrow> cond_safe cond"
| "request_ok (Rq_Next i row nm) (h, w, its, m) \<longleftrightarrow> (i < length its \<longrightarrow> next_arg h (its ! i) row nm)"
| "request_ok (Rq_Free i) (h, w, its, m) \<longleftrightarrow> True"
| "request_ok (Rq_Delete name cond out) (h, w, its, m) \<longleftrightarrow> cond_safe cond"
| "request_ok (Rq_Count name cond out) (h, w, its, m) \<longleftrightarrow> cond_safe cond"
| "request_ok (Rq_WriteBlob name key col bytes len) (h, w, its, m) \<longleftrightarrow>
     cond_safe key \<and> (case bytes of None \<Rightarrow> True | Some bs \<Rightarrow> blob_arg bs len)"
| "request_ok (Rq_ReadBlob name key col ob ol) (h, w, its, m) \<longleftrightarrow> cond_safe key"
| "request_ok (Rq_Tx oper) (h, w, its, m) \<longleftrightarrow> True"
| "request_ok (Rq_Config cfg) (h, w, its, m) \<longleftrightarrow> unat (stmt_cache_size cfg) \<le> 2 ^ 62"

text \<open>The invariant: the open handle of \<open>Service\<close>, the iterators being the statements outside the cache.\<close>

definition client_ok :: "'w SqlRDBDriver \<Rightarrow> ptr \<Rightarrow> ('w \<Rightarrow> bool) \<Rightarrow> ('w \<Rightarrow> ptr set) \<Rightarrow> 'w client \<Rightarrow> bool" where
  "client_ok drv ctx usable live s =
     (case s of (h, w, its, m) \<Rightarrow> open_handle drv ctx live (h, w, raw_stmt ` set its) \<and> usable w \<and>
        distinct (map raw_stmt its) \<and> (\<forall>it \<in> set its. schema_at (registry h) (it_schema it) \<noteq> None))"

text \<open>A client that keeps its obligations.\<close>

inductive client_steps :: "'w client \<Rightarrow> (request \<times> SqlRDBResult) list \<Rightarrow> 'w client \<Rightarrow> bool" where
  cl_start: "client_steps s [] s"
| cl_call: "client_steps s tr s1 \<Longrightarrow> request_ok q s1 \<Longrightarrow> perform q s1 = Some (r, s2) \<Longrightarrow> client_steps s (tr @ [(q, r)]) s2"

section \<open>A call is a step of the service\<close>

lemma drop_nth_raw:
  assumes "distinct (map raw_stmt its)" and "i < length its"
  shows "raw_stmt ` set (drop_nth i its) = raw_stmt ` set its - {raw_stmt (its ! i)}"
    and "distinct (map raw_stmt (drop_nth i its))" and "set (drop_nth i its) \<subseteq> set its"
proof -
  have sp: "its = take i its @ its ! i # drop (Suc i) its" by (rule id_take_nth_drop [OF assms(2)])
  have d: "distinct (map raw_stmt (take i its @ its ! i # drop (Suc i) its))" using assms(1) sp by simp
  then show "distinct (map raw_stmt (drop_nth i its))" by (auto simp: drop_nth_def)
  have "raw_stmt ` set its = raw_stmt ` set (take i its @ its ! i # drop (Suc i) its)" using sp by simp
  moreover have "raw_stmt (its ! i) \<notin> raw_stmt ` set (drop_nth i its)" using d by (auto simp: drop_nth_def image_Un)
  ultimately show "raw_stmt ` set (drop_nth i its) = raw_stmt ` set its - {raw_stmt (its ! i)}"
    by (simp add: drop_nth_def image_Un)
  show "set (drop_nth i its) \<subseteq> set its" by (auto simp: drop_nth_def dest: in_set_takeD in_set_dropD)
qed

text \<open>A new iterator points at a registered schema.\<close>

lemma with_schema_known:
  assumes "P (SQL_RDB_ERR_UNKNOWN_STRUCT, set_error h SQL_RDB_ERR_UNKNOWN_STRUCT (fname @ '': unknown struct '' @ squote name), out)"
    and "\<And>p schema. c2sql_internal_schema_lookup h (Some name) = Some p \<Longrightarrow> schema_at (registry h) p = Some schema \<Longrightarrow>
      ensures (body schema) P"
  shows "ensures (with_schema h fname name out body) P"
  unfolding with_schema_def using assms
  by (cases "c2sql_internal_schema_lookup h (Some name)") (auto intro!: ensuresI [where x = "schema_at reg p" for reg p])

lemma ReadMany_schema:
  "ensures (SqlRDBReadMany h name cond given w m) (\<lambda>(r, h', it, w', m').
     case it of None \<Rightarrow> True | Some x \<Rightarrow> schema_at (registry h) (it_schema x) \<noteq> None)"
  unfolding SqlRDBReadMany_def
  by ((clarsimp simp: Let_def split: option.splits prod.splits
      | intro conjI impI allI locked_ensures with_schema_known any_call
      | rule ensuresI)+)

lemma perform_service:
  assumes "distinct (map raw_stmt its)" and "request_ok q (h, w, its, m)"
    and run: "perform q (h, w, its, m) = Some (r, h', w', its', m')"
  shows "service live (h, w, raw_stmt ` set its) (h', w', raw_stmt ` set its')"
proof (cases q)
  case (Rq_ReadMany name cond given)
  then obtain it where it: "SqlRDBReadMany h name cond given w m = Some (r, h', it, w', m')"
    "its' = (case it of None \<Rightarrow> its | Some x \<Rightarrow> its @ [x])" using run by (auto simp: bind_Some_iff)
  have "raw_stmt ` set its' = (case it of None \<Rightarrow> raw_stmt ` set its | Some x \<Rightarrow> insert (raw_stmt x) (raw_stmt ` set its))"
    using it(2) by (simp split: option.splits)
  then show ?thesis by (simp only:) (rule r_into_rtranclp, rule sv_api, rule st_read_many, rule it(1))
next
  case (Rq_Free i)
  show ?thesis
  proof (cases "i < length its")
    case True
    then have f: "SqlRDBStmtFree (Some (its ! i)) h w = Some (r, h', w')" "its' = drop_nth i its"
      using run Rq_Free by (auto simp: bind_Some_iff nth_opt_def)
    have "raw_stmt (its ! i) \<in> raw_stmt ` set its" using True by simp
    from st_free [OF this f(1)] show ?thesis using drop_nth_raw(1) [OF assms(1) True] f(2) by (auto intro: sv_api)
  next
    case False
    then show ?thesis using run Rq_Free by (auto simp: bind_Some_iff nth_opt_def SqlRDBStmtFree_def drop_nth_def)
  qed
next
  case (Rq_Config cfg)
  then have c: "SqlRDBSetConfig h (Some cfg) w m = Some (r, h', w', m')" "its' = its" "unat (stmt_cache_size cfg) \<le> 2 ^ 62"
    using run assms(2) by (auto simp: bind_Some_iff)
  show ?thesis unfolding c(2) by (rule r_into_rtranclp, rule sv_config [OF c(3,1)])
qed (use run in \<open>auto simp: bind_Some_iff intro!: r_into_rtranclp sv_api
  dest: st_write st_write_many st_read st_next st_delete st_count st_write_blob st_read_blob st_tx\<close>)

section \<open>No call is undefined\<close>

lemma open_serving: "open_handle drv ctx live (h, w, F) \<Longrightarrow> usable w \<Longrightarrow> serving drv ctx usable live h w F"
  by (simp add: open_handle_def serving_def handle_ok_def c2sql_handle_valid_def mutex_sound_idle)

context total_driver begin

lemma SetConfig_total:
  assumes "serving drv ctx usable live h w F" and sz: "unat (stmt_cache_size cfg) \<le> 2 ^ 62" and mx: "mutex_sound (mutex h)"
  shows "delivers (SqlRDBSetConfig h (Some cfg) w m) (\<lambda>(r, h', w', m'). usable w')"
proof -
  have S: "c2sql_handle_valid (Some h)" "driver h = Some drv" "holds live h w F" "usable w"
    using assms(1) by (simp_all add: serving_def)
  obtain es where es: "represents (cache h) es" "distinct (map snd es)" "live w = set (map snd es) \<union> F"
    using S(3) by (auto simp: holds_def)
  let ?dead = "rev (map snd (drop (unat (stmt_cache_size cfg)) es))"
  have "distinct ?dead" using es(2) by (simp add: drop_map [symmetric] distinct_drop)
  moreover have "set ?dead \<subseteq> live w" using es(3) by (auto dest: in_set_dropD)
  ultimately have fin: "delivers (finalize_all (Some drv) ?dead w) usable" by (rule finalize_all_total [OF S(4)])
  obtain c r m' where "c2sql_internal_cache_rebuild (cache h) (stmt_cache_size cfg) (Some drv) w m =
      do { w \<leftarrow> finalize_all (Some drv) ?dead w; Some (r, c, w, m') }"
    using cache_rebuild_refines [OF es(1) sz, of "Some drv" w m] by blast
  then have rb: "delivers (c2sql_internal_cache_rebuild (cache h) (stmt_cache_size cfg) (Some drv) w m) (\<lambda>(r, c, w', m'). usable w')"
    using fin by (auto elim!: delivers_mono)
  obtain mx' where lk: "c2sql_internal_mutex_lock (mutex h) = Some mx'" "mtx_threadsafe mx' = mtx_threadsafe (mutex h)" "mtx_locked mx'"
    using mx by (cases "mtx_threadsafe (mutex h)")
      (auto simp: mutex_sound_def c2sql_internal_mutex_lock_def intro!: that)
  have unlock: "\<exists>mx2. c2sql_internal_mutex_unlock y = Some mx2" if "mtx_locked y" for y
    using that by (simp add: c2sql_internal_mutex_unlock_def)
  show ?thesis unfolding SqlRDBSetConfig_def locked_def lock_handle_def unlock_handle_def
    using S lk unlock [of mx'] unlock [of "mx'\<lparr>mtx_threadsafe := threadsafe cfg\<rparr>"]
    by (auto simp: Let_def intro!: rb [THEN delivers_mono])
qed

lemma perform_returns:
  assumes inv: "client_ok drv ctx usable live (h, w, its, m)" and req: "request_ok q (h, w, its, m)"
  shows "delivers (perform q (h, w, its, m)) (\<lambda>(r, h', w', its', m'). usable w')"
proof -
  let ?F = "raw_stmt ` set its"
  have S: "serving drv ctx usable live h w ?F" using inv by (simp add: client_ok_def open_serving)
  have mx: "mutex_sound (mutex h)" using inv by (simp add: client_ok_def open_handle_def handle_ok_def)
  have it: "\<exists>it. nth_opt its i = Some it \<and> it = its ! i \<and> raw_stmt it \<in> ?F" if "i < length its" for i using that by (simp add: nth_opt_def)
  note calls = Write_total [OF S] WriteMany_total [OF S] Read_total [OF S] ReadMany_total [OF S] StmtNext_total [OF S]
    StmtFree_total [OF S] Delete_total [OF S] Count_total [OF S] WriteBlobField_total [OF S] ReadBlobField_total [OF S]
    tx_run_total [OF S] SetConfig_total [OF S _ mx]
  show ?thesis
  proof (cases q)
    case (Rq_Next i row nm)
    show ?thesis
    proof (cases "i < length its")
      case True
      then show ?thesis using it [OF True] req Rq_Next by (auto intro!: calls [THEN delivers_mono])
    next
      case False
      then show ?thesis using Rq_Next S by (simp add: nth_opt_def SqlRDBStmtNext_def serving_def)
    qed
  next
    case (Rq_Free i)
    show ?thesis
    proof (cases "i < length its")
      case True
      then show ?thesis using it [OF True] Rq_Free by (auto intro!: calls [THEN delivers_mono])
    next
      case False
      then show ?thesis using Rq_Free S by (simp add: nth_opt_def SqlRDBStmtFree_def serving_def)
    qed
  qed (use req in \<open>auto split: option.splits intro!: calls [THEN delivers_mono]\<close>)
qed

lemma perform_keeps:
  assumes inv: "client_ok drv ctx usable live (h, w, its, m)" and req: "request_ok q (h, w, its, m)"
    and run: "perform q (h, w, its, m) = Some (r, h', w', its', m')" and u: "usable w'"
  shows "client_ok drv ctx usable live (h', w', its', m') \<and> registry h' = registry h"
proof -
  have I: "open_handle drv ctx live (h, w, raw_stmt ` set its)" "distinct (map raw_stmt its)"
    "\<forall>it \<in> set its. schema_at (registry h) (it_schema it) \<noteq> None" using inv by (auto simp: client_ok_def)
  have op: "open_handle drv ctx live (h', w', raw_stmt ` set its')"
    by (rule service_open [OF perform_service [OF I(2) req run] I(1)])
  have idle: "mutex_idle (mutex h)" and drv: "driver h = Some drv" and ho: "holds live h w (raw_stmt ` set its)"
    and hok: "handle_ok h" using I(1) by (simp_all add: open_handle_def handle_ok_def mutex_sound_idle)
  have reg: "registry h' = registry h"
  proof (cases q)
    case (Rq_Config cfg)
    then have "SqlRDBSetConfig h (Some cfg) w m = Some (r, h', w', m')" using run by (auto simp: bind_Some_iff)
    from ensuresD [OF SetConfig_post [OF hok] this] show ?thesis using req Rq_Config by simp
  next
    case (Rq_Tx oper)
    then have "tx_run oper h w = Some (r, h', w')" using run by (auto simp: bind_Some_iff)
    then have "session (h, w, {}) (h', w', {})" by (intro r_into_rtranclp st_tx)
    from session_same [OF this idle] show ?thesis by (simp add: same_connection_def)
  qed (use run idle in \<open>auto simp: bind_Some_iff keeps_handle_def
    dest!: Write_frame [THEN ensuresD, rotated] WriteMany_frame [THEN ensuresD, rotated]
    Read_frame [THEN ensuresD, rotated] ReadMany_frame [THEN ensuresD, rotated] StmtNext_frame [THEN ensuresD, rotated]
    StmtFree_frame [THEN ensuresD, rotated] Delete_frame [THEN ensuresD, rotated] Count_frame [THEN ensuresD, rotated]
    WriteBlobField_frame [THEN ensuresD, rotated] ReadBlobField_frame [THEN ensuresD, rotated]\<close>)
  have "distinct (map raw_stmt its') \<and> (\<forall>it \<in> set its'. schema_at (registry h) (it_schema it) \<noteq> None)"
  proof (cases q)
    case (Rq_ReadMany name cond given)
    then obtain it where it: "SqlRDBReadMany h name cond given w m = Some (r, h', it, w', m')"
      "its' = (case it of None \<Rightarrow> its | Some x \<Rightarrow> its @ [x])" using run by (auto simp: bind_Some_iff)
    from ensuresD [OF ReadMany_holds [OF drv ho] it(1)] ensuresD [OF ReadMany_schema it(1)] show ?thesis
      using it(2) I(2,3) by (auto simp: iterator_opened_def split: option.splits)
  next
    case (Rq_Free i)
    then have its: "its' = drop_nth i its" using run by (auto simp: bind_Some_iff)
    show ?thesis
    proof (cases "i < length its")
      case True
      then show ?thesis using drop_nth_raw [OF I(2) True] I(3) its by auto
    next
      case False
      then show ?thesis using its I(2,3) by (simp add: drop_nth_def)
    qed
  qed (use run I(2,3) in \<open>auto simp: bind_Some_iff\<close>)
  then show ?thesis using op u reg by (simp add: client_ok_def)
qed

text \<open>Every call that keeps the obligations returns, and the client may go on.\<close>

lemma perform_total:
  assumes "client_ok drv ctx usable live s" and "request_ok q s"
  shows "\<exists>r s'. perform q s = Some (r, s') \<and> client_ok drv ctx usable live s'"
proof -
  obtain h w its m where s: "s = (h, w, its, m)" by (metis prod_cases4)
  obtain r h' w' its' m' where run: "perform q s = Some (r, h', w', its', m')" "usable w'"
    using deliversD [OF perform_returns [OF assms [unfolded s]]] s by auto
  then show ?thesis using perform_keeps [OF assms [unfolded s]] s by blast
qed

lemma client_steps_ok:
  assumes "client_steps s tr s'" and "client_ok drv ctx usable live s"
  shows "client_ok drv ctx usable live s'"
  using assms
proof (induction rule: client_steps.induct)
  case (cl_call s tr s1 q r s2)
  then show ?case using perform_total [OF cl_call.IH [OF cl_call.prems] cl_call.hyps(2)] by auto
qed simp

text \<open>Closing returns, and leaves the statements of iterators that were not freed.\<close>

lemma client_close:
  assumes inv: "client_ok drv ctx usable live (h, w, its, m)" and p: "p \<in> set (g_live_handles P)" "handles P p = Some h"
  shows "delivers (SqlRDBClose (Some p) w P) (\<lambda>(r, w', P'). r = SQL_RDB_OK \<and> live w' = raw_stmt ` set its \<and> handles P' p = None)"
proof -
  have H: "handle_ok h" "driver h = Some drv" "driver_ctx h = Some ctx" "holds live h w (raw_stmt ` set its)" "usable w"
    using inv by (auto simp: client_ok_def open_handle_def)
  obtain es where es: "represents (cache h) es" "distinct (map snd es)" "live w = set (map snd es) \<union> raw_stmt ` set its"
    using H(4) by (auto simp: holds_def)
  have fin: "delivers (finalize_all (Some drv) (map snd es) v) usable" if "usable v" "live v = live w" for v
    using finalize_all_total [OF that(1) es(2)] that(2) es(3) by simp
  have calls: "delivers (close_calls drv ctx (txn_depth (txn h)) (map snd es) w) (\<lambda>_. True)"
    unfolding close_calls_def using H(5)
    by (auto intro!: delivers_also [OF rollback_total rollback_tx] fin [THEN delivers_mono] close_total [THEN delivers_mono])
  note eq = Close_calls [OF p H(1-3) es(1)]
  have "delivers (SqlRDBClose (Some p) w P) (\<lambda>(r, w', P'). r = SQL_RDB_OK \<and> handles P' p = None)"
    unfolding eq using calls by (auto elim!: delivers_mono)
  from delivers_also [OF this Close_live [OF p H(1-4)]] show ?thesis by auto
qed

end

end
