(* ===== verification/Postgres_Total.thy ===== *)
theory Postgres_Total
  imports Client Query_Params Postgres_Rows
begin

text \<open>
  The PostgreSQL driver answers every call the library makes. The one thing it relies on is that the
  length libpq reports for a value is the length of the value.
\<close>

definition libpq_lengths :: "'p libpq \<Rightarrow> bool" where
  "libpq_lengths pq \<longleftrightarrow> (\<forall>res i j l. PQgetlength pq res i j l = length (PQgetvalue pq res i j l))"

text \<open>The connection is open and every statement belongs to it.\<close>

definition pg_usable :: "ptr \<Rightarrow> 'p pg_world \<Rightarrow> bool" where
  "pg_usable ctx w \<longleftrightarrow> pg_ctxs w ctx \<noteq> None \<and> (\<forall>p s. pg_stmts w p = Some s \<longrightarrow> ps_ctx s = ctx)"

lemma pg_usable_upd [simp]:
  "pg_usable ctx (w\<lparr>pg_lib := l\<rparr>) = pg_usable ctx w" "pg_usable ctx (w\<lparr>pg_mem := m\<rparr>) = pg_usable ctx w"
  "pg_usable ctx (w\<lparr>pg_next := n\<rparr>) = pg_usable ctx w" "pg_usable ctx w \<Longrightarrow> pg_usable ctx (set_ctx p c w)"
  by (auto simp: pg_usable_def set_ctx_def)

lemma pg_usable_set_stmt: "pg_usable ctx w \<Longrightarrow> ps_ctx s = ctx \<Longrightarrow> pg_usable ctx (set_stmt p s w)"
  by (auto simp: pg_usable_def set_stmt_def)

lemma pg_usable_stmt: "pg_usable ctx w \<Longrightarrow> p \<in> pg_live w \<Longrightarrow> \<exists>s. pg_stmts w p = Some s \<and> ps_ctx s = ctx"
  by (auto simp: pg_usable_def pg_live_def)

lemma pg_usable_ctx: "pg_usable ctx w \<Longrightarrow> \<exists>c. pg_ctxs w ctx = Some c"
  by (auto simp: pg_usable_def)

lemma pg_lookup_total:
  "pg_usable ctx w \<Longrightarrow> p \<in> pg_live w \<Longrightarrow> (\<And>s. P s) \<Longrightarrow> delivers (pg_stmts w p) P"
  "pg_usable ctx w \<Longrightarrow> (\<And>c. Q c) \<Longrightarrow> delivers (pg_ctxs w ctx) Q"
  using pg_usable_stmt [of ctx w p] pg_usable_ctx [of ctx w] by auto

lemma pg_alloc_usable: "pg_alloc w = (ok, w') \<Longrightarrow> pg_usable ctx w' = pg_usable ctx w \<and> pg_stmts w' = pg_stmts w \<and> pg_ctxs w' = pg_ctxs w"
  by (auto simp: pg_alloc_def split: prod.splits)

lemma pg_alloc_cases: "(\<And>ok w'. pg_usable ctx w' = pg_usable ctx w \<Longrightarrow> pg_stmts w' = pg_stmts w \<Longrightarrow> pg_ctxs w' = pg_ctxs w \<Longrightarrow>
    delivers (f ok w') P) \<Longrightarrow> delivers (case pg_alloc w of (ok, w') \<Rightarrow> f ok w') P"
  by (cases "pg_alloc w") (auto dest: pg_alloc_usable)

lemma pg_exec_total: "pg_usable ctx w \<Longrightarrow> delivers (pg_exec pq ctx sql w) (\<lambda>(r, w'). pg_usable ctx w')"
  using pg_usable_ctx [of ctx w] by (auto simp: pg_exec_def Let_def split: option.splits prod.splits)

lemma store_param_total:
  assumes "pg_usable ctx w" and "p \<in> pg_live w" and "\<And>mem. data = Some mem \<Longrightarrow> 0 \<le> len \<and> nat len \<le> length mem"
  shows "delivers (store_param p i data len fmt oid w) (\<lambda>(r, w'). pg_usable ctx w')"
proof -
  obtain s where s: "pg_stmts w p = Some s" "ps_ctx s = ctx" using pg_usable_stmt [OF assms(1,2)] by blast
  show ?thesis unfolding store_param_def using s assms(1,3)
    by (auto simp: Let_def pg_usable_set_stmt split: option.splits intro!: pg_alloc_cases [where ctx = ctx] delivers_read_bytes)
qed

lemma pg_bind_text_total:
  assumes "pg_usable ctx w" and "p \<in> pg_live w" and "text_arg mem len"
  shows "delivers (pg_bind_text p i (Some mem) len w) (\<lambda>(r, w'). pg_usable ctx w')"
proof -
  obtain s where s: "pg_stmts w p = Some s" "ps_ctx s = ctx" using pg_usable_stmt [OF assms(1,2)] by blast
  have "length (takeWhile (\<lambda>c. c \<noteq> NUL) mem) \<le> length mem" by (rule length_takeWhile_le)
  then show ?thesis unfolding pg_bind_text_def using s assms(1,3)
    by (auto simp: Let_def text_arg_def pg_usable_set_stmt split: option.splits if_splits
        intro!: pg_alloc_cases [where ctx = ctx] delivers_read_bytes)
qed

lemma pg_step_total:
  assumes "pg_usable ctx w" and "p \<in> pg_live w"
  shows "delivers (pg_step pq p w) (\<lambda>(r, b, w'). pg_usable ctx w')"
proof -
  obtain s where s: "pg_stmts w p = Some s" "ps_ctx s = ctx" using pg_usable_stmt [OF assms] by blast
  obtain c where c: "pg_ctxs w ctx = Some c" using pg_usable_ctx [OF assms(1)] by blast
  show ?thesis unfolding pg_step_def using s c assms(1)
    by (auto simp: Let_def pg_usable_set_stmt split: option.splits prod.splits)
qed

lemma pg_column_blob_total:
  assumes "pg_usable ctx w" and "p \<in> pg_live w"
  shows "delivers (pg_column_blob pq p i w) (\<lambda>(r, v, n, w'). pg_usable ctx w' \<and> covers v n)"
proof -
  obtain s where s: "pg_stmts w p = Some s" "ps_ctx s = ctx" using pg_usable_stmt [OF assms] by blast
  show ?thesis unfolding pg_column_blob_def using s assms(1)
    by (auto simp: Let_def covers_def pg_usable_set_stmt split: option.splits prod.splits)
qed

lemma pg_prepare_total:
  assumes "pg_usable ctx w" and "generated C2SQL_DIALECT_POSTGRES sql"
  shows "delivers (pg_prepare ctx sql w) (\<lambda>(r, st, w'). pg_usable ctx w')"
proof -
  obtain n where "pg_count_params sql = Some n" using assms(2) pg_count_sql_text by (fastforce simp: generated_def)
  then show ?thesis unfolding pg_prepare_def using assms(1)
    by (auto simp: Let_def pg_usable_set_stmt dest!: pg_alloc_usable [where ctx = ctx] split: prod.splits if_splits)
qed

lemma pg_finalize_total:
  assumes "pg_usable ctx w" and "p \<in> pg_live w"
  shows "delivers (pg_finalize pq p w) (\<lambda>(r, w'). pg_usable ctx w')" and "delivers (pg_reset pq p w) (\<lambda>(r, w'). pg_usable ctx w')"
proof -
  obtain s where s: "pg_stmts w p = Some s" "ps_ctx s = ctx" using pg_usable_stmt [OF assms] by blast
  then show "delivers (pg_finalize pq p w) (\<lambda>(r, w'). pg_usable ctx w')"
    using assms(1) by (auto simp: pg_finalize_def clear_results_def pg_usable_def)
  show "delivers (pg_reset pq p w) (\<lambda>(r, w'). pg_usable ctx w')"
    using assms(1) s by (auto simp: pg_reset_def clear_results_def clear_params_def pg_usable_set_stmt)
qed

lemma pg_close_total: "pg_usable ctx w \<Longrightarrow> delivers (pg_close pq ctx w) (\<lambda>_. True)"
  by (auto simp: pg_close_def pg_usable_def Let_def)

lemma pg_total_driver:
  assumes "libpq_lengths pq"
  shows "total_driver (g_postgres_driver pq) pg_live ctx (pg_usable ctx)"
proof unfold_locales
qed (use assms in \<open>auto simp: pg_thin_ops Let_def libpq_lengths_def covers_def blob_arg_def blob_length
    intro!: pg_lookup_total pg_exec_total store_param_total pg_bind_text_total pg_step_total pg_column_blob_total [unfolded covers_def] pg_prepare_total
      pg_finalize_total pg_close_total\<close>)

end
