(* ===== verification/Sqlite_Total.thy ===== *)
theory Sqlite_Total
  imports Client Sqlite_Driver
begin

text \<open>
  The SQLite driver answers every call the library makes when SQLite does: its functions return on
  an open connection and on statements that are open, and the length of a text or blob column is
  that of the memory returned for it.
\<close>

definition answers :: "('s \<Rightarrow> bool) \<Rightarrow> ('a \<times> 's) option \<Rightarrow> bool" where
  "answers usable x \<longleftrightarrow> delivers x (\<lambda>(a, w'). usable w')"

definition column_answers :: "('s \<Rightarrow> bool) \<Rightarrow> (char list option \<times> 's) option \<Rightarrow> ('s \<Rightarrow> (int \<times> 's) option) \<Rightarrow> bool" where
  "column_answers usable x bytes \<longleftrightarrow>
     delivers x (\<lambda>(p, w1). delivers (bytes w1) (\<lambda>(n, w2). usable w2 \<and> 0 \<le> n \<and> n < 2 ^ 31 \<and> covers p (nat n)))"

definition sqlite_connection_answers :: "'s sqlite3_api \<Rightarrow> ptr \<Rightarrow> ('s \<Rightarrow> bool) \<Rightarrow> bool" where
  "sqlite_connection_answers api db usable \<longleftrightarrow> (\<forall>w. usable w \<longrightarrow>
     (\<forall>sql. delivers (sqlite3_prepare_v2 api db sql w) (\<lambda>(rc, st, w'). usable w')) \<and>
     (\<forall>sql. answers usable (sqlite3_exec api db sql w)) \<and> sqlite3_changes api db w \<noteq> None \<and>
     sqlite3_close_v2 api db w \<noteq> None)"

definition sqlite_statements_answer :: "'s sqlite3_api \<Rightarrow> ('s \<Rightarrow> ptr set) \<Rightarrow> ('s \<Rightarrow> bool) \<Rightarrow> bool" where
  "sqlite_statements_answer api live usable \<longleftrightarrow> (\<forall>w s i. usable w \<longrightarrow> s \<in> live w \<longrightarrow>
     answers usable (sqlite3_finalize api s w) \<and> answers usable (sqlite3_reset api s w) \<and> answers usable (sqlite3_step api s w) \<and>
     (\<forall>v. answers usable (sqlite3_bind_int64 api s i v w)) \<and> (\<forall>v. answers usable (sqlite3_bind_int api s i v w)) \<and>
     (\<forall>v. answers usable (sqlite3_bind_double api s i v w)) \<and> answers usable (sqlite3_bind_null api s i w) \<and>
     (\<forall>mem n. text_arg mem n \<longrightarrow> answers usable (sqlite3_bind_text api s i (Some mem) n w)) \<and>
     (\<forall>mem n. n \<le> length mem \<longrightarrow> answers usable (sqlite3_bind_blob api s i (Some mem) (int n) w)) \<and>
     answers usable (sqlite3_column_int64 api s i w) \<and> answers usable (sqlite3_column_double api s i w) \<and>
     column_answers usable (sqlite3_column_text api s i w) (sqlite3_column_bytes api s i) \<and>
     column_answers usable (sqlite3_column_blob api s i w) (sqlite3_column_bytes api s i) \<and>
     sqlite3_column_isnull api s i w \<noteq> None)"

lemma answers_mapped: "answers usable x \<Longrightarrow> delivers (mapped x) (\<lambda>(r, w'). usable w')"
  by (cases x) (auto simp: answers_def mapped_def)

lemma answers_delivers: "answers usable x \<Longrightarrow> (\<And>a w'. usable w' \<Longrightarrow> P (a, w')) \<Longrightarrow> delivers x P"
  by (auto simp: answers_def elim!: delivers_mono)

lemma column_answers_delivers:
  assumes "column_answers usable x bytes"
  shows "delivers (do { (p, w) \<leftarrow> x; (n, w) \<leftarrow> bytes w; Some (SQL_RDB_OK, p, nat (n mod 2 ^ 64), w) })
           (\<lambda>(r, p, n, w'). usable w' \<and> covers p n)"
proof -
  have "n mod 2 ^ 64 = n" if "0 \<le> n" "n < 2 ^ 31" for n :: int using that by (intro mod_pos_pos_trivial) auto
  then show ?thesis using assms by (auto simp: column_answers_def elim!: delivers_mono)
qed

lemma sqlite_total_driver:
  assumes "sqlite_opens api live" and "sqlite_keeps api live"
    and conn: "sqlite_connection_answers api db usable" and st: "sqlite_statements_answer api live usable"
  shows "total_driver (g_sqlite3_driver api) live db usable"
proof (rule total_driver.intro)
  show "stmt_driver (g_sqlite3_driver api) live" by (rule sqlite_stmt_driver [OF assms(1,2)])
  have S: "answers usable (sqlite3_finalize api s w)" "answers usable (sqlite3_reset api s w)" "answers usable (sqlite3_step api s w)"
    "answers usable (sqlite3_bind_int64 api s i v w)" "answers usable (sqlite3_bind_int api s i u w)"
    "answers usable (sqlite3_bind_double api s i v w)" "answers usable (sqlite3_bind_null api s i w)"
    "text_arg mem n \<Longrightarrow> answers usable (sqlite3_bind_text api s i (Some mem) n w)"
    "k \<le> length mem \<Longrightarrow> answers usable (sqlite3_bind_blob api s i (Some mem) (int k) w)"
    "answers usable (sqlite3_column_int64 api s i w)" "answers usable (sqlite3_column_double api s i w)"
    "column_answers usable (sqlite3_column_text api s i w) (sqlite3_column_bytes api s i)"
    "column_answers usable (sqlite3_column_blob api s i w) (sqlite3_column_bytes api s i)"
    "\<exists>b. sqlite3_column_isnull api s i w = Some b"
    if "usable w" "s \<in> live w" for w s i v u mem n k
    using st that by (auto simp: sqlite_statements_answer_def)
  have C: "delivers (sqlite3_prepare_v2 api db sql w) (\<lambda>(rc, st, w'). usable w')" "answers usable (sqlite3_exec api db sql w)"
    "\<exists>n. sqlite3_changes api db w = Some n" "\<exists>x. sqlite3_close_v2 api db w = Some x"
    if "usable w" for w sql using conn that by (auto simp: sqlite_connection_answers_def)
  show "total_driver_axioms (g_sqlite3_driver api) live db usable"
  proof
    fix w sql assume "usable w"
    from C(1) [OF this, of sql] show "delivers (drv_prepare (g_sqlite3_driver api) db sql w) (\<lambda>(r, st, w'). usable w')"
      by (auto simp: g_sqlite3_driver_def sqlite_prepare_def elim!: delivers_mono)
  next
    fix w assume "usable w"
    from C(3,4) [OF this] show "delivers (drv_changes (g_sqlite3_driver api) db w) (\<lambda>(n, w'). usable w')"
      "delivers (drv_close (g_sqlite3_driver api) db w) (\<lambda>_. True)"
      using \<open>usable w\<close> by (auto simp: g_sqlite3_driver_def sqlite_changes_def sqlite_close_def mapped_def)
  next
    fix w s i assume "usable w" "s \<in> live w"
    note S = S [OF this]
    show "delivers (drv_column_isnull (g_sqlite3_driver api) s i w) (\<lambda>(r, b, w'). usable w')"
      using S(14) [of i] \<open>usable w\<close> by (auto simp: g_sqlite3_driver_def sqlite_column_isnull_def)
    show "delivers (drv_column_text (g_sqlite3_driver api) s i w) (\<lambda>(r, p, n, w'). usable w' \<and> covers p n)"
      "delivers (drv_column_blob (g_sqlite3_driver api) s i w) (\<lambda>(r, p, n, w'). usable w' \<and> covers p n)"
      using column_answers_delivers [OF S(12) [of i]] column_answers_delivers [OF S(13) [of i]]
      by (simp_all add: g_sqlite3_driver_def sqlite_column_text_def sqlite_column_blob_def)
    show "delivers (drv_step (g_sqlite3_driver api) s w) (\<lambda>(r, b, w'). usable w')"
      "delivers (drv_column_int64 (g_sqlite3_driver api) s i w) (\<lambda>(r, v, w'). usable w')"
      "delivers (drv_column_real (g_sqlite3_driver api) s i w) (\<lambda>(r, v, w'). usable w')"
      by (auto simp: g_sqlite3_driver_def sqlite_step_def sqlite_column_int64_def sqlite_column_real_def
          intro!: answers_delivers [OF S(3)] answers_delivers [OF S(10)] answers_delivers [OF S(11)])
  qed (auto simp: sqlite_thin_ops blob_arg_def blob_length intro!: answers_mapped S C(2))
qed

end
