(* ===== verification/Engine.thy ===== *)
theory Engine
  imports Total_Calls Crud_Correct
begin

text \<open>
  What reaches the database. The engine is a parameter: \<open>sem\<close> gives, for the text of a statement and the
  values bound to its parameters, the rows it returns and the data it leaves. A statement is observed
  through its text, its bound values and the row it is at. The contract \<open>sql_engine\<close> says how the calls
  of a driver act on them; from it follows, through the cache, the query builder and the binding of
  values, what \<^verbatim>\<open>SqlRDBCount\<close>, \<^verbatim>\<open>SqlRDBDelete\<close> and \<^verbatim>\<open>SqlRDBWrite\<close> have the
  database do.
\<close>

section \<open>Observing statements\<close>

record stmt_obs =
  so_sql :: string
  so_args :: "int \<Rightarrow> cell option"
  so_rows :: "cell list list option"

text \<open>The value a call binds.\<close>

fun cv_cell :: "cond_value \<Rightarrow> cell" where
  "cv_cell (CV_int v) = Cell_Int v"
| "cv_cell (CV_real v) = Cell_Real v"
| "cv_cell (CV_text t) = Cell_Text (takeWhile (\<lambda>c. c \<noteq> NUL) t)"
| "cv_cell (CV_blob p n) = Cell_Blob (take n p)"

fun cv_fits :: "cond_value \<Rightarrow> bool" where
  "cv_fits (CV_blob p n) \<longleftrightarrow> n < 2 ^ 31 \<and> n \<le> length p"
| "cv_fits _ \<longleftrightarrow> True"

definition text_cell :: "char list \<Rightarrow> int \<Rightarrow> cell" where
  "text_cell mem n = Cell_Text (if n < 0 then takeWhile (\<lambda>c. c \<noteq> NUL) mem else take (nat n) mem)"

text \<open>Everything but the statement \<open>s\<close> is as it was.\<close>

definition only_stmt :: "('w \<Rightarrow> 'd) \<Rightarrow> ('w \<Rightarrow> ptr \<Rightarrow> stmt_obs) \<Rightarrow> ptr \<Rightarrow> 'w \<Rightarrow> 'w \<Rightarrow> bool" where
  "only_stmt data obs s w w' \<longleftrightarrow> data w' = data w \<and> (\<forall>q. q \<noteq> s \<longrightarrow> obs w' q = obs w q)"

definition binds :: "('w \<Rightarrow> 'd) \<Rightarrow> ('w \<Rightarrow> ptr \<Rightarrow> stmt_obs) \<Rightarrow> ptr \<Rightarrow> int \<Rightarrow> cell \<Rightarrow> 'w \<Rightarrow> SqlRDBResult \<times> 'w \<Rightarrow> bool" where
  "binds data obs s i c w = (\<lambda>(r, w'). only_stmt data obs s w w' \<and> so_sql (obs w' s) = so_sql (obs w s) \<and>
     so_rows (obs w' s) = so_rows (obs w s) \<and>
     (r = SQL_RDB_OK \<longrightarrow> so_args (obs w' s) = (so_args (obs w s))(i \<mapsto> c)))"

text \<open>
  The first step after a prepare or reset runs the statement; a failing one changes no data. The steps
  after it go through the remaining rows.
\<close>

definition steps ::
  "(string \<Rightarrow> (int \<Rightarrow> cell option) \<Rightarrow> 'd \<Rightarrow> cell list list \<times> 'd) \<Rightarrow> ('w \<Rightarrow> 'd) \<Rightarrow> ('w \<Rightarrow> ptr \<Rightarrow> stmt_obs) \<Rightarrow> ptr \<Rightarrow> 'w
     \<Rightarrow> SqlRDBResult \<times> bool \<times> 'w \<Rightarrow> bool" where
  "steps sem data obs s w = (\<lambda>(r, has_row, w'). (\<forall>q. q \<noteq> s \<longrightarrow> obs w' q = obs w q) \<and> so_sql (obs w' s) = so_sql (obs w s) \<and>
     (case so_rows (obs w s) of
        None \<Rightarrow>
          if r = SQL_RDB_OK
          then (case sem (so_sql (obs w s)) (so_args (obs w s)) (data w) of (rows, d) \<Rightarrow>
                  data w' = d \<and> has_row = (rows \<noteq> []) \<and> so_rows (obs w' s) = Some rows)
          else data w' = data w
      | Some [] \<Rightarrow> True
      | Some (row # rows) \<Rightarrow> data w' = data w \<and> (r = SQL_RDB_OK \<longrightarrow> has_row = (rows \<noteq> []) \<and> so_rows (obs w' s) = Some rows)))"

text \<open>The value of column \<open>i\<close> of the row a statement is at.\<close>

definition current :: "('w \<Rightarrow> ptr \<Rightarrow> stmt_obs) \<Rightarrow> 'w \<Rightarrow> ptr \<Rightarrow> int \<Rightarrow> cell option" where
  "current obs w s i =
     (case so_rows (obs w s) of
        Some (row # rows) \<Rightarrow> if 0 \<le> i \<and> nat i < length row then Some (row ! nat i) else None
      | _ \<Rightarrow> None)"

text \<open>
  Reading a column as a value of its own type leaves the statement as it is; reading it as another type
  may convert what the statement holds of the current row.
\<close>

definition later_rows :: "stmt_obs \<Rightarrow> cell list list option" where
  "later_rows x = (case so_rows x of Some (row # rows) \<Rightarrow> Some rows | _ \<Rightarrow> None)"

definition reads :: "('w \<Rightarrow> 'd) \<Rightarrow> ('w \<Rightarrow> ptr \<Rightarrow> stmt_obs) \<Rightarrow> ptr \<Rightarrow> bool \<Rightarrow> 'w \<Rightarrow> 'w \<Rightarrow> bool" where
  "reads data obs s typed w w' \<longleftrightarrow> only_stmt data obs s w w' \<and> so_sql (obs w' s) = so_sql (obs w s) \<and>
     later_rows (obs w' s) = later_rows (obs w s) \<and> (typed \<longrightarrow> obs w' s = obs w s)"

locale sql_engine = stmt_driver drv live
  for drv :: "'w SqlRDBDriver" and live :: "'w \<Rightarrow> ptr set" +
  fixes ctx :: ptr and obs :: "'w \<Rightarrow> ptr \<Rightarrow> stmt_obs" and data :: "'w \<Rightarrow> 'd"
    and sem :: "string \<Rightarrow> (int \<Rightarrow> cell option) \<Rightarrow> 'd \<Rightarrow> cell list list \<times> 'd"
  assumes prepare_obs: "ensures (drv_prepare drv ctx sql w) (\<lambda>(r, st, w'). data w' = data w \<and>
      (\<forall>q \<in> live w. obs w' q = obs w q) \<and>
      (\<forall>s. r = SQL_RDB_OK \<longrightarrow> st = Some s \<longrightarrow> so_sql (obs w' s) = sql \<and> so_rows (obs w' s) = None))"
    and finalize_obs: "s \<in> live w \<Longrightarrow> ensures (drv_finalize drv s w) (\<lambda>(r, w'). only_stmt data obs s w w')"
    and reset_obs: "s \<in> live w \<Longrightarrow> ensures (drv_reset drv s w) (\<lambda>(r, w'). only_stmt data obs s w w' \<and>
      so_sql (obs w' s) = so_sql (obs w s) \<and> so_rows (obs w' s) = None)"
    and step_obs: "s \<in> live w \<Longrightarrow> ensures (drv_step drv s w) (steps sem data obs s w)"
    and bind_int64_obs: "s \<in> live w \<Longrightarrow> ensures (drv_bind_int64 drv s i v w) (binds data obs s i (Cell_Int v) w)"
    and bind_int32_obs: "s \<in> live w \<Longrightarrow> ensures (drv_bind_int32 drv s i v32 w) (binds data obs s i (Cell_Int (scast v32)) w)"
    and bind_real_obs: "s \<in> live w \<Longrightarrow> ensures (drv_bind_real drv s i v w) (binds data obs s i (Cell_Real v) w)"
    and bind_text_obs: "s \<in> live w \<Longrightarrow> (if n < 0 then NUL \<in> set mem else nat n \<le> length mem) \<Longrightarrow>
      ensures (drv_bind_text drv s i (Some mem) n w) (binds data obs s i (text_cell mem n) w)"
    and bind_blob_obs: "s \<in> live w \<Longrightarrow> k < 2 ^ 31 \<Longrightarrow> k \<le> length mem \<Longrightarrow>
      ensures (drv_bind_blob drv s i (Some mem) k w) (binds data obs s i (Cell_Blob (take k mem)) w)"
    and bind_null_obs: "s \<in> live w \<Longrightarrow> ensures (drv_bind_null drv s i w) (binds data obs s i Cell_Null w)"
    and column_isnull_obs: "s \<in> live w \<Longrightarrow> ensures (drv_column_isnull drv s i w) (\<lambda>(r, b, w'). reads data obs s True w w' \<and>
      (r = SQL_RDB_OK \<longrightarrow> current obs w s i \<noteq> None \<longrightarrow> b = (current obs w s i = Some Cell_Null)))"
    and column_int64_obs: "s \<in> live w \<Longrightarrow> ensures (drv_column_int64 drv s i w) (\<lambda>(r, v, w').
      reads data obs s (\<exists>u. current obs w s i = Some (Cell_Int u)) w w' \<and>
      (\<forall>u. r = SQL_RDB_OK \<longrightarrow> current obs w s i = Some (Cell_Int u) \<longrightarrow> v = u))"
    and column_real_obs: "s \<in> live w \<Longrightarrow> ensures (drv_column_real drv s i w) (\<lambda>(r, v, w').
      reads data obs s (\<exists>u. current obs w s i = Some (Cell_Real u)) w w' \<and>
      (\<forall>u. r = SQL_RDB_OK \<longrightarrow> current obs w s i = Some (Cell_Real u) \<longrightarrow> v = u))"
    and column_text_obs: "s \<in> live w \<Longrightarrow> ensures (drv_column_text drv s i w) (\<lambda>(r, p, n, w').
      reads data obs s (\<exists>t. current obs w s i = Some (Cell_Text t)) w w' \<and>
      (\<forall>t. r = SQL_RDB_OK \<longrightarrow> current obs w s i = Some (Cell_Text t) \<longrightarrow> p = Some (t @ [NUL]) \<and> n = length t))"
    and column_blob_obs: "s \<in> live w \<Longrightarrow> ensures (drv_column_blob drv s i w) (\<lambda>(r, p, n, w').
      reads data obs s (\<exists>t. current obs w s i = Some (Cell_Blob t)) w w' \<and>
      (\<forall>t. r = SQL_RDB_OK \<longrightarrow> current obs w s i = Some (Cell_Blob t) \<longrightarrow> p = (if t = [] then None else Some t) \<and> n = length t))"
    and changes_obs: "ensures (drv_changes drv ctx w) (\<lambda>(n, w'). data w' = data w \<and> obs w' = obs w)"

text \<open>The values \<open>vs\<close> are bound from position \<open>i\<close> on.\<close>

definition carries :: "('w \<Rightarrow> ptr \<Rightarrow> stmt_obs) \<Rightarrow> ptr \<Rightarrow> int \<Rightarrow> cell list \<Rightarrow> 'w \<Rightarrow> bool" where
  "carries obs s i vs w \<longleftrightarrow> (\<forall>k < length vs. so_args (obs w s) (i + int k) = Some (vs ! k))"

definition loads ::
  "('w \<Rightarrow> ptr set) \<Rightarrow> ('w \<Rightarrow> 'd) \<Rightarrow> ('w \<Rightarrow> ptr \<Rightarrow> stmt_obs) \<Rightarrow> ptr \<Rightarrow> int \<Rightarrow> cell list \<Rightarrow> 'w \<Rightarrow> SqlRDBResult \<Rightarrow> 'w \<Rightarrow> bool" where
  "loads live data obs s i vs w r w' \<longleftrightarrow> live w' = live w \<and> only_stmt data obs s w w' \<and> so_sql (obs w' s) = so_sql (obs w s) \<and>
     so_rows (obs w' s) = so_rows (obs w s) \<and>
     (r = SQL_RDB_OK \<longrightarrow> carries obs s i vs w' \<and> (\<forall>j < i. so_args (obs w' s) j = so_args (obs w s) j))"

lemma loads_nil: "loads live data obs s i [] w r w"
  by (simp add: loads_def only_stmt_def carries_def)

lemma loads_fail: "loads live data obs s i us w r w' \<Longrightarrow> r \<noteq> SQL_RDB_OK \<Longrightarrow> loads live data obs s i vs w r w'"
  by (simp add: loads_def)

lemma loads_cons:
  assumes "loads live data obs s i [c] w SQL_RDB_OK w1" and "loads live data obs s (i + 1) vs w1 r w2"
  shows "loads live data obs s i (c # vs) w r w2"
proof -
  have "so_args (obs w2 s) (i + int k) = Some ((c # vs) ! k)" if "r = SQL_RDB_OK" "k < length (c # vs)" for k
  proof (cases k)
    case 0
    then show ?thesis using assms that(1) by (simp add: loads_def carries_def)
  next
    case (Suc n)
    then have "so_args (obs w2 s) (i + 1 + int n) = Some (vs ! n)" using assms(2) that by (simp add: loads_def carries_def)
    then show ?thesis using Suc by (simp add: algebra_simps)
  qed
  then show ?thesis using assms by (auto simp: loads_def only_stmt_def carries_def [of obs s i "c # vs"])
qed

lemma binds_loads: "binds data obs s i c w (r, w') \<Longrightarrow> live w' = live w \<Longrightarrow> loads live data obs s i [c] w r w'"
  by (auto simp: binds_def loads_def carries_def)

section \<open>Binding\<close>

context sql_engine begin

lemmas bind_calls =
  bind_int64_obs [THEN ensures_both, OF _ bind_int64] bind_int32_obs [THEN ensures_both, OF _ bind_int32]
  bind_real_obs [THEN ensures_both, OF _ bind_real] bind_text_obs [THEN ensures_both, OF _ _ bind_text]
  bind_blob_obs [THEN ensures_both, OF _ _ _ bind_blob] bind_null_obs [THEN ensures_both, OF _ bind_null]

lemma bind_leaf_loads:
  assumes "s \<in> live w" and "cv_fits v"
  shows "ensures (bind_leaf drv s i v w) (\<lambda>(r, w'). loads live data obs s i [cv_cell v] w r w')"
proof (cases v)
  case (CV_text t)
  have "takeWhile (\<lambda>c. c \<noteq> NUL) (t @ [NUL]) = takeWhile (\<lambda>c. c \<noteq> NUL) t" by (induction t) auto
  then have "text_cell (t @ [NUL]) (-1) = cv_cell v" by (simp add: text_cell_def CV_text)
  with bind_calls(4) [OF assms(1), of "-1" "t @ [NUL]" i] show ?thesis
    by (auto simp: CV_text intro: binds_loads elim!: ensures_mono)
qed (use assms in \<open>auto intro: binds_loads bind_calls [THEN ensures_mono]\<close>)

lemma bind_one_loads:
  assumes "s \<in> live w" and "member_ok (length row) col" and "col_size col < 2 ^ 31"
  shows "ensures (bind_one drv s i col row w) (\<lambda>(r, w'). loads live data obs s i [column_cell col row] w r w')"
proof -
  have off: "col_offset col + col_size col \<le> length row" using assms(2) by (simp add: member_ok_def)
  let ?t = "takeWhile (\<lambda>c. c \<noteq> NUL) (region col row)"
  have t: "text_cell (drop (col_offset col) row) (int (length ?t)) = Cell_Text ?t" "length ?t \<le> length row - col_offset col"
  proof -
    have len: "length ?t \<le> col_size col"
      using length_takeWhile_le [of "\<lambda>c. c \<noteq> NUL" "region col row"] length_region [OF off] by simp
    then have "take (length ?t) (drop (col_offset col) row) = take (length ?t) (region col row)"
      by (simp add: region_def min_def)
    then show "text_cell (drop (col_offset col) row) (int (length ?t)) = Cell_Text ?t"
      by (simp add: text_cell_def takeWhile_eq_take [symmetric])
    show "length ?t \<le> length row - col_offset col" using len off by simp
  qed
  show ?thesis unfolding bind_one_member [OF assms(2,3)] using assms off t
    by (cases "col_type col") (auto simp: column_cell_def region_def member_ok_def intro!: binds_loads bind_calls [THEN ensures_mono])
qed

lemma bind_seq_loads:
  assumes "s \<in> live w" and "\<forall>v \<in> set vs. cv_fits v"
  shows "ensures (bind_seq drv s vs i w) (\<lambda>(r, i', w'). loads live data obs s i (map cv_cell vs) w r w')"
  using assms
proof (induction vs arbitrary: i w)
  case (Cons v vs)
  have fits: "cv_fits v" "\<forall>v \<in> set vs. cv_fits v" using Cons.prems(2) by auto
  note first = ensuresD [OF bind_leaf_loads [OF Cons.prems(1) fits(1)], simplified]
  show ?case
  proof (rule ensuresI, clarify)
    fix r i' w' assume run: "bind_seq drv s (v # vs) i w = Some (r, i', w')"
    then obtain r1 w1 where b: "bind_leaf drv s i v w = Some (r1, w1)"
      "if r1 \<noteq> SQL_RDB_OK then (r, w') = (r1, w1) else bind_seq drv s vs (i + 1) w1 = Some (r, i', w')"
      by (auto simp: bind_Some_iff split: if_splits)
    have L: "loads live data obs s i [cv_cell v] w r1 w1" using first [OF b(1)] by simp
    show "loads live data obs s i (map cv_cell (v # vs)) w r w'"
    proof (cases "r1 = SQL_RDB_OK")
      case True
      then have "s \<in> live w1" using L Cons.prems(1) by (simp add: loads_def)
      from ensuresD [OF Cons.IH [OF this fits(2)], of "i + 1"] b(2) True
      have "loads live data obs s (i + 1) (map cv_cell vs) w1 r w'" by auto
      then show ?thesis using loads_cons L True by simp
    qed (use L b(2) loads_fail in auto)
  qed
qed (simp add: loads_nil)

lemma bind_cols_loads:
  assumes "s \<in> live w" and "\<forall>c \<in> set cols. member_ok (length row) c \<and> col_size c < 2 ^ 31"
    and "\<forall>k < length cols. c2sql_internal_null_bit_get nm (i + k) = Some (nulls (i + k))"
  shows "ensures (bind_cols drv s i cols row nm w)
    (\<lambda>(r, w'). loads live data obs s (int i + 1) (row_cells nulls i cols row) w r w')"
  using assms
proof (induction cols arbitrary: i w)
  case Nil
  then show ?case by (simp add: row_cells_def loads_nil)
next
  case (Cons c cols)
  have m: "member_ok (length row) c" "col_size c < 2 ^ 31" "\<forall>c \<in> set cols. member_ok (length row) c \<and> col_size c < 2 ^ 31"
    and nb: "c2sql_internal_null_bit_get nm i = Some (nulls i)"
    and rest: "\<forall>k < length cols. c2sql_internal_null_bit_get nm (Suc i + k) = Some (nulls (Suc i + k))"
    using Cons.prems(2,3) by force+
  let ?c = "if nulls i then Cell_Null else column_cell c row"
  show ?case
  proof (rule ensuresI, clarify)
    fix r w' assume run: "bind_cols drv s i (c # cols) row nm w = Some (r, w')"
    then have "\<exists>r1 w1. loads live data obs s (int i + 1) [?c] w r1 w1 \<and>
      (if r1 \<noteq> SQL_RDB_OK then (r, w') = (r1, w1) else bind_cols drv s (Suc i) cols row nm w1 = Some (r, w'))"
    proof (cases "nulls i")
      case True
      show ?thesis
      proof (cases "has_flag c SQL_COL_FLAG_NULLABLE")
        case nullable: True
        then obtain r1 w1 where b: "drv_bind_null drv s (int i + 1) w = Some (r1, w1)"
          "if r1 \<noteq> SQL_RDB_OK then (r, w') = (r1, w1) else bind_cols drv s (Suc i) cols row nm w1 = Some (r, w')"
          using run nb True by (auto simp: bind_Some_iff split: if_splits)
        moreover have "loads live data obs s (int i + 1) [Cell_Null] w r1 w1"
          using ensuresD [OF bind_calls(6) [OF Cons.prems(1)] b(1)] by (auto intro: binds_loads)
        ultimately show ?thesis using True by (intro exI [of _ r1] exI [of _ w1]) auto
      next
        case False
        then show ?thesis using run nb True by (auto simp: loads_def only_stmt_def)
      qed
    next
      case False
      then obtain r1 w1 where b: "bind_one drv s (int i + 1) c row w = Some (r1, w1)"
        "if r1 \<noteq> SQL_RDB_OK then (r, w') = (r1, w1) else bind_cols drv s (Suc i) cols row nm w1 = Some (r, w')"
        using run nb by (auto simp: bind_Some_iff split: if_splits)
      moreover have "loads live data obs s (int i + 1) [column_cell c row] w r1 w1"
        using ensuresD [OF bind_one_loads [OF Cons.prems(1) m(1,2)] b(1)] by simp
      ultimately show ?thesis using False by (intro exI [of _ r1] exI [of _ w1]) auto
    qed
    then obtain r1 w1 where L: "loads live data obs s (int i + 1) [?c] w r1 w1"
      "if r1 \<noteq> SQL_RDB_OK then (r, w') = (r1, w1) else bind_cols drv s (Suc i) cols row nm w1 = Some (r, w')" by blast
    show "loads live data obs s (int i + 1) (row_cells nulls i (c # cols) row) w r w'"
    proof (cases "r1 = SQL_RDB_OK")
      case True
      then have "s \<in> live w1" using L(1) Cons.prems(1) by (simp add: loads_def)
      from ensuresD [OF Cons.IH [OF this m(3) rest]] L(2) True
      have "loads live data obs s (int i + 1 + 1) (row_cells nulls (Suc i) cols row) w1 r w'" by (auto simp: algebra_simps)
      from loads_cons [OF L(1) [unfolded True] this] show ?thesis by (simp add: row_cells_def)
    qed (use L loads_fail in auto)
  qed
qed

end

section \<open>Statements with their texts\<close>

text \<open>
  Beside the ownership of \<open>holds\<close>: every cached statement has the text it is stored under and waits to
  be run, except the statements \<open>X\<close> the current call is using.
\<close>

definition has_text :: "('w \<Rightarrow> ptr \<Rightarrow> stmt_obs) \<Rightarrow> 'w \<Rightarrow> ptr set \<Rightarrow> string \<Rightarrow> ptr \<Rightarrow> bool" where
  "has_text obs w X sql s \<longleftrightarrow> so_sql (obs w s) = sql \<and> (s \<notin> X \<longrightarrow> so_rows (obs w s) = None)"

definition holds_sql ::
  "('w \<Rightarrow> ptr set) \<Rightarrow> ('w \<Rightarrow> ptr \<Rightarrow> stmt_obs) \<Rightarrow> 'w SqlRDBHandle \<Rightarrow> 'w \<Rightarrow> ptr set \<Rightarrow> ptr set \<Rightarrow> bool" where
  "holds_sql live obs h w F X \<longleftrightarrow>
     (\<exists>es. represents (cache h) es \<and> distinct (map snd es) \<and> live w = set (map snd es) \<union> F \<and> set (map snd es) \<inter> F = {} \<and>
        (\<forall>sql s. (sql, s) \<in> set es \<longrightarrow> has_text obs w X sql s))"

lemma holds_sqlE:
  assumes "holds_sql live obs h w F X"
  obtains es where "represents (cache h) es" "distinct (map snd es)" "live w = set (map snd es) \<union> F" "set (map snd es) \<inter> F = {}"
    "\<And>sql s. (sql, s) \<in> set es \<Longrightarrow> has_text obs w X sql s"
  using assms by (auto simp: holds_sql_def)

lemma holds_sqlI:
  assumes "represents (cache h) es" "distinct (map snd es)" "live w = set (map snd es) \<union> F" "set (map snd es) \<inter> F = {}"
    "\<And>sql s. (sql, s) \<in> set es \<Longrightarrow> has_text obs w X sql s"
  shows "holds_sql live obs h w F X"
  unfolding holds_sql_def using assms by (intro exI [of _ es]) simp

lemma holds_sql_holds: "holds_sql live obs h w F X \<Longrightarrow> holds live h w F"
  by (auto simp: holds_sql_def holds_def)

lemma holds_sql_handle [simp]:
  "holds_sql live obs (set_error h c t) w F X \<longleftrightarrow> holds_sql live obs h w F X"
  "holds_sql live obs (h\<lparr>mutex := x\<rparr>) w F X \<longleftrightarrow> holds_sql live obs h w F X"
  by (simp_all add: holds_sql_def)

text \<open>New statements \<open>G\<close> beside the old ones.\<close>

lemma holds_sql_more:
  assumes "holds_sql live obs h w F X" and "live w1 = live w \<union> G" and "G \<inter> live w = {}" and "\<And>q. q \<in> live w \<Longrightarrow> obs w1 q = obs w q"
  shows "holds_sql live obs h w1 (F \<union> G) X"
proof -
  from assms(1) obtain es where es: "represents (cache h) es" "distinct (map snd es)" "live w = set (map snd es) \<union> F"
    "set (map snd es) \<inter> F = {}" "\<And>sql q. (sql, q) \<in> set es \<Longrightarrow> has_text obs w X sql q" by (rule holds_sqlE) (rule that)
  have "has_text obs w1 X sql q" if "(sql, q) \<in> set es" for sql q
  proof -
    have "q \<in> live w" using that es(3) by force
    then show ?thesis using es(5) [OF that] assms(4) by (simp add: has_text_def)
  qed
  moreover have "live w1 = set (map snd es) \<union> (F \<union> G)" "set (map snd es) \<inter> (F \<union> G) = {}" using assms(2,3) es(3,4) by auto
  ultimately show ?thesis using es(1,2) by (intro holds_sqlI [of _ es]) simp_all
qed

text \<open>A call on \<open>s\<close> that keeps its text changes nothing but whether \<open>s\<close> waits.\<close>

lemma holds_sql_touch:
  assumes "holds_sql live obs h w F X" and "live w' = live w" and "\<And>q. q \<noteq> s \<Longrightarrow> obs w' q = obs w q"
    and "so_sql (obs w' s) = so_sql (obs w s)"
  shows "holds_sql live obs h w' F (insert s X)"
proof -
  from assms(1) obtain es where es: "represents (cache h) es" "distinct (map snd es)" "live w = set (map snd es) \<union> F"
    "set (map snd es) \<inter> F = {}" "\<And>sql q. (sql, q) \<in> set es \<Longrightarrow> has_text obs w X sql q" by (rule holds_sqlE) (rule that)
  have "has_text obs w' (insert s X) sql q" if "(sql, q) \<in> set es" for sql q
    using es(5) [OF that] assms(3,4) by (cases "q = s") (auto simp: has_text_def)
  then show ?thesis using es(1-4) assms(2) by (intro holds_sqlI [of _ es]) simp_all
qed

lemma holds_sql_waits:
  assumes "holds_sql live obs h w F (insert s X)" and "so_rows (obs w s) = None"
  shows "holds_sql live obs h w F X"
proof -
  have "has_text obs w (insert s X) sql q \<Longrightarrow> has_text obs w X sql q" for sql q
    using assms(2) by (cases "q = s") (auto simp: has_text_def)
  then show ?thesis using assms(1) unfolding holds_sql_def by blast
qed

lemma lru_touch_subset: "set (lru_touch sql es) \<subseteq> set es"
  by (auto simp: lru_touch_def dest: map_of_SomeD split: option.splits)

lemma lru_put_subset: "lru_put cap sql s es m = (dead, es', r, m') \<Longrightarrow> set es' \<subseteq> insert (sql, s) (set es)"
  by (auto simp: lru_put_def Let_def dest: in_set_butlastD split: if_splits option.splits prod.splits)

context sql_engine begin

lemma finalize_all_obs:
  assumes "distinct ss" and "set ss \<subseteq> live w"
  shows "ensures (finalize_all (Some drv) ss w) (\<lambda>w'. data w' = data w \<and> (\<forall>q. q \<notin> set ss \<longrightarrow> obs w' q = obs w q))"
  using assms
proof (induction ss arbitrary: w)
  case (Cons s ss)
  show ?case
  proof (rule ensuresI)
    fix w' assume run: "finalize_all (Some drv) (s # ss) w = Some w'"
    then obtain r w1 where f: "drv_finalize drv s w = Some (r, w1)" "finalize_all (Some drv) ss w1 = Some w'"
      by (auto simp: finalize_if_def bind_Some_iff)
    have "live w1 = live w - {s}" using ensuresD [OF finalize f(1)] by simp
    then have "set ss \<subseteq> live w1" using Cons.prems by auto
    from ensuresD [OF Cons.IH [OF _ this] f(2)] Cons.prems(1) have "data w' = data w1" "\<forall>q. q \<notin> set ss \<longrightarrow> obs w' q = obs w1 q" by auto
    moreover have "only_stmt data obs s w w1" using ensuresD [OF finalize_obs f(1)] Cons.prems(2) by simp
    ultimately show "data w' = data w \<and> (\<forall>q. q \<notin> set (s # ss) \<longrightarrow> obs w' q = obs w q)" by (auto simp: only_stmt_def)
  qed
qed simp

lemma holds_sql_get:
  assumes "holds_sql live obs h w F X" and "c2sql_internal_cache_get (cache h) sql = Some (r, st, c)"
  shows "holds_sql live obs (h\<lparr>cache := c\<rparr>) w F X"
    and "r = SQL_RDB_OK \<Longrightarrow> \<exists>s. st = Some s \<and> s \<in> live w \<and> s \<notin> F \<and> has_text obs w X sql s"
proof -
  from assms(1) obtain es where es: "represents (cache h) es" "distinct (map snd es)" "live w = set (map snd es) \<union> F"
    "set (map snd es) \<inter> F = {}" "\<And>sql q. (sql, q) \<in> set es \<Longrightarrow> has_text obs w X sql q" by (rule holds_sqlE) (rule that)
  obtain c' where c': "c2sql_internal_cache_get (cache h) sql =
      Some (if map_of es sql = None then SQL_RDB_ERR_NOT_FOUND else SQL_RDB_OK, map_of es sql, c')" "represents c' (lru_touch sql es)"
    using cache_get_refines [OF es(1), of sql] by blast
  have ms: "mset (map snd (lru_touch sql es)) = mset (map snd es)" using lru_touch_conserves represents_keys [OF es(1)] by blast
  have st: "set (map snd (lru_touch sql es)) = set (map snd es)" "distinct (map snd (lru_touch sql es))"
    using mset_eq_setD [OF ms] ms es(2) mset_eq_imp_distinct_iff by blast+
  have c: "c = c'" "st = map_of es sql" "r = (if map_of es sql = None then SQL_RDB_ERR_NOT_FOUND else SQL_RDB_OK)"
    using c'(1) assms(2) by auto
  show "holds_sql live obs (h\<lparr>cache := c\<rparr>) w F X"
    by (rule holds_sqlI [of _ "lru_touch sql es"]) (use c'(2) es(3-5) c(1) st lru_touch_subset [of sql es] in auto)
  assume "r = SQL_RDB_OK"
  then obtain s where s: "map_of es sql = Some s" using c(3) by (auto split: if_splits)
  then have "(sql, s) \<in> set es" by (rule map_of_SomeD)
  then have "s \<in> set (map snd es)" "has_text obs w X sql s" using es(5) by force+
  then show "\<exists>s. st = Some s \<and> s \<in> live w \<and> s \<notin> F \<and> has_text obs w X sql s" using es(3,4) s c(2) by blast
qed

lemma holds_sql_put:
  assumes H: "holds_sql live obs h w F {}" and new: "s \<notin> live w" and live2: "live w2 = insert s (live w)"
    and same: "\<And>q. q \<in> live w \<Longrightarrow> obs w2 q = obs w q" and st: "has_text obs w2 {} sql s"
    and put: "c2sql_internal_cache_put (cache h) sql s (Some drv) w2 m = Some (r, c, w3, m')"
  shows "holds_sql live obs (h\<lparr>cache := c\<rparr>) w3 F {} \<and> data w3 = data w2 \<and> (s \<in> live w3 \<longrightarrow> obs w3 s = obs w2 s)"
proof -
  from H obtain es where es: "represents (cache h) es" "distinct (map snd es)" "live w = set (map snd es) \<union> F"
    "set (map snd es) \<inter> F = {}" "\<And>sql q. (sql, q) \<in> set es \<Longrightarrow> has_text obs w {} sql q" by (rule holds_sqlE) (rule that)
  obtain dead es2 where d: "lru_put (unat (capacity (cache h))) sql s es m = (dead, es2, r, m')"
    "finalize_all (Some drv) dead w2 = Some w3" "represents c es2" "mset dead + mset (map snd es2) = add_mset s (mset (map snd es))"
    using cache.put_defined [OF es(1) put] by blast
  have ms: "mset (dead @ map snd es2) = mset (s # map snd es)" using d(4) by simp
  have "distinct (s # map snd es)" using es(2,3) new by simp
  then have dist: "distinct (dead @ map snd es2)" using ms mset_eq_imp_distinct_iff by blast
  have sets: "set dead \<union> set (map snd es2) = insert s (set (map snd es))" using mset_eq_setD [OF ms] by simp
  have dl: "set dead \<subseteq> live w2" using sets es(3) live2 by auto
  have O: "data w3 = data w2" "\<And>q. q \<notin> set dead \<Longrightarrow> obs w3 q = obs w2 q"
    using ensuresD [OF finalize_all_obs [OF _ dl] d(2)] dist by auto
  have L: "live w3 = live w2 - set dead" using ensuresD [OF finalize_all_live d(2)] by simp
  have "has_text obs w3 {} t q" if "(t, q) \<in> set es2" for t q
  proof -
    have "q \<in> set (map snd es2)" using that by force
    then have "obs w3 q = obs w2 q" using dist O(2) by auto
    moreover have "(t, q) = (sql, s) \<or> (t, q) \<in> set es" using lru_put_subset [OF d(1)] that by auto
    then have "has_text obs w2 {} t q"
    proof
      assume "(t, q) \<in> set es"
      then have "q \<in> live w" "has_text obs w {} t q" using es(3,5) by force+
      then show ?thesis using same by (simp add: has_text_def)
    qed (use st in simp)
    ultimately show ?thesis by (simp add: has_text_def)
  qed
  moreover have "insert s (set (map snd es)) \<inter> F = {}" using es(3,4) new by auto
  then have F: "set dead \<inter> F = {}" "set (map snd es2) \<inter> F = {}" unfolding sets [symmetric] by auto
  moreover have "set dead \<inter> set (map snd es2) = {}" using dist by simp
  then have "live w3 = set (map snd es2) \<union> F"
    unfolding L live2 es(3) Un_insert_left [symmetric] sets [symmetric] using F(1) by blast
  moreover have "distinct (map snd es2)" using dist by simp
  ultimately have "holds_sql live obs (h\<lparr>cache := c\<rparr>) w3 F {}" using d(3) by (intro holds_sqlI [of _ es2]) simp_all
  moreover have "s \<in> live w3 \<longrightarrow> obs w3 s = obs w2 s" using O(2) L by auto
  ultimately show ?thesis using O(1) by blast
qed

end

text \<open>The current call may use \<open>s\<close>.\<close>

definition acquired_sql ::
  "('w \<Rightarrow> ptr set) \<Rightarrow> ('w \<Rightarrow> ptr \<Rightarrow> stmt_obs) \<Rightarrow> 'w SqlRDBHandle \<Rightarrow> 'w \<Rightarrow> ptr set \<Rightarrow> ptr \<Rightarrow> bool \<Rightarrow> ptr set \<Rightarrow> bool" where
  "acquired_sql live obs h w F s owned X \<longleftrightarrow>
     s \<in> live w \<and> s \<notin> F \<and> holds_sql live obs h w (if owned then insert s F else F) X"

lemma acquired_sql_touch:
  assumes "acquired_sql live obs h w F s owned X" and "live w' = live w" and "\<And>q. q \<noteq> s \<Longrightarrow> obs w' q = obs w q"
    and "so_sql (obs w' s) = so_sql (obs w s)"
  shows "acquired_sql live obs h w' F s owned (insert s X)"
  using assms holds_sql_touch [of live obs h w _ X w' s] by (auto simp: acquired_sql_def)

context sql_engine begin

lemma get_or_prepare_sql:
  assumes drv: "driver h = Some drv" "driver_ctx h = Some ctx" and h: "holds_sql live obs h w F {}"
  shows "ensures (get_or_prepare h sql w m) (\<lambda>(r, st, owned, h', w', m'). data w' = data w \<and>
           (if r \<noteq> SQL_RDB_OK then holds_sql live obs h' w' F {}
            else \<exists>s. st = Some s \<and> acquired_sql live obs h' w' F s owned {} \<and> has_text obs w' {} sql s))"
proof (rule ensuresI)
  fix a assume run: "get_or_prepare h sql w m = Some a"
  obtain r0 st0 c where g0: "c2sql_internal_cache_get (cache h) sql = Some (r0, st0, c)"
    using run by (auto simp: get_or_prepare_def bind_Some_iff)
  note h1 = holds_sql_get [OF h g0]
  let ?h1 = "h\<lparr>cache := c\<rparr>"
  let ?post = "\<lambda>(r, st, owned, h', w', m'). data w' = data w \<and>
           (if r \<noteq> SQL_RDB_OK then holds_sql live obs h' w' F {}
            else \<exists>s. st = Some s \<and> acquired_sql live obs h' w' F s owned {} \<and> has_text obs w' {} sql s)"
  show "?post a"
  proof (cases "r0 = SQL_RDB_OK")
    case True
    then have "a = (SQL_RDB_OK, st0, False, ?h1, w, m)" using run g0 by (simp add: get_or_prepare_def Let_def)
    then show ?thesis using h1(1) h1(2) [OF True] by (auto simp: acquired_sql_def)
  next
    case False
    obtain r1 st1 w1 where p: "drv_prepare drv ctx sql w = Some (r1, st1, w1)"
      using run g0 False drv by (auto simp: get_or_prepare_def Let_def bind_Some_iff)
    note pl = ensuresD [OF prepare p, simplified] and po = ensuresD [OF prepare_obs p, simplified]
    show ?thesis
    proof (cases "r1 = SQL_RDB_OK")
      case fail: False
      then have a: "a = (r1, None, False, ?h1, w1, m)" using run g0 False drv p by (simp add: get_or_prepare_def Let_def)
      have "holds_sql live obs ?h1 w1 F {}"
        using holds_sql_more [OF h1(1), of w1 "{}"] pl po fail by simp
      then show ?thesis using a fail po by simp
    next
      case ok: True
      obtain s where s: "st1 = Some s" "s \<notin> live w" "live w1 = insert s (live w)" using pl ok by auto
      have st: "has_text obs w1 {} sql s" "data w1 = data w" "\<And>q. q \<in> live w \<Longrightarrow> obs w1 q = obs w q"
        using po ok s(1) by (auto simp: has_text_def)
      show ?thesis
      proof (cases "capacity c = 0")
        case True
        then have a: "a = (SQL_RDB_OK, Some s, True, ?h1, w1, m)" using run g0 False drv p ok s(1) by (simp add: get_or_prepare_def Let_def)
        have "holds_sql live obs ?h1 w1 (insert s F) {}"
          using holds_sql_more [OF h1(1), of w1 "{s}"] s st(3) by simp
        then show ?thesis using a s st holds_sql_holds [OF h1(1)] by (auto simp: acquired_sql_def holds_def)
      next
        case on: False
        obtain r2 c2 w2 m2 where put: "c2sql_internal_cache_put c sql s (Some drv) w1 m = Some (r2, c2, w2, m2)"
          using run g0 False drv p on ok s(1) by (auto simp: get_or_prepare_def Let_def bind_Some_iff)
        have h2: "holds_sql live obs (h\<lparr>cache := c2\<rparr>) w2 F {}" "data w2 = data w1" "s \<in> live w2 \<Longrightarrow> obs w2 s = obs w1 s"
          using holds_sql_put [OF h1(1) s(2,3) st(3,1)] put by auto
        show ?thesis
        proof (cases "r2 = SQL_RDB_OK")
          case bad: False
          then have "a = (r2, None, False, h\<lparr>cache := c2\<rparr>, w2, m2)"
            using run g0 False drv p on ok s(1) put by (simp add: get_or_prepare_def Let_def)
          then show ?thesis using h2 bad st(2) by simp
        next
          case True
          obtain es where es: "represents c es" using h1(1) by (auto simp: holds_sql_def)
          obtain c3 where c3: "c2sql_internal_cache_get c2 sql = Some (SQL_RDB_OK, Some s, c3)"
            using cache.get_after_put [OF es _ put [unfolded True]] on by (auto simp: unat_eq_0)
          have "a = (SQL_RDB_OK, Some s, False, h\<lparr>cache := c3\<rparr>, w2, m2)"
            using run g0 False drv p on ok s(1) put True c3 by (simp add: get_or_prepare_def Let_def)
          then show ?thesis using holds_sql_get [OF h2(1), of sql SQL_RDB_OK "Some s" c3] c3 h2(2) st(2)
            by (auto simp: acquired_sql_def)
        qed
      qed
    qed
  qed
qed

lemma release_sql:
  assumes "driver h = Some drv" and acq: "acquired_sql live obs h w F s owned {s}"
  shows "ensures (release_cached_stmt h s owned w) (\<lambda>w'. holds_sql live obs h w' F {} \<and> data w' = data w)"
proof (rule ensuresI)
  fix w' assume run: "release_cached_stmt h s owned w = Some w'"
  have s: "s \<in> live w" "s \<notin> F" and H: "holds_sql live obs h w (if owned then insert s F else F) {s}"
    using acq by (auto simp: acquired_sql_def)
  show "holds_sql live obs h w' F {} \<and> data w' = data w"
  proof (cases owned)
    case True
    then obtain r where f: "drv_finalize drv s w = Some (r, w')" using run assms(1) by (auto simp: release_cached_stmt_def bind_Some_iff)
    have o1: "only_stmt data obs s w w'" "live w' = live w - {s}"
      using ensuresD [OF finalize_obs [OF s(1)] f] ensuresD [OF finalize f] by simp_all
    from H obtain es where es: "represents (cache h) es" "distinct (map snd es)" "live w = set (map snd es) \<union> insert s F"
      "set (map snd es) \<inter> insert s F = {}" "\<And>sql q. (sql, q) \<in> set es \<Longrightarrow> has_text obs w {s} sql q" unfolding if_P [OF True] by (rule holds_sqlE) (rule that)
    have "has_text obs w' {} t q" if "(t, q) \<in> set es" for t q
    proof -
      have "q \<in> set (map snd es)" using that by force
      then have "q \<noteq> s" using es(4) by auto
      then show ?thesis using es(5) [OF that] o1(1) by (simp add: has_text_def only_stmt_def)
    qed
    moreover have "live w' = set (map snd es) \<union> F" unfolding o1(2) es(3) using es(4) s(2) by auto
    ultimately show ?thesis using es(1,2,4) o1(1) by (auto simp: only_stmt_def intro!: holds_sqlI [of _ es])
  next
    case False
    then obtain r where f: "drv_reset drv s w = Some (r, w')" using run assms(1) by (auto simp: release_cached_stmt_def bind_Some_iff)
    have o1: "only_stmt data obs s w w'" "so_sql (obs w' s) = so_sql (obs w s)" "so_rows (obs w' s) = None" "live w' = live w"
      using ensuresD [OF reset_obs [OF s(1)] f] ensuresD [OF reset f] by simp_all
    have "holds_sql live obs h w' F (insert s {s})"
      by (rule holds_sql_touch [of _ _ _ w]) (use H False o1 in \<open>auto simp: only_stmt_def\<close>)
    then show ?thesis using holds_sql_waits [of live obs h w' F s "{}"] o1 by (simp add: only_stmt_def)
  qed
qed

lemma build_and_get_sql:
  assumes drv: "driver h = Some drv" "driver_ctx h = Some ctx" and h: "holds_sql live obs h w F {}"
    and spec: "spec_ok (qs_op spec) spec" "spec_idents spec"
  shows "ensures (build_and_get h spec w m) (\<lambda>(r, st, h', w', m'). data w' = data w \<and> driver h' = Some drv \<and> driver_ctx h' = Some ctx \<and>
           (case st of None \<Rightarrow> r \<noteq> SQL_RDB_OK \<and> holds_sql live obs h' w' F {}
            | Some (s, owned) \<Rightarrow> acquired_sql live obs h' w' F s owned {} \<and> has_text obs w' {} (sql_text (qs_op spec) spec) s))"
proof (rule ensuresI)
  fix a assume run: "build_and_get h spec w m = Some a"
  obtain r0 sql k m0 where b: "c2sql_internal_qb_build spec m = Some (r0, sql, k, m0)"
    using run by (auto simp: build_and_get_def bind_Some_iff)
  let ?post = "\<lambda>(r, st, h', w', m'). data w' = data w \<and> driver h' = Some drv \<and> driver_ctx h' = Some ctx \<and>
           (case st of None \<Rightarrow> r \<noteq> SQL_RDB_OK \<and> holds_sql live obs h' w' F {}
            | Some (s, owned) \<Rightarrow> acquired_sql live obs h' w' F s owned {} \<and> has_text obs w' {} (sql_text (qs_op spec) spec) s)"
  show "?post a"
  proof (cases "r0 = SQL_RDB_OK")
    case False
    then show ?thesis using run b h drv by (auto simp: build_and_get_def)
  next
    case True
    have sql: "sql = Some (sql_text (qs_op spec) spec)" using qb_build_OK_D [OF spec b [unfolded True]] by simp
    obtain r st owned h' w' m' where g: "get_or_prepare h (sql_text (qs_op spec) spec) w m0 = Some (r, st, owned, h', w', m')"
      using run b True sql by (auto simp: build_and_get_def bind_Some_iff)
    have d: "driver h' = Some drv" "driver_ctx h' = Some ctx" using ensuresD [OF get_or_prepare_frame g] drv by (simp_all add: keeps_handle_def)
    show ?thesis using ensuresD [OF get_or_prepare_sql [OF drv h] g] run b True sql g d
      by (cases "r = SQL_RDB_OK") (auto simp: build_and_get_def)
  qed
qed

text \<open>Running a loaded statement.\<close>

lemma acquired_sql_loads:
  assumes "loads live data obs s i vs w r w'" and "acquired_sql live obs h w F s owned {}"
  shows "acquired_sql live obs h w' F s owned {s}"
  by (rule acquired_sql_touch [OF assms(2)]) (use assms(1) in \<open>auto simp: loads_def only_stmt_def\<close>)

end

text \<open>The engine ran the text with these values at positions 1 to \<open>n\<close>.\<close>

definition ran_with ::
  "(string \<Rightarrow> (int \<Rightarrow> cell option) \<Rightarrow> 'd \<Rightarrow> cell list list \<times> 'd) \<Rightarrow> string \<Rightarrow> cell list \<Rightarrow> 'd \<Rightarrow> cell list list \<Rightarrow> 'd \<Rightarrow> bool" where
  "ran_with sem sql vs d rows d' \<longleftrightarrow> (\<exists>a. (\<forall>k < length vs. a (1 + int k) = Some (vs ! k)) \<and> sem sql a d = (rows, d'))"

definition cond_cells :: "SqlRDBCondition option \<Rightarrow> cell list" where
  "cond_cells cond = (case cond of None \<Rightarrow> [] | Some c \<Rightarrow> map cv_cell (cond_values c))"

definition cond_fits :: "SqlRDBCondition option \<Rightarrow> bool" where
  "cond_fits cond = (case cond of None \<Rightarrow> True | Some c \<Rightarrow> list_all cv_fits (cond_values c))"

text \<open>An open handle whose statements have their texts.\<close>

definition engine_ready ::
  "'w SqlRDBDriver \<Rightarrow> ptr \<Rightarrow> ('w \<Rightarrow> ptr set) \<Rightarrow> ('w \<Rightarrow> ptr \<Rightarrow> stmt_obs) \<Rightarrow> 'w SqlRDBHandle \<Rightarrow> 'w \<Rightarrow> ptr set \<Rightarrow> bool" where
  "engine_ready drv ctx live obs h w F \<longleftrightarrow> c2sql_handle_valid (Some h) \<and> driver h = Some drv \<and> driver_ctx h = Some ctx \<and>
     registry_ok (registry h) \<and> mutex_idle (mutex h) \<and> holds_sql live obs h w F {}"

lemma registered_schema_ok:
  assumes "registry_ok (registry h)" and "registered h name = Some schema"
  shows "schema_ok schema"
proof -
  obtain p where "schema_at (registry h) p = Some schema" using assms(2) by (auto simp: registered_def split: option.splits)
  then have "schema \<in> set (reg_entries (registry h))" by (auto simp: schema_at_def nth_opt_def split: if_splits prod.splits)
  then show ?thesis using assms(1) by (auto simp: registry_ok_def list_all_iff)
qed

lemma with_registered:
  assumes "registered h name = Some schema" and "ensures (body schema) P"
  shows "ensures (with_schema h fname name out body) P"
  using assms by (auto simp: with_schema_def registered_def split: option.splits)

context sql_engine begin

lemma step_runs:
  assumes acq: "acquired_sql live obs h w F s owned {s}" and st: "so_sql (obs w s) = sql" "so_rows (obs w s) = None"
    and vs: "carries obs s 1 vs w"
  shows "ensures (drv_step drv s w) (\<lambda>(r, has_row, w'). acquired_sql live obs h w' F s owned {s} \<and>
     (if r = SQL_RDB_OK
      then \<exists>rows. ran_with sem sql vs (data w) rows (data w') \<and> has_row = (rows \<noteq> []) \<and> so_rows (obs w' s) = Some rows
      else data w' = data w))"
proof (rule ensuresI, clarify)
  fix r b w' assume run: "drv_step drv s w = Some (r, b, w')"
  have s: "s \<in> live w" using acq by (simp add: acquired_sql_def)
  have S: "steps sem data obs s w (r, b, w')" using ensuresD [OF step_obs [OF s] run] .
  have "live w' = live w" using ensuresD [OF step run] by simp
  then have "acquired_sql live obs h w' F s owned (insert s {s})"
    using S by (intro acquired_sql_touch [OF acq]) (auto simp: steps_def)
  moreover have "\<exists>rows. ran_with sem sql vs (data w) rows (data w') \<and> b = (rows \<noteq> []) \<and> so_rows (obs w' s) = Some rows"
    if "r = SQL_RDB_OK"
    using S st vs that unfolding steps_def ran_with_def carries_def by (auto split: prod.splits)
  ultimately show "acquired_sql live obs h w' F s owned {s} \<and>
     (if r = SQL_RDB_OK
      then \<exists>rows. ran_with sem sql vs (data w) rows (data w') \<and> b = (rows \<noteq> []) \<and> so_rows (obs w' s) = Some rows
      else data w' = data w)" using S st(2) by (auto simp: steps_def)
qed

lemma bind_cond_loads:
  assumes "s \<in> live w" and "cond_fits cond"
  shows "ensures (bind_cond_from drv s cond 1 w) (\<lambda>(r, w'). loads live data obs s 1 (cond_cells cond) w r w')"
proof (cases cond)
  case (Some c)
  then have "\<forall>v \<in> set (cond_values c). cv_fits v" using assms(2) by (simp add: cond_fits_def list_all_iff)
  from bind_seq_loads [OF assms(1) this, of 1] show ?thesis using Some
    by (auto simp: bind_cond_from_def cond_cells_def bind_cond_values_seq loads_nil elim!: ensures_mono)
qed (simp add: bind_cond_from_def cond_cells_def loads_nil)

end

text \<open>
  What a call with result \<open>r\<close> did: it ran its statement once, or it failed and ran nothing.
\<close>

definition executed ::
  "(string \<Rightarrow> (int \<Rightarrow> cell option) \<Rightarrow> 'd \<Rightarrow> cell list list \<times> 'd) \<Rightarrow> string \<Rightarrow> cell list \<Rightarrow> SqlRDBResult \<Rightarrow> 'd \<Rightarrow> 'd
     \<Rightarrow> (cell list list \<Rightarrow> bool) \<Rightarrow> bool" where
  "executed sem sql vs r d d' Q \<longleftrightarrow>
     (\<exists>rows. ran_with sem sql vs d rows d' \<and> (r = SQL_RDB_OK \<longrightarrow> Q rows)) \<or> r \<noteq> SQL_RDB_OK \<and> d' = d"

text \<open>The count a call reports for the rows of its statement.\<close>

definition reported :: "cell list list \<Rightarrow> nat \<Rightarrow> nat option \<Rightarrow> bool" where
  "reported rows old out \<longleftrightarrow>
     (rows = [] \<longrightarrow> out = Some old) \<and> (\<forall>u row rest. rows = (Cell_Int u # row) # rest \<longrightarrow> out = Some (nat (sint u)))"

definition count_sql :: "'w SqlRDBDriver \<Rightarrow> SqlRDBSchema \<Rightarrow> SqlRDBCondition option \<Rightarrow> string" where
  "count_sql drv schema cond = sql_text C2SQL_QB_COUNT (query C2SQL_QB_COUNT schema cond None (drv_dialect drv))"

definition write_sql :: "'w SqlRDBDriver \<Rightarrow> SqlRDBSchema \<Rightarrow> string" where
  "write_sql drv schema = sql_text (write_op schema) (query (write_op schema) schema None None (drv_dialect drv))"

definition delete_sql :: "'w SqlRDBDriver \<Rightarrow> SqlRDBSchema \<Rightarrow> SqlRDBCondition option \<Rightarrow> string" where
  "delete_sql drv schema cond = sql_text C2SQL_QB_DELETE (query C2SQL_QB_DELETE schema cond None (drv_dialect drv))"

lemma loads_live: "loads live data obs s i vs w r w' \<Longrightarrow> s \<in> live w' \<longleftrightarrow> s \<in> live w"
  "loads live data obs s i vs w r w' \<Longrightarrow> data w' = data w"
  "loads live data obs s i vs w r w' \<Longrightarrow> has_text obs w {} sql s \<Longrightarrow> so_sql (obs w' s) = sql \<and> so_rows (obs w' s) = None"
  "loads live data obs s i vs w SQL_RDB_OK w' \<Longrightarrow> carries obs s i vs w'"
  by (auto simp: loads_def only_stmt_def has_text_def)

context sql_engine begin

lemma acquired_sql_reads:
  assumes "acquired_sql live obs h w F s owned {s}" and "reads data obs s typed w w'" and "live w' = live w"
  shows "acquired_sql live obs h w' F s owned {s} \<and> data w' = data w"
  using acquired_sql_touch [OF assms(1,3)] assms(2) by (auto simp: reads_def only_stmt_def)

lemma count_column:
  assumes "acquired_sql live obs h w F s owned {s}"
  shows "ensures (drv_column_int64 drv s 0 w) (\<lambda>(r, v, w'). acquired_sql live obs h w' F s owned {s} \<and> data w' = data w \<and>
    (\<forall>u row rows. r = SQL_RDB_OK \<longrightarrow> so_rows (obs w s) = Some ((Cell_Int u # row) # rows) \<longrightarrow> v = u))"
proof -
  have s: "s \<in> live w" using assms by (simp add: acquired_sql_def)
  show ?thesis
    by (rule ensures_mono [OF ensures_both [OF column_int64_obs [OF s] column_int64]])
      (use acquired_sql_reads [OF assms] in \<open>fastforce simp: current_def\<close>)
qed

lemma Count_step:
  assumes drv: "driver g = Some drv" and A: "acquired_sql live obs g w F s owned {s}" and T: "so_sql (obs w s) = sql" "so_rows (obs w s) = None"
    and C: "carries obs s 1 vs w"
  shows "ensures (do {
        (r, has_row, w) \<leftarrow> drv_step drv s w;
        (r, out, w) \<leftarrow>
          (if r = SQL_RDB_OK \<and> has_row then do {
             (r, n, w) \<leftarrow> drv_column_int64 drv s 0 w;
             Some (r, if r = SQL_RDB_OK then Some (if 0 \<le> sint n then nat (sint n) else 0) else Some old, w)
           } else Some (r, Some old, w));
        w \<leftarrow> release_cached_stmt g s owned w;
        Some (r, g, out, w, m)
    }) (\<lambda>(r, h', out, w', m'). h' = g \<and> holds_sql live obs g w' F {} \<and>
      executed sem sql vs r (data w) (data w') (\<lambda>rows. reported rows old out))"
proof -
  let ?done = "\<lambda>r out w'. holds_sql live obs g w' F {} \<and> executed sem sql vs r (data w) (data w') (\<lambda>rows. reported rows old out)"
  have rel: "ensures (release_cached_stmt g s owned w2) (?done r out)"
    if "acquired_sql live obs g w2 F s owned {s}" "executed sem sql vs r (data w) (data w2) (\<lambda>rows. reported rows old out)"
    for w2 r out
    by (rule ensures_mono [OF release_sql [OF drv that(1)]]) (use that(2) in simp)
  have tail: "ensures (do { (r, out, w) \<leftarrow> (if r2 = SQL_RDB_OK \<and> b then do {
         (r, n, w) \<leftarrow> drv_column_int64 drv s 0 w2;
         Some (r, if r = SQL_RDB_OK then Some (if 0 \<le> sint n then nat (sint n) else 0) else Some old, w) }
       else Some (r2, Some old, w2)); w \<leftarrow> release_cached_stmt g s owned w; Some (r, g, out, w, m) })
     (\<lambda>(r, h', out, w', m'). h' = g \<and> ?done r out w')"
    if A2: "acquired_sql live obs g w2 F s owned {s}" and
      E: "if r2 = SQL_RDB_OK then \<exists>rows. ran_with sem sql vs (data w) rows (data w2) \<and> b = (rows \<noteq> []) \<and>
          so_rows (obs w2 s) = Some rows else data w2 = data w" for r2 b w2
  proof (cases "r2 = SQL_RDB_OK \<and> b")
    case True
    then obtain rows where R: "ran_with sem sql vs (data w) rows (data w2)" "rows \<noteq> []" "so_rows (obs w2 s) = Some rows"
      using E by auto
    have "executed sem sql vs r (data w) (data w3)
        (\<lambda>rows. reported rows old (if r = SQL_RDB_OK then Some (if 0 \<le> sint v then nat (sint v) else 0) else Some old))"
      if "data w3 = data w2" "\<forall>u row rows. r = SQL_RDB_OK \<longrightarrow> so_rows (obs w2 s) = Some ((Cell_Int u # row) # rows) \<longrightarrow> v = u" for r v w3
      using R that by (auto simp: executed_def reported_def intro!: exI [of _ rows])
    then show ?thesis using True rel by (auto intro!: ensures_mono [OF count_column [OF A2]])
  next
    case False
    then show ?thesis using rel [OF A2, of r2 "Some old"] E by (auto simp: executed_def reported_def split: if_splits)
  qed
  show ?thesis
    by (rule ensures_bindI, rule ensures_mono [OF step_runs [OF A T C]]) (use tail in auto)
qed

text \<open>What follows the acquisition of the statement.\<close>

lemma Count_run:
  assumes drv: "driver g = Some drv" and acq: "acquired_sql live obs g w F s owned {}" and st: "has_text obs w {} sql s" and fits: "cond_fits cond"
  shows "ensures (do {
      (r, w) \<leftarrow> bind_cond_from drv s cond 1 w;
      if r \<noteq> SQL_RDB_OK then do { w \<leftarrow> release_cached_stmt g s owned w; Some (r, g, Some old, w, m) }
      else do {
        (r, has_row, w) \<leftarrow> drv_step drv s w;
        (r, out, w) \<leftarrow>
          (if r = SQL_RDB_OK \<and> has_row then do {
             (r, n, w) \<leftarrow> drv_column_int64 drv s 0 w;
             Some (r, if r = SQL_RDB_OK then Some (if 0 \<le> sint n then nat (sint n) else 0) else Some old, w)
           } else Some (r, Some old, w));
        w \<leftarrow> release_cached_stmt g s owned w;
        Some (r, g, out, w, m)
      }
    }) (\<lambda>(r, h', out, w', m'). h' = g \<and> holds_sql live obs g w' F {} \<and>
      executed sem sql (cond_cells cond) r (data w) (data w') (\<lambda>rows. reported rows old out))"
proof -
  have s: "s \<in> live w" using acq by (simp add: acquired_sql_def)
  show ?thesis
  proof (rule ensures_bindI, rule ensures_mono [OF bind_cond_loads [OF s fits]], clarify)
    fix r1 w1 assume L: "loads live data obs s 1 (cond_cells cond) w r1 w1"
    note A = acquired_sql_loads [OF L acq] and T = loads_live(3) [OF L st]
    have D: "data w1 = data w" by (rule loads_live(2) [OF L])
    show "ensures (if r1 \<noteq> SQL_RDB_OK then do { w \<leftarrow> release_cached_stmt g s owned w1; Some (r1, g, Some old, w, m) }
      else do {
        (r, has_row, w) \<leftarrow> drv_step drv s w1;
        (r, out, w) \<leftarrow>
          (if r = SQL_RDB_OK \<and> has_row then do {
             (r, n, w) \<leftarrow> drv_column_int64 drv s 0 w;
             Some (r, if r = SQL_RDB_OK then Some (if 0 \<le> sint n then nat (sint n) else 0) else Some old, w)
           } else Some (r, Some old, w));
        w \<leftarrow> release_cached_stmt g s owned w;
        Some (r, g, out, w, m)
      }) (\<lambda>(r, h', out, w', m'). h' = g \<and> holds_sql live obs g w' F {} \<and>
      executed sem sql (cond_cells cond) r (data w) (data w') (\<lambda>rows. reported rows old out))"
    proof (cases "r1 = SQL_RDB_OK")
      case True
      show ?thesis using Count_step [OF drv A T [THEN conjunct1] T [THEN conjunct2] loads_live(4) [OF L [unfolded True]], where old = old and m = m]
        unfolding D using True by simp
    next
      case False
      then show ?thesis using D by (auto simp: executed_def intro!: ensures_mono [OF release_sql [OF drv A]])
    qed
  qed
qed

text \<open>The acquisition itself, with what the caller does with the statement.\<close>

lemma acquire_engine:
  assumes rdy: "engine_ready drv ctx live obs h w F" and reg: "registered h name = Some schema"
    and spec: "spec_ok oper (query oper schema cond target d)"
    and none: "\<And>r g w1 m1. r \<noteq> SQL_RDB_OK \<Longrightarrow> holds_sql live obs g w1 F {} \<Longrightarrow> data w1 = data w \<Longrightarrow> ensures (f r None g w1 m1) P"
    and some: "\<And>r s owned g w1 m1. driver g = Some drv \<Longrightarrow> driver_ctx g = Some ctx \<Longrightarrow> acquired_sql live obs g w1 F s owned {} \<Longrightarrow>
      has_text obs w1 {} (sql_text oper (query oper schema cond target d)) s \<Longrightarrow> data w1 = data w \<Longrightarrow> ensures (f r (Some (s, owned)) g w1 m1) P"
  shows "ensures (do { (r, st, g, w, m) \<leftarrow> build_and_get (h\<lparr>mutex := x\<rparr>) (query oper schema cond target d) w m; f r st g w m }) P"
proof -
  have V: "driver (h\<lparr>mutex := x\<rparr>) = Some drv" "driver_ctx (h\<lparr>mutex := x\<rparr>) = Some ctx" "holds_sql live obs (h\<lparr>mutex := x\<rparr>) w F {}"
    and R: "registry_ok (registry h)" using rdy by (auto simp: engine_ready_def)
  let ?spec = "query oper schema cond target d"
  have op: "qs_op ?spec = oper" by (simp add: query_def)
  have ok: "spec_ok (qs_op ?spec) ?spec" "spec_idents ?spec" using spec op query_idents [OF registered_schema_ok [OF R reg]] by simp_all
  show ?thesis
  proof (rule ensures_bindI, rule ensures_mono [OF build_and_get_sql [OF V ok]], clarify)
    fix r st g w1 m1
    assume B: "data w1 = data w" "driver g = Some drv" "driver_ctx g = Some ctx"
      "case st of None \<Rightarrow> r \<noteq> SQL_RDB_OK \<and> holds_sql live obs g w1 F {}
       | Some (s, owned) \<Rightarrow> acquired_sql live obs g w1 F s owned {} \<and> has_text obs w1 {} (sql_text (qs_op ?spec) ?spec) s"
    show "ensures (f r st g w1 m1) P"
    proof (cases st)
      case None
      then show ?thesis using B none by simp
    next
      case (Some a)
      then show ?thesis using B some op by (cases a) simp
    qed
  qed
qed

lemma Count_engine:
  assumes rdy: "engine_ready drv ctx live obs h w F" and reg: "registered h name = Some schema" and fits: "cond_fits cond"
  shows "ensures (SqlRDBCount h (Some name) cond (Some old) w m) (\<lambda>(r, h', out, w', m'). holds_sql live obs h' w' F {} \<and>
    executed sem (count_sql drv schema cond) (cond_cells cond) r (data w) (data w') (\<lambda>rows. reported rows old out))"
proof -
  let ?P = "\<lambda>r h' (out, w', m'). holds_sql live obs h' w' F {} \<and>
    executed sem (count_sql drv schema cond) (cond_cells cond) r (data w) (data w') (\<lambda>rows. reported rows old out)"
  have V: "c2sql_handle_valid (Some h)" "\<And>x. driver (h\<lparr>mutex := x\<rparr>) = Some drv" using rdy by (auto simp: engine_ready_def)
  show ?thesis unfolding SqlRDBCount_def
  proof (simp only: V not_True_eq_False if_False option.case prod.case, rule locked_ensures [where P = ?P],
      rule with_registered [where schema = schema], simp add: reg,
      simp only: V Option.bind.simps, rule acquire_engine [OF rdy reg], goal_cases)
    case (2 x r g w1 m1)
    then show ?case by (simp add: executed_def)
  next
    case (3 x r s owned g w1 m1)
    from Count_run [OF 3(1,3,4) fits, where old = old and m = m1] show ?case
      unfolding 3(5) by (simp only: option.case prod.case) (elim ensures_mono, auto simp: count_sql_def)
  qed simp
qed

text \<open>Writing a struct runs the statement of the schema with the values of its members.\<close>

lemma Write_run:
  assumes drv: "driver g = Some drv" and acq: "acquired_sql live obs g w F s owned {}" and st: "has_text obs w {} sql s"
    and cols: "\<forall>c \<in> set (sch_cols schema). member_ok (length row) c \<and> col_size c < 2 ^ 31"
    and nulls: "\<forall>k < length (sch_cols schema). c2sql_internal_null_bit_get nm k = Some (nulls k)"
  shows "ensures (do {
      (r, w) \<leftarrow> c2sql_internal_tm_bind_row drv s schema (Some row) nm w;
      if r \<noteq> SQL_RDB_OK then do { w \<leftarrow> release_cached_stmt g s owned w; Some (r, g, w, m) }
      else do {
        (r, has_row, w) \<leftarrow> drv_step drv s w;
        w \<leftarrow> release_cached_stmt g s owned w;
        Some (r, if r \<noteq> SQL_RDB_OK then set_error g r ''Write: step failed'' else g, w, m)
      }
    }) (\<lambda>(r, h', w', m'). holds_sql live obs h' w' F {} \<and>
      (if r = SQL_RDB_OK then \<exists>rows. ran_with sem sql (row_cells nulls 0 (sch_cols schema) row) (data w) rows (data w') else data w' = data w))"
proof -
  let ?vs = "row_cells nulls 0 (sch_cols schema) row"
  have s: "s \<in> live w" using acq by (simp add: acquired_sql_def)
  have B: "ensures (c2sql_internal_tm_bind_row drv s schema (Some row) nm w) (\<lambda>(r, w'). loads live data obs s 1 ?vs w r w')"
    using bind_cols_loads [OF s cols, of nm 0 nulls] nulls by (simp add: c2sql_internal_tm_bind_row_def)
  show ?thesis
  proof (rule ensures_bindI, rule ensures_mono [OF B], clarify)
    fix r1 w1 assume L: "loads live data obs s 1 ?vs w r1 w1"
    note A = acquired_sql_loads [OF L acq] and T = loads_live(3) [OF L st]
    have D: "data w1 = data w" by (rule loads_live(2) [OF L])
    show "ensures (if r1 \<noteq> SQL_RDB_OK then do { w \<leftarrow> release_cached_stmt g s owned w1; Some (r1, g, w, m) }
      else do {
        (r, has_row, w) \<leftarrow> drv_step drv s w1;
        w \<leftarrow> release_cached_stmt g s owned w;
        Some (r, if r \<noteq> SQL_RDB_OK then set_error g r ''Write: step failed'' else g, w, m)
      }) (\<lambda>(r, h', w', m'). holds_sql live obs h' w' F {} \<and>
        (if r = SQL_RDB_OK then \<exists>rows. ran_with sem sql ?vs (data w) rows (data w') else data w' = data w))"
    proof (cases "r1 = SQL_RDB_OK")
      case True
      note S = step_runs [OF A T [THEN conjunct1] T [THEN conjunct2] loads_live(4) [OF L [unfolded True]]]
      have rel: "ensures (release_cached_stmt g s owned w2) (\<lambda>w'. holds_sql live obs g w' F {} \<and> Q (data w'))"
        if "acquired_sql live obs g w2 F s owned {s}" "Q (data w2)" for w2 and Q :: "'d \<Rightarrow> bool"
        by (rule ensures_mono [OF release_sql [OF drv that(1)]]) (use that(2) in auto)
      show ?thesis using True D
        by (auto intro!: ensures_mono [OF S] rel [where Q = "\<lambda>d. d = data w"]
          rel [where Q = "\<lambda>d. \<exists>rows. ran_with sem sql ?vs (data w) rows d"] split: if_splits)
    next
      case False
      then show ?thesis using D by (auto intro!: ensures_mono [OF release_sql [OF drv A]])
    qed
  qed
qed

lemma Write_engine:
  assumes rdy: "engine_ready drv ctx live obs h w F" and reg: "registered h name = Some schema"
    and cols: "\<forall>c \<in> set (sch_cols schema). member_ok (length row) c \<and> col_size c < 2 ^ 31"
    and nulls: "\<forall>k < length (sch_cols schema). c2sql_internal_null_bit_get nm k = Some (nulls k)"
  shows "ensures (SqlRDBWrite h (Some name) (Some row) nm w m) (\<lambda>(r, h', w', m'). holds_sql live obs h' w' F {} \<and>
    (if r = SQL_RDB_OK then \<exists>rows. ran_with sem (write_sql drv schema) (row_cells nulls 0 (sch_cols schema) row) (data w) rows (data w')
     else data w' = data w))"
proof -
  let ?P = "\<lambda>r h' (w', m'). holds_sql live obs h' w' F {} \<and>
    (if r = SQL_RDB_OK then \<exists>rows. ran_with sem (write_sql drv schema) (row_cells nulls 0 (sch_cols schema) row) (data w) rows (data w')
     else data w' = data w)"
  have V: "c2sql_handle_valid (Some h)" "\<And>x. driver (h\<lparr>mutex := x\<rparr>) = Some drv" "registry_ok (registry h)"
    using rdy by (auto simp: engine_ready_def)
  show ?thesis unfolding SqlRDBWrite_def
  proof (simp only: V not_True_eq_False if_False option.case prod.case, rule locked_ensures [where P = ?P],
      rule with_registered [where schema = schema], simp add: reg,
      simp only: V Option.bind.simps, rule acquire_engine [OF rdy reg], goal_cases)
    case (1 x)
    show ?case by (rule schema_ok_write [OF registered_schema_ok [OF V(3) reg]])
  next
    case (2 x r g w1 m1)
    then show ?case by simp
  next
    case (3 x r s owned g w1 m1)
    from Write_run [OF 3(1,3,4) cols nulls, where m = m1] show ?case
      unfolding 3(5) by (simp only: option.case prod.case) (elim ensures_mono, auto simp: write_sql_def split: if_splits)
  qed
qed

text \<open>A delete runs the statement of its condition; the rows affected are then asked of the driver.\<close>

lemma changes_sql:
  assumes "holds_sql live obs h w F {}"
  shows "ensures (drv_changes drv ctx w) (\<lambda>(n, w'). holds_sql live obs h w' F {} \<and> data w' = data w)"
  by (rule ensures_mono [OF ensures_both [OF changes_obs changes]]) (use assms in \<open>auto simp: holds_sql_def has_text_def\<close>)

lemma Delete_step:
  assumes drv: "driver g = Some drv" and A: "acquired_sql live obs g w F s owned {s}" and T: "so_sql (obs w s) = sql" "so_rows (obs w s) = None"
    and C: "carries obs s 1 vs w"
  shows "ensures (do {
        (r, has_row, w) \<leftarrow> drv_step drv s w;
        w \<leftarrow> release_cached_stmt g s owned w;
        if r = SQL_RDB_OK \<and> out \<noteq> None then do {
          (n, w) \<leftarrow> drv_changes drv ctx w;
          Some (r, g, Some (if 0 \<le> n then nat n else 0), w, m)
        } else Some (r, g, out, w, m)
    }) (\<lambda>(r, h', out', w', m'). holds_sql live obs h' w' F {} \<and>
      (if r = SQL_RDB_OK then \<exists>rows. ran_with sem sql vs (data w) rows (data w') else data w' = data w \<and> out' = out))"
proof (rule ensures_bindI, rule ensures_mono [OF step_runs [OF A T C]], clarify)
  fix r b w1 assume A1: "acquired_sql live obs g w1 F s owned {s}"
    and E: "if r = SQL_RDB_OK then \<exists>rows. ran_with sem sql vs (data w) rows (data w1) \<and> b = (rows \<noteq> []) \<and>
      so_rows (obs w1 s) = Some rows else data w1 = data w"
  show "ensures (do {
        w \<leftarrow> release_cached_stmt g s owned w1;
        if r = SQL_RDB_OK \<and> out \<noteq> None then do {
          (n, w) \<leftarrow> drv_changes drv ctx w;
          Some (r, g, Some (if 0 \<le> n then nat n else 0), w, m)
        } else Some (r, g, out, w, m)
    }) (\<lambda>(r, h', out', w', m'). holds_sql live obs h' w' F {} \<and>
      (if r = SQL_RDB_OK then \<exists>rows. ran_with sem sql vs (data w) rows (data w') else data w' = data w \<and> out' = out))"
    by (rule ensures_bindI, rule ensures_mono [OF release_sql [OF drv A1]])
      (use E in \<open>auto intro!: changes_sql [THEN ensures_mono] split: if_splits\<close>)
qed

lemma Delete_engine:
  assumes rdy: "engine_ready drv ctx live obs h w F" and reg: "registered h name = Some schema" and fits: "cond_fits (Some c)"
  shows "ensures (SqlRDBDelete h (Some name) (Some c) out w m) (\<lambda>(r, h', out', w', m'). holds_sql live obs h' w' F {} \<and>
    (if r = SQL_RDB_OK then \<exists>rows. ran_with sem (delete_sql drv schema (Some c)) (cond_cells (Some c)) (data w) rows (data w')
     else data w' = data w))"
proof -
  let ?Q = "\<lambda>r w'. if r = SQL_RDB_OK
    then \<exists>rows. ran_with sem (delete_sql drv schema (Some c)) (cond_cells (Some c)) (data w) rows (data w') else data w' = data w"
  let ?P = "\<lambda>r h' (out, w', m'). holds_sql live obs h' w' F {} \<and> ?Q r w'"
  have V: "c2sql_handle_valid (Some h)" "\<And>x. driver (h\<lparr>mutex := x\<rparr>) = Some drv" "\<And>x. driver_ctx (h\<lparr>mutex := x\<rparr>) = Some ctx"
    using rdy by (auto simp: engine_ready_def)
  show ?thesis unfolding SqlRDBDelete_def
  proof (simp only: V not_True_eq_False if_False option.case prod.case, rule locked_ensures [where P = ?P],
      rule with_registered [where schema = schema], simp add: reg,
      simp only: V Option.bind.simps, rule acquire_engine [OF rdy reg], goal_cases)
    case (2 x r g w1 m1)
    then show ?case by simp
  next
    case (3 x r s owned g w1 m1)
    have s: "s \<in> live w1" using 3(3) by (simp add: acquired_sql_def)
    show ?case
    proof (simp only: option.case prod.case, rule ensures_bindI, rule ensures_mono [OF bind_cond_loads [OF s fits]], clarify)
      fix r1 w2 assume L: "loads live data obs s 1 (cond_cells (Some c)) w1 r1 w2"
      note A = acquired_sql_loads [OF L 3(3)] and T = loads_live(3) [OF L 3(4)]
      have D: "data w2 = data w" using loads_live(2) [OF L] 3(5) by simp
      show "ensures (if r1 \<noteq> SQL_RDB_OK then do { w \<leftarrow> release_cached_stmt g s owned w2; Some (r1, g, out, w, m1) }
        else do {
          (r, has_row, w) \<leftarrow> drv_step drv s w2;
          w \<leftarrow> release_cached_stmt g s owned w;
          if r = SQL_RDB_OK \<and> out \<noteq> None then do {
            (n, w) \<leftarrow> drv_changes drv ctx w;
            Some (r, g, Some (if 0 \<le> n then nat n else 0), w, m1)
          } else Some (r, g, out, w, m1)
        }) (\<lambda>(r, g, s). \<forall>y. ?P r (g\<lparr>mutex := y\<rparr>) s)"
      proof (cases "r1 = SQL_RDB_OK")
        case True
        note S = Delete_step [OF 3(1) A T [THEN conjunct1] T [THEN conjunct2] loads_live(4) [OF L [unfolded True]], where out = out and m = m1]
        show ?thesis unfolding True
          by (simp only: simp_thms if_False, rule ensures_mono [OF S]) (use D in \<open>auto simp: delete_sql_def split: if_splits\<close>)
      next
        case False
        then show ?thesis using D by (auto intro!: ensures_mono [OF release_sql [OF 3(1) A]])
      qed
    qed
  qed simp
qed

text \<open>A call that keeps the handle leaves it ready for the next one.\<close>

lemma ready_after:
  assumes "engine_ready drv ctx live obs h w F" and "keeps_handle h h'" and "holds_sql live obs h' w' F {}"
  shows "engine_ready drv ctx live obs h' w' F" and "registered h' name = registered h name"
  using assms by (simp_all add: engine_ready_def keeps_handle_def c2sql_handle_valid_def registered_def c2sql_internal_schema_lookup_def
    split: option.split)

end

end
