(* ===== verification/Engine_Read.thy ===== *)
theory Engine_Read
  imports Engine
begin

text \<open>
  What \<^verbatim>\<open>SqlRDBRead\<close> has the database do and what it delivers: the members of the struct hold
  the values of the one row the engine returns.
\<close>

section \<open>Reading columns\<close>

lemma reads_refl: "reads data obs s typed w w"
  by (simp add: reads_def only_stmt_def)

lemma reads_trans: "reads data obs s b w w1 \<Longrightarrow> reads data obs s c w1 w2 \<Longrightarrow> reads data obs s (b \<and> c) w w2"
  by (auto simp: reads_def only_stmt_def)

lemma reads_weaken: "reads data obs s b w w' \<Longrightarrow> (c \<Longrightarrow> b) \<Longrightarrow> reads data obs s c w w'"
  by (auto simp: reads_def)

lemma reads_current: "reads data obs s True w w' \<Longrightarrow> current obs w' s i = current obs w s i"
  by (simp add: reads_def current_def)

text \<open>What reading leaves: the statement open, and as it was when the types agree.\<close>

definition peeks :: "('w \<Rightarrow> ptr set) \<Rightarrow> ('w \<Rightarrow> 'd) \<Rightarrow> ('w \<Rightarrow> ptr \<Rightarrow> stmt_obs) \<Rightarrow> ptr \<Rightarrow> bool \<Rightarrow> 'w \<Rightarrow> 'w \<Rightarrow> bool" where
  "peeks live data obs s typed w w' \<longleftrightarrow> reads data obs s typed w w' \<and> live w' = live w"

lemma peeks_refl: "peeks live data obs s typed w w"
  by (simp add: peeks_def reads_refl)

lemma peeks_trans: "peeks live data obs s b w w1 \<Longrightarrow> peeks live data obs s b w1 w2 \<Longrightarrow> peeks live data obs s b w w2"
  using reads_trans [of data obs s b w w1 b w2] by (auto simp: peeks_def)

lemma peeks_weaken: "peeks live data obs s b w w' \<Longrightarrow> peeks live data obs s False w w'"
  by (auto simp: peeks_def intro: reads_weaken)

context sql_engine begin

lemmas column_calls =
  column_isnull_obs [THEN ensures_both, OF _ column_isnull] column_int64_obs [THEN ensures_both, OF _ column_int64]
  column_real_obs [THEN ensures_both, OF _ column_real] column_text_obs [THEN ensures_both, OF _ column_text]
  column_blob_obs [THEN ensures_both, OF _ column_blob]

lemma column_peeks:
  assumes "s \<in> live w"
  shows "ensures (drv_column_isnull drv s i w) (\<lambda>(r, b, w'). peeks live data obs s True w w' \<and>
      (r = SQL_RDB_OK \<longrightarrow> current obs w s i \<noteq> None \<longrightarrow> b = (current obs w s i = Some Cell_Null)))"
    and "ensures (drv_column_int64 drv s i w) (\<lambda>(r, v, w'). peeks live data obs s (\<exists>u. current obs w s i = Some (Cell_Int u)) w w' \<and>
      (\<forall>u. r = SQL_RDB_OK \<longrightarrow> current obs w s i = Some (Cell_Int u) \<longrightarrow> v = u))"
    and "ensures (drv_column_real drv s i w) (\<lambda>(r, v, w'). peeks live data obs s (\<exists>u. current obs w s i = Some (Cell_Real u)) w w' \<and>
      (\<forall>u. r = SQL_RDB_OK \<longrightarrow> current obs w s i = Some (Cell_Real u) \<longrightarrow> v = u))"
    and "ensures (drv_column_text drv s i w) (\<lambda>(r, p, n, w'). peeks live data obs s (\<exists>t. current obs w s i = Some (Cell_Text t)) w w' \<and>
      (\<forall>t. r = SQL_RDB_OK \<longrightarrow> current obs w s i = Some (Cell_Text t) \<longrightarrow> p = Some (t @ [NUL]) \<and> n = length t))"
    and "ensures (drv_column_blob drv s i w) (\<lambda>(r, p, n, w'). peeks live data obs s (\<exists>t. current obs w s i = Some (Cell_Blob t)) w w' \<and>
      (\<forall>t. r = SQL_RDB_OK \<longrightarrow> current obs w s i = Some (Cell_Blob t) \<longrightarrow> p = (if t = [] then None else Some t) \<and> n = length t))"
  by (rule ensures_mono, rule column_calls [OF assms], auto simp: peeks_def)+

text \<open>Whatever the types, a read of columns changes nothing but what its own statement holds.\<close>

lemma read_one_peeks:
  assumes "s \<in> live w"
  shows "ensures (read_one drv s i col dst w) (\<lambda>(r, dst', w'). peeks live data obs s False w w')"
  unfolding read_one_def using column_peeks(2-5) [OF assms, of i]
  by (cases "col_type col") (auto simp: Let_def peeks_refl dest: peeks_weaken intro!: ensuresI [where x = "write_bytes a b c" for a b c]
    ensuresI [where x = "copy_from a b c d" for a b c d] elim!: ensures_mono)

lemma read_cols_peeks:
  assumes "s \<in> live w"
  shows "ensures (read_cols drv s i cols tr dst nm w) (\<lambda>(r, dst', nm', w'). peeks live data obs s False w w')"
  using assms
proof (induction cols arbitrary: i tr dst nm w)
  case (Cons col cols)
  have next_cols: "ensures (read_cols drv s (Suc i) cols tr dst nm w1) (\<lambda>(r, dst', nm', w'). peeks live data obs s False w w')"
    if "peeks live data obs s False w w1" for tr dst nm w1
  proof -
    have "s \<in> live w1" using that Cons.prems by (simp add: peeks_def)
    from Cons.IH [OF this, of "Suc i" tr dst nm] show ?thesis by (rule ensures_mono) (use peeks_trans [OF that] in auto)
  qed
  have one: "ensures (read_one drv s (int i) col dst w1) (\<lambda>(r, dst', w'). peeks live data obs s False w w')"
    if "peeks live data obs s False w w1" for w1
  proof -
    have "s \<in> live w1" using that Cons.prems by (simp add: peeks_def)
    from read_one_peeks [OF this, of "int i" col dst] show ?thesis by (rule ensures_mono) (use peeks_trans [OF that] in auto)
  qed
  have nl: "ensures (drv_column_isnull drv s (int i) w) (\<lambda>(r, b, w'). peeks live data obs s False w w')"
    by (rule ensures_mono [OF column_peeks(1) [OF Cons.prems]]) (auto dest: peeks_weaken)
  show ?case
    by (auto intro!: ensures_mono [OF nl] ensures_mono [OF one] next_cols ensuresI [where x = "c2sql_internal_null_bit_set nm i"])
qed (simp add: peeks_refl)

text \<open>A value of the column's own type is read as it is.\<close>

lemma read_one_typed:
  assumes s: "s \<in> live w" and cur: "current obs w s i = Some c" "c \<noteq> Cell_Null" and fits: "cell_fits col c"
    and m: "member_ok (length dst) col"
  shows "ensures (read_one drv s i col dst w) (\<lambda>(r, dst', w'). peeks live data obs s True w w' \<and>
    (r = SQL_RDB_OK \<longrightarrow> writes_only (col_offset col) (col_size col) dst dst' \<and> column_cell col dst' = c) \<and>
    (r \<noteq> SQL_RDB_OK \<longrightarrow> dst' = dst))"
proof (rule ensuresI, clarify)
  fix r dst' w' assume run: "read_one drv s i col dst w = Some (r, dst', w')"
  have "(\<exists>w1. peeks live data obs s True w w1 \<and> answered drv s w i c w1) \<or>
      peeks live data obs s True w w' \<and> dst' = dst \<and> r \<noteq> SQL_RDB_OK"
  proof (cases c)
    case (Cell_Int v)
    then obtain r1 v1 w1 where q: "drv_column_int64 drv s i w = Some (r1, v1, w1)" "r1 \<noteq> SQL_RDB_OK \<Longrightarrow> (r, dst', w') = (r1, dst, w1)"
      using run fits by (auto simp: cell_fits_def read_one_def Let_def bind_Some_iff split: if_splits)
    then show ?thesis using ensuresD [OF column_peeks(2) [OF s] q(1)] cur Cell_Int by (cases "r1 = SQL_RDB_OK") (auto simp: answered_def)
  next
    case (Cell_Real v)
    then obtain r1 v1 w1 where q: "drv_column_real drv s i w = Some (r1, v1, w1)" "r1 \<noteq> SQL_RDB_OK \<Longrightarrow> (r, dst', w') = (r1, dst, w1)"
      using run fits by (auto simp: cell_fits_def read_one_def Let_def bind_Some_iff split: if_splits)
    then show ?thesis using ensuresD [OF column_peeks(3) [OF s] q(1)] cur Cell_Real by (cases "r1 = SQL_RDB_OK") (auto simp: answered_def)
  next
    case (Cell_Text t)
    then obtain r1 p1 n1 w1 where q: "drv_column_text drv s i w = Some (r1, p1, n1, w1)" "r1 \<noteq> SQL_RDB_OK \<Longrightarrow> (r, dst', w') = (r1, dst, w1)"
      using run fits by (auto simp: cell_fits_def read_one_def Let_def bind_Some_iff split: if_splits)
    then show ?thesis using ensuresD [OF column_peeks(4) [OF s] q(1)] cur Cell_Text by (cases "r1 = SQL_RDB_OK") (auto simp: answered_def)
  next
    case (Cell_Blob t)
    then obtain r1 p1 n1 w1 where q: "drv_column_blob drv s i w = Some (r1, p1, n1, w1)" "r1 \<noteq> SQL_RDB_OK \<Longrightarrow> (r, dst', w') = (r1, dst, w1)"
      using run fits by (auto simp: cell_fits_def read_one_def Let_def bind_Some_iff split: if_splits)
    then show ?thesis using ensuresD [OF column_peeks(5) [OF s] q(1)] cur Cell_Blob by (cases "r1 = SQL_RDB_OK") (auto simp: answered_def)
  qed (use cur in simp)
  then show "peeks live data obs s True w w' \<and>
    (r = SQL_RDB_OK \<longrightarrow> writes_only (col_offset col) (col_size col) dst dst' \<and> column_cell col dst' = c) \<and>
    (r \<noteq> SQL_RDB_OK \<longrightarrow> dst' = dst)"
    using run by (auto dest!: read_one_fits [OF m fits])
qed

lemma read_cols_truncated: "read_cols drv s i cols True dst nm w = Some (r, dst', nm', w') \<Longrightarrow> r \<noteq> SQL_RDB_OK"
  by (induction cols arbitrary: i dst nm w) (auto simp: bind_Some_iff split: if_splits)

text \<open>
  The row the statement is at, read from column \<open>i\<close> on: with the result OK every member that is not NULL
  has its value, and memory outside the members is untouched.
\<close>

lemma read_cols_typed:
  assumes "s \<in> live w" and "so_rows (obs w s) = Some (row # rest)" and "i + length cols \<le> length row"
    and "\<forall>k < length cols. cell_fits (cols ! k) (row ! (i + k))" and "\<forall>c \<in> set cols. member_ok (length dst) c"
    and "pairwise disjoint_cols (set cols)" and "distinct cols"
  shows "ensures (read_cols drv s i cols tr dst nm w) (\<lambda>(r, dst', nm', w'). peeks live data obs s True w w' \<and>
    (r = SQL_RDB_OK \<longrightarrow> length dst' = length dst \<and>
      (\<forall>k < length cols. row ! (i + k) \<noteq> Cell_Null \<longrightarrow> column_cell (cols ! k) dst' = row ! (i + k)) \<and>
      (\<forall>d. (\<forall>c \<in> set cols. disjoint_cols c d) \<and> member_ok (length dst) d \<longrightarrow> column_cell d dst' = column_cell d dst)))"
  using assms
proof (induction cols arbitrary: i tr dst nm w)
  case (Cons col cols)
  let ?c = "row ! i"
  have cur: "current obs w s (int i) = Some ?c" using Cons.prems(2,3) by (simp add: current_def)
  have fits: "cell_fits col ?c" "\<forall>k < length cols. cell_fits (cols ! k) (row ! (Suc i + k))" using Cons.prems(4) by force+
  have mc: "member_ok (length dst) col" and mem: "\<forall>c \<in> set cols. member_ok (length dst) c" and pw: "pairwise disjoint_cols (set cols)"
    and dj: "\<forall>c \<in> set cols. disjoint_cols col c \<and> disjoint_cols c col"
    using Cons.prems(5-7) by (auto simp: pairwise_insert)
  let ?post = "\<lambda>i cols dst w (r, dst', nm' :: null_map, w'). peeks live data obs s True w w' \<and>
    (r = SQL_RDB_OK \<longrightarrow> length dst' = length dst \<and>
      (\<forall>k < length cols. row ! (i + k) \<noteq> Cell_Null \<longrightarrow> column_cell (cols ! k) dst' = row ! (i + k)) \<and>
      (\<forall>d. (\<forall>c \<in> set cols. disjoint_cols c d) \<and> member_ok (length dst) d \<longrightarrow> column_cell d dst' = column_cell d dst))"
  have rest: "ensures (read_cols drv s (Suc i) cols tr d1 nm1 w1) (?post (Suc i) cols d1 w1)"
    if "peeks live data obs s True w w1" "length d1 = length dst" for tr d1 nm1 w1
    by (rule Cons.IH) (use that Cons.prems(1,2,3,7) fits(2) mem pw in \<open>simp_all add: peeks_def reads_def\<close>)
  have step: "?post i (col # cols) dst w x"
    if P: "peeks live data obs s True w w1" and W: "writes_only (col_offset col) (col_size col) dst d1"
      and C: "?c \<noteq> Cell_Null \<Longrightarrow> column_cell col d1 = ?c" and X: "?post (Suc i) cols d1 w1 x" for w1 d1 x
  proof -
    obtain r d2 nm2 w2 where x: "x = (r, d2, nm2, w2)" by (metis prod_cases4)
    have l1: "length d1 = length dst" using W by (simp add: writes_only_def)
    have X: "peeks live data obs s True w1 w2"
      "r = SQL_RDB_OK \<Longrightarrow> length d2 = length d1 \<and> (\<forall>k < length cols. row ! (Suc i + k) \<noteq> Cell_Null \<longrightarrow> column_cell (cols ! k) d2 = row ! (Suc i + k)) \<and>
        (\<forall>d. (\<forall>c \<in> set cols. disjoint_cols c d) \<and> member_ok (length d1) d \<longrightarrow> column_cell d d2 = column_cell d d1)"
      using X by (auto simp: x)
    have own: "column_cell col d2 = ?c" if "r = SQL_RDB_OK" "?c \<noteq> Cell_Null"
    proof -
      have "column_cell col d2 = column_cell col d1" using X(2) [OF that(1)] dj mc l1 by simp
      then show ?thesis using C [OF that(2)] by simp
    qed
    have out: "column_cell d d2 = column_cell d dst"
      if "r = SQL_RDB_OK" "\<forall>c \<in> set (col # cols). disjoint_cols c d" "member_ok (length dst) d" for d
    proof -
      have "column_cell d d2 = column_cell d d1" using X(2) [OF that(1)] that(2,3) l1 by simp
      moreover have "column_cell d d1 = column_cell d dst" using column_cell_outside [OF W _ that(3)] that(2) by simp
      ultimately show ?thesis by simp
    qed
    have "column_cell ((col # cols) ! k) d2 = row ! (i + k)"
      if "r = SQL_RDB_OK" "k < length (col # cols)" "row ! (i + k) \<noteq> Cell_Null" for k
      using that own X(2) [OF that(1)] by (cases k) auto
    then show ?thesis unfolding x using peeks_trans [OF P X(1)] X(2) l1 out by simp
  qed
  have nl: "ensures (drv_column_isnull drv s (int i) w) (\<lambda>(r, b, w'). peeks live data obs s True w w' \<and> (r = SQL_RDB_OK \<longrightarrow> b = (?c = Cell_Null)))"
    by (rule ensures_mono [OF column_peeks(1) [OF Cons.prems(1)]]) (use cur in auto)
  have one: "ensures (read_one drv s (int i) col dst w1) (\<lambda>(r, d1, w'). peeks live data obs s True w w' \<and> 
      (r = SQL_RDB_OK \<longrightarrow> writes_only (col_offset col) (col_size col) dst d1 \<and> column_cell col d1 = ?c) \<and> (r \<noteq> SQL_RDB_OK \<longrightarrow> d1 = dst))"
    if P: "peeks live data obs s True w w1" "?c \<noteq> Cell_Null" for w1
  proof -
    have "s \<in> live w1" "current obs w1 s (int i) = Some ?c"
      using that Cons.prems(1) cur reads_current [of data obs s w w1] by (simp_all add: peeks_def)
    from read_one_typed [OF this P(2) fits(1) mc] show ?thesis by (rule ensures_mono) (use peeks_trans [OF P(1)] in auto)
  qed
  show ?case
  proof (rule ensuresI)
    fix x assume run: "read_cols drv s i (col # cols) tr dst nm w = Some x"
    obtain r0 b w1 where n: "drv_column_isnull drv s (int i) w = Some (r0, b, w1)" using run by (auto simp: bind_Some_iff)
    have N: "peeks live data obs s True w w1" "r0 = SQL_RDB_OK \<Longrightarrow> b = (?c = Cell_Null)" using ensuresD [OF nl n] by auto
    consider "r0 \<noteq> SQL_RDB_OK" | "r0 = SQL_RDB_OK" "?c = Cell_Null" | "r0 = SQL_RDB_OK" "?c \<noteq> Cell_Null" by blast
    then show "?post i (col # cols) dst w x"
    proof cases
      case 1
      then show ?thesis using run n N(1) by auto
    next
      case 2
      then obtain nm1 where "read_cols drv s (Suc i) cols tr dst nm1 w1 = Some x" using run n N(2) by (auto simp: bind_Some_iff)
      from step [OF N(1) writes_only_refl _ ensuresD [OF rest [OF N(1) refl] this]] 2(2) show ?thesis by simp
    next
      case 3
      then obtain r1 d1 w2 where o: "read_one drv s (int i) col dst w1 = Some (r1, d1, w2)"
        "if r1 = SQL_RDB_WARN_TRUNCATED then read_cols drv s (Suc i) cols True d1 nm w2 = Some x
         else if r1 \<noteq> SQL_RDB_OK then x = (r1, d1, nm, w2) else read_cols drv s (Suc i) cols tr d1 nm w2 = Some x"
        using run n N(2) by (auto simp: bind_Some_iff split: if_splits)
      have O: "peeks live data obs s True w w2" "r1 = SQL_RDB_OK \<Longrightarrow> writes_only (col_offset col) (col_size col) dst d1"
        "r1 = SQL_RDB_OK \<Longrightarrow> column_cell col d1 = ?c" "r1 \<noteq> SQL_RDB_OK \<Longrightarrow> d1 = dst"
        using ensuresD [OF one [OF N(1) 3(2)] o(1)] by auto
      show ?thesis
      proof (cases "r1 = SQL_RDB_OK")
        case True
        then have "read_cols drv s (Suc i) cols tr d1 nm w2 = Some x" using o(2) by simp
        moreover have "length d1 = length dst" using O(2) True by (simp add: writes_only_def)
        ultimately have "?post (Suc i) cols d1 w2 x" using ensuresD [OF rest [OF O(1)]] by blast
        from step [OF O(1) O(2) [OF True] O(3) [OF True] this] show ?thesis .
      next
        case False
        show ?thesis
        proof (cases "r1 = SQL_RDB_WARN_TRUNCATED")
          case True
          then have "read_cols drv s (Suc i) cols True dst nm w2 = Some x" using o(2) O(4) by simp
          with ensuresD [OF rest [OF O(1) refl] this] show ?thesis using peeks_trans [OF O(1)] by (cases x) (auto dest: read_cols_truncated)
        qed (use False o(2) O(1) in auto)
      qed
    qed
  qed
qed (simp add: peeks_refl)

end

section \<open>Reading one row\<close>

text \<open>The values of a row fit the columns; the struct holds them.\<close>

definition row_fits :: "column list \<Rightarrow> cell list \<Rightarrow> bool" where
  "row_fits cols row \<longleftrightarrow> length row = length cols \<and> (\<forall>k < length cols. cell_fits (cols ! k) (row ! k))"

definition row_held :: "column list \<Rightarrow> cell list \<Rightarrow> char list \<Rightarrow> bool" where
  "row_held cols row buf \<longleftrightarrow> (\<forall>k < length cols. row ! k \<noteq> Cell_Null \<longrightarrow> column_cell (cols ! k) buf = row ! k)"

text \<open>The members of a struct in the caller's memory.\<close>

definition struct_ok :: "column list \<Rightarrow> char list \<Rightarrow> bool" where
  "struct_ok cols buf \<longleftrightarrow> (\<forall>c \<in> set cols. member_ok (length buf) c) \<and> pairwise disjoint_cols (set cols) \<and> distinct cols \<and>
     length buf < 2 ^ 64"

definition select_sql :: "'w SqlRDBDriver \<Rightarrow> SqlRDBSchema \<Rightarrow> SqlRDBCondition option \<Rightarrow> string" where
  "select_sql drv schema cond = sql_text C2SQL_QB_SELECT (query C2SQL_QB_SELECT schema cond None (drv_dialect drv))"

lemma published_cell:
  assumes "write_bytes buf 0 (take e tmp) = Some buf'" and "col_offset c + col_size c \<le> e" and "e \<le> length tmp"
  shows "column_cell c buf' = column_cell c tmp"
proof -
  have "buf' = take e tmp @ drop e buf" using assms(1,3) by (auto simp: write_bytes_def split: if_splits)
  then have "take (col_size c) (drop (col_offset c) buf') = take (col_size c) (drop (col_offset c) tmp)"
    using assms(2,3) by (auto simp: drop_take min_def)
  then have "region c buf' = region c tmp" by (simp only: region_def)
  then show ?thesis by (simp only: column_cell_def)
qed

lemma later_rows_step:
  assumes "later_rows (obs w s) = Some rows" and "steps sem data obs s w (r, b, w')"
  shows "data w' = data w \<and> (r = SQL_RDB_OK \<longrightarrow> b = (rows \<noteq> []))"
  using assms by (auto simp: later_rows_def steps_def split: option.splits list.splits)

context sql_engine begin

lemma second_step:
  assumes A: "acquired_sql live obs h w F s owned {s}" and L: "later_rows (obs w s) = Some rows"
  shows "ensures (drv_step drv s w) (\<lambda>(r, b, w'). acquired_sql live obs h w' F s owned {s} \<and> data w' = data w \<and>
    (r = SQL_RDB_OK \<longrightarrow> b = (rows \<noteq> [])))"
proof -
  have s: "s \<in> live w" using A by (simp add: acquired_sql_def)
  show ?thesis
  proof (rule ensures_mono [OF ensures_both [OF step_obs [OF s] step]], clarify)
    fix r b w' assume S: "steps sem data obs s w (r, b, w')" "live w' = live w"
    then have "acquired_sql live obs h w' F s owned (insert s {s})"
      by (intro acquired_sql_touch [OF A]) (auto simp: steps_def)
    then show "acquired_sql live obs h w' F s owned {s} \<and> data w' = data w \<and> (r = SQL_RDB_OK \<longrightarrow> b = (rows \<noteq> []))"
      using later_rows_step [where obs = obs and w = w, OF L S(1)] by simp
  qed
qed

text \<open>The whole row, read into a buffer.\<close>

lemma read_row_engine:
  assumes A: "acquired_sql live obs h w F s owned {s}" and R: "so_rows (obs w s) = Some (row # rows)"
    and st: "struct_ok (sch_cols schema) buf"
  shows "ensures (c2sql_internal_tm_read_row drv s schema (Some buf) nm w) (\<lambda>(r, buf', nm', w').
    acquired_sql live obs h w' F s owned {s} \<and> data w' = data w \<and> later_rows (obs w' s) = Some rows \<and>
    (r = SQL_RDB_OK \<longrightarrow> row_fits (sch_cols schema) row \<longrightarrow>
       (\<exists>b. buf' = Some b \<and> length b = length buf \<and> row_held (sch_cols schema) row b)))"
proof -
  have s: "s \<in> live w" using A by (simp add: acquired_sql_def)
  let ?run = "read_cols drv s 0 (sch_cols schema) False buf nm w"
  have typed: "ensures ?run (\<lambda>(r, b, nm', w'). r = SQL_RDB_OK \<longrightarrow> row_fits (sch_cols schema) row \<longrightarrow>
      length b = length buf \<and> row_held (sch_cols schema) row b)"
  proof (cases "row_fits (sch_cols schema) row")
    case True
    then show ?thesis
      by (intro ensures_mono [OF read_cols_typed [OF s R]]) (use st in \<open>auto simp: row_fits_def row_held_def struct_ok_def\<close>)
  qed (simp add: ensuresI split_beta)
  have "peeks live data obs s False w w' \<Longrightarrow>
      acquired_sql live obs h w' F s owned {s} \<and> data w' = data w \<and> later_rows (obs w' s) = Some rows" for w'
    using acquired_sql_reads [OF A, of False w'] R by (auto simp: peeks_def reads_def later_rows_def)
  with ensures_both [OF typed read_cols_peeks [OF s, of 0 "sch_cols schema" False buf nm]]
  show ?thesis unfolding c2sql_internal_tm_read_row_def by (auto elim!: ensures_mono)
qed

lemma read_single_engine:
  assumes drv: "driver g = Some drv" and A: "acquired_sql live obs g w F s owned {s}" and R: "so_rows (obs w s) = Some (row # rows)"
    and st: "struct_ok (sch_cols schema) buf"
  shows "ensures (read_single g drv schema s owned buf nm w m) (\<lambda>(r, h', buf', nm', w', m').
    h' = g \<and> holds_sql live obs g w' F {} \<and> data w' = data w \<and>
    (r = SQL_RDB_OK \<longrightarrow> rows = [] \<and> (row_fits (sch_cols schema) row \<longrightarrow> length buf' = length buf \<and> row_held (sch_cols schema) row buf')))"
proof -
  let ?cols = "sch_cols schema" let ?e = "row_extent ?cols"
  define tmp where "tmp = replicate (if ?e = 0 then 1 else ?e) NUL"
  have inside: "\<forall>c \<in> set ?cols. col_offset c + col_size c \<le> length buf" and lt: "length buf < 2 ^ 64"
    using st by (auto simp: struct_ok_def member_ok_def)
  note ext = row_extent_bounds [OF inside lt]
  have len: "?e \<le> length tmp" "length tmp < 2 ^ 64" using ext(1) lt by (auto simp: tmp_def)
  have st': "struct_ok ?cols tmp" using st ext(2) len by (fastforce simp: struct_ok_def member_ok_def)
  have held: "row_held ?cols row buf'" if "write_bytes buf 0 (take ?e b) = Some buf'" "length b = length tmp" "row_held ?cols row b" for b buf'
    using that published_cell [OF that(1)] ext(2) len(1) by (auto simp: row_held_def)
  have rel: "ensures (release_cached_stmt g s owned w1) (\<lambda>w'. holds_sql live obs g w' F {} \<and> data w' = data w)"
    if "acquired_sql live obs g w1 F s owned {s}" "data w1 = data w" for w1
    by (rule ensures_mono [OF release_sql [OF drv that(1)]]) (use that(2) in simp)
  have pub: "ensures (do { out \<leftarrow> write_bytes buf 0 (take ?e b); nm' \<leftarrow> merge_null_map nm tn k; Some (r, g, out, nm', w', m') })
      (\<lambda>(r, h', buf', nm', w', m'). h' = g \<and> holds_sql live obs g w' F {} \<and> data w' = data w \<and>
        (r = SQL_RDB_OK \<longrightarrow> rows = [] \<and> (row_fits ?cols row \<longrightarrow> length buf' = length buf \<and> row_held ?cols row buf')))"
    if "holds_sql live obs g w' F {}" "data w' = data w" "rows = []"
      "r = SQL_RDB_OK \<longrightarrow> row_fits ?cols row \<longrightarrow> length b = length tmp \<and> row_held ?cols row b" for b tn k r w' m'
    using that held by (auto simp: bind_Some_iff intro!: ensuresI dest: write_bytes_length)
  have tail: "ensures (do {
        tmp_row \<leftarrow> out;
        if read_rc \<noteq> SQL_RDB_OK \<and> read_rc \<noteq> SQL_RDB_WARN_TRUNCATED then do {
          w \<leftarrow> release_cached_stmt g s owned w1;
          Some (read_rc, g, buf, nm, w, m')
        } else do {
          (r, has_row2, w) \<leftarrow> drv_step drv s w1;
          w \<leftarrow> release_cached_stmt g s owned w;
          if r \<noteq> SQL_RDB_OK \<or> has_row2 then
            Some (if has_row2 then SQL_RDB_ERR_MULTIPLE_ROWS else r, g, buf, nm, w, m')
          else do { out \<leftarrow> write_bytes buf 0 (take ?e tmp_row); nm' \<leftarrow> merge_null_map nm tn k; Some (read_rc, g, out, nm', w, m') }
        } }) (\<lambda>(r, h', buf', nm', w', m'). h' = g \<and> holds_sql live obs g w' F {} \<and> data w' = data w \<and>
        (r = SQL_RDB_OK \<longrightarrow> rows = [] \<and> (row_fits ?cols row \<longrightarrow> length buf' = length buf \<and> row_held ?cols row buf')))"
    if A1: "acquired_sql live obs g w1 F s owned {s}" "data w1 = data w" and L: "later_rows (obs w1 s) = Some rows"
      and O: "read_rc = SQL_RDB_OK \<longrightarrow> row_fits ?cols row \<longrightarrow> (\<exists>b. out = Some b \<and> length b = length tmp \<and> row_held ?cols row b)"
    for out read_rc w1 m' tn k
  proof (cases "read_rc \<noteq> SQL_RDB_OK \<and> read_rc \<noteq> SQL_RDB_WARN_TRUNCATED")
    case True
    then show ?thesis by (auto intro!: ensures_mono [OF rel [OF A1]] ensuresI [where x = out])
  next
    case False
    show ?thesis
    proof (cases out)
      case (Some b)
      show ?thesis unfolding Some Option.bind.simps if_not_P [OF False]
      proof (rule ensures_bindI, rule ensures_mono [OF second_step [OF A1(1) L]], clarify, rule ensures_bindI)
        fix r b2 w2 assume S: "acquired_sql live obs g w2 F s owned {s}" "data w2 = data w1" "r = SQL_RDB_OK \<longrightarrow> b2 = (rows \<noteq> [])"
        show "ensures (release_cached_stmt g s owned w2) (\<lambda>v. ensures (if r \<noteq> SQL_RDB_OK \<or> b2 then
              Some (if b2 then SQL_RDB_ERR_MULTIPLE_ROWS else r, g, buf, nm, v, m')
            else do { out \<leftarrow> write_bytes buf 0 (take ?e b); nm' \<leftarrow> merge_null_map nm tn k; Some (read_rc, g, out, nm', v, m') })
            (\<lambda>(r, h', buf', nm', w', m'). h' = g \<and> holds_sql live obs g w' F {} \<and> data w' = data w \<and>
              (r = SQL_RDB_OK \<longrightarrow> rows = [] \<and> (row_fits ?cols row \<longrightarrow> length buf' = length buf \<and> row_held ?cols row buf'))))"
        proof (rule ensures_mono [OF rel [OF S(1)]])
          show "data w2 = data w" using S(2) A1(2) by simp
        next
          fix w3 assume W: "holds_sql live obs g w3 F {} \<and> data w3 = data w"
          show "ensures (if r \<noteq> SQL_RDB_OK \<or> b2 then Some (if b2 then SQL_RDB_ERR_MULTIPLE_ROWS else r, g, buf, nm, w3, m')
            else do { out \<leftarrow> write_bytes buf 0 (take ?e b); nm' \<leftarrow> merge_null_map nm tn k; Some (read_rc, g, out, nm', w3, m') })
            (\<lambda>(r, h', buf', nm', w', m'). h' = g \<and> holds_sql live obs g w' F {} \<and> data w' = data w \<and>
              (r = SQL_RDB_OK \<longrightarrow> rows = [] \<and> (row_fits ?cols row \<longrightarrow> length buf' = length buf \<and> row_held ?cols row buf')))"
          proof (cases "r \<noteq> SQL_RDB_OK \<or> b2")
            case True
            then show ?thesis using W by auto
          next
            case go: False
            show ?thesis unfolding if_not_P [OF go] by (rule pub) (use W go S(3) O Some in auto)
          qed
        qed
      qed
    qed simp
  qed
  obtain ok1 m1 where a1: "alloc m = (ok1, m1)" by (metis surj_pair)
  obtain ok2 m2 where a2: "(if nm = None then (False, m1) else alloc m1) = (ok2, m2)" by (metis surj_pair)
  show ?thesis
  proof (cases ok1)
    case False
    then show ?thesis using a1 by (auto simp: read_single_def intro!: ensures_mono [OF rel [OF A refl]])
  next
    case True
    have "\<not> \<not> ok1" using True by simp
    show ?thesis unfolding read_single_def Let_def a1 prod.case a2 tmp_def [symmetric] if_not_P [OF \<open>\<not> \<not> ok1\<close>]
      by (rule ensures_bindI, rule ensures_mono [OF read_row_engine [OF A R st']], clarify, rule tail) auto
  qed
qed

text \<open>
  With the result OK a single-row read ran its statement, the engine returned exactly one row, and the
  struct holds it.
\<close>

lemma Read_engine:
  assumes rdy: "engine_ready drv ctx live obs h w F" and reg: "registered h name = Some schema" and fits: "cond_fits cond"
    and one: "\<not> allows_many h opts" and st: "struct_ok (sch_cols schema) buf"
  shows "ensures (SqlRDBRead h (Some name) cond (Some buf) nm opts w m) (\<lambda>(r, h', buf', nm', w', m'). holds_sql live obs h' w' F {} \<and>
    executed sem (select_sql drv schema cond) (cond_cells cond) r (data w) (data w')
      (\<lambda>rows. \<exists>row. rows = [row] \<and> (row_fits (sch_cols schema) row \<longrightarrow>
         (\<exists>b. buf' = Some b \<and> length b = length buf \<and> row_held (sch_cols schema) row b))))"
proof -
  let ?X = "\<lambda>r w' b. executed sem (select_sql drv schema cond) (cond_cells cond) r (data w) (data w')
      (\<lambda>rows. \<exists>row. rows = [row] \<and> (row_fits (sch_cols schema) row \<longrightarrow> length b = length buf \<and> row_held (sch_cols schema) row b))"
  let ?P = "\<lambda>r h' (b, nm' :: null_map, w', m' :: mem). holds_sql live obs h' w' F {} \<and> ?X r w' b"
  have V: "c2sql_handle_valid (Some h)" "\<And>x. driver (h\<lparr>mutex := x\<rparr>) = Some drv"
    "\<And>x. ((case opts of None \<Rightarrow> False | Some o2 \<Rightarrow> allow_multi o2) \<or> multirow_default (config (h\<lparr>mutex := x\<rparr>)) = 1) = False"
    using rdy one by (auto simp: engine_ready_def allows_many_def)
  have body: "ensures (locked h (\<lambda>h. with_schema h ''Read'' name (buf, nm, w, m) (\<lambda>schema.
      do {
        let allow = ((case opts of None \<Rightarrow> False | Some o2 \<Rightarrow> allow_multi o2) \<or> multirow_default (config h) = 1);
        drv \<leftarrow> driver h;
        (r, st, h, w, m) \<leftarrow> build_and_get h (query C2SQL_QB_SELECT schema cond None (drv_dialect drv)) w m;
        case st of None \<Rightarrow> Some (r, h, buf, nm, w, m)
        | Some (stmt, owned) \<Rightarrow>
            do {
              (r, w) \<leftarrow> bind_cond_from drv stmt cond 1 w;
              if r \<noteq> SQL_RDB_OK then do {
                w \<leftarrow> release_cached_stmt h stmt owned w;
                Some (r, h, buf, nm, w, m)
              } else do {
                (r, has_row, w) \<leftarrow> drv_step drv stmt w;
                if r \<noteq> SQL_RDB_OK then do {
                  w \<leftarrow> release_cached_stmt h stmt owned w;
                  Some (r, h, buf, nm, w, m)
                } else if \<not> has_row then do {
                  w \<leftarrow> release_cached_stmt h stmt owned w;
                  Some (SQL_RDB_ERR_NOT_FOUND, h, buf, nm, w, m)
                } else if allow then do {
                  (r, row, nm, w) \<leftarrow> c2sql_internal_tm_read_row drv stmt schema (Some buf) nm w;
                  row \<leftarrow> row;
                  w \<leftarrow> release_cached_stmt h stmt owned w;
                  Some (r, h, row, nm, w, m)
                } else read_single h drv schema stmt owned buf nm w m
              }
            }
      }))) (\<lambda>(r, h', x). ?P r h' x)"
  proof (rule locked_ensures [where P = ?P], rule with_registered [where schema = schema], simp add: reg,
      unfold Let_def V if_False Option.bind.simps, rule acquire_engine [OF rdy reg], goal_cases)
    case (2 x r g w1 m1)
    then show ?case by (simp add: executed_def)
  next
    case (3 x r s owned g w1 m1)
    have s: "s \<in> live w1" using 3(3) by (simp add: acquired_sql_def)
    show ?case unfolding option.case prod.case
    proof (rule ensures_bindI, rule ensures_mono [OF bind_cond_loads [OF s fits]], clarify)
      fix r1 w2 assume L: "loads live data obs s 1 (cond_cells cond) w1 r1 w2"
      note A = acquired_sql_loads [OF L 3(3)] and T = loads_live(3) [OF L 3(4)]
      have D: "data w2 = data w" using loads_live(2) [OF L] 3(5) by simp
      show "ensures (if r1 \<noteq> SQL_RDB_OK then do { w \<leftarrow> release_cached_stmt g s owned w2; Some (r1, g, buf, nm, w, m1) }
        else do {
          (r, has_row, w) \<leftarrow> drv_step drv s w2;
          if r \<noteq> SQL_RDB_OK then do { w \<leftarrow> release_cached_stmt g s owned w; Some (r, g, buf, nm, w, m1) }
          else if \<not> has_row then do { w \<leftarrow> release_cached_stmt g s owned w; Some (SQL_RDB_ERR_NOT_FOUND, g, buf, nm, w, m1) }
          else read_single g drv schema s owned buf nm w m1
        }) (\<lambda>(r, g, s). \<forall>y. ?P r (g\<lparr>mutex := y\<rparr>) s)"
      proof (cases "r1 = SQL_RDB_OK")
        case False
        then show ?thesis using D by (auto simp: executed_def intro!: ensures_mono [OF release_sql [OF 3(1) A]])
      next
        case True
        note S = step_runs [OF A T [THEN conjunct1] T [THEN conjunct2] loads_live(4) [OF L [unfolded True]]]
        show ?thesis unfolding True simp_thms if_False
        proof (rule ensures_bindI, rule ensures_mono [OF S], clarify)
          fix r2 b w3 assume A3: "acquired_sql live obs g w3 F s owned {s}"
            and E: "if r2 = SQL_RDB_OK then \<exists>rows. ran_with sem (sql_text C2SQL_QB_SELECT (query C2SQL_QB_SELECT schema cond None (drv_dialect drv)))
              (cond_cells cond) (data w2) rows (data w3) \<and> b = (rows \<noteq> []) \<and> so_rows (obs w3 s) = Some rows else data w3 = data w2"
          note rel = release_sql [OF 3(1) A3]
          show "ensures (if r2 \<noteq> SQL_RDB_OK then do { w \<leftarrow> release_cached_stmt g s owned w3; Some (r2, g, buf, nm, w, m1) }
            else if \<not> b then do { w \<leftarrow> release_cached_stmt g s owned w3; Some (SQL_RDB_ERR_NOT_FOUND, g, buf, nm, w, m1) }
            else read_single g drv schema s owned buf nm w3 m1) (\<lambda>(r, g, s). \<forall>y. ?P r (g\<lparr>mutex := y\<rparr>) s)"
          proof (cases "r2 = SQL_RDB_OK")
            case False
            then show ?thesis using D E by (auto simp: executed_def intro!: ensures_mono [OF rel])
          next
            case ok: True
            then obtain rows where R: "ran_with sem (select_sql drv schema cond) (cond_cells cond) (data w) rows (data w3)"
              "b = (rows \<noteq> [])" "so_rows (obs w3 s) = Some rows" using E D by (auto simp: select_sql_def)
            show ?thesis
            proof (cases rows)
              case Nil
              then show ?thesis using ok R by (auto simp: executed_def intro!: ensures_mono [OF rel])
            next
              case (Cons row rest)
              then have "ensures (read_single g drv schema s owned buf nm w3 m1) (\<lambda>(r, g, s). \<forall>y. ?P r (g\<lparr>mutex := y\<rparr>) s)"
                using R by (intro ensures_mono [OF read_single_engine [OF 3(1) A3 _ st]]) (auto simp: executed_def)
              then show ?thesis using ok R(2) Cons by simp
            qed
          qed
        qed
      qed
    qed
  qed simp
  show ?thesis unfolding SqlRDBRead_def
  proof (simp only: V(1) not_True_eq_False if_False option.case prod.case, rule ensures_bindI, rule ensures_mono [OF body], goal_cases)
    case (1 a)
    obtain r g b nm' w' m' where a: "a = (r, g, b, nm', w', m')" by (metis prod_cases6)
    show ?case using 1 unfolding a by (simp add: executed_def)
  qed
qed

end

section \<open>A struct comes back\<close>

text \<open>
  What SQL says of the two statements of a schema with a primary key: after the upsert of the values
  \<open>vs\<close> the row they name is selected by its key, and no other.
\<close>

definition stores ::
  "(string \<Rightarrow> (int \<Rightarrow> cell option) \<Rightarrow> 'd \<Rightarrow> cell list list \<times> 'd) \<Rightarrow> 'w SqlRDBDriver \<Rightarrow> SqlRDBSchema \<Rightarrow> SqlRDBCondition option
     \<Rightarrow> cell list \<Rightarrow> bool" where
  "stores sem drv schema cond vs \<longleftrightarrow> (\<forall>a b d. (\<forall>k < length vs. a (1 + int k) = Some (vs ! k)) \<longrightarrow>
     (\<forall>k < length (cond_cells cond). b (1 + int k) = Some (cond_cells cond ! k)) \<longrightarrow>
     fst (sem (select_sql drv schema cond) b (snd (sem (write_sql drv schema) a d))) = [vs])"

lemma stores_ran:
  assumes "stores sem drv schema cond vs" and "ran_with sem (write_sql drv schema) vs d rows1 d1"
    and "ran_with sem (select_sql drv schema cond) (cond_cells cond) d1 rows d2"
  shows "rows = [vs]"
proof -
  obtain a b where a: "\<forall>k < length vs. a (1 + int k) = Some (vs ! k)" "sem (write_sql drv schema) a d = (rows1, d1)"
    and b: "\<forall>k < length (cond_cells cond). b (1 + int k) = Some (cond_cells cond ! k)" "sem (select_sql drv schema cond) b d1 = (rows, d2)"
    using assms(2,3) by (auto simp: ran_with_def)
  have "fst (sem (select_sql drv schema cond) b (snd (sem (write_sql drv schema) a d))) = [vs]"
    using assms(1) a(1) b(1) unfolding stores_def by blast
  then show ?thesis using a(2) b(2) by simp
qed

text \<open>The struct a caller writes, with the columns \<open>nulls\<close> marked NULL.\<close>

definition writable :: "column list \<Rightarrow> char list \<Rightarrow> null_map \<Rightarrow> (nat \<Rightarrow> bool) \<Rightarrow> bool" where
  "writable cols src nm nulls \<longleftrightarrow> (\<forall>c \<in> set cols. member_ok (length src) c \<and> terminated src c \<and> col_size c < 2 ^ 31) \<and>
     (\<forall>k < length cols. c2sql_internal_null_bit_get nm k = Some (nulls k))"

lemma row_cells_nth: "k < length cols \<Longrightarrow> row_cells nulls 0 cols src ! k = (if nulls k then Cell_Null else column_cell (cols ! k) src)"
  by (simp add: row_cells_def nth_enumerate_eq)

lemma row_cells_length [simp]: "length (row_cells nulls i cols src) = length cols"
  by (simp add: row_cells_def)

lemma writable_fits:
  assumes "writable cols src nm nulls"
  shows "row_fits cols (row_cells nulls 0 cols src)"
proof -
  have "cell_fits (cols ! k) (row_cells nulls 0 cols src ! k)" if "k < length cols" for k
  proof -
    have "member_ok (length src) (cols ! k)" "terminated src (cols ! k)" using assms that by (auto simp: writable_def)
    from column_cell_fits(1) [OF this] show ?thesis using that by (simp add: row_cells_nth cell_fits_def)
  qed
  then show ?thesis by (simp add: row_fits_def)
qed

context sql_engine begin

lemma write_then_read:
  assumes rdy: "engine_ready drv ctx live obs h w F" and reg: "registered h name = Some schema"
    and wr: "writable (sch_cols schema) src nm nulls" and fits: "cond_fits cond" and one: "\<not> allows_many h opts"
    and st: "struct_ok (sch_cols schema) buf"
    and sql: "stores sem drv schema cond (row_cells nulls 0 (sch_cols schema) src)"
    and wrun: "SqlRDBWrite h (Some name) (Some src) nm w m = Some (SQL_RDB_OK, h1, w1, m1)"
    and rrun: "SqlRDBRead h1 (Some name) cond (Some buf) nm1 opts w1 m1 = Some (SQL_RDB_OK, h2, buf', nm2, w2, m2)"
  shows "\<exists>b. buf' = Some b \<and> length b = length buf \<and>
    (\<forall>k < length (sch_cols schema). \<not> nulls k \<longrightarrow> column_cell (sch_cols schema ! k) b = column_cell (sch_cols schema ! k) src)"
proof -
  let ?cols = "sch_cols schema" and ?vs = "row_cells nulls 0 (sch_cols schema) src"
  have mem: "\<forall>c \<in> set ?cols. member_ok (length src) c \<and> col_size c < 2 ^ 31"
    and nl: "\<forall>k < length ?cols. c2sql_internal_null_bit_get nm k = Some (nulls k)" using wr by (auto simp: writable_def)
  have idle: "mutex_idle (mutex h)" using rdy by (simp add: engine_ready_def)
  obtain rows1 where W: "holds_sql live obs h1 w1 F {}" "ran_with sem (write_sql drv schema) ?vs (data w) rows1 (data w1)"
    using ensuresD [OF Write_engine [OF rdy reg mem nl] wrun] by auto
  have K: "keeps_handle h h1" using ensuresD [OF Write_frame [OF idle] wrun] by simp
  note R1 = ready_after [OF rdy K W(1)]
  have one1: "\<not> allows_many h1 opts" using one K by (simp add: allows_many_def keeps_handle_def)
  obtain row b where R: "ran_with sem (select_sql drv schema cond) (cond_cells cond) (data w1) [row] (data w2)"
    "row_fits ?cols row \<Longrightarrow> buf' = Some b \<and> length b = length buf \<and> row_held ?cols row b"
    using ensuresD [OF Read_engine [OF R1(1) _ fits one1 st] rrun] reg R1(2) by (auto simp: executed_def)
  have "row = ?vs" using stores_ran [OF sql W(2) R(1)] by simp
  then have "buf' = Some b \<and> length b = length buf \<and> row_held ?cols ?vs b" using R(2) writable_fits [OF wr] by simp
  moreover have "?vs ! k \<noteq> Cell_Null" if "k < length ?cols" "\<not> nulls k" for k
    using that wr column_cell_fits(2) by (simp add: row_cells_nth writable_def)
  ultimately show ?thesis by (auto simp: row_held_def row_cells_nth)
qed

end

end
