(* ===== verification/Engine_Iter.thy ===== *)
theory Engine_Iter
  imports Engine_Read
begin

text \<open>
  What an iterator delivers. \<^verbatim>\<open>SqlRDBReadMany\<close> prepares the statement and binds the values of
  the condition; the first \<^verbatim>\<open>SqlRDBStmtNext\<close> has the engine execute it. A client that calls
  \<^verbatim>\<open>SqlRDBStmtNext\<close> until it reports the end gets the rows of the query, each once and in
  their order.
\<close>

section \<open>The loop of a client\<close>

text \<open>One buffer and optional null map per call; the loop stops at the first result other than OK.\<close>

fun fetch_rows ::
  "SqlRDBStmt \<Rightarrow> 'w SqlRDBHandle \<Rightarrow> (char list \<times> null_map) list \<Rightarrow> 'w
     \<Rightarrow> ((SqlRDBResult \<times> char list option) list \<times> 'w SqlRDBHandle \<times> 'w) option" where
  "fetch_rows it h [] w = Some ([], h, w)"
| "fetch_rows it h ((buf, nm) # bufs) w =
     do {
       (r, h, out, nm, w) \<leftarrow> SqlRDBStmtNext (Some it) h (Some buf) nm w;
       if r \<noteq> SQL_RDB_OK then Some ([(r, out)], h, w)
       else do { (outs, h, w) \<leftarrow> fetch_rows it h bufs w; Some ((r, out) # outs, h, w) }
     }"

section \<open>Codes of the driver\<close>

text \<open>The code of the end of the rows is the library's own: no function of the driver uses it.\<close>

definition end_is_own :: "'w SqlRDBDriver \<Rightarrow> bool" where
  "end_is_own drv \<longleftrightarrow>
     (\<forall>s w. ensures (drv_step drv s w) (\<lambda>(r, b, w'). r \<noteq> SQL_RDB_ERR_NOT_FOUND)) \<and>
     (\<forall>s i w. ensures (drv_column_isnull drv s i w) (\<lambda>(r, b, w'). r \<noteq> SQL_RDB_ERR_NOT_FOUND)) \<and>
     (\<forall>s i w. ensures (drv_column_int64 drv s i w) (\<lambda>(r, v, w'). r \<noteq> SQL_RDB_ERR_NOT_FOUND)) \<and>
     (\<forall>s i w. ensures (drv_column_real drv s i w) (\<lambda>(r, v, w'). r \<noteq> SQL_RDB_ERR_NOT_FOUND)) \<and>
     (\<forall>s i w. ensures (drv_column_text drv s i w) (\<lambda>(r, p, n, w'). r \<noteq> SQL_RDB_ERR_NOT_FOUND)) \<and>
     (\<forall>s i w. ensures (drv_column_blob drv s i w) (\<lambda>(r, p, n, w'). r \<noteq> SQL_RDB_ERR_NOT_FOUND))"

lemma end_is_ownD:
  assumes "end_is_own drv"
  shows "drv_step drv s w \<noteq> Some (SQL_RDB_ERR_NOT_FOUND, x)" "drv_column_isnull drv s i w \<noteq> Some (SQL_RDB_ERR_NOT_FOUND, x)"
    "drv_column_int64 drv s i w \<noteq> Some (SQL_RDB_ERR_NOT_FOUND, y)" "drv_column_real drv s i w \<noteq> Some (SQL_RDB_ERR_NOT_FOUND, y)"
    "drv_column_text drv s i w \<noteq> Some (SQL_RDB_ERR_NOT_FOUND, z)" "drv_column_blob drv s i w \<noteq> Some (SQL_RDB_ERR_NOT_FOUND, z)"
  using assms unfolding end_is_own_def ensures_def by (fast+)

lemma read_one_code: "end_is_own drv \<Longrightarrow> read_one drv s i col row w \<noteq> Some (SQL_RDB_ERR_NOT_FOUND, x)"
  using end_is_ownD [of drv]
  by (cases x) (auto simp: read_one_def Let_def bind_Some_iff split: SqlRDBType.splits if_splits)

lemma read_cols_code: "end_is_own drv \<Longrightarrow> read_cols drv s i cols tr row nm w \<noteq> Some (SQL_RDB_ERR_NOT_FOUND, x)"
proof (induction cols arbitrary: i tr row nm w)
  case (Cons col cols)
  then show ?case using end_is_ownD(2) [of drv] read_one_code [of drv] by (cases x) (auto simp: bind_Some_iff split: if_splits)
qed simp

section \<open>The rows still to come\<close>

text \<open>
  \<open>rows\<close> are still to come from the statement and \<open>d\<close> is the data once it has run: either it has run
  and is at a row, or its first step is still to come.
\<close>

definition pending ::
  "(string \<Rightarrow> (int \<Rightarrow> cell option) \<Rightarrow> 'd \<Rightarrow> cell list list \<times> 'd) \<Rightarrow> ('w \<Rightarrow> 'd) \<Rightarrow> ('w \<Rightarrow> ptr \<Rightarrow> stmt_obs) \<Rightarrow> ptr \<Rightarrow> 'w
     \<Rightarrow> cell list list \<Rightarrow> 'd \<Rightarrow> bool" where
  "pending sem data obs s w rows d \<longleftrightarrow>
     later_rows (obs w s) = Some rows \<and> data w = d \<or>
     so_rows (obs w s) = None \<and> sem (so_sql (obs w s)) (so_args (obs w s)) (data w) = (rows, d)"

lemma pending_step:
  assumes "pending sem data obs s w rows d" and "steps sem data obs s w (SQL_RDB_OK, b, w')"
  shows "b = (rows \<noteq> [])" and "so_rows (obs w' s) = Some rows" and "data w' = d"
  using assms by (auto simp: pending_def steps_def later_rows_def split: option.splits list.splits)

context sql_engine begin

lemma read_row_rows:
  assumes s: "s \<in> live w" and R: "so_rows (obs w s) = Some (row # rows)" and st: "struct_ok (sch_cols schema) buf"
  shows "ensures (c2sql_internal_tm_read_row drv s schema (Some buf) nm w) (\<lambda>(r, buf', nm', w').
    s \<in> live w' \<and> data w' = data w \<and> later_rows (obs w' s) = Some rows \<and>
    (r = SQL_RDB_OK \<longrightarrow> row_fits (sch_cols schema) row \<longrightarrow>
       (\<exists>b. buf' = Some b \<and> length b = length buf \<and> row_held (sch_cols schema) row b)))"
proof -
  let ?run = "read_cols drv s 0 (sch_cols schema) False buf nm w"
  have typed: "ensures ?run (\<lambda>(r, b, nm', w'). r = SQL_RDB_OK \<longrightarrow> row_fits (sch_cols schema) row \<longrightarrow>
      length b = length buf \<and> row_held (sch_cols schema) row b)"
  proof (cases "row_fits (sch_cols schema) row")
    case True
    then show ?thesis
      by (intro ensures_mono [OF read_cols_typed [OF s R]]) (use st in \<open>auto simp: row_fits_def row_held_def struct_ok_def\<close>)
  qed (simp add: ensuresI split_beta)
  have "peeks live data obs s False w w' \<Longrightarrow> s \<in> live w' \<and> data w' = data w \<and> later_rows (obs w' s) = Some rows" for w'
    using s R by (auto simp: peeks_def reads_def later_rows_def only_stmt_def)
  with ensures_both [OF typed read_cols_peeks [OF s, of 0 "sch_cols schema" False buf nm]]
  show ?thesis unfolding c2sql_internal_tm_read_row_def by (auto elim!: ensures_mono)
qed

text \<open>One call: a row and the rest, the end, or a failure.\<close>

lemma next_engine:
  assumes drv: "driver h = Some drv" and sch: "schema_at (registry h) (it_schema it) = Some schema" and own: "end_is_own drv"
    and s: "raw_stmt it \<in> live w" and p: "pending sem data obs (raw_stmt it) w rows d" and st: "struct_ok (sch_cols schema) buf"
    and run: "SqlRDBStmtNext (Some it) h (Some buf) nm w = Some (r, h', out, nm', w')"
  shows "r = SQL_RDB_OK \<Longrightarrow> raw_stmt it \<in> live w' \<and> (\<exists>row rest. rows = row # rest \<and> pending sem data obs (raw_stmt it) w' rest d \<and>
      (row_fits (sch_cols schema) row \<longrightarrow> (\<exists>b. out = Some b \<and> length b = length buf \<and> row_held (sch_cols schema) row b)))"
    and "r = SQL_RDB_ERR_NOT_FOUND \<Longrightarrow> rows = [] \<and> data w' = d"
proof -
  let ?s = "raw_stmt it"
  obtain r0 b w0 where q: "drv_step drv ?s w = Some (r0, b, w0)" and rest:
    "if r0 \<noteq> SQL_RDB_OK then r = r0 else if \<not> b then r = SQL_RDB_ERR_NOT_FOUND \<and> w' = w0
     else c2sql_internal_tm_read_row drv ?s schema (Some buf) nm w0 = Some (r, out, nm', w')"
    using run drv sch by (auto simp: SqlRDBStmtNext_def locked_def lock_handle_def bind_Some_iff split: if_splits)
  have S: "steps sem data obs ?s w (r0, b, w0)" "?s \<in> live w0" using ensuresD [OF step_obs [OF s] q] ensuresD [OF step q] s by auto
  have "r0 \<noteq> SQL_RDB_ERR_NOT_FOUND" using end_is_ownD(1) [OF own] q by blast
  note P = pending_step [OF p, of b w0]
  have code: "r \<noteq> SQL_RDB_ERR_NOT_FOUND" if "c2sql_internal_tm_read_row drv ?s schema (Some buf) nm w0 = Some (r, out, nm', w')"
    using that read_cols_code [OF own] by (auto simp: c2sql_internal_tm_read_row_def bind_Some_iff)
  show "rows = [] \<and> data w' = d" if "r = SQL_RDB_ERR_NOT_FOUND"
    using rest that \<open>r0 \<noteq> SQL_RDB_ERR_NOT_FOUND\<close> S P code by (auto split: if_splits)
  assume ok: "r = SQL_RDB_OK"
  then have B: "r0 = SQL_RDB_OK" "b" "c2sql_internal_tm_read_row drv ?s schema (Some buf) nm w0 = Some (r, out, nm', w')"
    using rest by (auto split: if_splits)
  then obtain row rest' where R: "rows = row # rest'" "so_rows (obs w0 ?s) = Some (row # rest')" "data w0 = d"
    using P S by (cases rows) auto
  from ensuresD [OF read_row_rows [OF S(2) R(2) st] B(3)] ok R
  show "raw_stmt it \<in> live w' \<and> (\<exists>row rest. rows = row # rest \<and> pending sem data obs (raw_stmt it) w' rest d \<and>
      (row_fits (sch_cols schema) row \<longrightarrow> (\<exists>b. out = Some b \<and> length b = length buf \<and> row_held (sch_cols schema) row b)))"
    by (simp add: pending_def)
qed

text \<open>The loop up to the end delivers the pending rows.\<close>

lemma fetch_engine:
  assumes "driver h = Some drv" and "schema_at (registry h) (it_schema it) = Some schema" and own: "end_is_own drv"
    and "mutex_idle (mutex h)" and "raw_stmt it \<in> live w" and "pending sem data obs (raw_stmt it) w rows d"
    and "\<forall>(buf, nm) \<in> set bufs. struct_ok (sch_cols schema) buf"
    and "fetch_rows it h bufs w = Some (outs @ [(SQL_RDB_ERR_NOT_FOUND, out)], h', w')"
  shows "length outs = length rows \<and> data w' = d \<and> (\<forall>k < length rows. fst (outs ! k) = SQL_RDB_OK \<and>
    (row_fits (sch_cols schema) (rows ! k) \<longrightarrow> (\<exists>b. snd (outs ! k) = Some b \<and> row_held (sch_cols schema) (rows ! k) b)))"
  using assms(1,2,4-)
proof (induction bufs arbitrary: h w rows outs)
  case (Cons x bufs)
  obtain buf nm where x: "x = (buf, nm)" by fastforce
  obtain r h1 o1 nm1 w1 where n: "SqlRDBStmtNext (Some it) h (Some buf) nm w = Some (r, h1, o1, nm1, w1)"
    using Cons.prems(7) x by (auto simp: bind_Some_iff)
  have st: "struct_ok (sch_cols schema) buf" using Cons.prems(6) x by simp
  note N = next_engine [OF Cons.prems(1,2) own Cons.prems(4,5) st n]
  show ?case
  proof (cases "r = SQL_RDB_OK")
    case False
    then have "outs = []" "r = SQL_RDB_ERR_NOT_FOUND" "w' = w1" using Cons.prems(7) x n by auto
    then show ?thesis using N(2) by simp
  next
    case True
    then obtain os where os: "fetch_rows it h1 bufs w1 = Some (os, h', w')" "(r, o1) # os = outs @ [(SQL_RDB_ERR_NOT_FOUND, out)]"
      using Cons.prems(7) x n by (auto simp: bind_Some_iff)
    obtain outs' where o: "outs = (r, o1) # outs'" "os = outs' @ [(SQL_RDB_ERR_NOT_FOUND, out)]" using os(2) True by (cases outs) auto
    obtain row rest where R: "rows = row # rest" "pending sem data obs (raw_stmt it) w1 rest d" "raw_stmt it \<in> live w1"
      "row_fits (sch_cols schema) row \<longrightarrow> (\<exists>b. o1 = Some b \<and> length b = length buf \<and> row_held (sch_cols schema) row b)"
      using N(1) [OF True] by blast
    have H: "keeps_handle h h1" using ensuresD [OF StmtNext_frame [OF Cons.prems(3)] n] by simp
    have "length outs' = length rest \<and> data w' = d \<and> (\<forall>k < length rest. fst (outs' ! k) = SQL_RDB_OK \<and>
      (row_fits (sch_cols schema) (rest ! k) \<longrightarrow> (\<exists>b. snd (outs' ! k) = Some b \<and> row_held (sch_cols schema) (rest ! k) b)))"
      by (rule Cons.IH) (use Cons.prems H R(2,3) os(1) o(2) in \<open>auto simp: keeps_handle_def\<close>)
    then show ?thesis using R(1,4) True o(1) by (auto simp: less_Suc_eq_0_disj)
  qed
qed simp

section \<open>Opening the iterator\<close>

lemma ReadMany_engine:
  assumes rdy: "engine_ready drv ctx live obs h w F" and reg: "registered h name = Some schema" and fits: "cond_fits cond"
    and run: "SqlRDBReadMany h (Some name) cond True w m = Some (SQL_RDB_OK, h', Some it, w', m')"
  shows "schema_at (registry h) (it_schema it) = Some schema" and "raw_stmt it \<in> live w'" and "data w' = data w"
    and "so_rows (obs w' (raw_stmt it)) = None" and "so_sql (obs w' (raw_stmt it)) = select_sql drv schema cond"
    and "carries obs (raw_stmt it) 1 (cond_cells cond) w'"
proof -
  let ?spec = "query C2SQL_QB_SELECT schema cond None (drv_dialect drv)" and ?s = "raw_stmt it"
  have V: "c2sql_handle_valid (Some h)" "driver h = Some drv" "driver_ctx h = Some ctx" "registry_ok (registry h)"
    using rdy by (simp_all add: engine_ready_def)
  have ok: "spec_ok (qs_op ?spec) ?spec" "spec_idents ?spec" and op: "qs_op ?spec = C2SQL_QB_SELECT"
    using query_idents [OF registered_schema_ok [OF V(4) reg]] by (simp_all add: query_def)
  have al: "(case alloc b of (ok, m) \<Rightarrow> f ok m) = f (fst (alloc b)) (snd (alloc b))" for b and f :: "bool \<Rightarrow> mem \<Rightarrow> 'e"
    by (simp add: split_beta)
  obtain g x r1 w1 m1 where sp: "c2sql_internal_schema_lookup g (Some name) = Some (it_schema it)" "g = h\<lparr>mutex := x\<rparr>"
    and b: "build_and_prepare g ?spec w m = Some (r1, Some ?s, w1, m1)" and c: "bind_cond_from drv ?s cond 1 w1 = Some (SQL_RDB_OK, w')"
    using run V reg
    by (auto simp: al SqlRDBReadMany_def locked_def lock_handle_def with_schema_def registered_def bind_Some_iff
      c2sql_internal_schema_lookup_def c2sql_handle_valid_def split: option.split_asm if_split_asm)
  show "schema_at (registry h) (it_schema it) = Some schema"
    using reg sp V(1) by (auto simp: registered_def c2sql_internal_schema_lookup_def c2sql_handle_valid_def split: option.splits)
  obtain sql k where u: "c2sql_internal_qb_build ?spec m = Some (SQL_RDB_OK, Some sql, k, m1)"
    and p: "drv_prepare drv ctx sql w = Some (SQL_RDB_OK, Some ?s, w1)"
    using b V sp(2) by (auto simp: build_and_prepare_def bind_Some_iff split: if_splits)
  have q: "sql = sql_text C2SQL_QB_SELECT ?spec" using qb_build_OK_D(2) [OF ok u] op by simp
  have P: "?s \<in> live w1" "data w1 = data w" "has_text obs w1 {} sql ?s"
    using ensuresD [OF prepare_obs p] ensuresD [OF prepare p] by (auto simp: has_text_def)
  have L: "loads live data obs ?s 1 (cond_cells cond) w1 SQL_RDB_OK w'" using ensuresD [OF bind_cond_loads [OF P(1) fits] c] by simp
  show "?s \<in> live w'" "data w' = data w" "so_rows (obs w' ?s) = None" "so_sql (obs w' ?s) = select_sql drv schema cond"
    "carries obs ?s 1 (cond_cells cond) w'"
    using loads_live(1,2,4) [OF L] loads_live(3) [OF L P(3)] P(1,2) q by (simp_all add: select_sql_def)
qed

lemma iteration_rows:
  assumes rdy: "engine_ready drv ctx live obs h w F" and reg: "registered h name = Some schema" and fits: "cond_fits cond"
    and own: "end_is_own drv" and bufs: "\<forall>(buf, nm) \<in> set bufs. struct_ok (sch_cols schema) buf"
    and open_it: "SqlRDBReadMany h (Some name) cond True w m = Some (SQL_RDB_OK, h1, Some it, w1, m1)"
    and run: "fetch_rows it h1 bufs w1 = Some (outs @ [(SQL_RDB_ERR_NOT_FOUND, out)], h2, w2)"
  shows "\<exists>rows. ran_with sem (select_sql drv schema cond) (cond_cells cond) (data w) rows (data w2) \<and> length outs = length rows \<and>
    (\<forall>k < length rows. fst (outs ! k) = SQL_RDB_OK \<and>
      (row_fits (sch_cols schema) (rows ! k) \<longrightarrow> (\<exists>b. snd (outs ! k) = Some b \<and> row_held (sch_cols schema) (rows ! k) b)))"
proof -
  note M = ReadMany_engine [OF rdy reg fits open_it]
  have K: "keeps_handle h h1" using ensuresD [OF ReadMany_frame open_it] rdy by (simp add: engine_ready_def)
  then have H: "driver h1 = Some drv" "schema_at (registry h1) (it_schema it) = Some schema" "mutex_idle (mutex h1)"
    using rdy M(1) by (simp_all add: engine_ready_def keeps_handle_def)
  obtain rows d where S: "sem (so_sql (obs w1 (raw_stmt it))) (so_args (obs w1 (raw_stmt it))) (data w1) = (rows, d)" by fastforce
  then have "pending sem data obs (raw_stmt it) w1 rows d" using M(4) by (simp add: pending_def)
  from fetch_engine [OF H(1,2) own H(3) M(2) this bufs run] have F: "length outs = length rows" "data w2 = d"
    "\<forall>k < length rows. fst (outs ! k) = SQL_RDB_OK \<and>
      (row_fits (sch_cols schema) (rows ! k) \<longrightarrow> (\<exists>b. snd (outs ! k) = Some b \<and> row_held (sch_cols schema) (rows ! k) b))" by auto
  have "ran_with sem (select_sql drv schema cond) (cond_cells cond) (data w) rows (data w2)"
    using S M(3,5,6) F(2) by (auto simp: ran_with_def carries_def)
  then show ?thesis using F by blast
qed

end

end
