(* ===== verification/Sqlite_Engine.thy ===== *)
theory Sqlite_Engine
  imports Engine_Iter Sqlite_Driver
begin

text \<open>
  The SQLite driver meets the contract \<open>sql_engine\<close> when SQLite executes statements as documented:
  a prepared statement has its text, binding sets one parameter, the first step after a prepare or
  reset executes the text with the bound values and either fails without effect or returns
  \<^verbatim>\<open>SQLITE_ROW\<close> or \<^verbatim>\<open>SQLITE_DONE\<close>, and a column of the current row can be read.
\<close>

definition api_binds ::
  "('s \<Rightarrow> 'd) \<Rightarrow> ('s \<Rightarrow> ptr \<Rightarrow> stmt_obs) \<Rightarrow> ptr \<Rightarrow> int \<Rightarrow> cell \<Rightarrow> 's \<Rightarrow> (sqlite_rc \<times> 's) option \<Rightarrow> bool" where
  "api_binds data obs s i c w x \<longleftrightarrow> ensures x (\<lambda>(rc, w'). rc \<noteq> SQLITE_ROW \<and> rc \<noteq> SQLITE_DONE \<and> only_stmt data obs s w w' \<and>
     so_sql (obs w' s) = so_sql (obs w s) \<and> so_rows (obs w' s) = so_rows (obs w s) \<and>
     (rc = SQLITE_OK \<longrightarrow> so_args (obs w' s) = (so_args (obs w s))(i \<mapsto> c)))"

definition sqlite_binds :: "'s sqlite3_api \<Rightarrow> ('s \<Rightarrow> ptr set) \<Rightarrow> ('s \<Rightarrow> ptr \<Rightarrow> stmt_obs) \<Rightarrow> ('s \<Rightarrow> 'd) \<Rightarrow> bool" where
  "sqlite_binds api live obs data \<longleftrightarrow> (\<forall>w s i. s \<in> live w \<longrightarrow>
     (\<forall>v. api_binds data obs s i (Cell_Int v) w (sqlite3_bind_int64 api s i v w)) \<and>
     (\<forall>v. api_binds data obs s i (Cell_Int (scast v)) w (sqlite3_bind_int api s i v w)) \<and>
     (\<forall>v. api_binds data obs s i (Cell_Real v) w (sqlite3_bind_double api s i v w)) \<and>
     (\<forall>mem n. (if n < 0 then NUL \<in> set mem else nat n \<le> length mem) \<longrightarrow>
        api_binds data obs s i (text_cell mem n) w (sqlite3_bind_text api s i (Some mem) n w)) \<and>
     (\<forall>mem n. n \<le> length mem \<longrightarrow> api_binds data obs s i (Cell_Blob (take n mem)) w (sqlite3_bind_blob api s i (Some mem) (int n) w)) \<and>
     api_binds data obs s i Cell_Null w (sqlite3_bind_null api s i w))"

definition sqlite_executes ::
  "'s sqlite3_api \<Rightarrow> ptr \<Rightarrow> ('s \<Rightarrow> ptr set) \<Rightarrow> ('s \<Rightarrow> ptr \<Rightarrow> stmt_obs) \<Rightarrow> ('s \<Rightarrow> 'd)
     \<Rightarrow> (string \<Rightarrow> (int \<Rightarrow> cell option) \<Rightarrow> 'd \<Rightarrow> cell list list \<times> 'd) \<Rightarrow> bool" where
  "sqlite_executes api db live obs data sem \<longleftrightarrow>
     (\<forall>w sql. ensures (sqlite3_prepare_v2 api db sql w) (\<lambda>(rc, st, w'). data w' = data w \<and> (\<forall>q \<in> live w. obs w' q = obs w q) \<and>
        (\<forall>s. rc = SQLITE_OK \<longrightarrow> st = Some s \<longrightarrow> so_sql (obs w' s) = sql \<and> so_rows (obs w' s) = None))) \<and>
     (\<forall>w s. s \<in> live w \<longrightarrow> ensures (sqlite3_finalize api s w) (\<lambda>(rc, w'). only_stmt data obs s w w')) \<and>
     (\<forall>w s. s \<in> live w \<longrightarrow> ensures (sqlite3_reset api s w) (\<lambda>(rc, w'). only_stmt data obs s w w' \<and>
        so_sql (obs w' s) = so_sql (obs w s) \<and> so_rows (obs w' s) = None)) \<and>
     (\<forall>w s. s \<in> live w \<longrightarrow> ensures (sqlite3_step api s w) (\<lambda>(rc, w').
        (\<forall>q. q \<noteq> s \<longrightarrow> obs w' q = obs w q) \<and> so_sql (obs w' s) = so_sql (obs w s) \<and>
        (case so_rows (obs w s) of
           None \<Rightarrow>
             (case sem (so_sql (obs w s)) (so_args (obs w s)) (data w) of (rows, d) \<Rightarrow>
                if rc = SQLITE_ROW then data w' = d \<and> rows \<noteq> [] \<and> so_rows (obs w' s) = Some rows
                else if rc = SQLITE_DONE then data w' = d \<and> rows = [] \<and> so_rows (obs w' s) = Some [] else data w' = data w)
         | Some [] \<Rightarrow> True
         | Some (row # rows) \<Rightarrow> data w' = data w \<and>
             (rc = SQLITE_ROW \<longrightarrow> rows \<noteq> [] \<and> so_rows (obs w' s) = Some rows) \<and>
             (rc = SQLITE_DONE \<longrightarrow> rows = [] \<and> so_rows (obs w' s) = Some []))))"

text \<open>The columns of the current row; texts and blobs have fewer than \<open>2 ^ 31\<close> bytes.\<close>

definition sqlite_reads :: "'s sqlite3_api \<Rightarrow> ('s \<Rightarrow> ptr set) \<Rightarrow> ('s \<Rightarrow> ptr \<Rightarrow> stmt_obs) \<Rightarrow> ('s \<Rightarrow> 'd) \<Rightarrow> bool" where
  "sqlite_reads api live obs data \<longleftrightarrow> (\<forall>w s i. s \<in> live w \<longrightarrow>
     ensures (sqlite3_column_isnull api s i w) (\<lambda>b. current obs w s i \<noteq> None \<longrightarrow> b = (current obs w s i = Some Cell_Null)) \<and>
     ensures (sqlite3_column_int64 api s i w) (\<lambda>(v, w'). reads data obs s (\<exists>u. current obs w s i = Some (Cell_Int u)) w w' \<and>
       (\<forall>u. current obs w s i = Some (Cell_Int u) \<longrightarrow> v = u)) \<and>
     ensures (sqlite3_column_double api s i w) (\<lambda>(v, w'). reads data obs s (\<exists>u. current obs w s i = Some (Cell_Real u)) w w' \<and>
       (\<forall>u. current obs w s i = Some (Cell_Real u) \<longrightarrow> v = u)) \<and>
     ensures (sqlite3_column_text api s i w) (\<lambda>(p, w'). reads data obs s (\<exists>t. current obs w s i = Some (Cell_Text t)) w w' \<and>
       (\<forall>t. current obs w s i = Some (Cell_Text t) \<longrightarrow> p = Some (t @ [NUL]))) \<and>
     ensures (sqlite3_column_blob api s i w) (\<lambda>(p, w'). reads data obs s (\<exists>t. current obs w s i = Some (Cell_Blob t)) w w' \<and>
       (\<forall>t. current obs w s i = Some (Cell_Blob t) \<longrightarrow> p = (if t = [] then None else Some t))) \<and>
     ensures (sqlite3_column_bytes api s i w) (\<lambda>(n, w').
       reads data obs s (\<exists>t. current obs w s i = Some (Cell_Text t) \<or> current obs w s i = Some (Cell_Blob t)) w w' \<and>
       (\<forall>t. current obs w s i = Some (Cell_Text t) \<or> current obs w s i = Some (Cell_Blob t) \<longrightarrow> n = int (length t) \<and> n < 2 ^ 31)))"

lemma api_binds_mapped: "api_binds data obs s i c w x \<Longrightarrow> ensures (mapped x) (binds data obs s i c w)"
proof (rule ensuresI)
  fix a assume b: "api_binds data obs s i c w x" and "mapped x = Some a"
  then obtain rc w' where x: "x = Some (rc, w')" "a = (map_error rc, w')" by (auto simp: mapped_def)
  have "rc = SQLITE_OK" if "map_error rc = SQL_RDB_OK" using that b x(1) by (cases rc) (auto simp: api_binds_def)
  then show "binds data obs s i c w a" using b x by (auto simp: api_binds_def binds_def)
qed

lemma ensures_mapped: "ensures x (\<lambda>(rc, w'). P w') \<Longrightarrow> ensures (mapped x) (\<lambda>(r, w'). P w')"
  by (auto simp: mapped_def elim!: ensures_mono)

text \<open>A text or blob: its bytes, then its length.\<close>

lemma column_bytes_engine:
  assumes r: "sqlite_reads api live obs data" and s: "s \<in> live w" and k: "sqlite_keeps api live"
    and mk: "mk = Cell_Text \<or> mk = Cell_Blob" and q: "quiet live w x"
    and x: "ensures x (\<lambda>(p, w'). reads data obs s (\<exists>t. current obs w s i = Some (mk t)) w w' \<and>
      (\<forall>t. current obs w s i = Some (mk t) \<longrightarrow> p = f t))"
  shows "ensures (do { (p, w) \<leftarrow> x; (n, w) \<leftarrow> sqlite3_column_bytes api s i w; Some (SQL_RDB_OK, p, nat (n mod 2 ^ 64), w) })
    (\<lambda>(r, p, n, w'). reads data obs s (\<exists>t. current obs w s i = Some (mk t)) w w' \<and>
      (\<forall>t. r = SQL_RDB_OK \<longrightarrow> current obs w s i = Some (mk t) \<longrightarrow> p = f t \<and> n = length t))"
proof (rule ensuresI, clarify)
  fix rr p n w2 assume "do { (p, w) \<leftarrow> x; (n, w) \<leftarrow> sqlite3_column_bytes api s i w; Some (SQL_RDB_OK, p, nat (n mod 2 ^ 64), w) } = Some (rr, p, n, w2)"
  then obtain w1 m where c: "x = Some (p, w1)" "sqlite3_column_bytes api s i w1 = Some (m, w2)" "n = nat (m mod 2 ^ 64)"
    by (auto simp: bind_Some_iff)
  have X: "reads data obs s (\<exists>t. current obs w s i = Some (mk t)) w w1" "\<forall>t. current obs w s i = Some (mk t) \<longrightarrow> p = f t"
    using ensuresD [OF x c(1)] by auto
  have "s \<in> live w1" using q c(1) s by (simp add: quiet_def)
  then have "ensures (sqlite3_column_bytes api s i w1) (\<lambda>(n, w').
      reads data obs s (\<exists>t. current obs w1 s i = Some (Cell_Text t) \<or> current obs w1 s i = Some (Cell_Blob t)) w1 w' \<and>
      (\<forall>t. current obs w1 s i = Some (Cell_Text t) \<or> current obs w1 s i = Some (Cell_Blob t) \<longrightarrow> n = int (length t) \<and> n < 2 ^ 31))"
    using r by (auto simp: sqlite_reads_def)
  from ensuresD [OF this c(2)] have B:
    "reads data obs s (\<exists>t. current obs w1 s i = Some (Cell_Text t) \<or> current obs w1 s i = Some (Cell_Blob t)) w1 w2"
    "\<And>t. current obs w1 s i = Some (mk t) \<Longrightarrow> m = int (length t) \<and> m < 2 ^ 31" using mk by auto
  have C: "current obs w1 s i = Some (mk t)" if "current obs w s i = Some (mk t)" for t
  proof -
    have "obs w1 s = obs w s" using X(1) that by (auto simp: reads_def)
    then show ?thesis using that by (simp add: current_def)
  qed
  have "n = length t" if "current obs w s i = Some (mk t)" for t
  proof -
    have "m = int (length t)" "m < 2 ^ 31" using B(2) [OF C [OF that]] by auto
    then have "m mod 2 ^ 64 = m" by (intro mod_pos_pos_trivial) auto
    then show ?thesis using c(3) \<open>m = int (length t)\<close> by simp
  qed
  moreover have "reads data obs s (\<exists>t. current obs w s i = Some (mk t)) w w2"
    using X(1) B(1) C mk by (auto simp: reads_def only_stmt_def)
  ultimately show "reads data obs s (\<exists>t. current obs w s i = Some (mk t)) w w2 \<and>
      (\<forall>t. rr = SQL_RDB_OK \<longrightarrow> current obs w s i = Some (mk t) \<longrightarrow> p = f t \<and> n = length t)" using X(2) by auto
qed

lemma sqlite_sql_engine:
  assumes "sqlite_opens api live" and k: "sqlite_keeps api live"
    and b: "sqlite_binds api live obs data" and x: "sqlite_executes api db live obs data sem" and rd: "sqlite_reads api live obs data"
  shows "sql_engine (g_sqlite3_driver api) live db obs data sem"
proof (rule sql_engine.intro)
  show "stmt_driver (g_sqlite3_driver api) live" by (rule sqlite_stmt_driver [OF assms(1,2)])
  note X = x [unfolded sqlite_executes_def]
  have R: "ensures (sqlite3_column_isnull api s i w) (\<lambda>b. current obs w s i \<noteq> None \<longrightarrow> b = (current obs w s i = Some Cell_Null))"
    "ensures (sqlite3_column_int64 api s i w) (\<lambda>(v, w'). reads data obs s (\<exists>u. current obs w s i = Some (Cell_Int u)) w w' \<and>
       (\<forall>u. current obs w s i = Some (Cell_Int u) \<longrightarrow> v = u))"
    "ensures (sqlite3_column_double api s i w) (\<lambda>(v, w'). reads data obs s (\<exists>u. current obs w s i = Some (Cell_Real u)) w w' \<and>
       (\<forall>u. current obs w s i = Some (Cell_Real u) \<longrightarrow> v = u))"
    "ensures (sqlite3_column_text api s i w) (\<lambda>(p, w'). reads data obs s (\<exists>t. current obs w s i = Some (Cell_Text t)) w w' \<and>
       (\<forall>t. current obs w s i = Some (Cell_Text t) \<longrightarrow> p = Some (t @ [NUL])))"
    "ensures (sqlite3_column_blob api s i w) (\<lambda>(p, w'). reads data obs s (\<exists>t. current obs w s i = Some (Cell_Blob t)) w w' \<and>
       (\<forall>t. current obs w s i = Some (Cell_Blob t) \<longrightarrow> p = (if t = [] then None else Some t)))"
    if "s \<in> live w" for s w i using rd that unfolding sqlite_reads_def by blast+
  have Q: "quiet live w (sqlite3_column_text api s i w)" "quiet live w (sqlite3_column_blob api s i w)" for s w i
    using k by (simp_all add: sqlite_keeps_def)
  show "sql_engine_axioms (g_sqlite3_driver api) live db obs data sem"
  proof
    fix sql w
    show "ensures (drv_prepare (g_sqlite3_driver api) db sql w) (\<lambda>(r, st, w'). data w' = data w \<and> (\<forall>q \<in> live w. obs w' q = obs w q) \<and>
      (\<forall>s. r = SQL_RDB_OK \<longrightarrow> st = Some s \<longrightarrow> so_sql (obs w' s) = sql \<and> so_rows (obs w' s) = None))"
      using X [THEN conjunct1, THEN spec, of w, THEN spec, of sql]
      by (auto simp: g_sqlite3_driver_def sqlite_prepare_def elim!: ensures_mono)
  next
    fix s w assume s: "s \<in> live w"
    have "ensures (sqlite3_step api s w) (\<lambda>(rc, w').
        (\<forall>q. q \<noteq> s \<longrightarrow> obs w' q = obs w q) \<and> so_sql (obs w' s) = so_sql (obs w s) \<and>
        (case so_rows (obs w s) of
           None \<Rightarrow>
             (case sem (so_sql (obs w s)) (so_args (obs w s)) (data w) of (rows, d) \<Rightarrow>
                if rc = SQLITE_ROW then data w' = d \<and> rows \<noteq> [] \<and> so_rows (obs w' s) = Some rows
                else if rc = SQLITE_DONE then data w' = d \<and> rows = [] \<and> so_rows (obs w' s) = Some [] else data w' = data w)
         | Some [] \<Rightarrow> True
         | Some (row # rows) \<Rightarrow> data w' = data w \<and>
             (rc = SQLITE_ROW \<longrightarrow> rows \<noteq> [] \<and> so_rows (obs w' s) = Some rows) \<and>
             (rc = SQLITE_DONE \<longrightarrow> rows = [] \<and> so_rows (obs w' s) = Some [])))" using X s by blast
    moreover obtain rows d where "sem (so_sql (obs w s)) (so_args (obs w s)) (data w) = (rows, d)" by fastforce
    ultimately show "ensures (drv_step (g_sqlite3_driver api) s w) (steps sem data obs s w)"
      unfolding g_sqlite3_driver_def sqlite_step_def steps_def
      by (cases "so_rows (obs w s)"; cases "the (so_rows (obs w s))") (fastforce elim!: ensures_mono)+
  next
    fix s w i assume s: "s \<in> live w"
    note R = R [OF s, of i]
    show "ensures (drv_column_isnull (g_sqlite3_driver api) s i w) (\<lambda>(r, b, w'). reads data obs s True w w' \<and>
      (r = SQL_RDB_OK \<longrightarrow> current obs w s i \<noteq> None \<longrightarrow> b = (current obs w s i = Some Cell_Null)))"
      using R(1) by (auto simp: g_sqlite3_driver_def sqlite_column_isnull_def reads_def only_stmt_def elim!: ensures_mono)
    show "ensures (drv_column_int64 (g_sqlite3_driver api) s i w) (\<lambda>(r, v, w').
      reads data obs s (\<exists>u. current obs w s i = Some (Cell_Int u)) w w' \<and>
      (\<forall>u. r = SQL_RDB_OK \<longrightarrow> current obs w s i = Some (Cell_Int u) \<longrightarrow> v = u))"
      using R(2) by (auto simp: g_sqlite3_driver_def sqlite_column_int64_def elim!: ensures_mono)
    show "ensures (drv_column_real (g_sqlite3_driver api) s i w) (\<lambda>(r, v, w').
      reads data obs s (\<exists>u. current obs w s i = Some (Cell_Real u)) w w' \<and>
      (\<forall>u. r = SQL_RDB_OK \<longrightarrow> current obs w s i = Some (Cell_Real u) \<longrightarrow> v = u))"
      using R(3) by (auto simp: g_sqlite3_driver_def sqlite_column_real_def elim!: ensures_mono)
    show "ensures (drv_column_text (g_sqlite3_driver api) s i w) (\<lambda>(r, p, n, w').
      reads data obs s (\<exists>t. current obs w s i = Some (Cell_Text t)) w w' \<and>
      (\<forall>t. r = SQL_RDB_OK \<longrightarrow> current obs w s i = Some (Cell_Text t) \<longrightarrow> p = Some (t @ [NUL]) \<and> n = length t))"
      using column_bytes_engine [OF rd s k disjI1 [OF refl] Q(1) R(4)] by (simp add: g_sqlite3_driver_def sqlite_column_text_def)
    show "ensures (drv_column_blob (g_sqlite3_driver api) s i w) (\<lambda>(r, p, n, w').
      reads data obs s (\<exists>t. current obs w s i = Some (Cell_Blob t)) w w' \<and>
      (\<forall>t. r = SQL_RDB_OK \<longrightarrow> current obs w s i = Some (Cell_Blob t) \<longrightarrow> p = (if t = [] then None else Some t) \<and> n = length t))"
      using column_bytes_engine [OF rd s k disjI2 [OF refl] Q(2) R(5)] by (simp add: g_sqlite3_driver_def sqlite_column_blob_def)
  next
    fix s w i k and mem :: "char list" assume s: "s \<in> live w" "(k :: nat) < 2 ^ 31" "k \<le> length mem"
    then show "ensures (drv_bind_blob (g_sqlite3_driver api) s i (Some mem) k w) (binds data obs s i (Cell_Blob (take k mem)) w)"
      using b by (auto simp: sqlite_binds_def sqlite_thin_ops blob_length intro!: api_binds_mapped)
  qed (use b X in \<open>auto simp: sqlite_binds_def sqlite_thin_ops intro!: api_binds_mapped ensures_mapped
    ensuresI [where x = "sqlite3_changes api db w" for w]\<close>)
qed

text \<open>The SQLite driver never reports the code of the end of the rows itself.\<close>

lemma sqlite_end_is_own: "end_is_own (g_sqlite3_driver api)"
  unfolding end_is_own_def
  by (auto simp: sqlite_thin_ops sqlite_step_def sqlite_column_int64_def sqlite_column_real_def sqlite_column_text_def
    sqlite_column_blob_def bind_Some_iff intro!: ensuresI split: if_splits)

end
