(* ===== verification/Nested_Transactions.thy ===== *)
theory Nested_Transactions
  imports Stmt_Lifecycle Transactions
begin

text \<open>
  What nested transactions do to the data. The database is a parameter: its current data and its stack
  of savepoints are two functions of the driver's world, and \<open>txn_database\<close> states the documented effect
  of the six SQL commands on them. The calls of the library then refine an abstract machine in which
  a begin saves the data, a commit forgets the last saved copy and a rollback restores it.
\<close>

section \<open>The database\<close>

definition command_effect ::
  "('w \<Rightarrow> 'd) \<Rightarrow> ('w \<Rightarrow> (string \<times> 'd) list) \<Rightarrow> 'w \<Rightarrow> (SqlRDBResult \<times> 'w) option \<Rightarrow> ('d \<times> (string \<times> 'd) list) \<Rightarrow> bool" where
  "command_effect data saved w x v \<longleftrightarrow>
     ensures x (\<lambda>(r, w'). (data w', saved w') = (if r = SQL_RDB_OK then v else (data w, saved w)))"

text \<open>
  The savepoints are listed from the newest to the oldest, the transaction itself being the last entry.
  A name, one of those the library gives its savepoints, refers to the newest savepoint that has it. A
  failing command changes nothing.
\<close>

definition txn_database :: "'w SqlRDBDriver \<Rightarrow> ptr \<Rightarrow> ('w \<Rightarrow> 'd) \<Rightarrow> ('w \<Rightarrow> (string \<times> 'd) list) \<Rightarrow> bool" where
  "txn_database drv ctx data saved \<longleftrightarrow>
     (\<forall>w. saved w = [] \<longrightarrow> command_effect data saved w (drv_exec drv ctx ''BEGIN'' w) (data w, [('''', data w)])) \<and>
     (\<forall>w. saved w \<noteq> [] \<longrightarrow> command_effect data saved w (drv_exec drv ctx ''COMMIT'' w) (data w, [])) \<and>
     (\<forall>w. saved w \<noteq> [] \<longrightarrow> command_effect data saved w (drv_exec drv ctx ''ROLLBACK'' w) (snd (last (saved w)), [])) \<and>
     (\<forall>w k. saved w \<noteq> [] \<longrightarrow>
        command_effect data saved w (drv_exec drv ctx (''SAVEPOINT '' @ sp_name k) w) (data w, (sp_name k, data w) # saved w)) \<and>
     (\<forall>w k newer d older. saved w = newer @ (sp_name k, d) # older \<longrightarrow> sp_name k \<notin> fst ` set newer \<longrightarrow>
        command_effect data saved w (drv_exec drv ctx (''RELEASE SAVEPOINT '' @ sp_name k) w) (data w, older)) \<and>
     (\<forall>w k newer d older. saved w = newer @ (sp_name k, d) # older \<longrightarrow> sp_name k \<notin> fst ` set newer \<longrightarrow>
        command_effect data saved w (drv_exec drv ctx (''ROLLBACK TO SAVEPOINT '' @ sp_name k) w) (d, (sp_name k, d) # older))"

lemma txn_databaseD:
  assumes "txn_database drv ctx data saved"
  shows "saved w = [] \<Longrightarrow> command_effect data saved w (drv_exec drv ctx ''BEGIN'' w) (data w, [('''', data w)])"
    and "saved w \<noteq> [] \<Longrightarrow> command_effect data saved w (drv_exec drv ctx ''COMMIT'' w) (data w, [])"
    and "saved w \<noteq> [] \<Longrightarrow> command_effect data saved w (drv_exec drv ctx ''ROLLBACK'' w) (snd (last (saved w)), [])"
    and "saved w \<noteq> [] \<Longrightarrow> command_effect data saved w (drv_exec drv ctx (''SAVEPOINT '' @ sp_name k) w) (data w, (sp_name k, data w) # saved w)"
    and "saved w = (sp_name k, d) # older \<Longrightarrow>
      command_effect data saved w (drv_exec drv ctx (''RELEASE SAVEPOINT '' @ sp_name k) w) (data w, older)"
    and "saved w = (sp_name k, d) # older \<Longrightarrow>
      command_effect data saved w (drv_exec drv ctx (''ROLLBACK TO SAVEPOINT '' @ sp_name k) w) (d, (sp_name k, d) # older)"
  using assms unfolding txn_database_def by (blast, blast, blast, blast, (metis append_Nil empty_iff empty_set image_is_empty)+)

section \<open>The abstract machine\<close>

fun nested :: "tx_op \<Rightarrow> 'd \<times> 'd list \<Rightarrow> 'd \<times> 'd list" where
  "nested Tx_Begin (d, ss) = (d, d # ss)"
| "nested Tx_Commit (d, ss) = (d, tl ss)"
| "nested Tx_Rollback (d, ss) = (hd ss, tl ss)"

text \<open>The names of the open levels, the newest first.\<close>

fun level_names :: "nat \<Rightarrow> string list" where
  "level_names 0 = []"
| "level_names (Suc n) = (if n = 0 then [] else sp_name (int n + 1)) # level_names n"

definition level_ok :: "('w \<Rightarrow> (string \<times> 'd) list) \<Rightarrow> 'w SqlRDBHandle \<Rightarrow> 'w \<Rightarrow> bool" where
  "level_ok saved h w \<longleftrightarrow> map fst (saved w) = level_names (nat (txn_depth (txn h)))"

definition snapshots :: "('w \<Rightarrow> 'd) \<Rightarrow> ('w \<Rightarrow> (string \<times> 'd) list) \<Rightarrow> 'w \<Rightarrow> 'd \<times> 'd list" where
  "snapshots data saved w = (data w, map snd (saved w))"

text \<open>
  A call at depth \<open>k\<close> with result \<open>r\<close>: the levels follow the depth; on success the data and the
  saved copies follow the machine; on failure the copies are kept and the data too, except that a nested
  rollback whose release fails has already restored it.
\<close>

definition follows ::
  "('w \<Rightarrow> 'd) \<Rightarrow> ('w \<Rightarrow> (string \<times> 'd) list) \<Rightarrow> tx_op \<Rightarrow> nat \<Rightarrow> SqlRDBResult \<Rightarrow> 'w \<Rightarrow> 'w \<Rightarrow> bool" where
  "follows data saved oper k r w w' \<longleftrightarrow>
     map fst (saved w') = level_names (nat (tx_depth_after oper (int k) r)) \<and>
     (if r = SQL_RDB_OK then snapshots data saved w' = nested oper (snapshots data saved w)
      else map snd (saved w') = map snd (saved w) \<and>
        (data w' = data w \<or> oper = Tx_Rollback \<and> 1 < k \<and> data w' = hd (map snd (saved w))))"

section \<open>Refinement\<close>

lemma effectD: "command_effect data saved w x v \<Longrightarrow> x = Some (r, w') \<Longrightarrow>
    (data w', saved w') = (if r = SQL_RDB_OK then v else (data w, saved w))"
  by (simp add: command_effect_def ensures_def)

text \<open>The stack at depth \<open>Suc n\<close>.\<close>

lemma top_level:
  assumes "map fst st = level_names (Suc n)"
  obtains e older where "st = (if n = 0 then [] else sp_name (int n + 1), e) # older" and "map fst older = level_names n"
  using assms by (cases st) auto

lemma nat_level: "nat (int n + 1) = Suc n" "nat (1 + int n) = Suc n"
  by simp_all

lemma follows_simps:
  assumes "map fst (saved w) = level_names k" and "(data w', saved w') = (if r = SQL_RDB_OK then v else (data w, saved w))"
    and "r = SQL_RDB_OK \<Longrightarrow> map fst (snd v) = level_names (nat (tx_depth_after oper (int k) SQL_RDB_OK))"
    and "r = SQL_RDB_OK \<Longrightarrow> (fst v, map snd (snd v)) = nested oper (snapshots data saved w)"
  shows "follows data saved oper k r w w'"
  using assms by (cases "r = SQL_RDB_OK"; cases v) (auto simp: follows_def snapshots_def)

context sql_txn_driver begin

lemma exec_two:
  assumes "exec_all drv ctx [a, b] w = Some (r, w')"
  obtains r1 w1 where "drv_exec drv ctx a w = Some (r1, w1)"
    and "if r1 = SQL_RDB_OK then drv_exec drv ctx b w1 = Some (r, w') else (r1, w1) = (r, w')"
proof (cases "drv_exec drv ctx a w")
  case None
  then show ?thesis using assms by simp
next
  case (Some x)
  obtain r1 w1 where x: "x = (r1, w1)" by (cases x) auto
  have "exec_all drv ctx [a, b] w = (if r1 = SQL_RDB_OK then exec_all drv ctx [b] w1 else Some (r1, w1))"
    using Some x by simp
  then show ?thesis using that assms Some x exec_all_single by (auto simp del: exec_all.simps split: if_splits)
qed

lemma begin_nested:
  fixes data :: "'w \<Rightarrow> 'd"
  assumes db: "txn_database drv ctx data saved" and names: "map fst (saved w) = level_names k"
    and run: "exec_all drv ctx (tx_sql Tx_Begin (int k)) w = Some (r, w')"
  shows "follows data saved Tx_Begin k r w w'"
proof -
  let ?c = "if k = 0 then ''BEGIN'' else ''SAVEPOINT '' @ sp_name (int k + 1)"
  let ?v = "(data w, (if k = 0 then [] else sp_name (int k + 1), data w) # saved w)"
  have "drv_exec drv ctx ?c w = Some (r, w')" using run exec_all_single by (simp del: exec_all.simps split: if_splits)
  moreover have "command_effect data saved w (drv_exec drv ctx ?c w) ?v"
  proof (cases "k = 0")
    case True
    then show ?thesis using txn_databaseD(1) [OF db, of w] names by simp
  next
    case False
    then have "saved w \<noteq> []" using names by (cases k) auto
    then show ?thesis using txn_databaseD(4) [OF db] False by (simp only: if_False)
  qed
  ultimately have "(data w', saved w') = (if r = SQL_RDB_OK then ?v else (data w, saved w))" by (rule effectD [rotated])
  then show ?thesis by (rule follows_simps [where saved = saved and w = w, OF names]) (use names in \<open>simp_all add: nat_level snapshots_def\<close>)
qed

lemma commit_nested:
  fixes data :: "'w \<Rightarrow> 'd"
  assumes db: "txn_database drv ctx data saved" and names: "map fst (saved w) = level_names k" and "k \<noteq> 0"
    and run: "exec_all drv ctx (tx_sql Tx_Commit (int k)) w = Some (r, w')"
  shows "follows data saved Tx_Commit k r w w'"
proof -
  obtain n where k: "k = Suc n" using assms(3) by (cases k) auto
  obtain e older where st: "saved w = (if n = 0 then [] else sp_name (int n + 1), e) # older" "map fst older = level_names n"
    using top_level [OF names [unfolded k]] by blast
  let ?c = "if n = 0 then ''COMMIT'' else ''RELEASE SAVEPOINT '' @ sp_name (int k)"
  have "drv_exec drv ctx ?c w = Some (r, w')" using run k exec_all_single by (simp del: exec_all.simps split: if_splits)
  moreover have "command_effect data saved w (drv_exec drv ctx ?c w) (data w, older)"
  proof (cases "n = 0")
    case True
    then show ?thesis using txn_databaseD(2) [OF db, of w] st by simp
  next
    case False
    then have "saved w = (sp_name (int k), e) # older" using st(1) k by (simp add: add.commute)
    from txn_databaseD(5) [OF db this] show ?thesis using False by (simp only: if_False)
  qed
  ultimately have "(data w', saved w') = (if r = SQL_RDB_OK then (data w, older) else (data w, saved w))" by (rule effectD [rotated])
  then show ?thesis by (rule follows_simps [where saved = saved and w = w, OF names]) (use st k in \<open>simp_all add: snapshots_def\<close>)
qed

lemma rollback_nested:
  fixes data :: "'w \<Rightarrow> 'd"
  assumes db: "txn_database drv ctx data saved" and names: "map fst (saved w) = level_names k" and "k \<noteq> 0"
    and run: "exec_all drv ctx (tx_sql Tx_Rollback (int k)) w = Some (r, w')"
  shows "follows data saved Tx_Rollback k r w w'"
proof -
  obtain n where k: "k = Suc n" using assms(3) by (cases k) auto
  obtain e older where st: "saved w = (if n = 0 then [] else sp_name (int n + 1), e) # older" "map fst older = level_names n"
    using top_level [OF names [unfolded k]] by blast
  show ?thesis
  proof (cases "n = 0")
    case True
    then have "drv_exec drv ctx ''ROLLBACK'' w = Some (r, w')" using run k exec_all_single by (simp del: exec_all.simps)
    moreover have "saved w \<noteq> []" and "snd (last (saved w)) = e" using st True by auto
    then have "command_effect data saved w (drv_exec drv ctx ''ROLLBACK'' w) (e, [])"
      using txn_databaseD(3) [OF db] by metis
    ultimately have "(data w', saved w') = (if r = SQL_RDB_OK then (e, []) else (data w, saved w))" by (rule effectD [rotated])
    then show ?thesis by (rule follows_simps [where saved = saved and w = w, OF names]) (use st k True in \<open>simp_all add: snapshots_def\<close>)
  next
    case False
    let ?sp = "sp_name (int k)"
    have top: "saved w = (?sp, e) # older" using st(1) k False by (simp add: add.commute)
    have "exec_all drv ctx [''ROLLBACK TO SAVEPOINT '' @ ?sp, ''RELEASE SAVEPOINT '' @ ?sp] w = Some (r, w')"
      using run k False by (simp del: exec_all.simps)
    then obtain r1 w1 where one: "drv_exec drv ctx (''ROLLBACK TO SAVEPOINT '' @ ?sp) w = Some (r1, w1)"
      and two: "if r1 = SQL_RDB_OK then drv_exec drv ctx (''RELEASE SAVEPOINT '' @ ?sp) w1 = Some (r, w') else (r1, w1) = (r, w')"
      by (rule exec_two)
    have e1: "(data w1, saved w1) = (if r1 = SQL_RDB_OK then (e, (?sp, e) # older) else (data w, saved w))"
      by (rule effectD [OF txn_databaseD(6) [OF db top] one])
    show ?thesis
    proof (cases "r1 = SQL_RDB_OK")
      case bad: False
      then show ?thesis using e1 two names by (simp add: follows_def)
    next
      case ok: True
      then have top1: "saved w1 = (?sp, e) # older" "data w1 = e" using e1 by simp_all
      have "drv_exec drv ctx (''RELEASE SAVEPOINT '' @ ?sp) w1 = Some (r, w')" using two ok by simp
      from effectD [OF txn_databaseD(5) [OF db top1(1)] this]
      have "(data w', saved w') = (if r = SQL_RDB_OK then (e, older) else (e, saved w))" using top top1 by simp
      then show ?thesis using top names k False st(2) by (cases "r = SQL_RDB_OK") (auto simp: follows_def snapshots_def nat_level)
    qed
  qed
qed

lemma tx_run_nested:
  fixes data :: "'w \<Rightarrow> 'd"
  assumes rdy: "tx_ready h" and drv: "driver h = Some drv" "driver_ctx h = Some ctx"
    and db: "txn_database drv ctx data saved" and lv: "level_ok saved h w" and run: "tx_run oper h w = Some (r, h', w')"
  shows "tx_ready h' \<and> driver h' = Some drv \<and> driver_ctx h' = Some ctx \<and> level_ok saved h' w' \<and>
     txn_depth (txn h') = tx_depth_after oper (txn_depth (txn h)) r \<and>
     (if r = SQL_RDB_OK then snapshots data saved w' = nested oper (snapshots data saved w)
      else map snd (saved w') = map snd (saved w) \<and>
        (data w' = data w \<or> oper = Tx_Rollback \<and> 1 < txn_depth (txn h) \<and> data w' = hd (map snd (saved w))))"
proof -
  have cmd: "tx_command drv ctx oper (txn_depth (txn h)) w = Some (r, w')" using tx_run_defined [OF rdy run] drv by auto
  from tx_run_refines [OF rdy drv cmd] run have H: "tx_ready h'" "same_but_tx h h'"
    "txn_depth (txn h') = tx_depth_after oper (txn_depth (txn h)) r" by auto
  have d: "0 \<le> txn_depth (txn h)" "txn_depth (txn h) \<le> C2SQL_MAX_TX_DEPTH" using rdy by (simp_all add: tx_ready_def txn_ok_def)
  define k where "k = nat (txn_depth (txn h))"
  have k: "txn_depth (txn h) = int k" and names: "map fst (saved w) = level_names k"
    using d(1) lv by (simp_all add: k_def level_ok_def)
  show ?thesis
  proof (cases "tx_legal oper (txn_depth (txn h))")
    case True
    have "exec_all drv ctx (tx_sql oper (int k)) w = Some (r, w')" using tx_command_sql [OF d True] cmd k by simp
    moreover have "oper \<noteq> Tx_Begin \<Longrightarrow> k \<noteq> 0" using True k by (simp add: tx_legal_def)
    ultimately have "follows data saved oper k r w w'"
      using begin_nested [OF db names] commit_nested [OF db names] rollback_nested [OF db names] by (cases oper) auto
    then show ?thesis using H drv k by (auto simp: follows_def level_ok_def same_but_tx_def)
  next
    case False
    then have "r \<noteq> SQL_RDB_OK" "w' = w" using cmd by (cases oper; auto simp: tx_legal_def)+
    then show ?thesis using H drv lv by (auto simp: level_ok_def same_but_tx_def)
  qed
qed

end

section \<open>Work inside a transaction\<close>

text \<open>
  Calls made while the depth stays at least \<open>k\<close>: transaction calls of any outcome, and row calls, which
  leave the depth alone and change the data but no savepoint.
\<close>

inductive tx_work :: "('w \<Rightarrow> (string \<times> 'd) list) \<Rightarrow> int \<Rightarrow> 'w SqlRDBHandle \<times> 'w \<Rightarrow> 'w SqlRDBHandle \<times> 'w \<Rightarrow> bool"
  for saved k where
  tw_start: "k \<le> txn_depth (txn h) \<Longrightarrow> tx_work saved k (h, w) (h, w)"
| tw_call: "tx_work saved k s (h1, w1) \<Longrightarrow> tx_run oper h1 w1 = Some (r, h2, w2) \<Longrightarrow> k \<le> txn_depth (txn h2) \<Longrightarrow>
     tx_work saved k s (h2, w2)"
| tw_rows: "tx_work saved k s (h1, w1) \<Longrightarrow> keeps_handle h1 h2 \<Longrightarrow> saved w2 = saved w1 \<Longrightarrow> tx_work saved k s (h2, w2)"

lemma level_names_length [simp]: "length (level_names n) = n"
  by (induction n) auto

lemma keeps_tx_ready: "keeps_handle h h' \<Longrightarrow> tx_ready h \<Longrightarrow> tx_ready h'"
  by (simp add: keeps_handle_def tx_ready_def c2sql_handle_valid_def)

context sql_txn_driver begin

text \<open>The oldest \<open>k\<close> saved copies survive such work.\<close>

lemma tx_work_keeps:
  fixes data :: "'w \<Rightarrow> 'd"
  assumes "tx_work saved k s s'" and db: "txn_database drv ctx data saved"
    and "s = (h, w)" "s' = (h', w')" and "tx_ready h" and "driver h = Some drv" "driver_ctx h = Some ctx" and "level_ok saved h w"
    and "0 \<le> k"
  shows "tx_ready h' \<and> driver h' = Some drv \<and> driver_ctx h' = Some ctx \<and> level_ok saved h' w' \<and> k \<le> txn_depth (txn h') \<and>
     drop (nat (txn_depth (txn h') - k)) (map snd (saved w')) = drop (nat (txn_depth (txn h) - k)) (map snd (saved w))"
  using assms(1,3-8)
proof (induction arbitrary: h' w' rule: tx_work.induct)
  case (tw_call s h1 w1 oper r h2 w2)
  from tw_call.IH [OF _ refl] tw_call.prems have I: "tx_ready h1" "driver h1 = Some drv" "driver_ctx h1 = Some ctx"
    "level_ok saved h1 w1" "k \<le> txn_depth (txn h1)"
    "drop (nat (txn_depth (txn h1) - k)) (map snd (saved w1)) = drop (nat (txn_depth (txn h) - k)) (map snd (saved w))"
    by auto
  let ?d = "txn_depth (txn h1)"
  from tx_run_nested [OF I(1-3) db I(4) tw_call.hyps(2)] have N: "tx_ready h2" "driver h2 = Some drv" "driver_ctx h2 = Some ctx"
    "level_ok saved h2 w2" "txn_depth (txn h2) = tx_depth_after oper ?d r"
    "if r = SQL_RDB_OK then snapshots data saved w2 = nested oper (snapshots data saved w1) else map snd (saved w2) = map snd (saved w1)"
    by (auto split: if_splits)
  have "drop (nat (txn_depth (txn h2) - k)) (map snd (saved w2)) = drop (nat (?d - k)) (map snd (saved w1))"
  proof (cases "r = SQL_RDB_OK")
    case False
    then show ?thesis using N(5,6) by simp
  next
    case True
    show ?thesis
    proof (cases oper)
      case Tx_Begin
      have "nat (?d + 1 - k) = Suc (nat (?d - k))" using I(5) by simp
      then show ?thesis using N(5,6) True Tx_Begin by (simp add: snapshots_def)
    next
      case Tx_Commit
      have "nat (?d - k) = Suc (nat (?d - 1 - k))" using tw_call.hyps(3) N(5) True Tx_Commit by simp
      then show ?thesis using N(5,6) True Tx_Commit by (simp add: snapshots_def drop_Suc)
    next
      case Tx_Rollback
      have "nat (?d - k) = Suc (nat (?d - 1 - k))" using tw_call.hyps(3) N(5) True Tx_Rollback by simp
      then show ?thesis using N(5,6) True Tx_Rollback by (simp add: snapshots_def drop_Suc)
    qed
  qed
  then show ?case using N tw_call.hyps(3) tw_call.prems I(6) by simp
next
  case (tw_rows s h1 w1 h2 w2)
  from tw_rows.IH [OF _ refl] tw_rows.prems have I: "tx_ready h1" "driver h1 = Some drv" "driver_ctx h1 = Some ctx"
    "level_ok saved h1 w1" "k \<le> txn_depth (txn h1)"
    "drop (nat (txn_depth (txn h1) - k)) (map snd (saved w1)) = drop (nat (txn_depth (txn h) - k)) (map snd (saved w))"
    by auto
  then show ?case using tw_rows.hyps(2,3) tw_rows.prems keeps_tx_ready [OF tw_rows.hyps(2)]
    by (auto simp: keeps_handle_def level_ok_def)
qed auto

text \<open>A rollback restores the data of the begin it ends; a commit keeps the data of the moment.\<close>

lemma bracket_restores:
  fixes data :: "'w \<Rightarrow> 'd"
  assumes db: "txn_database drv ctx data saved" and rdy: "tx_ready h" "driver h = Some drv" "driver_ctx h = Some ctx" "level_ok saved h w"
    and b: "tx_run Tx_Begin h w = Some (SQL_RDB_OK, h1, w1)"
    and work: "tx_work saved (txn_depth (txn h) + 1) (h1, w1) (h2, w2)" and d2: "txn_depth (txn h2) = txn_depth (txn h) + 1"
    and e: "tx_run oper h2 w2 = Some (SQL_RDB_OK, h3, w3)" and oper: "oper = Tx_Commit \<or> oper = Tx_Rollback"
  shows "data w3 = (if oper = Tx_Rollback then data w else data w2) \<and> map snd (saved w3) = map snd (saved w) \<and>
         txn_depth (txn h3) = txn_depth (txn h)"
proof -
  from tx_run_nested [OF rdy(1-3) db rdy(4) b] have B: "tx_ready h1" "driver h1 = Some drv" "driver_ctx h1 = Some ctx"
    "level_ok saved h1 w1" "snapshots data saved w1 = nested Tx_Begin (snapshots data saved w)"
    "txn_depth (txn h1) = txn_depth (txn h) + 1" by auto
  have "0 \<le> txn_depth (txn h)" using rdy(1) by (simp add: tx_ready_def txn_ok_def)
  then have "0 \<le> txn_depth (txn h) + 1" by simp
  from tx_work_keeps [OF work db refl refl B(1-4) this] have W: "tx_ready h2" "driver h2 = Some drv" "driver_ctx h2 = Some ctx"
    "level_ok saved h2 w2" "map snd (saved w2) = map snd (saved w1)" using d2 B(6) by auto
  from tx_run_nested [OF W(1-3) db W(4) e] have E: "snapshots data saved w3 = nested oper (snapshots data saved w2)"
    "txn_depth (txn h3) = txn_depth (txn h)" using d2 oper by auto
  have s1: "map snd (saved w1) = data w # map snd (saved w)" using B(5) by (simp add: snapshots_def)
  then show ?thesis using E W(5) oper by (auto simp: snapshots_def)
qed

end

end
