(* ===== verification/Threads.thy ===== *)
theory Threads
  imports Client
begin

text \<open>
  Threads that share one handle. A call checks its arguments without the mutex, takes the mutex
  through the wrapper of \<^verbatim>\<open>src/mutex.c\<close> (it tests the \<^verbatim>\<open>threadsafe\<close> switch, then
  blocks in \<^verbatim>\<open>pthread_mutex_lock\<close>), works, and gives the mutex back, testing the switch
  again. The steps of different threads interleave freely. The work of a call is split into the moment
  it starts reading the handle and the moment its writes are visible, so that two calls that overlap
  lose updates: with the switch on, the mutex rules this out.
\<close>

section \<open>The steps of a call\<close>

text \<open>The checks each function makes before it takes the mutex.\<close>

definition Write_checks :: "'w SqlRDBHandle \<Rightarrow> string option \<Rightarrow> char list option \<Rightarrow> SqlRDBResult option" where
  "Write_checks h name row =
     (if \<not> c2sql_handle_valid (Some h) then Some SQL_RDB_ERR_INVALID_HANDLE
      else if name = None then Some SQL_RDB_ERR_INVALID_ARG
      else if row = None then Some SQL_RDB_ERR_INVALID_ARG else None)"

definition WriteMany_checks :: "'w SqlRDBHandle \<Rightarrow> string option \<Rightarrow> char list option \<Rightarrow> nat \<Rightarrow> nat \<Rightarrow> SqlRDBResult option" where
  "WriteMany_checks h name rows n stride =
     (if \<not> c2sql_handle_valid (Some h) then Some SQL_RDB_ERR_INVALID_HANDLE
      else if name = None \<or> rows = None then Some SQL_RDB_ERR_INVALID_ARG
      else if n = 0 \<or> stride = 0 then Some SQL_RDB_ERR_INVALID_ARG else None)"

definition Read_checks :: "'w SqlRDBHandle \<Rightarrow> string option \<Rightarrow> char list option \<Rightarrow> SqlRDBResult option" where
  "Read_checks h name row =
     (if \<not> c2sql_handle_valid (Some h) then Some SQL_RDB_ERR_INVALID_HANDLE
      else if name = None then Some SQL_RDB_ERR_INVALID_ARG
      else if row = None then Some SQL_RDB_ERR_INVALID_ARG else None)"

definition ReadMany_checks :: "'w SqlRDBHandle \<Rightarrow> string option \<Rightarrow> bool \<Rightarrow> SqlRDBResult option" where
  "ReadMany_checks h name given =
     (if \<not> c2sql_handle_valid (Some h) then Some SQL_RDB_ERR_INVALID_HANDLE
      else if name = None then Some SQL_RDB_ERR_INVALID_ARG
      else if \<not> given then Some SQL_RDB_ERR_INVALID_ARG else None)"

definition StmtNext_checks :: "SqlRDBStmt option \<Rightarrow> char list option \<Rightarrow> SqlRDBResult option" where
  "StmtNext_checks it row =
     (if it = None then Some SQL_RDB_ERR_INVALID_ARG else if row = None then Some SQL_RDB_ERR_INVALID_ARG else None)"

definition StmtFree_checks :: "SqlRDBStmt option \<Rightarrow> SqlRDBResult option" where
  "StmtFree_checks it = (if it = None then Some SQL_RDB_ERR_INVALID_ARG else None)"

definition Delete_checks :: "'w SqlRDBHandle \<Rightarrow> string option \<Rightarrow> SqlRDBCondition option \<Rightarrow> SqlRDBResult option" where
  "Delete_checks h name cond =
     (if \<not> c2sql_handle_valid (Some h) then Some SQL_RDB_ERR_INVALID_HANDLE
      else if name = None then Some SQL_RDB_ERR_INVALID_ARG
      else if cond = None then Some SQL_RDB_ERR_INVALID_ARG else None)"

definition Count_checks :: "'w SqlRDBHandle \<Rightarrow> string option \<Rightarrow> nat option \<Rightarrow> SqlRDBResult option" where
  "Count_checks h name out =
     (if \<not> c2sql_handle_valid (Some h) then Some SQL_RDB_ERR_INVALID_HANDLE
      else if name = None \<or> out = None then Some SQL_RDB_ERR_INVALID_ARG else None)"

definition WriteBlobField_checks ::
  "'w SqlRDBHandle \<Rightarrow> string option \<Rightarrow> SqlRDBCondition option \<Rightarrow> string option \<Rightarrow> char list option \<Rightarrow> SqlRDBResult option" where
  "WriteBlobField_checks h name key col bytes =
     (if \<not> c2sql_handle_valid (Some h) then Some SQL_RDB_ERR_INVALID_HANDLE
      else if name = None \<or> key = None \<or> col = None \<or> bytes = None then Some SQL_RDB_ERR_INVALID_ARG else None)"

definition ReadBlobField_checks ::
  "'w SqlRDBHandle \<Rightarrow> string option \<Rightarrow> SqlRDBCondition option \<Rightarrow> string option \<Rightarrow> bool \<Rightarrow> bool \<Rightarrow> SqlRDBResult option" where
  "ReadBlobField_checks h name key col ob ol =
     (if \<not> c2sql_handle_valid (Some h) then Some SQL_RDB_ERR_INVALID_HANDLE
      else if name = None \<or> key = None \<or> col = None \<or> \<not> ob \<or> \<not> ol then Some SQL_RDB_ERR_INVALID_ARG else None)"

text \<open>The three transaction calls check the handle only.\<close>

definition Tx_checks :: "'w SqlRDBHandle \<Rightarrow> SqlRDBResult option" where
  "Tx_checks h = (if \<not> c2sql_handle_valid (Some h) then Some SQL_RDB_ERR_INVALID_HANDLE else None)"

definition SetConfig_checks :: "'w SqlRDBHandle \<Rightarrow> SqlRDBConfig option \<Rightarrow> SqlRDBResult option" where
  "SetConfig_checks h cfg =
     (if \<not> c2sql_handle_valid (Some h) then Some SQL_RDB_ERR_INVALID_HANDLE
      else if cfg = None then Some SQL_RDB_ERR_INVALID_ARG else None)"

lemmas entry_checks [simp] = Write_checks_def WriteMany_checks_def Read_checks_def ReadMany_checks_def StmtNext_checks_def
  StmtFree_checks_def Delete_checks_def Count_checks_def WriteBlobField_checks_def ReadBlobField_checks_def Tx_checks_def SetConfig_checks_def

text \<open>The check of the call a request stands for.\<close>

fun early :: "request \<Rightarrow> 'w client \<Rightarrow> SqlRDBResult option" where
  "early (Rq_Write name row nm) (h, w, its, m) = Write_checks h name row"
| "early (Rq_WriteMany name rows n stride nms) (h, w, its, m) = WriteMany_checks h name rows n stride"
| "early (Rq_Read name cond row nm opts) (h, w, its, m) = Read_checks h name row"
| "early (Rq_ReadMany name cond given) (h, w, its, m) = ReadMany_checks h name given"
| "early (Rq_Next i row nm) (h, w, its, m) = StmtNext_checks (nth_opt its i) row"
| "early (Rq_Free i) (h, w, its, m) = StmtFree_checks (nth_opt its i)"
| "early (Rq_Delete name cond out) (h, w, its, m) = Delete_checks h name cond"
| "early (Rq_Count name cond out) (h, w, its, m) = Count_checks h name out"
| "early (Rq_WriteBlob name key col bytes len) (h, w, its, m) = WriteBlobField_checks h name key col bytes"
| "early (Rq_ReadBlob name key col ob ol) (h, w, its, m) = ReadBlobField_checks h name key col ob ol"
| "early (Rq_Tx oper) (h, w, its, m) = Tx_checks h"
| "early (Rq_Config cfg) (h, w, its, m) = SetConfig_checks h (Some cfg)"

text \<open>
  Where a thread stands: outside the library, about to test the switch, blocked in
  \<^verbatim>\<open>pthread_mutex_lock\<close>, working on the state it found, about to unlock.
\<close>

datatype 'w phase =
    Ph_Idle
  | Ph_Lock request
  | Ph_Blocked request
  | Ph_Run request "'w client"
  | Ph_Unlock request

fun phase_request :: "'w phase \<Rightarrow> request option" where
  "phase_request Ph_Idle = None"
| "phase_request (Ph_Lock q) = Some q"
| "phase_request (Ph_Blocked q) = Some q"
| "phase_request (Ph_Run q s) = Some q"
| "phase_request (Ph_Unlock q) = Some q"

text \<open>Inside the critical section.\<close>

fun inside :: "'w phase \<Rightarrow> bool" where
  "inside (Ph_Run q s) = True"
| "inside (Ph_Unlock q) = True"
| "inside _ = False"

type_synonym 'w threads = "'w client \<times> (nat \<Rightarrow> 'w phase)"

definition client_mutex :: "'w client \<Rightarrow> SqlRDBMutex" where
  "client_mutex s = mutex (fst s)"

definition put_mutex :: "SqlRDBMutex \<Rightarrow> 'w client \<Rightarrow> 'w client" where
  "put_mutex mx s = ((fst s)\<lparr>mutex := mx\<rparr>, snd s)"

definition put_locked :: "bool \<Rightarrow> 'w client \<Rightarrow> 'w client" where
  "put_locked b s = put_mutex ((client_mutex s)\<lparr>mtx_locked := b\<rparr>) s"

text \<open>
  One step of one thread, with the call it completes. The switch is tested in
  \<open>th_test_on\<close>, \<open>th_test_off\<close> and again in the unlock; \<open>th_acquire\<close> is
  \<^verbatim>\<open>pthread_mutex_lock\<close>. The writes of a call become visible in \<open>th_publish\<close>; of the
  mutex they change the switch only. A caller keeps its obligations at the time the work starts: an
  iterator it passes has not been freed by another thread since it was checked.
\<close>

inductive thread_step :: "(request \<Rightarrow> bool) \<Rightarrow> 'w threads \<Rightarrow> (request \<times> SqlRDBResult) list \<Rightarrow> 'w threads \<Rightarrow> bool"
  for allowed where
  th_reject: "ph t = Ph_Idle \<Longrightarrow> allowed q \<Longrightarrow> request_ok q s \<Longrightarrow> early q s = Some r \<Longrightarrow>
     thread_step allowed (s, ph) [(q, r)] (s, ph)"
| th_call: "ph t = Ph_Idle \<Longrightarrow> allowed q \<Longrightarrow> early q s = None \<Longrightarrow>
     thread_step allowed (s, ph) [] (s, ph(t := Ph_Lock q))"
| th_test_off: "ph t = Ph_Lock q \<Longrightarrow> \<not> mtx_threadsafe (client_mutex s) \<Longrightarrow> request_ok q s \<Longrightarrow> early q s = None \<Longrightarrow>
     thread_step allowed (s, ph) [] (s, ph(t := Ph_Run q s))"
| th_test_on: "ph t = Ph_Lock q \<Longrightarrow> mtx_threadsafe (client_mutex s) \<Longrightarrow>
     thread_step allowed (s, ph) [] (s, ph(t := Ph_Blocked q))"
| th_acquire: "ph t = Ph_Blocked q \<Longrightarrow> \<not> mtx_locked (client_mutex s) \<Longrightarrow> request_ok q s \<Longrightarrow> early q s = None \<Longrightarrow>
     thread_step allowed (s, ph) [] (put_locked True s, ph(t := Ph_Run q s))"
| th_publish: "ph t = Ph_Run q s0 \<Longrightarrow> perform q s0 = Some (r, s1) \<Longrightarrow>
     thread_step allowed (s, ph) [(q, r)] (put_locked (mtx_locked (client_mutex s)) s1, ph(t := Ph_Unlock q))"
| th_unlock: "ph t = Ph_Unlock q \<Longrightarrow> c2sql_internal_mutex_unlock (client_mutex s) = Some mx \<Longrightarrow>
     thread_step allowed (s, ph) [] (put_mutex mx s, ph(t := Ph_Idle))"

inductive threads_run :: "(request \<Rightarrow> bool) \<Rightarrow> 'w threads \<Rightarrow> (request \<times> SqlRDBResult) list \<Rightarrow> 'w threads \<Rightarrow> bool"
  for allowed where
  tr_start: "threads_run allowed S [] S"
| tr_step: "threads_run allowed S tr S1 \<Longrightarrow> thread_step allowed S1 ev S2 \<Longrightarrow> threads_run allowed S (tr @ ev) S2"

text \<open>The two steps of taking the mutex are the call of the wrapper.\<close>

lemma acquire_is_lock:
  assumes "mtx_threadsafe mx"
  shows "c2sql_internal_mutex_lock mx = (if mtx_locked mx then None else Some (mx\<lparr>mtx_locked := True\<rparr>))"
  using assms by (simp add: c2sql_internal_mutex_lock_def)

section \<open>The mutex and the rest of the state\<close>

lemma put_mutex_simps [simp]:
  "client_mutex (put_mutex mx s) = mx" "put_mutex mx (put_mutex mx' s) = put_mutex mx s"
  "put_mutex (client_mutex s) s = s" "snd (put_mutex mx s) = snd s"
  by (simp_all add: client_mutex_def put_mutex_def)

lemma put_locked_simps [simp]:
  "mtx_locked (client_mutex (put_locked b s)) = b"
  "mtx_threadsafe (client_mutex (put_locked b s)) = mtx_threadsafe (client_mutex s)"
  "put_locked b (put_locked c s) = put_locked b s"
  by (simp_all add: put_locked_def)

lemma put_locked_same [simp]: "mtx_locked (client_mutex s) = b \<Longrightarrow> put_locked b s = s"
  by (cases s) (auto simp: put_locked_def put_mutex_def client_mutex_def)

lemma early_mutex [simp]: "early q (put_mutex mx s) = early q s"
  by (cases s; cases q) (simp_all add: put_mutex_def c2sql_handle_valid_def)

lemma request_ok_mutex [simp]: "request_ok q (put_mutex mx s) = request_ok q s"
  by (cases s; cases q) (simp_all add: put_mutex_def row_arg_def rows_arg_def next_arg_def split: option.splits)

lemma early_locked [simp]: "early q (put_locked b s) = early q s" "request_ok q (put_locked b s) = request_ok q s"
  by (simp_all add: put_locked_def)

text \<open>A call that fails a check returns its error and changes nothing.\<close>

lemma tx_run_invalid: "\<not> c2sql_handle_valid (Some h) \<Longrightarrow> tx_run oper h w = Some (SQL_RDB_ERR_INVALID_HANDLE, h, w)"
  by (cases oper) (simp_all add: SqlRDBBeginTx_def SqlRDBCommitTx_def SqlRDBRollbackTx_def)

lemma early_perform: "early q s = Some r \<Longrightarrow> perform q s = Some (r, s)"
  by (cases s; cases q)
    (auto simp: tx_run_invalid SqlRDBWrite_def SqlRDBWriteMany_def SqlRDBRead_def SqlRDBReadMany_def SqlRDBStmtNext_def SqlRDBStmtFree_def
      SqlRDBDelete_def SqlRDBCount_def SqlRDBWriteBlobField_def SqlRDBReadBlobField_def SqlRDBSetConfig_def
      drop_nth_def nth_opt_def split: option.splits if_splits)

text \<open>A call that leaves the switch as it is leaves the whole mutex as it was.\<close>

definition keeps_switch :: "bool \<Rightarrow> request \<Rightarrow> bool" where
  "keeps_switch b q = (case q of Rq_Config cfg \<Rightarrow> threadsafe cfg = b | _ \<Rightarrow> True)"

lemma SetConfig_mutex:
  assumes "mutex_sound (mutex h)" and "threadsafe cfg = mtx_threadsafe (mutex h)"
    and "SqlRDBSetConfig h (Some cfg) w m = Some (r, h', w', m')"
  shows "mutex h' = mutex h"
  using assms
  by (cases "mutex h") (auto simp: SqlRDBSetConfig_def locked_def lock_handle_def unlock_handle_def mutex_sound_def
    c2sql_internal_mutex_lock_def c2sql_internal_mutex_unlock_def Let_def bind_Some_iff split: if_splits)

lemma perform_mutex:
  assumes "perform q s = Some (r, s')" and "mutex_sound (client_mutex s)" and "keeps_switch (mtx_threadsafe (client_mutex s)) q"
  shows "client_mutex s' = client_mutex s"
proof -
  obtain h w its m where s: "s = (h, w, its, m)" by (metis prod_cases4)
  obtain h' w' its' m' where s': "s' = (h', w', its', m')" by (metis prod_cases4)
  have mx: "mutex_sound (mutex h)" and idle: "mutex_idle (mutex h)" using assms(2) s by (auto simp: client_mutex_def mutex_sound_idle)
  have "mutex h' = mutex h"
  proof (cases q)
    case (Rq_Config cfg)
    then show ?thesis using assms(1,3) s s' by (auto simp: bind_Some_iff keeps_switch_def client_mutex_def intro: SetConfig_mutex [OF mx])
  qed (use assms(1) s s' idle in \<open>auto simp: bind_Some_iff keeps_handle_def same_connection_def
    dest!: Write_frame [THEN ensuresD, rotated] WriteMany_frame [THEN ensuresD, rotated]
    Read_frame [THEN ensuresD, rotated] ReadMany_frame [THEN ensuresD, rotated] StmtNext_frame [THEN ensuresD, rotated]
    StmtFree_frame [THEN ensuresD, rotated] Delete_frame [THEN ensuresD, rotated] Count_frame [THEN ensuresD, rotated]
    WriteBlobField_frame [THEN ensuresD, rotated] ReadBlobField_frame [THEN ensuresD, rotated]
    tx_run_same [THEN ensuresD, rotated]\<close>)
  then show ?thesis by (simp add: s s' client_mutex_def)
qed

section \<open>Mutual exclusion and serialisability\<close>

text \<open>
  The switch is on; a thread is in the critical section exactly when the mutex is held, and it is
  alone; one that works found the state the others see, with a free mutex.
\<close>

fun phase_ok :: "'w client \<Rightarrow> 'w phase \<Rightarrow> bool" where
  "phase_ok s Ph_Idle \<longleftrightarrow> True"
| "phase_ok s (Ph_Lock q) \<longleftrightarrow> keeps_switch True q"
| "phase_ok s (Ph_Blocked q) \<longleftrightarrow> keeps_switch True q"
| "phase_ok s (Ph_Run q s0) \<longleftrightarrow> keeps_switch True q \<and> request_ok q s0 \<and> s0 = put_locked False s"
| "phase_ok s (Ph_Unlock q) \<longleftrightarrow> keeps_switch True q"

definition exclusive :: "'w threads \<Rightarrow> bool" where
  "exclusive S =
     (case S of (s, ph) \<Rightarrow> mtx_threadsafe (client_mutex s) \<and>
        (mtx_locked (client_mutex s) \<longleftrightarrow> (\<exists>t. inside (ph t))) \<and>
        (\<forall>t u. inside (ph t) \<longrightarrow> inside (ph u) \<longrightarrow> t = u) \<and> (\<forall>t. phase_ok s (ph t)))"

lemma phase_ok_outside: "\<not> inside p \<Longrightarrow> phase_ok s p = phase_ok s' p"
  by (cases p) auto

lemma exclusive_outside:
  assumes "exclusive (s, ph)" and "\<not> inside (ph t)" "\<not> inside p" "phase_ok s p"
  shows "exclusive (s, ph(t := p))"
proof -
  have "inside ((ph(t := p)) u) = inside (ph u)" for u using assms(2,3) by simp
  then show ?thesis using assms(1,4) by (simp add: exclusive_def del: fun_upd_apply) simp
qed

lemma exclusive_run:
  assumes "exclusive (s, ph)" and run: "ph t = Ph_Run q s0"
  shows "s0 = put_locked False s" and "request_ok q s0" and "keeps_switch True q" and "mtx_threadsafe (client_mutex s)"
    and "mtx_locked (client_mutex s)" and "inside (ph u) \<Longrightarrow> u = t"
proof -
  have i: "inside (ph t)" by (simp add: run)
  have "phase_ok s (ph t)" using assms(1) by (simp add: exclusive_def)
  then show "s0 = put_locked False s" "request_ok q s0" "keeps_switch True q" by (auto simp: run)
  show "mtx_threadsafe (client_mutex s)" "mtx_locked (client_mutex s)" "inside (ph u) \<Longrightarrow> u = t"
    using assms(1) i by (auto simp: exclusive_def)
qed

text \<open>The state between calls: what the handle looks like to the next call.\<close>

definition settled :: "'w threads \<Rightarrow> 'w client" where
  "settled S = put_locked False (fst S)"

lemma settled_simps [simp]: "settled (s, ph) = put_locked False s"
  by (simp add: settled_def)

lemma client_steps_one: "request_ok q s \<Longrightarrow> perform q s = Some (r, s') \<Longrightarrow> client_steps s [(q, r)] s'"
  using cl_call [OF cl_start, of q s r s'] by simp

lemma client_steps_trans:
  assumes "client_steps s1 tr' s2" and "client_steps s0 tr s1"
  shows "client_steps s0 (tr @ tr') s2"
  using assms
proof (induction rule: client_steps.induct)
  case (cl_call s1 tr' s2 q r s3)
  then show ?case using client_steps.cl_call [of s0 "tr @ tr'" s2 q r s3] by simp
qed simp

text \<open>Every step keeps the invariant and makes the calls it completes, in its order.\<close>

lemma thread_step_serial:
  assumes "thread_step allowed S ev S'" and "exclusive S" and "\<And>q. allowed q \<Longrightarrow> keeps_switch True q"
  shows "exclusive S' \<and> client_steps (settled S) ev (settled S')"
  using assms
proof cases
  case (th_reject ph t q s r)
  have "perform q (put_locked False s) = Some (r, put_locked False s)"
    by (rule early_perform) (simp add: th_reject(7))
  then show ?thesis using th_reject assms(2) client_steps_one [of q "put_locked False s"] by simp
next
  case (th_publish ph t q s0 r s1 s)
  note I = exclusive_run [OF assms(2) [unfolded th_publish(1)] th_publish(4)]
  have mx: "client_mutex s1 = client_mutex s0"
    by (rule perform_mutex [OF th_publish(5)]) (use I in \<open>auto simp: mutex_sound_def\<close>)
  have out: "phase_ok (put_locked b s1) (ph u)" if "u \<noteq> t" for u b
    using assms(2) phase_ok_outside [of "ph u" "put_locked b s1" s] I(6) [of u] that by (auto simp: exclusive_def th_publish(1))
  have "exclusive S'" using mx I(1,3,4,5) I(6) out
    by (auto simp: exclusive_def th_publish(3) split: if_splits)
  moreover have "client_steps s0 [(q, r)] s1" by (rule client_steps_one [OF I(2) th_publish(5)])
  ultimately show ?thesis using mx I(1) th_publish(1,2,3) by simp
next
  case (th_acquire ph t q s)
  have quiet: "\<not> inside (ph u)" for u using assms(2) th_acquire(1,5) by (auto simp: exclusive_def)
  then have "phase_ok (put_locked True s) (ph u)" for u
    using assms(2) phase_ok_outside [OF quiet, of s u] by (auto simp: exclusive_def th_acquire(1))
  moreover have "keeps_switch True q" using assms(2) th_acquire(1,4) by (auto simp: exclusive_def dest: spec [of _ t])
  ultimately show ?thesis using assms(2) th_acquire quiet by (auto simp: exclusive_def cl_start)
next
  case (th_unlock ph t q s mx)
  have L: "mtx_threadsafe (client_mutex s)" "mtx_locked (client_mutex s)" "inside (ph t)"
    using assms(2) th_unlock(1,4) by (auto simp: exclusive_def intro: exI [of _ t])
  then have out: "\<not> inside (ph u)" if "u \<noteq> t" for u using assms(2) that by (auto simp: exclusive_def th_unlock(1))
  have S': "S' = (put_locked False s, ph(t := Ph_Idle))"
    using th_unlock(3,5) L by (auto simp: c2sql_internal_mutex_unlock_def put_locked_def)
  have "phase_ok (put_locked False s) (ph u)" if "u \<noteq> t" for u
    using assms(2) phase_ok_outside [OF out [OF that], of s] by (auto simp: exclusive_def th_unlock(1))
  then show ?thesis using assms(2) L out by (auto simp: exclusive_def S' th_unlock(1,2) cl_start)
next
  case (th_test_on ph t q s)
  have "phase_ok s (ph t)" using assms(2) by (simp add: exclusive_def th_test_on(1))
  then show ?thesis using assms(2) th_test_on(1-4) by (auto intro: exclusive_outside cl_start)
next
  case (th_test_off ph t q s)
  then show ?thesis using assms(2) by (simp add: exclusive_def)
next
  case (th_call ph t q s)
  then show ?thesis using assms(2,3) by (auto intro!: exclusive_outside cl_start)
qed

lemma threads_serial:
  assumes "threads_run allowed S tr S'" and "exclusive S" and "\<And>q. allowed q \<Longrightarrow> keeps_switch True q"
  shows "exclusive S' \<and> client_steps (settled S) tr (settled S')"
  using assms
proof (induction rule: threads_run.induct)
  case (tr_step S tr S1 ev S2)
  then have IH: "exclusive S1" "client_steps (settled S) tr (settled S1)" by auto
  with thread_step_serial [OF tr_step.hyps(2) IH(1) tr_step.prems(2)] show ?case
    using client_steps_trans by blast
qed (simp add: cl_start)

text \<open>A new start: no thread in the library, the mutex free.\<close>

lemma exclusive_start:
  "mtx_threadsafe (client_mutex s) \<Longrightarrow> \<not> mtx_locked (client_mutex s) \<Longrightarrow> exclusive (s, \<lambda>_. Ph_Idle)"
  by (simp add: exclusive_def)

section \<open>Progress\<close>

text \<open>
  With a driver that answers, the calls under way end once no new ones are started. While a call waits
  its arguments stay valid, whatever the others do, as long as no call under way frees an iterator that
  another one under way might be using.
\<close>

fun phase_rank :: "'w phase \<Rightarrow> nat" where
  "phase_rank Ph_Idle = 0"
| "phase_rank (Ph_Unlock q) = 1"
| "phase_rank (Ph_Run q s) = 2"
| "phase_rank (Ph_Blocked q) = 3"
| "phase_rank (Ph_Lock q) = 4"

definition work_left :: "nat \<Rightarrow> 'w threads \<Rightarrow> nat" where
  "work_left n S = (\<Sum>t<n. phase_rank (snd S t))"

definition all_idle :: "'w threads \<Rightarrow> bool" where
  "all_idle S \<longleftrightarrow> (\<forall>t. snd S t = Ph_Idle)"

text \<open>A step of a thread that is in a call.\<close>

definition finish_step :: "'w threads \<Rightarrow> 'w threads \<Rightarrow> bool" where
  "finish_step S S' \<longleftrightarrow> (\<exists>ev. thread_step (\<lambda>_. False) S ev S')"

fun waits_with :: "'w phase \<Rightarrow> request \<Rightarrow> bool" where
  "waits_with (Ph_Lock p) q = (p = q)"
| "waits_with (Ph_Blocked p) q = (p = q)"
| "waits_with _ q = False"

fun uses_iterator :: "request \<Rightarrow> bool" where
  "uses_iterator (Rq_Next i row nm) = True"
| "uses_iterator (Rq_Free i) = True"
| "uses_iterator _ = False"

text \<open>
  The obligations of the callers: the arguments of every waiting call describe real objects and pass
  its checks, and a call that frees an iterator is not under way together with another one on an iterator.
\<close>

definition pending_ok :: "'w threads \<Rightarrow> bool" where
  "pending_ok S =
     (case S of (s, ph) \<Rightarrow> (\<forall>t q. waits_with (ph t) q \<longrightarrow> request_ok q s \<and> early q s = None) \<and>
        (\<forall>t u i q. t \<noteq> u \<longrightarrow> phase_request (ph t) = Some (Rq_Free i) \<longrightarrow> phase_request (ph u) = Some q \<longrightarrow> \<not> uses_iterator q))"

lemma waits_requests: "waits_with p q \<Longrightarrow> phase_request p = Some q"
  by (cases p) auto

text \<open>A thread moves on in its call, without touching what the arguments of the others depend on.\<close>

lemma pending_move:
  assumes "pending_ok (s, ph)" and w: "\<And>q. waits_with p q \<Longrightarrow> waits_with (ph t) q"
    and req: "\<And>q. phase_request p = Some q \<Longrightarrow> phase_request (ph t) = Some q"
    and ok: "\<And>u q. u \<noteq> t \<or> waits_with p q \<Longrightarrow> waits_with (ph u) q \<Longrightarrow> request_ok q s' \<and> early q s' = None"
  shows "pending_ok (s', ph(t := p))"
proof -
  have R: "phase_request (ph u) = Some q" if "phase_request ((ph(t := p)) u) = Some q" for u q
    using that req by (cases "u = t") auto
  have "request_ok q s' \<and> early q s' = None" if "waits_with ((ph(t := p)) u) q" for u q
    using that ok [of u q] w by (cases "u = t") auto
  then show ?thesis using assms(1) R unfolding pending_ok_def prod.case by blast
qed

context total_driver begin

text \<open>The arguments of a waiting call outlast the call of another thread.\<close>

lemma request_lasts:
  assumes ok: "client_ok drv ctx usable live s" and q: "request_ok q s" "perform q s = Some (r, s1)"
    and p: "request_ok p s" "early p s = None" "\<And>i. q = Rq_Free i \<Longrightarrow> \<not> uses_iterator p"
  shows "request_ok p s1 \<and> early p s1 = None"
proof -
  obtain h w its m where s: "s = (h, w, its, m)" by (metis prod_cases4)
  obtain h1 w1 its1 m1 where s1: "s1 = (h1, w1, its1, m1)" by (metis prod_cases4)
  have ok1: "client_ok drv ctx usable live s1" using perform_total [OF ok q(1)] q(2) by auto
  then have reg: "registry h1 = registry h"
    using perform_keeps [OF ok [unfolded s] q(1) [unfolded s] q(2) [unfolded s s1]] by (simp add: s1 client_ok_def)
  have v: "c2sql_handle_valid (Some h)" "c2sql_handle_valid (Some h1)"
    using ok ok1 by (simp_all add: s s1 client_ok_def open_handle_def handle_ok_def c2sql_handle_valid_def)
  have R: "registered h1 n = registered h n" for n using registered_find [OF v(1)] registered_find [OF v(2)] reg by simp
  have I: "i < length its1 \<and> its1 ! i = its ! i" if "i < length its" "uses_iterator p" for i
    using q(2) that p(3) unfolding s s1 by (cases q) (auto simp: bind_Some_iff nth_append split: option.splits)
  show ?thesis
    using p(1,2) v R reg I unfolding s s1
    by (cases p) (auto simp: row_arg_def rows_arg_def next_arg_def nth_opt_def split: if_splits option.splits)
qed

lemma finish_keeps:
  assumes st: "finish_step S S'" and ex: "exclusive S" and ok: "client_ok drv ctx usable live (settled S)" and pend: "pending_ok S"
  shows "exclusive S' \<and> client_ok drv ctx usable live (settled S') \<and> pending_ok S'"
proof -
  obtain ev where ev: "thread_step (\<lambda>_. False) S ev S'" using st by (auto simp: finish_step_def)
  from thread_step_serial [OF this ex] have E: "exclusive S'" "client_steps (settled S) ev (settled S')" by auto
  have "pending_ok S'"
    using ev
  proof cases
    case (th_publish ph t q s0 r s1 s)
    note X = exclusive_run(1,2) [OF ex [unfolded th_publish(1)] th_publish(4)]
    have ok0: "client_ok drv ctx usable live s0" using ok X(1) by (simp add: th_publish(1))
    have "request_ok p s1 \<and> early p s1 = None" if "u \<noteq> t" "waits_with (ph u) p" for u p
    proof (rule request_lasts [OF ok0 X(2) th_publish(5)])
      show "request_ok p s0" "early p s0 = None" using pend that X(1) by (auto simp: th_publish(1) pending_ok_def)
      show "\<not> uses_iterator p" if "q = Rq_Free i" for i
      proof -
        have "phase_request (ph t) = Some (Rq_Free i)" using th_publish(4) that by simp
        with \<open>u \<noteq> t\<close> waits_requests [OF \<open>waits_with (ph u) p\<close>] show ?thesis
          using pend unfolding th_publish(1) pending_ok_def prod.case by metis
      qed
    qed
    then show ?thesis unfolding th_publish(3) by (intro pending_move [OF pend [unfolded th_publish(1)]]) (auto simp: th_publish(4))
  next
    case (th_test_off ph t q s)
    then show ?thesis using ex by (simp add: exclusive_def)
  next
    case (th_test_on ph t q s)
    show ?thesis unfolding th_test_on(3)
      by (rule pending_move [OF pend [unfolded th_test_on(1)]]) (use pend th_test_on(1,4) in \<open>auto simp: pending_ok_def\<close>)
  next
    case (th_acquire ph t q s)
    show ?thesis unfolding th_acquire(3)
      by (rule pending_move [OF pend [unfolded th_acquire(1)]]) (use pend th_acquire(1,4) in \<open>auto simp: pending_ok_def\<close>)
  next
    case (th_unlock ph t q s mx)
    show ?thesis unfolding th_unlock(3)
      by (rule pending_move [OF pend [unfolded th_unlock(1)]]) (use pend th_unlock(1,4) in \<open>auto simp: pending_ok_def\<close>)
  qed simp_all
  then show ?thesis using E client_steps_ok [OF E(2) ok] by simp
qed

lemma finish_progress:
  assumes ex: "exclusive (s, ph)" and ok: "client_ok drv ctx usable live (settled (s, ph))" and pend: "pending_ok (s, ph)" and busy: "ph t \<noteq> Ph_Idle"
  shows "\<exists>S'. finish_step (s, ph) S'"
proof (cases "\<exists>u. inside (ph u)")
  case True
  then obtain u where u: "inside (ph u)" by blast
  then have L: "mtx_locked (client_mutex s)" "mtx_threadsafe (client_mutex s)" using ex by (auto simp: exclusive_def)
  show ?thesis
  proof (cases "ph u")
    case (Ph_Run q s0)
    note X = exclusive_run(1,2) [OF ex this]
    then obtain r s1 where "perform q s0 = Some (r, s1)" using perform_total [of s0 q] ok by auto
    from th_publish [where ph = ph and t = u and s = s, OF Ph_Run this] show ?thesis unfolding finish_step_def by blast
  next
    case (Ph_Unlock q)
    have "c2sql_internal_mutex_unlock (client_mutex s) = Some ((client_mutex s)\<lparr>mtx_locked := False\<rparr>)"
      using L by (simp add: c2sql_internal_mutex_unlock_def)
    from th_unlock [where ph = ph and t = u, OF Ph_Unlock this] show ?thesis unfolding finish_step_def by blast
  qed (use u in auto)
next
  case False
  then have L: "\<not> mtx_locked (client_mutex s)" "mtx_threadsafe (client_mutex s)" using ex by (auto simp: exclusive_def)
  have out: "\<not> inside (ph t)" using False by blast
  show ?thesis
  proof (cases "ph t")
    case (Ph_Lock q)
    from th_test_on [where ph = ph and t = t, OF this L(2)] show ?thesis unfolding finish_step_def by blast
  next
    case (Ph_Blocked q)
    then have "waits_with (ph t) q" by simp
    then have "request_ok q s" "early q s = None" using pend by (auto simp: pending_ok_def)
    from th_acquire [where ph = ph and t = t, OF Ph_Blocked L(1) this] show ?thesis unfolding finish_step_def by blast
  qed (use busy out in auto)
qed

lemma finish_run:
  assumes "(finish_step ^^ k) S S'" and "exclusive S" and "client_ok drv ctx usable live (settled S)" and "pending_ok S"
  shows "all_idle S' \<or> (\<exists>S''. finish_step S' S'')"
proof -
  have "exclusive S' \<and> client_ok drv ctx usable live (settled S') \<and> pending_ok S'"
    using assms
  proof (induction k arbitrary: S)
    case (Suc k)
    then obtain S1 where s: "finish_step S S1" "(finish_step ^^ k) S1 S'" by (blast elim: relpowp_Suc_E2)
    show ?case using Suc.IH [OF s(2)] finish_keeps [OF s(1) Suc.prems(2-4)] by blast
  qed simp
  then show ?thesis using finish_progress [of "fst S'" "snd S'"] by (auto simp: all_idle_def simp del: split_paired_Ex)
qed

end

text \<open>Every such step is a step of one thread towards the end of its call.\<close>

lemma finish_step_rank:
  assumes "finish_step S S'"
  shows "\<exists>u p. snd S' = (snd S)(u := p) \<and> phase_rank p < phase_rank (snd S u)"
proof -
  obtain ev where "thread_step (\<lambda>_. False) S ev S'" using assms by (auto simp: finish_step_def)
  then show ?thesis
  proof cases
    case (th_test_off ph t q s)
    then show ?thesis by (intro exI [of _ t] exI [of _ "Ph_Run q s"]) simp
  next
    case (th_test_on ph t q s)
    then show ?thesis by (intro exI [of _ t] exI [of _ "Ph_Blocked q"]) simp
  next
    case (th_acquire ph t q s)
    then show ?thesis by (intro exI [of _ t] exI [of _ "Ph_Run q s"]) simp
  next
    case (th_publish ph t q s0 r s1 s)
    then show ?thesis by (intro exI [of _ t] exI [of _ "Ph_Unlock q"]) simp
  next
    case (th_unlock ph t q s mx)
    then show ?thesis by (intro exI [of _ t] exI [of _ "Ph_Idle"]) simp
  qed simp_all
qed

text \<open>Hence calls under way end after a bounded number of steps, in whatever order the threads run.\<close>

lemma work_left_step:
  assumes "finish_step S S'" and "\<And>t. n \<le> t \<Longrightarrow> snd S t = Ph_Idle"
  shows "work_left n S' < work_left n S" and "n \<le> t \<Longrightarrow> snd S' t = Ph_Idle"
proof -
  obtain u p where u: "snd S' = (snd S)(u := p)" "phase_rank p < phase_rank (snd S u)" using finish_step_rank [OF assms(1)] by blast
  have un: "u < n" using u(2) assms(2) [of u] by (cases "u < n") auto
  then show "n \<le> t \<Longrightarrow> snd S' t = Ph_Idle" using assms(2) by (auto simp: u(1))
  show "work_left n S' < work_left n S" unfolding work_left_def u(1)
    by (rule sum_strict_mono_ex1) (use u(2) un in \<open>auto intro: bexI [of _ u]\<close>)
qed

lemma work_left_run:
  assumes "(finish_step ^^ k) S S'" and "\<And>t. n \<le> t \<Longrightarrow> snd S t = Ph_Idle"
  shows "k + work_left n S' \<le> work_left n S"
  using assms
proof (induction k arbitrary: S)
  case (Suc k)
  then obtain S1 where s: "finish_step S S1" "(finish_step ^^ k) S1 S'" by (blast elim: relpowp_Suc_E2)
  from Suc.IH [OF s(2)] work_left_step [OF s(1) Suc.prems(2)] show ?case by force
qed simp

lemma work_left_bound: "work_left n S \<le> 4 * n"
proof -
  have "phase_rank p \<le> 4" for p :: "'a phase" by (cases p) simp_all
  then show ?thesis unfolding work_left_def using sum_bounded_above [of "{..<n}" "\<lambda>t. phase_rank (snd S t)" 4] by simp
qed

text \<open>Two threads contend: one works, the other is blocked.\<close>

lemma contended_run:
  assumes q: "allowed q" "early q s = None" "request_ok q s" and p: "allowed p" "early p s = None"
    and mx: "mtx_threadsafe (client_mutex s)" "\<not> mtx_locked (client_mutex s)"
  shows "threads_run allowed (s, \<lambda>_. Ph_Idle) [] (put_locked True s, (\<lambda>_. Ph_Idle)(0 := Ph_Run q s, 1 := Ph_Blocked p))"
proof -
  let ?i = "\<lambda>_ :: nat. Ph_Idle"
  have run: "threads_run allowed S [] S2" if "threads_run allowed S [] S1" "thread_step allowed S1 [] S2" for S S1 S2
    using tr_step [OF that] by simp
  have 1: "thread_step allowed (s, ?i) [] (s, ?i(0 := Ph_Lock q))" using q by (intro th_call) simp_all
  have 2: "thread_step allowed (s, ?i(0 := Ph_Lock q)) [] (s, ?i(0 := Ph_Lock q, 1 := Ph_Lock p))" using p by (intro th_call) simp_all
  have 3: "thread_step allowed (s, ?i(0 := Ph_Lock q, 1 := Ph_Lock p)) [] (s, ?i(0 := Ph_Lock q, 1 := Ph_Blocked p))"
    using th_test_on [of "?i(0 := Ph_Lock q, 1 := Ph_Lock p)" 1 p s allowed] mx by simp
  have 4: "thread_step allowed (s, ?i(0 := Ph_Lock q, 1 := Ph_Blocked p)) [] (s, ?i(0 := Ph_Blocked q, 1 := Ph_Blocked p))"
    using th_test_on [of "?i(0 := Ph_Lock q, 1 := Ph_Blocked p)" 0 q s allowed] mx by (simp add: fun_upd_twist)
  have 5: "thread_step allowed (s, ?i(0 := Ph_Blocked q, 1 := Ph_Blocked p)) [] (put_locked True s, ?i(0 := Ph_Run q s, 1 := Ph_Blocked p))"
    using th_acquire [of "?i(0 := Ph_Blocked q, 1 := Ph_Blocked p)" 0 q s allowed] mx q by (simp add: fun_upd_twist)
  show ?thesis by (rule run [OF run [OF run [OF run [OF run [OF tr_start 1] 2] 3] 4] 5])
qed

section \<open>Switching thread safety off under waiting threads\<close>

text \<open>
  \<^verbatim>\<open>SqlRDBSetConfig\<close> changes the switch while it holds the mutex, and its unlock tests the
  new value: the mutex stays held. A thread that was blocked in \<^verbatim>\<open>pthread_mutex_lock\<close> by then
  stays blocked, whatever the other threads call, until the switch is on again.
\<close>

fun phase_off :: "'w phase \<Rightarrow> bool" where
  "phase_off (Ph_Run q s0) \<longleftrightarrow> keeps_switch False q \<and> \<not> mtx_threadsafe (client_mutex s0) \<and> mtx_locked (client_mutex s0)"
| "phase_off p \<longleftrightarrow> (case phase_request p of None \<Rightarrow> True | Some q \<Rightarrow> keeps_switch False q)"

definition switched_off :: "'w threads \<Rightarrow> bool" where
  "switched_off S =
     (case S of (s, ph) \<Rightarrow> \<not> mtx_threadsafe (client_mutex s) \<and> mtx_locked (client_mutex s) \<and> (\<forall>t. phase_off (ph t)))"

lemma switched_off_step:
  assumes "thread_step allowed S ev S'" and "switched_off S" and "\<And>q. allowed q \<Longrightarrow> keeps_switch False q"
    and blocked: "snd S u = Ph_Blocked p"
  shows "switched_off S' \<and> snd S' u = Ph_Blocked p"
  using assms(1)
proof cases
  case (th_publish ph t q s0 r s1 s)
  have "phase_off (ph t)" using assms(2) by (simp add: switched_off_def th_publish(1))
  then have Q: "keeps_switch False q" "\<not> mtx_threadsafe (client_mutex s0)" "mtx_locked (client_mutex s0)"
    by (simp_all add: th_publish(4))
  have "client_mutex s1 = client_mutex s0" by (rule perform_mutex [OF th_publish(5)]) (use Q in \<open>auto simp: mutex_sound_def\<close>)
  then show ?thesis using assms(2) Q blocked th_publish(1,3,4) by (auto simp: switched_off_def)
next
  case (th_test_off ph t q s)
  have "phase_off (ph t)" using assms(2) by (simp add: switched_off_def th_test_off(1))
  then show ?thesis using assms(2) blocked th_test_off(1-5) by (auto simp: switched_off_def)
qed (use assms(2-4) in \<open>auto simp: switched_off_def c2sql_internal_mutex_unlock_def\<close>)

lemma switched_off_run:
  assumes "threads_run allowed S tr S'" and "switched_off S" and "\<And>q. allowed q \<Longrightarrow> keeps_switch False q"
    and "snd S u = Ph_Blocked p"
  shows "snd S' u = Ph_Blocked p"
proof -
  have "switched_off S' \<and> snd S' u = Ph_Blocked p"
    using assms
  proof (induction rule: threads_run.induct)
    case (tr_step S tr S1 ev S2)
    then have "switched_off S1" "snd S1 u = Ph_Blocked p" by auto
    from switched_off_step [OF tr_step.hyps(2) this(1) tr_step.prems(2) this(2)] show ?case .
  qed simp
  then show ?thesis by simp
qed

lemma SetConfig_off:
  assumes "c2sql_handle_valid (Some h)" and "mutex h = \<lparr>mtx_threadsafe = True, mtx_locked = False\<rparr>" and "threadsafe (config h)"
  shows "SqlRDBSetConfig h (Some ((config h)\<lparr>threadsafe := False\<rparr>)) w m =
    Some (SQL_RDB_OK, h\<lparr>config := (config h)\<lparr>threadsafe := False\<rparr>, mutex := \<lparr>mtx_threadsafe = False, mtx_locked = True\<rparr>\<rparr>, w, m)"
  using assms
  by (simp add: SqlRDBSetConfig_def locked_def lock_handle_def unlock_handle_def c2sql_internal_mutex_lock_def
    c2sql_internal_mutex_unlock_def Let_def)

text \<open>The state is reached by one thread that switches off and another that makes any call meanwhile.\<close>

lemma switch_off_reached:
  assumes v: "c2sql_handle_valid (Some h)" and mx: "mutex h = \<lparr>mtx_threadsafe = True, mtx_locked = False\<rparr>"
    and c: "threadsafe (config h)" "unat (stmt_cache_size (config h)) \<le> 2 ^ 62"
    and q: "early q (h, w, its, m) = None" "keeps_switch False q"
  shows "\<exists>S. threads_run (\<lambda>_. True) ((h, w, its, m), \<lambda>_. Ph_Idle) [(Rq_Config ((config h)\<lparr>threadsafe := False\<rparr>), SQL_RDB_OK)] S \<and>
           switched_off S \<and> snd S 1 = Ph_Blocked q"
proof -
  let ?s = "(h, w, its, m)" and ?off = "(config h)\<lparr>threadsafe := False\<rparr>" and ?idle = "\<lambda>_ :: nat. Ph_Idle"
  let ?c = "Rq_Config ?off" and ?s1 = "(h\<lparr>config := ?off, mutex := \<lparr>mtx_threadsafe = False, mtx_locked = True\<rparr>\<rparr>, w, its, m)"
  let ?p1 = "?idle(0 := Ph_Lock ?c)"
  let ?p2 = "?p1(0 := Ph_Blocked ?c)"
  let ?p3 = "?p2(0 := Ph_Run ?c ?s)"
  let ?p4 = "?p3(1 := Ph_Lock q)"
  let ?p5 = "?p4(1 := Ph_Blocked q)"
  let ?p6 = "?p5(0 := Ph_Unlock ?c)"
  have ts: "mtx_threadsafe (client_mutex ?s)" "\<not> mtx_locked (client_mutex ?s)" by (simp_all add: client_mutex_def mx)
  have s1: "thread_step (\<lambda>_. True) (?s, ?idle) [] (?s, ?p1)" by (rule th_call) (use v in simp_all)
  have s2: "thread_step (\<lambda>_. True) (?s, ?p1) [] (?s, ?p2)" by (rule th_test_on) (use ts in simp_all)
  have s3: "thread_step (\<lambda>_. True) (?s, ?p2) [] (put_locked True ?s, ?p3)" by (rule th_acquire) (use ts v c in simp_all)
  have s4: "thread_step (\<lambda>_. True) (put_locked True ?s, ?p3) [] (put_locked True ?s, ?p4)" by (rule th_call) (use q in simp_all)
  have s5: "thread_step (\<lambda>_. True) (put_locked True ?s, ?p4) [] (put_locked True ?s, ?p5)" by (rule th_test_on) (use ts in simp_all)
  have s6: "thread_step (\<lambda>_. True) (put_locked True ?s, ?p5) [(?c, SQL_RDB_OK)]
      (put_locked (mtx_locked (client_mutex (put_locked True ?s))) ?s1, ?p6)"
    by (rule th_publish, simp, simp add: SetConfig_off [OF v mx c(1)])
  have eq: "put_locked (mtx_locked (client_mutex (put_locked True ?s))) ?s1 = ?s1"
    unfolding put_locked_simps by (rule put_locked_same) (simp add: client_mutex_def)
  have s7: "thread_step (\<lambda>_. True) (?s1, ?p6) [] (put_mutex (client_mutex ?s1) ?s1, ?p6(0 := Ph_Idle))"
    by (rule th_unlock) (simp_all add: c2sql_internal_mutex_unlock_def client_mutex_def)
  from tr_step [OF tr_step [OF tr_step [OF tr_step [OF tr_step [OF tr_step [OF tr_step [OF tr_start s1] s2] s3] s4] s5] s6 [unfolded eq]] s7]
  have "threads_run (\<lambda>_. True) (?s, ?idle) [(?c, SQL_RDB_OK)] (?s1, ?p6(0 := Ph_Idle))" by (simp only: put_mutex_simps append.simps append_Nil2)
  moreover have "switched_off (?s1, ?p6(0 := Ph_Idle))" using q by (simp add: switched_off_def client_mutex_def)
  ultimately show ?thesis by (intro exI [of _ "(?s1, ?p6(0 := Ph_Idle))"]) simp
qed

end
