(* ===== verification/Close_Race.thy ===== *)
theory Close_Race
  imports Lifecycle
begin

text \<open>
  \<^verbatim>\<open>SqlRDBClose\<close> called by several threads. The table of live handles is read and changed
  under \<^verbatim>\<open>g_live_mutex\<close>, one access at a time; what lies between the accesses interleaves.
  Closes of different handles do not disturb one another. Two closes of one handle may both pass the
  test of the table, since the result of the removal is not looked at.
\<close>

section \<open>The steps of a close\<close>

datatype close_pc =
    Cl_Test
  | Cl_Magic
  | Cl_Remove
  | Cl_Kill
  | Cl_Teardown
  | Cl_Free
  | Cl_Done SqlRDBResult

text \<open>Rollback, cache, registry, driver.\<close>

definition close_teardown :: "'w SqlRDBHandle \<Rightarrow> 'w \<Rightarrow> ('w SqlRDBHandle \<times> 'w) option" where
  "close_teardown h w =
     do {
       (h, w) \<leftarrow>
         (case (driver h, driver_ctx h) of
            (Some drv, Some ctx) \<Rightarrow>
              if 0 < txn_depth (txn h)
              then do { (r, w) \<leftarrow> drv_rollback drv ctx w; Some (h\<lparr>txn := (txn h)\<lparr>txn_depth := 0\<rparr>\<rparr>, w) }
              else Some (h, w)
          | _ \<Rightarrow> Some (h, w));
       (c, w) \<leftarrow> c2sql_internal_cache_destroy (cache h) (driver h) w;
       let h = h\<lparr>cache := c, registry := c2sql_internal_schema_registry_destroy (registry h)\<rparr>;
       (case (driver h, driver_ctx h) of
          (Some drv, Some ctx) \<Rightarrow> do { (r, w) \<leftarrow> drv_close drv ctx w; Some (h\<lparr>driver_ctx := None\<rparr>, w) }
        | _ \<Rightarrow> Some (h, w))
     }"

text \<open>\<open>None\<close>: the handle has been freed, or a call of the driver does not return.\<close>

fun close_step :: "ptr option \<Rightarrow> close_pc \<Rightarrow> 'w \<Rightarrow> 'w process \<Rightarrow> (close_pc \<times> 'w \<times> 'w process) option" where
  "close_step hp Cl_Test w P =
     Some (if live_contains hp P then Cl_Magic else Cl_Done SQL_RDB_ERR_INVALID_HANDLE, w, P)"
| "close_step hp Cl_Magic w P =
     do {
       p \<leftarrow> hp;
       h \<leftarrow> handles P p;
       Some (if magic h \<noteq> SQL_RDB_HANDLE_MAGIC then Cl_Done SQL_RDB_ERR_INVALID_HANDLE else Cl_Remove, w, P)
     }"
| "close_step hp Cl_Remove w P = do { p \<leftarrow> hp; Some (Cl_Kill, w, snd (live_remove p P)) }"
| "close_step hp Cl_Kill w P =
     do {
       p \<leftarrow> hp;
       h \<leftarrow> handles P p;
       Some (Cl_Teardown, w, P\<lparr>handles := (handles P)(p \<mapsto> h\<lparr>magic := SQL_RDB_HANDLE_DEAD\<rparr>)\<rparr>)
     }"
| "close_step hp Cl_Teardown w P =
     do {
       p \<leftarrow> hp;
       h \<leftarrow> handles P p;
       (h, w) \<leftarrow> close_teardown h w;
       Some (Cl_Free, w, P\<lparr>handles := (handles P)(p \<mapsto> h)\<rparr>)
     }"
| "close_step hp Cl_Free w P =
     do {
       p \<leftarrow> hp;
       h \<leftarrow> handles P p;
       mx \<leftarrow> c2sql_internal_mutex_destroy (mutex h);
       Some (Cl_Done SQL_RDB_OK, w, P\<lparr>handles := (handles P)(p := None)\<rparr>)
     }"
| "close_step hp (Cl_Done r) w P = Some (Cl_Done r, w, P)"

fun close_run :: "nat \<Rightarrow> ptr option \<Rightarrow> close_pc \<Rightarrow> 'w \<Rightarrow> 'w process \<Rightarrow> (close_pc \<times> 'w \<times> 'w process) option" where
  "close_run 0 hp pc w P = Some (pc, w, P)"
| "close_run (Suc n) hp pc w P = do { (pc, w, P) \<leftarrow> close_step hp pc w P; close_run n hp pc w P }"

lemma live_remove_fields [simp]: "handles (snd (live_remove p P)) = handles P"
  by (simp add: live_remove_def Let_def split: option.splits)

lemma close_run_done [simp]: "close_run n hp (Cl_Done r) w P = Some (Cl_Done r, w, P)"
  by (induction n) simp_all

text \<open>The steps of one thread, with no other in between, are the function.\<close>

lemma Close_teardown:
  assumes "live_contains (Some p) P" and "handles P p = Some h" and "magic h = SQL_RDB_HANDLE_MAGIC"
  shows "SqlRDBClose (Some p) w P =
    do {
      (g, w) \<leftarrow> close_teardown (h\<lparr>magic := SQL_RDB_HANDLE_DEAD\<rparr>) w;
      mx \<leftarrow> c2sql_internal_mutex_destroy (mutex g);
      Some (SQL_RDB_OK, w, (snd (live_remove p P))\<lparr>handles := (handles P)(p := None)\<rparr>)
    }"
  using assms
  by (cases "driver h"; cases "driver_ctx h"; cases "0 < txn_depth (txn h)")
    (simp_all add: SqlRDBClose_def close_teardown_def Let_def Option.bind_assoc split_def)

lemma close_alone:
  "close_run 6 hp Cl_Test w P = do { (r, w, P) \<leftarrow> SqlRDBClose hp w P; Some (Cl_Done r, w, P) }"
proof (cases "live_contains hp P")
  case True
  then obtain p where p: "hp = Some p" by (cases hp) (auto simp: live_contains_def)
  show ?thesis
  proof (cases "handles P p")
    case (Some h)
    show ?thesis
    proof (cases "magic h = SQL_RDB_HANDLE_MAGIC")
      case live: True
      show ?thesis using True Some live p
        by (simp add: eval_nat_numeral Close_teardown split_def Option.bind_assoc)
    qed (use True Some p in \<open>simp add: eval_nat_numeral SqlRDBClose_def\<close>)
  qed (use True p in \<open>simp add: eval_nat_numeral SqlRDBClose_def\<close>)
qed (simp add: eval_nat_numeral SqlRDBClose_def)

section \<open>Several closes\<close>

type_synonym 'w closers = "'w \<times> 'w process \<times> (nat \<Rightarrow> close_pc)"

text \<open>Thread \<open>t\<close> closes the handle \<open>target t\<close>; any thread may take the next step.\<close>

inductive closers_step :: "(nat \<Rightarrow> ptr option) \<Rightarrow> 'w closers \<Rightarrow> 'w closers \<Rightarrow> bool" for target where
  cs_step: "close_step (target t) (pcs t) w P = Some (pc, w', P') \<Longrightarrow> closers_step target (w, P, pcs) (w', P', pcs(t := pc))"

text \<open>The next step of a thread reads the handle.\<close>

fun reads_handle :: "close_pc \<Rightarrow> bool" where
  "reads_handle Cl_Magic = True"
| "reads_handle Cl_Kill = True"
| "reads_handle Cl_Teardown = True"
| "reads_handle Cl_Free = True"
| "reads_handle _ = False"

definition use_after_free :: "(nat \<Rightarrow> ptr option) \<Rightarrow> 'w closers \<Rightarrow> bool" where
  "use_after_free target S =
     (case S of (w, P, pcs) \<Rightarrow> \<exists>t p. reads_handle (pcs t) \<and> target t = Some p \<and> handles P p = None)"

text \<open>
  Thread \<open>u\<close> has returned OK and freed the handle; the next step of thread \<open>t\<close> is
  \<^verbatim>\<open>h->magic = SQL_RDB_HANDLE_DEAD\<close> on the same handle.
\<close>

definition write_after_free :: "(nat \<Rightarrow> ptr option) \<Rightarrow> 'w closers \<Rightarrow> bool" where
  "write_after_free target S =
     (case S of (w, P, pcs) \<Rightarrow> \<exists>t u p. target t = Some p \<and> target u = Some p \<and>
        pcs u = Cl_Done SQL_RDB_OK \<and> handles P p = None \<and> pcs t = Cl_Kill)"

text \<open>How far a close has come: past the removal from the table, past the overwritten magic.\<close>

fun removed :: "close_pc \<Rightarrow> bool" where
  "removed Cl_Kill = True"
| "removed Cl_Teardown = True"
| "removed Cl_Free = True"
| "removed (Cl_Done r) = (r = SQL_RDB_OK)"
| "removed _ = False"

fun killed :: "close_pc \<Rightarrow> bool" where
  "killed Cl_Teardown = True"
| "killed Cl_Free = True"
| "killed (Cl_Done r) = (r = SQL_RDB_OK)"
| "killed _ = False"

text \<open>
  While different handles of a sound process are closed: the table and the structs are those of the
  start, less what the closes have removed and freed; a close that failed was given no live handle.
\<close>

definition closing :: "(nat \<Rightarrow> ptr option) \<Rightarrow> 'w process \<Rightarrow> 'w closers \<Rightarrow> bool" where
  "closing target P0 S =
     (case S of (w, P, pcs) \<Rightarrow> distinct (g_live_handles P) \<and>
        (\<forall>p. p \<in> set (g_live_handles P) \<longleftrightarrow> p \<in> set (g_live_handles P0) \<and> (\<forall>t. target t = Some p \<longrightarrow> \<not> removed (pcs t))) \<and>
        (\<forall>p. p \<in> dom (handles P) \<longleftrightarrow> p \<in> dom (handles P0) \<and> (\<forall>t. target t = Some p \<longrightarrow> pcs t \<noteq> Cl_Done SQL_RDB_OK)) \<and>
        (\<forall>p. (\<forall>t. target t = Some p \<longrightarrow> \<not> killed (pcs t)) \<longrightarrow> handles P p = handles P0 p) \<and>
        (\<forall>t. pcs t = Cl_Test \<or>
           (if \<exists>p \<in> set (g_live_handles P0). target t = Some p then \<forall>r. pcs t = Cl_Done r \<longrightarrow> r = SQL_RDB_OK
            else pcs t = Cl_Done SQL_RDB_ERR_INVALID_HANDLE)))"

lemma closing_start:
  "process_ok P \<Longrightarrow> closing target P (w, P, \<lambda>_. Cl_Test)"
  by (simp add: closing_def process_ok_def)

definition distinct_targets :: "(nat \<Rightarrow> ptr option) \<Rightarrow> bool" where
  "distinct_targets target \<longleftrightarrow> (\<forall>t u p. target t = Some p \<longrightarrow> target u = Some p \<longrightarrow> t = u)"

lemma at_target:
  assumes "distinct_targets target" and "target t = Some p"
  shows "(\<forall>u. target u = Some q \<longrightarrow> R ((pcs(t := pc)) u)) \<longleftrightarrow> (if q = p then R pc else \<forall>u. target u = Some q \<longrightarrow> R (pcs u))"
proof (cases "q = p")
  case True
  then show ?thesis using assms by (auto simp: distinct_targets_def)
next
  case False
  then have "u \<noteq> t" if "target u = Some q" for u using assms(2) that by auto
  then show ?thesis using False by auto
qed

text \<open>What the invariant says of one handle that is being closed, and how a step at that handle keeps it.\<close>

lemma closing_at:
  assumes "closing target P0 (w, P, pcs)" and "distinct_targets target" and "target t = Some p"
    and "p \<in> set (g_live_handles P0)" and "p \<in> dom (handles P0)"
  shows "p \<in> set (g_live_handles P) \<longleftrightarrow> \<not> removed (pcs t)" and "p \<in> dom (handles P) \<longleftrightarrow> pcs t \<noteq> Cl_Done SQL_RDB_OK"
    and "\<not> killed (pcs t) \<Longrightarrow> handles P p = handles P0 p" and "pcs t = Cl_Done r \<Longrightarrow> r = SQL_RDB_OK"
proof -
  note T = at_target [OF assms(2,3), of p _ pcs "pcs t", unfolded fun_upd_triv]
  show "p \<in> set (g_live_handles P) \<longleftrightarrow> \<not> removed (pcs t)" "p \<in> dom (handles P) \<longleftrightarrow> pcs t \<noteq> Cl_Done SQL_RDB_OK"
    "\<not> killed (pcs t) \<Longrightarrow> handles P p = handles P0 p"
    using assms(1,4,5) T [of "\<lambda>c. \<not> removed c"] T [of "\<lambda>c. c \<noteq> Cl_Done SQL_RDB_OK"] T [of "\<lambda>c. \<not> killed c"]
    unfolding closing_def prod.case by simp_all
  have "pcs t = Cl_Test \<or> (\<forall>r. pcs t = Cl_Done r \<longrightarrow> r = SQL_RDB_OK)"
    using assms(1,3,4) unfolding closing_def prod.case by auto
  then show "pcs t = Cl_Done r \<Longrightarrow> r = SQL_RDB_OK" by auto
qed

lemma closing_move:
  assumes I: "closing target P0 (w, P, pcs)" and dt: "distinct_targets target" and p: "target t = Some p"
    "p \<in> set (g_live_handles P0)" "p \<in> dom (handles P0)"
    and other: "distinct (g_live_handles P')" "\<And>q. q \<noteq> p \<Longrightarrow> q \<in> set (g_live_handles P') \<longleftrightarrow> q \<in> set (g_live_handles P)"
      "\<And>q. q \<noteq> p \<Longrightarrow> handles P' q = handles P q"
    and here: "p \<in> set (g_live_handles P') \<longleftrightarrow> \<not> removed pc" "p \<in> dom (handles P') \<longleftrightarrow> pc \<noteq> Cl_Done SQL_RDB_OK"
      "\<not> killed pc \<Longrightarrow> handles P' p = handles P0 p" "\<And>r. pc = Cl_Done r \<Longrightarrow> r = SQL_RDB_OK"
  shows "closing target P0 (w', P', pcs(t := pc))"
proof -
  note C = I [unfolded closing_def prod.case]
  note T = at_target [OF dt p(1), where pcs = pcs and pc = pc]
  have "q \<in> set (g_live_handles P') \<longleftrightarrow> q \<in> set (g_live_handles P0) \<and> (\<forall>u. target u = Some q \<longrightarrow> \<not> removed ((pcs(t := pc)) u))" for q
    unfolding T [of q "\<lambda>c. \<not> removed c"] using C other(2) here(1) p(2) by auto
  moreover have "q \<in> dom (handles P') \<longleftrightarrow> q \<in> dom (handles P0) \<and> (\<forall>u. target u = Some q \<longrightarrow> (pcs(t := pc)) u \<noteq> Cl_Done SQL_RDB_OK)" for q
    unfolding T [of q "\<lambda>c. c \<noteq> Cl_Done SQL_RDB_OK"] using C other(3) here(2) p(3) by (cases "q = p") (simp_all add: domIff)
  moreover have "handles P' q = handles P0 q" if "\<forall>u. target u = Some q \<longrightarrow> \<not> killed ((pcs(t := pc)) u)" for q
    using that C other(3) here(3) unfolding T [of q "\<lambda>c. \<not> killed c"] by (auto split: if_splits)
  ultimately show ?thesis using C other(1) here(4) p unfolding closing_def prod.case by auto
qed

lemma closing_step:
  assumes "closers_step target S S'" and I: "closing target P0 S" and ok: "process_ok P0" and dt: "distinct_targets target"
  shows "closing target P0 S'"
  using assms(1)
proof cases
  case (cs_step t pcs w P pc w' P')
  note C = I [unfolded cs_step(1) closing_def prod.case]
  show ?thesis
  proof (cases "\<exists>p \<in> set (g_live_handles P0). target t = Some p")
    case False
    then have pct: "pcs t = Cl_Test \<or> pcs t = Cl_Done SQL_RDB_ERR_INVALID_HANDLE" using C by auto
    moreover have "\<not> live_contains (target t) P" using False C by (auto simp: live_contains_def split: option.splits)
    ultimately have S': "w' = w" "P' = P" "pc = Cl_Done SQL_RDB_ERR_INVALID_HANDLE" using cs_step(3) by auto
    have R: "removed ((pcs(t := pc)) u) = removed (pcs u)" "killed ((pcs(t := pc)) u) = killed (pcs u)"
      "(pcs(t := pc)) u = Cl_Done SQL_RDB_OK \<longleftrightarrow> pcs u = Cl_Done SQL_RDB_OK" for u using pct S'(3) by auto
    show ?thesis using C False unfolding cs_step(2) closing_def prod.case S'(1,2) R by (simp add: S'(3)) meson
  next
    case True
    then obtain p where p: "target t = Some p" "p \<in> set (g_live_handles P0)" by blast
    then obtain h0 where h0: "handles P0 p = Some h0" "magic h0 = SQL_RDB_HANDLE_MAGIC"
      using ok by (auto simp: process_ok_def handle_ok_def ran_def)
    then have d: "p \<in> dom (handles P0)" by blast
    note A = closing_at [OF I [unfolded cs_step(1)] dt p d]
    have dis: "distinct (g_live_handles P)" using C by blast
    note move = closing_move [OF I [unfolded cs_step(1)] dt p d]
    show ?thesis unfolding cs_step(2)
    proof (cases "pcs t")
      case Cl_Test
      then have "P' = P" "pc = Cl_Magic" using cs_step(3) p A(1) by (auto simp: live_contains_def)
      then show "closing target P0 (w', P', pcs(t := pc))" by (auto intro!: move simp: A Cl_Test dis h0)
    next
      case Cl_Magic
      then have "P' = P" "pc = Cl_Remove" using cs_step(3) p A(3) h0 by (auto simp: bind_Some_iff)
      then show "closing target P0 (w', P', pcs(t := pc))" by (auto intro!: move simp: A Cl_Magic dis h0)
    next
      case Cl_Remove
      then obtain ls where ls: "live_remove p P = (True, P\<lparr>g_live_handles := ls\<rparr>)" "set ls = set (g_live_handles P) - {p}" "distinct ls"
        using live_remove_set [OF dis, of p] A(1) by auto
      moreover have "handles P p = Some h0" using A(3) Cl_Remove h0 by simp
      moreover have "P' = P\<lparr>g_live_handles := ls\<rparr>" "pc = Cl_Kill" using cs_step(3) p Cl_Remove ls(1) by auto
      ultimately show "closing target P0 (w', P', pcs(t := pc))" by (intro move) (simp_all add: h0 domIff)
    next
      case Cl_Kill
      then show "closing target P0 (w', P', pcs(t := pc))" using cs_step(3) p A(1) dis by (auto intro!: move simp: bind_Some_iff)
    next
      case Cl_Teardown
      then show "closing target P0 (w', P', pcs(t := pc))" using cs_step(3) p A(1) dis by (auto intro!: move simp: bind_Some_iff)
    next
      case Cl_Free
      then show "closing target P0 (w', P', pcs(t := pc))" using cs_step(3) p A(1) dis by (auto intro!: move simp: bind_Some_iff)
    next
      case (Cl_Done r)
      then have "P' = P" "pc = pcs t" "w' = w" using cs_step(3) by auto
      then show "closing target P0 (w', P', pcs(t := pc))" using I [unfolded cs_step(1)] by simp
    qed
  qed
qed

lemma closing_run:
  assumes "(closers_step target)\<^sup>*\<^sup>* S S'" and "closing target P0 S" and "process_ok P0" and "distinct_targets target"
  shows "closing target P0 S'"
  using assms(1,2) by (induction rule: rtranclp_induct) (auto intro: closing_step [OF _ _ assms(3,4)])

text \<open>No close of a handle of its own reads a freed one.\<close>

lemma closing_safe:
  assumes I: "closing target P0 S" and ok: "process_ok P0" and dt: "distinct_targets target"
  shows "\<not> use_after_free target S"
proof -
  obtain w P pcs where S: "S = (w, P, pcs)" by (metis prod_cases3)
  have "handles P p \<noteq> None" if "reads_handle (pcs t)" "target t = Some p" for t p
  proof -
    have "\<exists>p \<in> set (g_live_handles P0). target t = Some p"
      using I that(1) unfolding S closing_def prod.case by (metis reads_handle.simps(5,7))
    then have p: "p \<in> set (g_live_handles P0)" using that(2) by auto
    then have "p \<in> dom (handles P0)" using ok by (simp add: process_ok_def)
    from closing_at(2) [OF I [unfolded S] dt that(2) p this] that(1) show ?thesis by auto
  qed
  then show ?thesis by (auto simp: use_after_free_def S)
qed

text \<open>When all have returned, each close had the result it has alone, and their handles are gone.\<close>

lemma closing_finished:
  assumes I: "closing target P0 (w, P, pcs)" and ok: "process_ok P0" and dt: "distinct_targets target"
    and fin: "\<And>t p. target t = Some p \<Longrightarrow> pcs t = Cl_Done (res t)"
  shows "target t = Some p \<Longrightarrow> res t = (if p \<in> set (g_live_handles P0) then SQL_RDB_OK else SQL_RDB_ERR_INVALID_HANDLE)"
    and "set (g_live_handles P) = set (g_live_handles P0) - {p. \<exists>t. target t = Some p}"
    and "handles P = handles P0 |` (- {p. \<exists>t. target t = Some p})"
proof -
  note C = I [unfolded closing_def prod.case]
  have T: "pcs t = Cl_Test \<or> (if \<exists>p \<in> set (g_live_handles P0). target t = Some p then \<forall>r. pcs t = Cl_Done r \<longrightarrow> r = SQL_RDB_OK
            else pcs t = Cl_Done SQL_RDB_ERR_INVALID_HANDLE)" for t using C by blast
  have res: "res t = (if p \<in> set (g_live_handles P0) then SQL_RDB_OK else SQL_RDB_ERR_INVALID_HANDLE)" if "target t = Some p" for t p
    using T [of t] that fin [OF that] by (auto split: if_splits)
  then show "target t = Some p \<Longrightarrow> res t = (if p \<in> set (g_live_handles P0) then SQL_RDB_OK else SQL_RDB_ERR_INVALID_HANDLE)" .
  have D: "p \<in> set (g_live_handles P) \<longleftrightarrow> p \<in> set (g_live_handles P0) \<and> (\<forall>t. target t = Some p \<longrightarrow> res t \<noteq> SQL_RDB_OK)"
    "p \<in> dom (handles P) \<longleftrightarrow> p \<in> dom (handles P0) \<and> (\<forall>t. target t = Some p \<longrightarrow> res t \<noteq> SQL_RDB_OK)"
    "(\<forall>t. target t = Some p \<longrightarrow> res t \<noteq> SQL_RDB_OK) \<Longrightarrow> handles P p = handles P0 p" for p
  proof -
    have R: "removed (pcs t) \<longleftrightarrow> res t = SQL_RDB_OK" "killed (pcs t) \<longleftrightarrow> res t = SQL_RDB_OK" "pcs t \<noteq> Cl_Done SQL_RDB_OK \<longleftrightarrow> res t \<noteq> SQL_RDB_OK"
      if "target t = Some p" for t using fin [OF that] by simp_all
    show "p \<in> set (g_live_handles P) \<longleftrightarrow> p \<in> set (g_live_handles P0) \<and> (\<forall>t. target t = Some p \<longrightarrow> res t \<noteq> SQL_RDB_OK)"
      "p \<in> dom (handles P) \<longleftrightarrow> p \<in> dom (handles P0) \<and> (\<forall>t. target t = Some p \<longrightarrow> res t \<noteq> SQL_RDB_OK)"
      "(\<forall>t. target t = Some p \<longrightarrow> res t \<noteq> SQL_RDB_OK) \<Longrightarrow> handles P p = handles P0 p" using C R by (meson)+
  qed
  have live: "set (g_live_handles P0) = dom (handles P0)" using ok by (simp add: process_ok_def)
  show "set (g_live_handles P) = set (g_live_handles P0) - {p. \<exists>t. target t = Some p}"
    using D(1) res by fastforce
  show "handles P = handles P0 |` (- {p. \<exists>t. target t = Some p})"
  proof
    fix p show "handles P p = (handles P0 |` (- {p. \<exists>t. target t = Some p})) p"
    proof (cases "\<exists>t. target t = Some p")
      case True
      then have "p \<notin> dom (handles P)" using D(2) [of p] res live by metis
      then show ?thesis using True by (auto simp: restrict_map_def domIff)
    next
      case False
      then show ?thesis using D(3) [of p] by (simp add: restrict_map_def)
    qed
  qed
qed

section \<open>Two closes of one handle\<close>

text \<open>
  The removal ignores that the handle is no longer in the table. A second thread that has made its two
  tests before the first one removes the handle goes on to write to it after it has been freed.
\<close>

lemma close_run_steps:
  assumes "close_run n (target t) (pcs t) w P = Some (pc, w', P')"
  shows "(closers_step target)\<^sup>*\<^sup>* (w, P, pcs) (w', P', pcs(t := pc))"
  using assms
proof (induction n arbitrary: pcs w P)
  case (Suc n)
  then obtain pc1 w1 P1 where s: "close_step (target t) (pcs t) w P = Some (pc1, w1, P1)"
    "close_run n (target t) ((pcs(t := pc1)) t) w1 P1 = Some (pc, w', P')" by (auto simp: bind_Some_iff)
  have "closers_step target (w, P, pcs) (w1, P1, pcs(t := pc1))" using cs_step [where target = target and t = t and pcs = pcs, OF s(1)] .
  moreover have "(closers_step target)\<^sup>*\<^sup>* (w1, P1, pcs(t := pc1)) (w', P', (pcs(t := pc1))(t := pc))"
    by (rule Suc.IH) (rule s(2))
  ultimately show ?case by (simp only: fun_upd_upd)
next
  case 0
  then have "pcs(t := pc) = pcs" by auto
  with 0 show ?case by simp
qed

lemma close_race:
  assumes p: "handles P p = Some h" "magic h = SQL_RDB_HANDLE_MAGIC" "p \<in> set (g_live_handles P)"
    and t: "target 0 = Some p" "target 1 = Some p"
    and alone: "SqlRDBClose (Some p) w P = Some (SQL_RDB_OK, w', P')"
  shows "\<exists>S. (closers_step target)\<^sup>*\<^sup>* (w, P, \<lambda>_. Cl_Test) S \<and> write_after_free target S"
proof -
  let ?i = "\<lambda>_ :: nat. Cl_Test"
  let ?b = "?i(1 := Cl_Remove)"
  have "close_run 2 (target 1) (?i 1) w P = Some (Cl_Remove, w, P)"
    using p t by (simp add: eval_nat_numeral live_contains_def)
  from close_run_steps [where target = target and t = 1 and pcs = ?i, OF this] have s1: "(closers_step target)\<^sup>*\<^sup>* (w, P, ?i) (w, P, ?b)" .
  have "close_run 6 (target 0) (?b 0) w P = Some (Cl_Done SQL_RDB_OK, w', P')"
    using alone t close_alone [of "Some p" w P] by simp
  from close_run_steps [where target = target and t = 0 and pcs = ?b, OF this] have s2: "(closers_step target)\<^sup>*\<^sup>* (w, P, ?b) (w', P', ?b(0 := Cl_Done SQL_RDB_OK))" .
  have "close_run 1 (target 1) ((?b(0 := Cl_Done SQL_RDB_OK)) 1) w' P' = Some (Cl_Kill, w', snd (live_remove p P'))"
    using t by simp
  from close_run_steps [where target = target and t = 1 and pcs = "?b(0 := Cl_Done SQL_RDB_OK)", OF this]
  have s3: "(closers_step target)\<^sup>*\<^sup>* (w', P', ?b(0 := Cl_Done SQL_RDB_OK)) (w', snd (live_remove p P'), (?b(0 := Cl_Done SQL_RDB_OK))(1 := Cl_Kill))" .
  have "handles P' p = None" using alone p
    by (auto simp: SqlRDBClose_def live_contains_def Let_def bind_Some_iff split: option.splits if_splits)
  then have "write_after_free target (w', snd (live_remove p P'), (?b(0 := Cl_Done SQL_RDB_OK))(1 := Cl_Kill))"
    unfolding write_after_free_def prod.case using t by (intro exI [of _ 1] exI [of _ 0] exI [of _ p]) simp
  then show ?thesis using rtranclp_trans [OF rtranclp_trans [OF s1 s2] s3] by blast
qed

end
