(* ===== verification/Generated.thy ===== *)
theory Generated
  imports Engine Service
begin

text \<open>
  The units under \<^verbatim>\<open>generated/\<close>: the column tables of two structs, their registration helpers
  and the write of \<^verbatim>\<open>sessions\<close> that respects a maximum number of records. Offsets and sizes are
  computed from the members, as a C compiler for a 64-bit target lays them out.
\<close>

section \<open>Struct layout\<close>

text \<open>A member: its size and alignment.\<close>

type_synonym c_member = "nat \<times> nat"

definition c_int32 :: c_member where "c_int32 = (4, 4)"
definition c_double :: c_member where "c_double = (8, 8)"
definition c_chars :: "nat \<Rightarrow> c_member" where "c_chars n = (n, 1)"

definition align_up :: "nat \<Rightarrow> nat \<Rightarrow> nat" where
  "align_up n a = (n + a - 1) div a * a"

fun layout :: "nat \<Rightarrow> c_member list \<Rightarrow> nat list" where
  "layout pos [] = []"
| "layout pos ((sz, al) # ms) = align_up pos al # layout (align_up pos al + sz) ms"

fun layout_end :: "nat \<Rightarrow> c_member list \<Rightarrow> nat" where
  "layout_end pos [] = pos"
| "layout_end pos ((sz, al) # ms) = layout_end (align_up pos al + sz) ms"

definition offsetof :: "c_member list \<Rightarrow> nat \<Rightarrow> nat" where
  "offsetof ms k = layout 0 ms ! k"

definition sizeof :: "c_member list \<Rightarrow> nat" where
  "sizeof ms = align_up (layout_end 0 ms) (Max (set (map snd ms)))"

section \<open>\<^verbatim>\<open>persons\<close>\<close>

definition Person :: "c_member list" where
  "Person = [c_int32, c_chars 32, c_double]"

definition PERSONS_COL_COUNT :: nat where "PERSONS_COL_COUNT = 3"

definition PERSONS_COLS :: "column_arg list" where
  "PERSONS_COLS =
     [\<lparr>col_name = Some ''id'', col_type = SQL_TYPE_INT32, col_offset = offsetof Person 0, col_size = fst (Person ! 0),
       col_flags = SQL_COL_FLAG_PRIMARY_KEY\<rparr>,
      \<lparr>col_name = Some ''name'', col_type = SQL_TYPE_TEXT, col_offset = offsetof Person 1, col_size = fst (Person ! 1), col_flags = 0\<rparr>,
      \<lparr>col_name = Some ''score'', col_type = SQL_TYPE_REAL, col_offset = offsetof Person 2, col_size = fst (Person ! 2),
       col_flags = SQL_COL_FLAG_NULLABLE\<rparr>]"

definition RegisterPersons :: "'w SqlRDBHandle \<Rightarrow> 'w \<Rightarrow> mem \<Rightarrow> (SqlRDBResult \<times> 'w SqlRDBHandle \<times> 'w \<times> mem) option" where
  "RegisterPersons h w m = SqlRDBRegisterStruct h (Some ''persons'') (Some PERSONS_COLS) PERSONS_COL_COUNT w m"

section \<open>\<^verbatim>\<open>sessions\<close>\<close>

definition Session :: "c_member list" where
  "Session = [c_int32, c_chars 64]"

definition SESSIONS_COL_COUNT :: nat where "SESSIONS_COL_COUNT = 2"

definition SESSIONS_MAX_RECORDS :: nat where "SESSIONS_MAX_RECORDS = 3"

definition SESSIONS_COLS :: "column_arg list" where
  "SESSIONS_COLS =
     [\<lparr>col_name = Some ''id'', col_type = SQL_TYPE_INT32, col_offset = offsetof Session 0, col_size = fst (Session ! 0),
       col_flags = SQL_COL_FLAG_PRIMARY_KEY\<rparr>,
      \<lparr>col_name = Some ''token'', col_type = SQL_TYPE_TEXT, col_offset = offsetof Session 1, col_size = fst (Session ! 1), col_flags = 0\<rparr>]"

definition RegisterSessions :: "'w SqlRDBHandle \<Rightarrow> 'w \<Rightarrow> mem \<Rightarrow> (SqlRDBResult \<times> 'w SqlRDBHandle \<times> 'w \<times> mem) option" where
  "RegisterSessions h w m = SqlRDBRegisterStruct h (Some ''sessions'') (Some SESSIONS_COLS) SESSIONS_COL_COUNT w m"

text \<open>The tree a function reads through a \<^verbatim>\<open>const SqlRDBCondition *\<close>.\<close>

partial_function (option) read_cond :: "(ptr \<rightharpoonup> cond_node) \<Rightarrow> ptr \<Rightarrow> SqlRDBCondition option" where
  "read_cond N p =
     (case N p of
        None \<Rightarrow> None
      | Some (NODE_LEAF c oper v) \<Rightarrow> Some (COND_LEAF c oper v)
      | Some NODE_ALL \<Rightarrow> Some COND_ALL
      | Some (NODE_AND l r) \<Rightarrow> do { a \<leftarrow> read_cond N l; b \<leftarrow> read_cond N r; Some (COND_AND a b) }
      | Some (NODE_OR l r) \<Rightarrow> do { a \<leftarrow> read_cond N l; b \<leftarrow> read_cond N r; Some (COND_OR a b) })"

declare read_cond.simps [code]

lemma read_cond_at: "cond_at N p t A \<Longrightarrow> read_cond N p = Some t"
  by (induction rule: cond_at.induct) (simp_all add: read_cond.simps)

text \<open>The comparison operator \<^verbatim>\<open>SQL_OP_EQ\<close> is 1; \<open>H\<close> is the heap of condition nodes.\<close>

definition WriteSessionsGuarded ::
  "'w SqlRDBHandle \<Rightarrow> char list option \<Rightarrow> null_map \<Rightarrow> 'w \<Rightarrow> mem \<Rightarrow> cond_heap
     \<Rightarrow> (SqlRDBResult \<times> 'w SqlRDBHandle \<times> 'w \<times> mem \<times> cond_heap) option" where
  "WriteSessionsGuarded h row nm w m H =
     (case row of None \<Rightarrow> Some (SQL_RDB_ERR_INVALID_ARG, h, w, m, H)
      | Some bytes \<Rightarrow>
          do {
            (r, h, total, w, m) \<leftarrow> SqlRDBCount h (Some ''sessions'') None (Some 0) w m;
            if r \<noteq> SQL_RDB_OK then Some (r, h, w, m, H)
            else do {
              id \<leftarrow> read_bytes bytes (offsetof Session 0) 4;
              let (pk, H) = SqlRDBCondInt (Some ''id'') 1 (scast (le_word id :: 32 word)) H;
              case pk of None \<Rightarrow> Some (SQL_RDB_ERR_NO_MEMORY, h, w, m, H)
              | Some p \<Rightarrow>
                  do {
                    cond \<leftarrow> read_cond (ch_nodes H) p;
                    (r, h, existing, w, m) \<leftarrow> SqlRDBCount h (Some ''sessions'') (Some cond) (Some 0) w m;
                    nodes \<leftarrow> SqlRDBCondFree pk (ch_nodes H);
                    let H = H\<lparr>ch_nodes := nodes\<rparr>;
                    if r \<noteq> SQL_RDB_OK then Some (r, h, w, m, H)
                    else if existing = Some 0 \<and> (case total of None \<Rightarrow> False | Some n \<Rightarrow> SESSIONS_MAX_RECORDS \<le> n)
                    then Some (SQL_RDB_ERR_CAPACITY_EXCEEDED, h, w, m, H)
                    else do {
                      (r, h, w, m) \<leftarrow> SqlRDBWrite h (Some ''sessions'') row nm w m;
                      Some (r, h, w, m, H)
                    }
                  }
            }
          })"

section \<open>The tables describe the structs\<close>

lemma align_up_bounds: "0 < a \<Longrightarrow> n \<le> align_up n a \<and> a dvd align_up n a"
proof -
  assume a: "0 < a"
  have "n + a - 1 < (n + a - 1) div a * a + a"
    using a dividend_less_div_times [of a "n + a - 1"] by (simp add: add.commute)
  then show ?thesis using a by (auto simp: align_up_def)
qed

text \<open>Members are aligned, ascending and do not overlap; all lie before the end.\<close>

lemma layout_end_ge: "\<forall>m \<in> set ms. 0 < snd m \<Longrightarrow> pos \<le> layout_end pos ms"
proof (induction pos ms rule: layout_end.induct)
  case (2 pos sz al ms)
  then show ?case using align_up_bounds [of al pos] by simp
qed simp

lemma layout_members:
  assumes "\<forall>m \<in> set ms. 0 < snd m" and "k < length ms"
  shows "pos \<le> layout pos ms ! k" and "snd (ms ! k) dvd layout pos ms ! k"
    and "layout pos ms ! k + fst (ms ! k) \<le> layout_end pos ms"
    and "j < k \<Longrightarrow> layout pos ms ! j + fst (ms ! j) \<le> layout pos ms ! k"
proof -
  have "pos \<le> layout pos ms ! k \<and> snd (ms ! k) dvd layout pos ms ! k \<and> layout pos ms ! k + fst (ms ! k) \<le> layout_end pos ms \<and>
    (\<forall>j < k. layout pos ms ! j + fst (ms ! j) \<le> layout pos ms ! k)"
    using assms
  proof (induction pos ms arbitrary: k rule: layout.induct)
    case (2 pos sz al ms)
    have al: "pos \<le> align_up pos al" "al dvd align_up pos al" using 2(2) align_up_bounds [of al pos] by simp_all
    have rest: "\<forall>m \<in> set ms. 0 < snd m" using 2(2) by simp
    show ?case
    proof (cases k)
      case 0
      then show ?thesis using al layout_end_ge [OF rest, of "align_up pos al + sz"] by simp
    next
      case (Suc n)
      with 2(1) [OF rest, of n] 2(3) have I: "align_up pos al + sz \<le> layout (align_up pos al + sz) ms ! n"
        "snd (ms ! n) dvd layout (align_up pos al + sz) ms ! n"
        "layout (align_up pos al + sz) ms ! n + fst (ms ! n) \<le> layout_end (align_up pos al + sz) ms"
        "\<forall>j < n. layout (align_up pos al + sz) ms ! j + fst (ms ! j) \<le> layout (align_up pos al + sz) ms ! n" by auto
      have "layout pos ((sz, al) # ms) ! j + fst (((sz, al) # ms) ! j) \<le> layout (align_up pos al + sz) ms ! n" if "j < Suc n" for j
        using I(1,4) that by (cases j) auto
      then show ?thesis using al(1) I(1-3) Suc by simp
    qed
  qed simp
  then show "pos \<le> layout pos ms ! k" "snd (ms ! k) dvd layout pos ms ! k" "layout pos ms ! k + fst (ms ! k) \<le> layout_end pos ms"
    "j < k \<Longrightarrow> layout pos ms ! j + fst (ms ! j) \<le> layout pos ms ! k" by auto
qed

text \<open>Column \<open>k\<close> of the table is member \<open>k\<close> of the struct, and its type fits the member.\<close>

definition describes :: "c_member list \<Rightarrow> column_arg list \<Rightarrow> bool" where
  "describes ms cols \<longleftrightarrow> length cols = length ms \<and>
     (\<forall>k < length ms. col_offset (cols ! k) = offsetof ms k \<and> col_size (cols ! k) = fst (ms ! k) \<and>
        member_ok (sizeof ms) (owned_column (cols ! k)))"

lemma describes_disjoint:
  assumes "describes ms cols" and "\<forall>m \<in> set ms. 0 < snd m" and "j < k" "k < length cols"
  shows "disjoint_cols (owned_column (cols ! j)) (owned_column (cols ! k))"
  using assms layout_members(4) [OF assms(2), of k j 0] by (auto simp: describes_def disjoint_cols_def owned_column_def offsetof_def)

lemma generated_layouts:
  "offsetof Person 0 = 0" "offsetof Person 1 = 4" "offsetof Person 2 = 40" "sizeof Person = 48"
  "offsetof Session 0 = 0" "offsetof Session 1 = 4" "sizeof Session = 68"
  by code_simp+

lemma generated_describe: "describes Person PERSONS_COLS" "describes Session SESSIONS_COLS"
proof -
  have P: "length PERSONS_COLS = 3" "length Person = 3" "length SESSIONS_COLS = 2" "length Session = 2" by code_simp+
  have three: "k = 0 \<or> k = 1 \<or> k = 2" if "k < (3 :: nat)" for k using that by auto
  have two: "k = 0 \<or> k = 1" if "k < (2 :: nat)" for k using that by auto
  show "describes Person PERSONS_COLS" unfolding describes_def P generated_layouts
    by (auto dest!: three simp: PERSONS_COLS_def generated_layouts [unfolded One_nat_def] member_ok_def owned_column_def INT_MAX_def)
       (simp_all add: Person_def c_int32_def c_double_def c_chars_def)
  show "describes Session SESSIONS_COLS" unfolding describes_def P generated_layouts
    by (auto dest!: two simp: SESSIONS_COLS_def generated_layouts [unfolded One_nat_def] member_ok_def owned_column_def INT_MAX_def)
       (simp_all add: Session_def c_int32_def c_double_def c_chars_def)
qed

lemma generated_schemas_ok: "schema_ok (schema_of ''persons'' PERSONS_COLS)" "schema_ok (schema_of ''sessions'' SESSIONS_COLS)"
  by code_simp+

section \<open>The registration helpers\<close>

text \<open>
  A helper that succeeds has added its schema, and from then on the name of the table leads to it; one
  that fails leaves the schemas as they were.
\<close>

lemma registered_last:
  assumes "registry_ok (registry h)" and "c2sql_handle_valid (Some h)" and "reg_entries (registry h) = es @ [s]"
  shows "registered h (sch_name s) = Some s"
proof -
  have "distinct (map sch_name (es @ [s]))" using assms(1,3) by (simp add: registry_ok_def)
  then have "\<forall>e \<in> set es. sch_name e \<noteq> sch_name s" by (auto intro: rev_image_eqI)
  then have "find (\<lambda>e. sch_name e = sch_name s) (es @ [s]) = Some s" by (induction es) auto
  then show ?thesis using registered_find [OF assms(2)] assms(3) by simp
qed

lemma registered_after:
  assumes "handle_ok h" and "n = length cols"
    and "SqlRDBRegisterStruct h (Some name) (Some cols) n w m = Some (r, h', w', m')"
  shows "if r = SQL_RDB_OK then registered h' name = Some (schema_of name cols) \<and> reg_entries (registry h') = reg_entries (registry h) @ [schema_of name cols]
    else reg_entries (registry h') = reg_entries (registry h)"
proof -
  note P = RegisterStruct_post [OF assms(1) _ assms(3)]
  have "c2sql_handle_valid (Some h')" using P assms(1,2) by (auto simp: registry_only_def handle_ok_def c2sql_handle_valid_def)
  moreover have "sch_name (schema_of name cols) = name" by (simp add: schema_of_def)
  ultimately show ?thesis using P assms(2) registered_last [of h' "reg_entries (registry h)" "schema_of name cols"] by auto
qed

lemma generated_register:
  assumes "handle_ok h"
  shows "RegisterPersons h w m = Some (r, h', w', m') \<Longrightarrow>
      if r = SQL_RDB_OK then registered h' ''persons'' = Some (schema_of ''persons'' PERSONS_COLS)
      else reg_entries (registry h') = reg_entries (registry h)"
    and "RegisterSessions h w m = Some (r, h', w', m') \<Longrightarrow>
      if r = SQL_RDB_OK then registered h' ''sessions'' = Some (schema_of ''sessions'' SESSIONS_COLS)
      else reg_entries (registry h') = reg_entries (registry h)"
proof -
  have len: "PERSONS_COL_COUNT = length PERSONS_COLS" "SESSIONS_COL_COUNT = length SESSIONS_COLS" by code_simp+
  show "RegisterPersons h w m = Some (r, h', w', m') \<Longrightarrow>
      if r = SQL_RDB_OK then registered h' ''persons'' = Some (schema_of ''persons'' PERSONS_COLS)
      else reg_entries (registry h') = reg_entries (registry h)"
    using registered_after [OF assms len(1), of "''persons''"] by (auto simp: RegisterPersons_def split: if_splits)
  show "RegisterSessions h w m = Some (r, h', w', m') \<Longrightarrow>
      if r = SQL_RDB_OK then registered h' ''sessions'' = Some (schema_of ''sessions'' SESSIONS_COLS)
      else reg_entries (registry h') = reg_entries (registry h)"
    using registered_after [OF assms len(2), of "''sessions''"] by (auto simp: RegisterSessions_def split: if_splits)
qed

section \<open>A person as the driver sees it\<close>

text \<open>The value of a \<^verbatim>\<open>struct Person\<close>; a score of \<open>None\<close> is marked NULL.\<close>

record person =
  p_id :: "32 word"
  p_name :: string
  p_score :: "64 word option"

text \<open>
  The bytes hold the person in the layout of the x86-64 ABI: the identifier at 0, the 32 characters of
  the name at 4, four bytes of padding, the score at 40, 48 bytes in all.
\<close>

definition holds_person :: "char list \<Rightarrow> person \<Rightarrow> bool" where
  "holds_person row p \<longleftrightarrow> length row = 48 \<and> le_word (take 4 row) = p_id p \<and>
     takeWhile (\<lambda>c. c \<noteq> NUL) (take 32 (drop 4 row)) = p_name p \<and>
     (\<forall>x. p_score p = Some x \<longrightarrow> le_word (take 8 (drop 40 row)) = x)"

definition marks_score :: "null_map \<Rightarrow> person \<Rightarrow> bool" where
  "marks_score nm p \<longleftrightarrow> c2sql_internal_null_bit_get nm 0 = Some False \<and> c2sql_internal_null_bit_get nm 1 = Some False \<and>
     c2sql_internal_null_bit_get nm 2 = Some (p_score p = None)"

text \<open>The members bound one after the other with the function of their type, up to the first failure.\<close>

definition bind_person :: "'w SqlRDBDriver \<Rightarrow> ptr \<Rightarrow> person \<Rightarrow> char list \<Rightarrow> 'w \<Rightarrow> (SqlRDBResult \<times> 'w) option" where
  "bind_person drv s p text w =
     do {
       (r, w) \<leftarrow> drv_bind_int32 drv s 1 (p_id p) w;
       if r \<noteq> SQL_RDB_OK then Some (r, w)
       else do {
         (r, w) \<leftarrow> drv_bind_text drv s 2 (Some text) (int (length (p_name p))) w;
         if r \<noteq> SQL_RDB_OK then Some (r, w)
         else case p_score p of None \<Rightarrow> drv_bind_null drv s 3 w | Some x \<Rightarrow> drv_bind_real drv s 3 x w
       }
     }"

lemma person_cols:
  "sch_cols (schema_of ''persons'' PERSONS_COLS) =
    [\<lparr>col_name = ''id'', col_type = SQL_TYPE_INT32, col_offset = 0, col_size = 4, col_flags = SQL_COL_FLAG_PRIMARY_KEY\<rparr>,
     \<lparr>col_name = ''name'', col_type = SQL_TYPE_TEXT, col_offset = 4, col_size = 32, col_flags = 0\<rparr>,
     \<lparr>col_name = ''score'', col_type = SQL_TYPE_REAL, col_offset = 40, col_size = 8, col_flags = SQL_COL_FLAG_NULLABLE\<rparr>]"
  by (simp add: schema_of_def PERSONS_COLS_def owned_column_def generated_layouts generated_layouts [unfolded One_nat_def])
     (simp add: Person_def c_int32_def c_double_def c_chars_def)

lemma bind_last: "do { (r, w) \<leftarrow> x; if r \<noteq> SQL_RDB_OK then Some (r, w) else Some (SQL_RDB_OK, w) } = x"
  by (cases x) auto

lemma person_binds:
  assumes "holds_person row p" and "marks_score nm p"
  shows "c2sql_internal_tm_bind_row drv s (schema_of ''persons'' PERSONS_COLS) (Some row) nm w = bind_person drv s p (drop 4 row) w"
    and "take (length (p_name p)) (drop 4 row) = p_name p"
proof -
  have P: "length row = 48" "le_word (take 4 row) = p_id p" "takeWhile (\<lambda>c. c \<noteq> NUL) (take 32 (drop 4 row)) = p_name p"
    "\<And>x. p_score p = Some x \<Longrightarrow> le_word (take 8 (drop 40 row)) = x" using assms(1) by (auto simp: holds_person_def)
  have n: "bounded_strlen (drop 4 row) 32 = Some (length (p_name p))" using bounded_strlen_take [of 32 "drop 4 row"] P(1,3) by simp
  have le: "length (p_name p) \<le> 32" using length_takeWhile_le [of "\<lambda>c. c \<noteq> NUL" "take 32 (drop 4 row)"] P(3) by simp
  then have i: "\<not> INT_MAX < length (p_name p)" by (simp add: INT_MAX_def)
  show "c2sql_internal_tm_bind_row drv s (schema_of ''persons'' PERSONS_COLS) (Some row) nm w = bind_person drv s p (drop 4 row) w"
    using assms(2) P n i
    by (cases "p_score p") (simp_all add: c2sql_internal_tm_bind_row_def person_cols bind_person_def marks_score_def bind_one_def at_offset_def
      read_bytes_def Let_def SQL_COL_FLAG_NULLABLE_def numeral_2_eq_2 bind_last cong: if_cong)
  have "take (length (p_name p)) (take 32 (drop 4 row)) = p_name p" by (metis P(3) takeWhile_eq_take)
  then show "take (length (p_name p)) (drop 4 row) = p_name p" using le by (simp add: min_absorb1)
qed

section \<open>The capacity guard\<close>

definition sessions_schema :: SqlRDBSchema where
  "sessions_schema = schema_of ''sessions'' SESSIONS_COLS"

text \<open>The member \<^verbatim>\<open>id\<close> of a row.\<close>

definition session_id :: "char list \<Rightarrow> 32 word" where
  "session_id row = le_word (take 4 row)"

text \<open>
  What SQL says of the three statements the guard runs, for the set \<open>keys d\<close> of the identifiers in the
  table: the number of rows, the number of rows with a given primary key, and an upsert by primary
  key.
\<close>

definition sessions_table ::
  "(string \<Rightarrow> (int \<Rightarrow> cell option) \<Rightarrow> 'd \<Rightarrow> cell list list \<times> 'd) \<Rightarrow> ('d \<Rightarrow> 32 word set) \<Rightarrow> bool" where
  "sessions_table sem keys \<longleftrightarrow>
     (\<forall>a d. sem ''SELECT COUNT(*) FROM \"sessions\"'' a d = ([[Cell_Int (word_of_nat (card (keys d)))]], d)) \<and>
     (\<forall>a d k. a 1 = Some (Cell_Int (scast k)) \<longrightarrow>
        sem ''SELECT COUNT(*) FROM \"sessions\" WHERE \"id\" = ?'' a d = ([[Cell_Int (if k \<in> keys d then 1 else 0)]], d)) \<and>
     (\<forall>a d k. a 1 = Some (Cell_Int (scast k)) \<longrightarrow>
        keys (snd (sem ''INSERT INTO \"sessions\" (\"id\",\"token\") VALUES (?,?) ON CONFLICT(\"id\") DO UPDATE SET \"token\"=excluded.\"token\"'' a d)) =
          insert k (keys d))"

lemma sessions_texts:
  assumes "drv_dialect drv = C2SQL_DIALECT_SQLITE"
  shows "count_sql drv sessions_schema None = ''SELECT COUNT(*) FROM \"sessions\"''"
    and "count_sql drv sessions_schema (Some (COND_LEAF ''id'' SQL_OP_EQ (CV_int k))) = ''SELECT COUNT(*) FROM \"sessions\" WHERE \"id\" = ?''"
    and "write_sql drv sessions_schema =
      ''INSERT INTO \"sessions\" (\"id\",\"token\") VALUES (?,?) ON CONFLICT(\"id\") DO UPDATE SET \"token\"=excluded.\"token\"''"
proof -
  have "sql_text C2SQL_QB_COUNT (query C2SQL_QB_COUNT sessions_schema None None C2SQL_DIALECT_SQLITE) = ''SELECT COUNT(*) FROM \"sessions\"''"
    by code_simp
  then show "count_sql drv sessions_schema None = ''SELECT COUNT(*) FROM \"sessions\"''" using assms by (simp only: count_sql_def)
  show "count_sql drv sessions_schema (Some (COND_LEAF ''id'' SQL_OP_EQ (CV_int k))) = ''SELECT COUNT(*) FROM \"sessions\" WHERE \"id\" = ?''"
    unfolding count_sql_def assms by code_simp
  have "sql_text (write_op sessions_schema) (query (write_op sessions_schema) sessions_schema None None C2SQL_DIALECT_SQLITE) =
      ''INSERT INTO \"sessions\" (\"id\",\"token\") VALUES (?,?) ON CONFLICT(\"id\") DO UPDATE SET \"token\"=excluded.\"token\"''"
    by code_simp
  then show "write_sql drv sessions_schema =
      ''INSERT INTO \"sessions\" (\"id\",\"token\") VALUES (?,?) ON CONFLICT(\"id\") DO UPDATE SET \"token\"=excluded.\"token\"''"
    using assms by (simp only: write_sql_def)
qed

lemma card_ids: "card (X :: 32 word set) < 2 ^ 63"
proof -
  have "card X \<le> card (UNIV :: 32 word set)" by (rule card_mono) simp_all
  then show ?thesis by (simp add: card_word)
qed

lemma nat_count: "n < 2 ^ 63 \<Longrightarrow> nat (sint (word_of_nat n :: 64 word)) = n"
  using int_word_sint [where x = "int n" and 'a = 64] by simp

text \<open>The row of the struct, its optional bitmap not marking the key as NULL.\<close>

definition session_row :: "char list \<Rightarrow> null_map \<Rightarrow> bool" where
  "session_row row nm \<longleftrightarrow> length row = sizeof Session \<and> c2sql_internal_null_bit_get nm 0 = Some False \<and>
     c2sql_internal_null_bit_get nm 1 \<noteq> None"

lemma session_cols: "sch_cols sessions_schema = map owned_column SESSIONS_COLS" "length (sch_cols sessions_schema) = 2"
  by code_simp+

lemma session_members:
  assumes "length row = sizeof Session"
  shows "\<forall>c \<in> set (sch_cols sessions_schema). member_ok (length row) c \<and> col_size c < 2 ^ 31"
proof -
  have len: "length SESSIONS_COLS = 2" "length Session = 2" by code_simp+
  have "col_size c < 2 ^ 31" if "c \<in> set (map owned_column SESSIONS_COLS)" for c
    using that by (auto simp: SESSIONS_COLS_def owned_column_def Session_def c_int32_def c_chars_def)
  moreover have "member_ok (sizeof Session) c" if "c \<in> set (map owned_column SESSIONS_COLS)" for c
    using that generated_describe(2) len by (auto simp: describes_def in_set_conv_nth)
  ultimately show ?thesis using assms session_cols(1) by simp
qed

lemma session_first_cell:
  assumes "length row = sizeof Session" and "\<not> nulls 0"
  shows "row_cells nulls 0 (sch_cols sessions_schema) row ! 0 = Cell_Int (scast (session_id row))"
    and "0 < length (row_cells nulls 0 (sch_cols sessions_schema) row)"
proof -
  have "fst (Session ! 0) = 4" by code_simp
  then show "row_cells nulls 0 (sch_cols sessions_schema) row ! 0 = Cell_Int (scast (session_id row))"
    "0 < length (row_cells nulls 0 (sch_cols sessions_schema) row)"
    using assms by (simp_all add: row_cells_def session_cols(1) SESSIONS_COLS_def owned_column_def column_cell_def region_def
      session_id_def generated_layouts)
qed

context sql_engine begin

text \<open>A count leaves the data alone and is right when it succeeds.\<close>

lemma sessions_count:
  assumes rdy: "engine_ready drv ctx live obs h w F" and dialect: "drv_dialect drv = C2SQL_DIALECT_SQLITE"
    and reg: "registered h ''sessions'' = Some sessions_schema" and tab: "sessions_table sem keys"
    and c: "cond = None \<and> n = card (keys (data w)) \<or>
      cond = Some (COND_LEAF ''id'' SQL_OP_EQ (CV_int (scast k))) \<and> n = (if k \<in> keys (data w) then 1 else 0)"
    and run: "SqlRDBCount h (Some ''sessions'') cond (Some 0) w m = Some (r, h', out, w', m')"
  shows "engine_ready drv ctx live obs h' w' F" and "registered h' ''sessions'' = Some sessions_schema" and "data w' = data w"
    and "r = SQL_RDB_OK \<Longrightarrow> out = Some n"
proof -
  have idle: "mutex_idle (mutex h)" using rdy by (simp add: engine_ready_def)
  have fits: "cond_fits cond" using c by (auto simp: cond_fits_def)
  have E: "holds_sql live obs h' w' F {}"
    "executed sem (count_sql drv sessions_schema cond) (cond_cells cond) r (data w) (data w') (\<lambda>rows. reported rows 0 out)"
    using ensuresD [OF Count_engine [OF rdy reg fits] run] by simp_all
  note K = ready_after [OF rdy ensuresD [OF Count_frame [OF idle] run, simplified] E(1)]
  show "engine_ready drv ctx live obs h' w' F" "registered h' ''sessions'' = Some sessions_schema" using K reg by simp_all
  have n: "n < 2 ^ 63" using c card_ids by auto
  have R: "rows = [[Cell_Int (word_of_nat n)]] \<and> data w' = data w"
    if "ran_with sem (count_sql drv sessions_schema cond) (cond_cells cond) (data w) rows (data w')" for rows
    using c
  proof (elim disjE conjE)
    assume "cond = None" "n = card (keys (data w))"
    then show ?thesis using that tab by (auto simp: ran_with_def sessions_texts [OF dialect] sessions_table_def)
  next
    assume "cond = Some (COND_LEAF ''id'' SQL_OP_EQ (CV_int (scast k)))" "n = (if k \<in> keys (data w) then 1 else 0)"
    then show ?thesis using that tab by (auto simp: ran_with_def sessions_texts [OF dialect] sessions_table_def cond_cells_def)
  qed
  show "data w' = data w" using E(2) R by (auto simp: executed_def)
  show "out = Some n" if ok: "r = SQL_RDB_OK"
  proof -
    obtain rows where "rows = [[Cell_Int (word_of_nat n)]]" "reported rows 0 out" using E(2) R ok by (auto simp: executed_def)
    then have "out = Some (nat (sint (word_of_nat n :: 64 word)))" by (simp only: reported_def)
    then show ?thesis using nat_count [OF n] by simp
  qed
qed

lemma sessions_write:
  assumes rdy: "engine_ready drv ctx live obs h w F" and dialect: "drv_dialect drv = C2SQL_DIALECT_SQLITE"
    and reg: "registered h ''sessions'' = Some sessions_schema" and tab: "sessions_table sem keys" and row: "session_row row nm"
    and run: "SqlRDBWrite h (Some ''sessions'') (Some row) nm w m = Some (r, h', w', m')"
  shows "engine_ready drv ctx live obs h' w' F" and "registered h' ''sessions'' = Some sessions_schema"
    and "if r = SQL_RDB_OK then keys (data w') = insert (session_id row) (keys (data w)) else data w' = data w"
proof -
  have idle: "mutex_idle (mutex h)" using rdy by (simp add: engine_ready_def)
  define nulls where "nulls k = the (c2sql_internal_null_bit_get nm k)" for k
  have nl: "\<forall>k < length (sch_cols sessions_schema). c2sql_internal_null_bit_get nm k = Some (nulls k)" "\<not> nulls 0"
    using row by (auto simp: session_row_def session_cols(2) nulls_def less_2_cases_iff)
  have len: "length row = sizeof Session" using row by (simp add: session_row_def)
  have E: "holds_sql live obs h' w' F {}" "if r = SQL_RDB_OK then \<exists>rows. ran_with sem (write_sql drv sessions_schema)
      (row_cells nulls 0 (sch_cols sessions_schema) row) (data w) rows (data w') else data w' = data w"
    using ensuresD [OF Write_engine [OF rdy reg session_members [OF len] nl(1)] run] by simp_all
  note K = ready_after [OF rdy ensuresD [OF Write_frame [OF idle] run, simplified] E(1)]
  show "engine_ready drv ctx live obs h' w' F" "registered h' ''sessions'' = Some sessions_schema" using K reg by simp_all
  show "if r = SQL_RDB_OK then keys (data w') = insert (session_id row) (keys (data w)) else data w' = data w"
  proof (cases "r = SQL_RDB_OK")
    case True
    then obtain a rows where a: "\<forall>k < length (row_cells nulls 0 (sch_cols sessions_schema) row).
        a (1 + int k) = Some (row_cells nulls 0 (sch_cols sessions_schema) row ! k)"
      "sem (write_sql drv sessions_schema) a (data w) = (rows, data w')" using E(2) by (auto simp: ran_with_def)
    have "a 1 = Some (Cell_Int (scast (session_id row)))" using a(1) [THEN spec, of 0] session_first_cell [where nulls = nulls, OF len nl(2)] by simp
    then have "keys (snd (sem (write_sql drv sessions_schema) a (data w))) = insert (session_id row) (keys (data w))"
      using tab unfolding sessions_texts(3) [OF dialect] by (simp add: sessions_table_def)
    then show ?thesis using True a(2) by simp
  qed (use E(2) in simp)
qed

text \<open>
  A guarded write that succeeds has added the identifier, and did so only for an identifier that was in
  the table or below the maximum; one that fails has changed nothing. The condition it builds is
  freed.
\<close>

lemma guarded_write:
  assumes rdy: "engine_ready drv ctx live obs h w F" and dialect: "drv_dialect drv = C2SQL_DIALECT_SQLITE"
    and reg: "registered h ''sessions'' = Some sessions_schema" and tab: "sessions_table sem keys" and row: "session_row row nm"
    and heap: "cond_heap_ok H" and run: "WriteSessionsGuarded h (Some row) nm w m H = Some (r, h', w', m', H')"
  shows "engine_ready drv ctx live obs h' w' F \<and> registered h' ''sessions'' = Some sessions_schema \<and>
    cond_heap_ok H' \<and> ch_nodes H' = ch_nodes H \<and>
    (if r = SQL_RDB_OK
     then keys (data w') = insert (session_id row) (keys (data w)) \<and>
       (session_id row \<in> keys (data w) \<or> card (keys (data w)) < SESSIONS_MAX_RECORDS)
     else data w' = data w)"
proof -
  obtain r1 h1 total w1 m1 where c1: "SqlRDBCount h (Some ''sessions'') None (Some 0) w m = Some (r1, h1, total, w1, m1)"
    using run by (auto simp: WriteSessionsGuarded_def bind_Some_iff)
  note C1 = sessions_count [OF rdy dialect reg tab disjI1 [OF conjI [OF refl refl]] c1]
  show ?thesis
  proof (cases "r1 = SQL_RDB_OK")
    case False
    then show ?thesis using run c1 C1 heap by (auto simp: WriteSessionsGuarded_def)
  next
    case True
    have "read_bytes row 0 4 = Some (take 4 row)" using row by (simp add: read_bytes_def session_row_def generated_layouts)
    then have id: "read_bytes row (offsetof Session 0) 4 = Some (take 4 row)" by (simp add: generated_layouts)
    obtain pk H1 where pk: "SqlRDBCondInt (Some ''id'') 1 (scast (session_id row)) H = (pk, H1)" by fastforce
    have st: "store_node (NODE_LEAF ''id'' SQL_OP_EQ (CV_int (scast (session_id row)))) (alloc_node H) = (pk, H1)"
      using pk by (simp add: SqlRDBCondInt_def SqlRDBOp_of_int_def)
    show ?thesis
    proof (cases pk)
      case None
      have "cond_heap_ok H1" "ch_nodes H1 = ch_nodes H" using st None heap
        by (auto simp: store_node_def alloc_node_def cond_heap_ok_def split: prod.splits if_splits option.splits)
      moreover have "(r, h', w', m', H') = (SQL_RDB_ERR_NO_MEMORY, h1, w1, m1, H1)"
        using run c1 True id pk None by (simp add: WriteSessionsGuarded_def session_id_def)
      ultimately show ?thesis using C1 by simp
    next
      case (Some p)
      let ?c = "COND_LEAF ''id'' SQL_OP_EQ (CV_int (scast (session_id row)))"
      have B: "built H ?c p H1" using built_leaf [OF heap st [unfolded Some]] by simp
      have rc: "read_cond (ch_nodes H1) p = Some ?c" using B read_cond_at by (auto simp: built_def)
      have fr: "SqlRDBCondFree pk (ch_nodes H1) = Some (ch_nodes H)" using built_free [OF B] Some by simp
      let ?H2 = "H1\<lparr>ch_nodes := ch_nodes H\<rparr>"
      have H2: "cond_heap_ok ?H2" "ch_nodes ?H2 = ch_nodes H"
        using heap st Some by (auto simp: store_node_def alloc_node_def cond_heap_ok_def less_SucI split: prod.splits if_splits option.splits)
      obtain r2 h2 existing w2 m2 where c2: "SqlRDBCount h1 (Some ''sessions'') (Some ?c) (Some 0) w1 m1 = Some (r2, h2, existing, w2, m2)"
        using run c1 True id pk Some rc by (auto simp: WriteSessionsGuarded_def session_id_def bind_Some_iff)
      note C2 = sessions_count [OF C1(1) dialect C1(2) tab disjI2 [OF conjI [OF refl refl]] c2]
      show ?thesis
      proof (cases "r2 = SQL_RDB_OK")
        case False
        then have "(r, h', w', m', H') = (r2, h2, w2, m2, ?H2)"
          using run c1 True id pk Some rc c2 fr by (simp add: WriteSessionsGuarded_def session_id_def)
        then show ?thesis using False C1(3) C2 H2 by simp
      next
        case ok: True
        note ans = C1(4) [OF True] C2(4) [OF ok]
        show ?thesis
        proof (cases "session_id row \<notin> keys (data w) \<and> SESSIONS_MAX_RECORDS \<le> card (keys (data w))")
          case True
          then have "(r, h', w', m', H') = (SQL_RDB_ERR_CAPACITY_EXCEEDED, h2, w2, m2, ?H2)"
            using run c1 \<open>r1 = SQL_RDB_OK\<close> id pk Some rc c2 fr ok ans C1(3) by (simp add: WriteSessionsGuarded_def session_id_def)
          then show ?thesis using C1(3) C2 H2 by simp
        next
          case False
          then have "SqlRDBWrite h2 (Some ''sessions'') (Some row) nm w2 m2 = Some (r, h', w', m')" "H' = ?H2"
            using run c1 True id pk Some rc c2 fr ok ans C1(3)
            by (auto simp: WriteSessionsGuarded_def session_id_def bind_Some_iff split: if_splits)
          with sessions_write [OF C2(1) dialect C2(2) tab row this(1)] False show ?thesis using C1(3) C2(3) H2 by auto
        qed
      qed
    qed
  qed
qed

end

section \<open>The capacity over time\<close>

text \<open>
  One caller working on the table with guarded writes, deletes and counts. What the memory manager
  answers may differ from call to call.
\<close>

inductive guarded_run :: "('w SqlRDBHandle \<times> 'w \<times> cond_heap) \<Rightarrow> ('w SqlRDBHandle \<times> 'w \<times> cond_heap) \<Rightarrow> bool" where
  gr_start: "guarded_run s s"
| gr_write: "guarded_run s (h, w, H) \<Longrightarrow> session_row row nm \<Longrightarrow>
    WriteSessionsGuarded h (Some row) nm w m H = Some (r, h', w', m', H') \<Longrightarrow> guarded_run s (h', w', H')"
| gr_delete: "guarded_run s (h, w, H) \<Longrightarrow> cond_fits (Some c) \<Longrightarrow>
    SqlRDBDelete h (Some ''sessions'') (Some c) out w m = Some (r, h', out', w', m') \<Longrightarrow> guarded_run s (h', w', H)"
| gr_count: "guarded_run s (h, w, H) \<Longrightarrow>
    SqlRDBCount h (Some ''sessions'') None (Some 0) w m = Some (r, h', n, w', m') \<Longrightarrow> guarded_run s (h', w', H)"

text \<open>A \<^verbatim>\<open>DELETE\<close> on the table removes rows and adds none.\<close>

definition deletes_remove ::
  "'w SqlRDBDriver \<Rightarrow> (string \<Rightarrow> (int \<Rightarrow> cell option) \<Rightarrow> 'd \<Rightarrow> cell list list \<times> 'd) \<Rightarrow> ('d \<Rightarrow> 32 word set) \<Rightarrow> bool" where
  "deletes_remove drv sem keys \<longleftrightarrow> (\<forall>c a d. keys (snd (sem (delete_sql drv sessions_schema (Some c)) a d)) \<subseteq> keys d)"

lemma card_ids_mono: "A \<subseteq> B \<Longrightarrow> card (A :: 32 word set) \<le> card B"
  by (rule card_mono) simp_all

context sql_engine begin

lemma sessions_delete:
  assumes rdy: "engine_ready drv ctx live obs h w F" and reg: "registered h ''sessions'' = Some sessions_schema"
    and del: "deletes_remove drv sem keys" and fits: "cond_fits (Some c)"
    and run: "SqlRDBDelete h (Some ''sessions'') (Some c) out w m = Some (r, h', out', w', m')"
  shows "engine_ready drv ctx live obs h' w' F" and "registered h' ''sessions'' = Some sessions_schema"
    and "keys (data w') \<subseteq> keys (data w)"
proof -
  have idle: "mutex_idle (mutex h)" using rdy by (simp add: engine_ready_def)
  have E: "holds_sql live obs h' w' F {}" "if r = SQL_RDB_OK
      then \<exists>rows. ran_with sem (delete_sql drv sessions_schema (Some c)) (cond_cells (Some c)) (data w) rows (data w') else data w' = data w"
    using ensuresD [OF Delete_engine [OF rdy reg fits] run] by simp_all
  note K = ready_after [OF rdy ensuresD [OF Delete_frame [OF idle] run, simplified] E(1)]
  show "engine_ready drv ctx live obs h' w' F" "registered h' ''sessions'' = Some sessions_schema" using K reg by simp_all
  have "keys (data w') \<subseteq> keys (data w)" if "sem (delete_sql drv sessions_schema (Some c)) a (data w) = (rows, data w')" for a rows
  proof -
    have "data w' = snd (sem (delete_sql drv sessions_schema (Some c)) a (data w))" using that by simp
    then show ?thesis using del unfolding deletes_remove_def by simp
  qed
  then show "keys (data w') \<subseteq> keys (data w)" using E(2) by (auto simp: ran_with_def split: if_splits)
qed

lemma guarded_run_capacity:
  assumes "guarded_run s s'" and "s = (h, w, H)" and "s' = (h', w', H')"
    and "engine_ready drv ctx live obs h w F" and "drv_dialect drv = C2SQL_DIALECT_SQLITE"
    and "registered h ''sessions'' = Some sessions_schema" and "sessions_table sem keys" and "deletes_remove drv sem keys"
    and "cond_heap_ok H" and "card (keys (data w)) \<le> SESSIONS_MAX_RECORDS"
  shows "engine_ready drv ctx live obs h' w' F \<and> registered h' ''sessions'' = Some sessions_schema \<and>
    cond_heap_ok H' \<and> ch_nodes H' = ch_nodes H \<and> card (keys (data w')) \<le> SESSIONS_MAX_RECORDS"
  using assms
proof (induction arbitrary: h' w' H' rule: guarded_run.induct)
  case (gr_write s h1 w1 H1 row nm m r h2 w2 m2 H2)
  have I: "engine_ready drv ctx live obs h1 w1 F \<and> registered h1 ''sessions'' = Some sessions_schema \<and>
    cond_heap_ok H1 \<and> ch_nodes H1 = ch_nodes H \<and> card (keys (data w1)) \<le> SESSIONS_MAX_RECORDS"
    by (rule gr_write.IH [OF gr_write.prems(1) refl gr_write.prems(3-)])
  from guarded_write [OF _ gr_write.prems(4) _ gr_write.prems(6) gr_write.hyps(2) _ gr_write.hyps(3), where F = F] I
  have G: "engine_ready drv ctx live obs h2 w2 F \<and> registered h2 ''sessions'' = Some sessions_schema \<and>
    cond_heap_ok H2 \<and> ch_nodes H2 = ch_nodes H1 \<and>
    (if r = SQL_RDB_OK
     then keys (data w2) = insert (session_id row) (keys (data w1)) \<and>
       (session_id row \<in> keys (data w1) \<or> card (keys (data w1)) < SESSIONS_MAX_RECORDS)
     else data w2 = data w1)" by blast
  have "card (keys (data w2)) \<le> SESSIONS_MAX_RECORDS"
    using G I by (cases "r = SQL_RDB_OK") (auto simp: insert_absorb card_insert_if)
  then show ?case using G I gr_write.prems(2) by simp
next
  case (gr_delete s h1 w1 H1 c out m r h2 out' w2 m2)
  have I: "engine_ready drv ctx live obs h1 w1 F \<and> registered h1 ''sessions'' = Some sessions_schema \<and>
    cond_heap_ok H1 \<and> ch_nodes H1 = ch_nodes H \<and> card (keys (data w1)) \<le> SESSIONS_MAX_RECORDS"
    by (rule gr_delete.IH [OF gr_delete.prems(1) refl gr_delete.prems(3-)])
  note D = sessions_delete [OF I [THEN conjunct1] I [THEN conjunct2, THEN conjunct1] gr_delete.prems(7) gr_delete.hyps(2,3)]
  show ?case using D(1,2) card_ids_mono [OF D(3)] I gr_delete.prems(2) by auto
next
  case (gr_count s h1 w1 H1 m r h2 n w2 m2)
  have I: "engine_ready drv ctx live obs h1 w1 F \<and> registered h1 ''sessions'' = Some sessions_schema \<and>
    cond_heap_ok H1 \<and> ch_nodes H1 = ch_nodes H \<and> card (keys (data w1)) \<le> SESSIONS_MAX_RECORDS"
    by (rule gr_count.IH [OF gr_count.prems(1) refl gr_count.prems(3-)])
  note C = sessions_count [OF I [THEN conjunct1] gr_count.prems(4) I [THEN conjunct2, THEN conjunct1] gr_count.prems(6)
    disjI1 [OF conjI [OF refl refl]] gr_count.hyps(2)]
  show ?case using C(1-3) I gr_count.prems(2) by auto
qed auto

end

end
