(* ===== verification/Batch_Write.thy ===== *)
theory Batch_Write
  imports Nested_Transactions
begin

text \<open>
  \<^verbatim>\<open>SqlRDBWriteMany\<close> outside a transaction. The rows are written inside a transaction of its
  own, which a failing row rolls back: with a database whose \<^verbatim>\<open>COMMIT\<close> and
  \<^verbatim>\<open>ROLLBACK\<close> work, all rows are written or none.
\<close>

section \<open>The database behind the row calls\<close>

definition same_db :: "('w \<Rightarrow> 'd) \<Rightarrow> ('w \<Rightarrow> (string \<times> 'd) list) \<Rightarrow> 'w \<Rightarrow> 'w \<Rightarrow> bool" where
  "same_db data saved w w' \<longleftrightarrow> data w' = data w \<and> saved w' = saved w"

lemma same_db_refl [simp]: "same_db data saved w w"
  by (simp add: same_db_def)

lemma same_db_trans: "same_db data saved w w1 \<Longrightarrow> same_db data saved w1 w2 \<Longrightarrow> same_db data saved w w2"
  by (simp add: same_db_def)

text \<open>
  Preparing, binding, resetting and finalizing change no data. Stepping a statement of the library may
  change data. It opens or closes no savepoint, since the library prepares no transaction command, except
  that a failing step may roll the whole transaction back; after that a \<^verbatim>\<open>ROLLBACK\<close> has
  nothing left to do.
\<close>

definition rolled_back :: "('w \<Rightarrow> 'd) \<Rightarrow> ('w \<Rightarrow> (string \<times> 'd) list) \<Rightarrow> 'w \<Rightarrow> 'w \<Rightarrow> bool" where
  "rolled_back data saved w w' \<longleftrightarrow> saved w \<noteq> [] \<and> data w' = snd (last (saved w)) \<and> saved w' = []"

locale batch_driver = sql_txn_driver drv for drv :: "'w SqlRDBDriver" +
  fixes ctx :: ptr and data :: "'w \<Rightarrow> 'd" and saved :: "'w \<Rightarrow> (string \<times> 'd) list"
  assumes database: "txn_database drv ctx data saved"
    and prepare_same: "ensures (drv_prepare drv ctx sql w) (\<lambda>(r, st, w'). same_db data saved w w')"
    and finalize_same: "ensures (drv_finalize drv s w) (\<lambda>(r, w'). same_db data saved w w')"
    and reset_same: "ensures (drv_reset drv s w) (\<lambda>(r, w'). same_db data saved w w')"
    and step_saved: "ensures (drv_step drv s w) (\<lambda>(r, b, w'). saved w' = saved w \<or> r \<noteq> SQL_RDB_OK \<and> rolled_back data saved w w')"
    and rollback_outside: "saved w = [] \<Longrightarrow> ensures (drv_exec drv ctx ''ROLLBACK'' w) (\<lambda>(r, w'). same_db data saved w w')"
    and bind_int64_same: "ensures (drv_bind_int64 drv s i v64 w) (\<lambda>(r, w'). same_db data saved w w')"
    and bind_int32_same: "ensures (drv_bind_int32 drv s i v32 w) (\<lambda>(r, w'). same_db data saved w w')"
    and bind_real_same: "ensures (drv_bind_real drv s i v64 w) (\<lambda>(r, w'). same_db data saved w w')"
    and bind_text_same: "ensures (drv_bind_text drv s i t n w) (\<lambda>(r, w'). same_db data saved w w')"
    and bind_blob_same: "ensures (drv_bind_blob drv s i t k w) (\<lambda>(r, w'). same_db data saved w w')"
    and bind_null_same: "ensures (drv_bind_null drv s i w) (\<lambda>(r, w'). same_db data saved w w')"
begin

section \<open>Acquiring and releasing the statement\<close>

lemma finalize_if_same: "finalize_if (Some drv) s w = Some w' \<Longrightarrow> same_db data saved w w'"
  using ensuresD [OF finalize_same] by (fastforce simp: finalize_if_def bind_Some_iff)

lemma entry_finalize_same: "entry_finalize_and_free c e (Some drv) w = Some (c', w') \<Longrightarrow> same_db data saved w w'"
  using finalize_if_same by (auto simp: entry_finalize_and_free_def bind_Some_iff)

lemma evict_same: "evict_lru_tail c (Some drv) w = Some (c', w') \<Longrightarrow> same_db data saved w w'"
  by (auto simp: evict_lru_tail_def bind_Some_iff dest: entry_finalize_same split: option.split_asm)

lemma cache_insert_same: "cache_insert c sql s (Some drv) w m = Some (r, c', w', m') \<Longrightarrow> same_db data saved w w'"
  by (auto simp: cache_insert_def split_beta Let_def bind_Some_iff dest!: finalize_if_same split: if_split_asm)

lemma cache_put_same:
  assumes "c2sql_internal_cache_put c sql s (Some drv) w m = Some (r, c', w', m')"
  shows "same_db data saved w w'"
proof (cases "capacity c = 0")
  case True
  then show ?thesis using assms by (auto simp: c2sql_internal_cache_put_def bind_Some_iff dest: finalize_if_same)
next
  case False
  then obtain e where e: "bucket_find c (bucket_index c sql) sql = Some e" using assms by (auto simp: c2sql_internal_cache_put_def bind_Some_iff)
  show ?thesis
  proof (cases e)
    case None
    then obtain c1 w1 where "(if unat (capacity c) \<le> size_of c then evict_lru_tail c (Some drv) w else Some (c, w)) = Some (c1, w1)"
      "cache_insert c1 sql s (Some drv) w1 m = Some (r, c', w', m')"
      using assms False e by (auto simp: c2sql_internal_cache_put_def bind_Some_iff)
    then show ?thesis by (auto dest!: evict_same cache_insert_same intro: same_db_trans split: if_split_asm)
  next
    case (Some p)
    then show ?thesis using assms False e by (auto simp: c2sql_internal_cache_put_def bind_Some_iff dest: finalize_if_same)
  qed
qed

lemma get_or_prepare_same:
  assumes h: "driver h = Some drv" "driver_ctx h = Some ctx" and run: "get_or_prepare h sql w m = Some (r, st, owned, h', w', m')"
  shows "same_db data saved w w'"
proof -
  obtain r0 s0 c0 where g: "c2sql_internal_cache_get (cache h) sql = Some (r0, s0, c0)" using run by (auto simp: get_or_prepare_def Let_def bind_Some_iff)
  show ?thesis
  proof (cases "r0 = SQL_RDB_OK")
    case True
    then show ?thesis using run g by (simp add: get_or_prepare_def)
  next
    case False
    then obtain r1 s1 w1 where p: "drv_prepare drv ctx sql w = Some (r1, s1, w1)" using run g h by (auto simp: get_or_prepare_def Let_def bind_Some_iff)
    have P: "same_db data saved w w1" using ensuresD [OF prepare_same p] by simp
    show ?thesis
    proof (cases "r1 \<noteq> SQL_RDB_OK \<or> capacity c0 = 0")
      case True
      then show ?thesis using run g h False p P by (auto simp: get_or_prepare_def Let_def split: if_split_asm)
    next
      case put: False
      then obtain s2 r2 c2 w2 m2 where "c2sql_internal_cache_put c0 sql s2 (Some drv) w1 m = Some (r2, c2, w2, m2)" "w' = w2"
        using run g h False p by (auto simp: get_or_prepare_def Let_def bind_Some_iff split: if_split_asm)
      then show ?thesis using same_db_trans [OF P cache_put_same] by simp
    qed
  qed
qed

lemma build_and_get_same:
  assumes "driver h = Some drv" and "driver_ctx h = Some ctx" and "build_and_get h spec w m = Some (r, st, h', w', m')"
  shows "same_db data saved w w' \<and> driver h' = Some drv \<and> txn h' = txn h"
  using assms get_or_prepare_same ensuresD [OF get_or_prepare_frame]
  by (fastforce simp: build_and_get_def bind_Some_iff keeps_handle_def split: if_splits)

lemma release_same: "driver h = Some drv \<Longrightarrow> release_cached_stmt h s owned w = Some w' \<Longrightarrow> same_db data saved w w'"
  using ensuresD [OF finalize_same] ensuresD [OF reset_same] by (fastforce simp: release_cached_stmt_def bind_Some_iff split: if_splits)

section \<open>The rows\<close>

lemma bind_one_same: "ensures (bind_one drv s i col row w) (\<lambda>(r, w'). same_db data saved w w')"
  unfolding bind_one_def
  by (cases "col_type col") (auto simp: Let_def bind_int32_same bind_int64_same bind_real_same bind_text_same bind_blob_same
    intro!: ensuresI [where x = "at_offset a b" for a b] ensuresI [where x = "read_bytes a b c" for a b c] ensuresI [where x = "bounded_strlen a b" for a b])

lemma bind_cols_saved: "ensures (bind_cols drv s i cols row nm w) (\<lambda>(r, w'). saved w' = saved w)"
proof (induction cols arbitrary: i w)
  case (Cons col cols)
  have "ensures (bind_one drv s (int i + 1) col row w) (\<lambda>(r, w'). saved w' = saved w)"
    "ensures (drv_bind_null drv s (int i + 1) w) (\<lambda>(r, w'). saved w' = saved w)"
    by (auto intro!: ensures_mono [OF bind_one_same] ensures_mono [OF bind_null_same] simp: same_db_def)
  then show ?case using Cons.IH
    by (auto simp: ensures_def bind_Some_iff split: if_split_asm)
qed simp

lemma write_rows_saved:
  "ensures (write_rows drv s schema rows stride nms i n w) (\<lambda>(r, w'). saved w' = saved w \<or> r \<noteq> SQL_RDB_OK \<and> rolled_back data saved w w')"
proof (induction n arbitrary: i w)
  case (Suc n)
  show ?case
  proof (rule ensuresI, simp only: split_paired_all prod.case)
    fix r w' assume run: "write_rows drv s schema rows stride nms i (Suc n) w = Some (r, w')"
    obtain row nm r1 w1 where a: "at_offset rows (i * stride) = Some row"
      "(case nms of None \<Rightarrow> Some None
        | Some bs \<Rightarrow> if i * SQL_RDB_NULL_BITMAP_BYTES (length (sch_cols schema)) \<le> length bs
            then Some (Some (drop (i * SQL_RDB_NULL_BITMAP_BYTES (length (sch_cols schema))) bs)) else None) = Some nm"
      and b: "c2sql_internal_tm_bind_row drv s schema (Some row) nm w = Some (r1, w1)"
      using run by (auto simp: Let_def bind_Some_iff)
    have B: "saved w1 = saved w" using b ensuresD [OF bind_cols_saved] by (fastforce simp: c2sql_internal_tm_bind_row_def)
    show "saved w' = saved w \<or> r \<noteq> SQL_RDB_OK \<and> rolled_back data saved w w'"
    proof (cases "r1 = SQL_RDB_OK")
      case False
      then show ?thesis using run a B b by (simp add: Let_def)
    next
      case True
      then obtain r2 x w2 r3 w3 where t: "drv_step drv s w1 = Some (r2, x, w2)" "drv_reset drv s w2 = Some (r3, w3)"
        and rest: "if r2 \<noteq> SQL_RDB_OK then r = r2 \<and> w' = w3 else write_rows drv s schema rows stride nms (Suc i) n w3 = Some (r, w')"
        using run a b by (auto simp: Let_def bind_Some_iff split: if_splits)
      have D: "same_db data saved w2 w3" using ensuresD [OF reset_same t(2)] by simp
      have S: "saved w2 = saved w \<or> r2 \<noteq> SQL_RDB_OK \<and> rolled_back data saved w w2"
        using ensuresD [OF step_saved t(1)] B by (simp add: rolled_back_def)
      show ?thesis
      proof (cases "r2 = SQL_RDB_OK")
        case True
        then have "saved w3 = saved w" using S D by (simp add: same_db_def)
        moreover from True rest have "write_rows drv s schema rows stride nms (Suc i) n w3 = Some (r, w')" by simp
        ultimately show ?thesis using ensuresD [OF Suc.IH] by (fastforce simp: rolled_back_def)
      next
        case False
        then show ?thesis using S D rest by (auto simp: same_db_def rolled_back_def)
      qed
    qed
  qed
qed simp

section \<open>All rows or none\<close>

lemma WriteMany_body:
  assumes w: "saved w = []" and g: "driver g = Some drv" "driver_ctx g = Some ctx"
    and works: "\<And>v. saved v \<noteq> [] \<Longrightarrow> ensures (drv_exec drv ctx ''COMMIT'' v) (\<lambda>(r, v'). r = SQL_RDB_OK)"
      "\<And>v. saved v \<noteq> [] \<Longrightarrow> ensures (drv_exec drv ctx ''ROLLBACK'' v) (\<lambda>(r, v'). r = SQL_RDB_OK)"
    and b: "build_and_get g spec w m = Some (r0, Some (s, owned), g1, w1, m1)" and t: "drv_begin drv ctx w1 = Some (br, w2)"
    and fail: "br \<noteq> SQL_RDB_OK \<Longrightarrow> release_cached_stmt g1 s owned w2 = Some w' \<and> r = br"
    and go: "br = SQL_RDB_OK \<Longrightarrow> \<exists>w3 r2 w4. write_rows drv s schema bytes stride nms 0 n w2 = Some (r, w3) \<and>
      (if r = SQL_RDB_OK then drv_commit drv ctx w3 else drv_rollback drv ctx w3) = Some (r2, w4) \<and>
      release_cached_stmt g1 s owned w4 = Some w'"
  shows "saved w' = [] \<and> (r \<noteq> SQL_RDB_OK \<longrightarrow> data w' = data w)"
proof -
  have B: "same_db data saved w w1" "driver g1 = Some drv" using build_and_get_same [OF g b] by auto
  then have e: "command_effect data saved w1 (drv_exec drv ctx ''BEGIN'' w1) (data w, [('''', data w)])"
    using txn_databaseD(1) [OF database, of w1] w by (simp add: same_db_def)
  show ?thesis
  proof (cases "br = SQL_RDB_OK")
    case False
    then have "(data w2, saved w2) = (data w, [])" using effectD [OF e t [unfolded begin_sql]] B w by (simp add: same_db_def)
    then show ?thesis using fail [OF False] release_same [OF B(2)] by (auto simp: same_db_def)
  next
    case True
    then have b2: "saved w2 = [('''', data w)]" using effectD [OF e t [unfolded begin_sql]] by simp
    obtain w3 r2 w4 where R: "write_rows drv s schema bytes stride nms 0 n w2 = Some (r, w3)"
      "(if r = SQL_RDB_OK then drv_commit drv ctx w3 else drv_rollback drv ctx w3) = Some (r2, w4)"
      "release_cached_stmt g1 s owned w4 = Some w'" using go [OF True] by blast
    have s3: "saved w3 = [('''', data w)] \<or> r \<noteq> SQL_RDB_OK \<and> saved w3 = [] \<and> data w3 = data w"
      using ensuresD [OF write_rows_saved R(1)] b2 by (auto simp: rolled_back_def)
    have "saved w4 = [] \<and> (r \<noteq> SQL_RDB_OK \<longrightarrow> data w4 = data w)"
    proof (cases "r = SQL_RDB_OK")
      case True
      then have c: "drv_exec drv ctx ''COMMIT'' w3 = Some (r2, w4)" using R(2) by (simp add: commit_sql)
      moreover have "saved w3 = [('''', data w)]" using s3 True by simp
      ultimately show ?thesis using True ensuresD [OF works(1) c] effectD [OF txn_databaseD(2) [OF database] c] by simp
    next
      case False
      then have c: "drv_exec drv ctx ''ROLLBACK'' w3 = Some (r2, w4)" using R(2) by (simp add: rollback_sql)
      show ?thesis
      proof (cases "saved w3 = []")
        case True
        then show ?thesis using ensuresD [OF rollback_outside [OF True] c] s3 by (simp add: same_db_def)
      next
        case False
        then show ?thesis using ensuresD [OF works(2) c] effectD [OF txn_databaseD(3) [OF database] c] s3 by simp
      qed
    qed
    then show ?thesis using release_same [OF B(2) R(3)] by (simp add: same_db_def)
  qed
qed

lemma WriteMany_all_or_nothing:
  assumes h: "driver h = Some drv" "driver_ctx h = Some ctx" "txn_depth (txn h) = 0" and w: "saved w = []"
    and works: "\<And>v. saved v \<noteq> [] \<Longrightarrow> ensures (drv_exec drv ctx ''COMMIT'' v) (\<lambda>(r, v'). r = SQL_RDB_OK)"
      "\<And>v. saved v \<noteq> [] \<Longrightarrow> ensures (drv_exec drv ctx ''ROLLBACK'' v) (\<lambda>(r, v'). r = SQL_RDB_OK)"
    and run: "SqlRDBWriteMany h name rows n stride nms w m = Some (r, h', w', m')"
  shows "saved w' = [] \<and> (r \<noteq> SQL_RDB_OK \<longrightarrow> data w' = data w)"
proof -
  let ?Q = "\<lambda>r (h' :: 'w SqlRDBHandle) (w', m' :: mem). saved w' = [] \<and> (r \<noteq> SQL_RDB_OK \<longrightarrow> data w' = data w)"
  have body: "ensures (case st of None \<Rightarrow> Some (r0, g1, w1, m1)
       | Some (stmt, owned) \<Rightarrow>
           do {
             let implicit_tx = (txn_depth (txn g1) = 0);
             (br, w) \<leftarrow> (if implicit_tx then drv_begin drv ctx w1 else Some (SQL_RDB_OK, w1));
             if br \<noteq> SQL_RDB_OK then do { w \<leftarrow> release_cached_stmt g1 stmt owned w; Some (br, g1, w, m1) }
             else do {
               (r, w) \<leftarrow> write_rows drv stmt schema bytes stride nms 0 n w;
               (r2, w) \<leftarrow> (if implicit_tx then if r = SQL_RDB_OK then drv_commit drv ctx w else drv_rollback drv ctx w
                          else Some (SQL_RDB_OK, w));
               w \<leftarrow> release_cached_stmt g1 stmt owned w;
               Some (r, g1, w, m1)
             }
           }) (\<lambda>(r, g, x). \<forall>y. ?Q r (g\<lparr>mutex := y\<rparr>) x)"
    if b: "build_and_get (h\<lparr>mutex := x\<rparr>) (query (write_op schema) schema None None (drv_dialect drv)) w m = Some (r0, st, g1, w1, m1)"
    for x schema bytes r0 st g1 w1 m1
  proof -
    have g: "driver (h\<lparr>mutex := x\<rparr>) = Some drv" "driver_ctx (h\<lparr>mutex := x\<rparr>) = Some ctx" using h by simp_all
    have S: "same_db data saved w w1" "txn_depth (txn g1) = 0" using build_and_get_same [OF g b] h(3) by simp_all
    show ?thesis
    proof (cases st)
      case None
      then show ?thesis using S w by (simp add: same_db_def)
    next
      case (Some p)
      obtain s owned where p: "p = (s, owned)" by fastforce
      show ?thesis unfolding Some p option.case prod.case
      proof (rule ensuresI, clarify, goal_cases)
        case (1 r2 g2 w2 m2 y)
        obtain br v where t: "drv_begin drv ctx w1 = Some (br, v)" using 1 S(2) by (auto simp: bind_Some_iff)
        show ?case
          by (rule WriteMany_body [OF w g works b [unfolded Some p] t]) (use 1 S(2) t in \<open>auto simp: bind_Some_iff split: if_split_asm\<close>)
      qed
    qed
  qed
  have "ensures (SqlRDBWriteMany h name rows n stride nms w m) (\<lambda>(r, h', w', m'). ?Q r h' (w', m'))"
  proof (cases "c2sql_handle_valid (Some h) \<and> (\<exists>nm bs. name = Some nm \<and> rows = Some bs) \<and> n \<noteq> 0 \<and> stride \<noteq> 0")
    case False
    then show ?thesis using w by (auto simp: SqlRDBWriteMany_def split: option.splits)
  next
    case True
    then obtain nm bs where a: "c2sql_handle_valid (Some h)" "name = Some nm" "rows = Some bs" "n \<noteq> 0" "stride \<noteq> 0" by blast
    have d: "driver (h\<lparr>mutex := x\<rparr>) = Some drv" "driver_ctx (h\<lparr>mutex := x\<rparr>) = Some ctx" for x using h by simp_all
    show ?thesis unfolding SqlRDBWriteMany_def a(2,3) option.case prod.case
    proof (simp only: a not_True_eq_False if_False simp_thms, rule locked_ensures [where P = ?Q],
        rule with_schema_ensures [where P = "\<lambda>r g s. \<forall>y. ?Q r (g\<lparr>mutex := y\<rparr>) s"], goal_cases)
      case (2 x schema)
      show ?case unfolding d Option.bind.simps by (rule ensures_bindI, rule ensuresI, clarify, rule body)
    qed (use w in simp)
  qed
  from ensuresD [OF this run] show ?thesis by simp
qed

end

end
