(* ===== verification/Sqlite_Batch.thy ===== *)
theory Sqlite_Batch
  imports Batch_Write Sqlite_Driver
begin

text \<open>
  The SQLite driver meets \<open>batch_driver\<close> when preparing, binding, resetting and finalizing change no data,
  stepping opens or closes no savepoint except that a failing step may roll the transaction back, and a
  \<^verbatim>\<open>ROLLBACK\<close> outside a transaction changes nothing.
\<close>

definition api_same :: "('s \<Rightarrow> 'd) \<Rightarrow> ('s \<Rightarrow> (string \<times> 'd) list) \<Rightarrow> 's \<Rightarrow> (sqlite_rc \<times> 's) option \<Rightarrow> bool" where
  "api_same data saved w x \<longleftrightarrow> ensures x (\<lambda>(rc, w'). same_db data saved w w')"

definition sqlite_levels :: "'s sqlite3_api \<Rightarrow> ptr \<Rightarrow> ('s \<Rightarrow> 'd) \<Rightarrow> ('s \<Rightarrow> (string \<times> 'd) list) \<Rightarrow> bool" where
  "sqlite_levels api db data saved \<longleftrightarrow>
     (\<forall>sql w. ensures (sqlite3_prepare_v2 api db sql w) (\<lambda>(rc, st, w'). same_db data saved w w')) \<and>
     (\<forall>s w. api_same data saved w (sqlite3_finalize api s w)) \<and>
     (\<forall>s w. api_same data saved w (sqlite3_reset api s w)) \<and>
     (\<forall>s w. ensures (sqlite3_step api s w) (\<lambda>(rc, w'). saved w' = saved w \<or>
        rc \<noteq> SQLITE_ROW \<and> rc \<noteq> SQLITE_DONE \<and> rolled_back data saved w w')) \<and>
     (\<forall>w. saved w = [] \<longrightarrow> api_same data saved w (sqlite3_exec api db ''ROLLBACK'' w)) \<and>
     (\<forall>s i v w. api_same data saved w (sqlite3_bind_int64 api s i v w)) \<and>
     (\<forall>s i v w. api_same data saved w (sqlite3_bind_int api s i v w)) \<and>
     (\<forall>s i v w. api_same data saved w (sqlite3_bind_double api s i v w)) \<and>
     (\<forall>s i t n w. api_same data saved w (sqlite3_bind_text api s i t n w)) \<and>
     (\<forall>s i t n w. api_same data saved w (sqlite3_bind_blob api s i t n w)) \<and>
     (\<forall>s i w. api_same data saved w (sqlite3_bind_null api s i w))"

lemma api_same_mapped: "api_same data saved w x \<Longrightarrow> ensures (mapped x) (\<lambda>(r, w'). same_db data saved w w')"
  by (auto simp: api_same_def mapped_def ensures_def bind_Some_iff)

lemma sqlite_prepare_same:
  assumes "sqlite_levels api db data saved"
  shows "ensures (sqlite_prepare api db sql w) (\<lambda>(r, st, w'). same_db data saved w w')"
proof -
  have "ensures (sqlite3_prepare_v2 api db sql w) (\<lambda>(rc, st, w'). same_db data saved w w')"
    using assms by (simp add: sqlite_levels_def)
  then show ?thesis unfolding sqlite_prepare_def ensures_simps by (rule ensures_mono) (auto split: if_splits)
qed

lemma sqlite_step_saved:
  assumes "sqlite_levels api db data saved"
  shows "ensures (sqlite_step api s w) (\<lambda>(r, b, w'). saved w' = saved w \<or> r \<noteq> SQL_RDB_OK \<and> rolled_back data saved w w')"
proof -
  have "ensures (sqlite3_step api s w) (\<lambda>(rc, w'). saved w' = saved w \<or> rc \<noteq> SQLITE_ROW \<and> rc \<noteq> SQLITE_DONE \<and> rolled_back data saved w w')"
    using assms by (simp add: sqlite_levels_def)
  then show ?thesis unfolding sqlite_step_def ensures_simps by (rule ensures_mono) (auto split: if_splits)
qed

lemma sqlite_batch_driver:
  assumes "txn_database (g_sqlite3_driver api) db data saved" and L: "sqlite_levels api db data saved"
  shows "batch_driver (g_sqlite3_driver api) db data saved"
proof (rule batch_driver.intro [OF sqlite_txn.sql_txn_driver_axioms], unfold_locales)
  show "txn_database (g_sqlite3_driver api) db data saved" by (rule assms(1))
  fix s w sql
  show "ensures (drv_prepare (g_sqlite3_driver api) db sql w) (\<lambda>(r, st, w'). same_db data saved w w')"
    using sqlite_prepare_same [OF L] by (simp add: g_sqlite3_driver_def)
  show "ensures (drv_step (g_sqlite3_driver api) s w) (\<lambda>(r, b, w'). saved w' = saved w \<or> r \<noteq> SQL_RDB_OK \<and> rolled_back data saved w w')"
    using sqlite_step_saved [OF L] by (simp add: g_sqlite3_driver_def)
qed (use L in \<open>simp_all add: sqlite_levels_def sqlite_thin_ops api_same_mapped\<close>)

end
