(* ===== verification/Small_Database.thy ===== *)
theory Small_Database
  imports Examples Postgres_Total Sqlite_Total Sqlite_Engine Engine_Read Nested_Transactions Threads Close_Race Generated Sqlite_Batch
begin

text \<open>
  A small SQLite that executes what the capacity guard and the transaction calls send it: statements
  with their texts and bound values, a table of identifiers and a stack of savepoints. It satisfies all
  that the development asks of sqlite3, so the contracts of the drivers have instances.
\<close>

section \<open>The database\<close>

text \<open>Two tables of integers: the identifiers of \<^verbatim>\<open>sessions\<close>, and \<^verbatim>\<open>item\<close> with its key and quantity.\<close>

type_synonym small_data = "32 word list \<times> (64 word \<times> 64 word) list"

record small_stmt =
  ss_sql :: string
  ss_args :: "int \<Rightarrow> cell option"
  ss_rows :: "64 word list list option"

record small_db =
  sd_stmts :: "ptr \<Rightarrow> small_stmt"
  sd_open :: "ptr list"
  sd_next :: ptr
  sd_data :: small_data
  sd_saved :: "(string \<times> small_data) list"

definition small_live :: "small_db \<Rightarrow> ptr set" where
  "small_live w = {p \<in> set (sd_open w). p < sd_next w}"

definition small_obs :: "small_db \<Rightarrow> ptr \<Rightarrow> stmt_obs" where
  "small_obs w s =
     \<lparr>so_sql = ss_sql (sd_stmts w s), so_args = ss_args (sd_stmts w s), so_rows = map_option (map (map Cell_Int)) (ss_rows (sd_stmts w s))\<rparr>"

definition int_arg :: "(int \<Rightarrow> cell option) \<Rightarrow> int \<Rightarrow> 64 word option" where
  "int_arg a i = (case a i of Some (Cell_Int v) \<Rightarrow> Some v | _ \<Rightarrow> None)"

definition run_sessions :: "string \<Rightarrow> 64 word \<Rightarrow> 32 word list \<Rightarrow> 64 word list list \<times> 32 word list" where
  "run_sessions sql v d =
     (if sql = ''SELECT COUNT(*) FROM \"sessions\" WHERE \"id\" = ?'' then ([[if ucast v \<in> set d then 1 else 0]], d)
      else if take 23 sql = ''INSERT INTO \"sessions\" '' then ([], if ucast v \<in> set d then d else ucast v # d)
      else if take 6 sql = ''DELETE'' then ([], filter (\<lambda>x. x \<noteq> ucast v) d)
      else ([], d))"

definition run_item :: "string \<Rightarrow> 64 word \<Rightarrow> 64 word \<Rightarrow> (64 word \<times> 64 word) list \<Rightarrow> 64 word list list \<times> (64 word \<times> 64 word) list" where
  "run_item sql k q d =
     (if sql = ''SELECT \"id\",\"qty\" FROM \"item\" WHERE \"id\" = ?'' then (map (\<lambda>(x, y). [x, y]) (filter (\<lambda>e. fst e = k) d), d)
      else if take 19 sql = ''INSERT INTO \"item\" '' then ([], (k, q) # filter (\<lambda>e. fst e \<noteq> k) d)
      else ([], d))"

definition small_run :: "string \<Rightarrow> (int \<Rightarrow> cell option) \<Rightarrow> small_data \<Rightarrow> 64 word list list \<times> small_data" where
  "small_run sql a d =
     (if sql = ''SELECT COUNT(*) FROM \"sessions\"'' then ([[word_of_nat (length (remdups (fst d)))]], d)
      else case int_arg a 1 of None \<Rightarrow> ([], d)
      | Some v \<Rightarrow>
          (case run_sessions sql v (fst d) of (rows1, d1) \<Rightarrow>
            (case run_item sql v (case int_arg a 2 of None \<Rightarrow> 0 | Some q \<Rightarrow> q) (snd d) of (rows2, d2) \<Rightarrow> (rows1 @ rows2, (d1, d2)))))"

definition small_sem :: "string \<Rightarrow> (int \<Rightarrow> cell option) \<Rightarrow> small_data \<Rightarrow> cell list list \<times> small_data" where
  "small_sem sql a d = (case small_run sql a d of (rows, d') \<Rightarrow> (map (map Cell_Int) rows, d'))"

definition set_stmt_at :: "ptr \<Rightarrow> small_stmt \<Rightarrow> small_db \<Rightarrow> small_db" where
  "set_stmt_at s x w = w\<lparr>sd_stmts := (sd_stmts w)(s := x)\<rparr>"

definition small_prepare :: "ptr \<Rightarrow> string \<Rightarrow> small_db \<Rightarrow> (sqlite_rc \<times> ptr option \<times> small_db) option" where
  "small_prepare db sql w =
     (let p = sd_next w in
      Some (SQLITE_OK, Some p, (set_stmt_at p \<lparr>ss_sql = sql, ss_args = (\<lambda>_. None), ss_rows = None\<rparr> w)
        \<lparr>sd_open := p # sd_open w, sd_next := Suc p\<rparr>))"

definition small_finalize :: "ptr \<Rightarrow> small_db \<Rightarrow> (sqlite_rc \<times> small_db) option" where
  "small_finalize s w = Some (SQLITE_OK, w\<lparr>sd_open := filter (\<lambda>p. p \<noteq> s) (sd_open w)\<rparr>)"

definition small_reset :: "ptr \<Rightarrow> small_db \<Rightarrow> (sqlite_rc \<times> small_db) option" where
  "small_reset s w = Some (SQLITE_OK, set_stmt_at s ((sd_stmts w s)\<lparr>ss_rows := None\<rparr>) w)"

definition small_bind :: "ptr \<Rightarrow> int \<Rightarrow> cell \<Rightarrow> small_db \<Rightarrow> (sqlite_rc \<times> small_db) option" where
  "small_bind s i c w = Some (SQLITE_OK, set_stmt_at s ((sd_stmts w s)\<lparr>ss_args := (ss_args (sd_stmts w s))(i \<mapsto> c)\<rparr>) w)"

definition small_step :: "ptr \<Rightarrow> small_db \<Rightarrow> (sqlite_rc \<times> small_db) option" where
  "small_step s w =
     (case ss_rows (sd_stmts w s) of
        None \<Rightarrow>
          (case small_run (ss_sql (sd_stmts w s)) (ss_args (sd_stmts w s)) (sd_data w) of (rows, d) \<Rightarrow>
             Some (if rows = [] then SQLITE_DONE else SQLITE_ROW,
               (set_stmt_at s ((sd_stmts w s)\<lparr>ss_rows := Some rows\<rparr>) w)\<lparr>sd_data := d\<rparr>))
      | Some rows \<Rightarrow>
          Some (if tl rows = [] then SQLITE_DONE else SQLITE_ROW, set_stmt_at s ((sd_stmts w s)\<lparr>ss_rows := Some (tl rows)\<rparr>) w))"

definition small_cell :: "ptr \<Rightarrow> int \<Rightarrow> small_db \<Rightarrow> cell" where
  "small_cell s i w = (case current small_obs w s i of None \<Rightarrow> Cell_Null | Some c \<Rightarrow> c)"

definition strip_prefix :: "string \<Rightarrow> string \<Rightarrow> string option" where
  "strip_prefix p s = (if take (length p) s = p then Some (drop (length p) s) else None)"

definition small_exec :: "ptr \<Rightarrow> string \<Rightarrow> small_db \<Rightarrow> (sqlite_rc \<times> small_db) option" where
  "small_exec db sql w = Some
     (if sql = ''BEGIN'' then
        (if sd_saved w = [] then (SQLITE_OK, w\<lparr>sd_saved := [('''', sd_data w)]\<rparr>) else (SQLITE_OTHER 1, w))
      else if sql = ''COMMIT'' then (if sd_saved w = [] then (SQLITE_OTHER 1, w) else (SQLITE_OK, w\<lparr>sd_saved := []\<rparr>))
      else if sql = ''ROLLBACK'' then
        (if sd_saved w = [] then (SQLITE_OTHER 1, w) else (SQLITE_OK, w\<lparr>sd_data := snd (last (sd_saved w)), sd_saved := []\<rparr>))
      else case strip_prefix ''SAVEPOINT '' sql of Some n \<Rightarrow> (SQLITE_OK, w\<lparr>sd_saved := (n, sd_data w) # sd_saved w\<rparr>)
      | None \<Rightarrow> (case strip_prefix ''RELEASE SAVEPOINT '' sql of
          Some n \<Rightarrow> (case dropWhile (\<lambda>e. fst e \<noteq> n) (sd_saved w) of
              [] \<Rightarrow> (SQLITE_OTHER 1, w) | e # older \<Rightarrow> (SQLITE_OK, w\<lparr>sd_saved := older\<rparr>))
        | None \<Rightarrow> (case strip_prefix ''ROLLBACK TO SAVEPOINT '' sql of
            Some n \<Rightarrow> (case dropWhile (\<lambda>e. fst e \<noteq> n) (sd_saved w) of
                [] \<Rightarrow> (SQLITE_OTHER 1, w) | e # older \<Rightarrow> (SQLITE_OK, w\<lparr>sd_data := snd e, sd_saved := e # older\<rparr>))
          | None \<Rightarrow> (SQLITE_OK, w))))"

definition small_sqlite :: "small_db sqlite3_api" where
  "small_sqlite =
     \<lparr>sqlite3_open_v2 = (\<lambda>dsn w. (SQLITE_OK, Some 0, w)),
      sqlite3_close_v2 = (\<lambda>db w. Some (SQLITE_OK, w)),
      sqlite3_exec = small_exec,
      sqlite3_changes = (\<lambda>db w. Some 1),
      sqlite3_prepare_v2 = small_prepare,
      sqlite3_bind_int64 = (\<lambda>s i v. small_bind s i (Cell_Int v)),
      sqlite3_bind_int = (\<lambda>s i v. small_bind s i (Cell_Int (scast v))),
      sqlite3_bind_double = (\<lambda>s i v. small_bind s i (Cell_Real v)),
      sqlite3_bind_text = (\<lambda>s i v n. small_bind s i (case v of None \<Rightarrow> Cell_Null | Some mem \<Rightarrow> text_cell mem n)),
      sqlite3_bind_blob = (\<lambda>s i v n. small_bind s i (case v of None \<Rightarrow> Cell_Null | Some mem \<Rightarrow> Cell_Blob (take (nat n) mem))),
      sqlite3_bind_null = (\<lambda>s i. small_bind s i Cell_Null),
      sqlite3_step = small_step,
      sqlite3_column_int64 = (\<lambda>s i w. Some (demo_int (small_cell s i w), w)),
      sqlite3_column_double = (\<lambda>s i w. Some (demo_int (small_cell s i w), w)),
      sqlite3_column_text = (\<lambda>s i w. Some (None, w)),
      sqlite3_column_blob = (\<lambda>s i w. Some (None, w)),
      sqlite3_column_bytes = (\<lambda>s i w. Some (0, w)),
      sqlite3_column_isnull = (\<lambda>s i w. Some (small_cell s i w = Cell_Null)),
      sqlite3_reset = small_reset,
      sqlite3_finalize = small_finalize\<rparr>"

section \<open>What it satisfies\<close>

lemma small_upd [simp]:
  "sd_stmts (set_stmt_at s x w) = (sd_stmts w)(s := x)" "sd_data (set_stmt_at s x w) = sd_data w" "sd_saved (set_stmt_at s x w) = sd_saved w"
  "sd_next (set_stmt_at s x w) = sd_next w" "sd_open (set_stmt_at s x w) = sd_open w"
  "small_live (set_stmt_at s x w) = small_live w" "small_live (w\<lparr>sd_data := d\<rparr>) = small_live w" "small_live (w\<lparr>sd_saved := v\<rparr>) = small_live w"
  by (simp_all add: set_stmt_at_def small_live_def)

lemma small_opens: "sqlite_opens small_sqlite small_live"
  by (auto simp: sqlite_opens_def small_sqlite_def small_prepare_def small_finalize_def small_live_def Let_def)

lemma small_step_live: "small_step s w = Some (rc, w') \<Longrightarrow> small_live w' = small_live w"
  by (auto simp: small_step_def split: if_splits prod.splits option.splits)

lemma small_exec_live: "small_exec db sql w = Some (rc, w') \<Longrightarrow> small_live w' = small_live w"
  by (auto simp: small_exec_def split: if_splits option.splits list.splits)

lemma small_keeps: "sqlite_keeps small_sqlite small_live"
proof -
  have "quiet small_live w (small_step s w)" "quiet small_live w (small_exec db sql w)" for s w db sql
    using small_step_live small_exec_live by (auto simp: quiet_def intro!: ensuresI)
  then show ?thesis unfolding sqlite_keeps_def by (simp add: small_sqlite_def quiet_def small_reset_def small_bind_def)
qed

lemma small_connection: "sqlite_connection_answers small_sqlite 0 (\<lambda>w. True)"
  by (simp add: sqlite_connection_answers_def answers_def small_sqlite_def small_prepare_def small_exec_def Let_def split_beta)

lemma small_answers: "sqlite_statements_answer small_sqlite small_live (\<lambda>w. True)"
proof -
  have "answers (\<lambda>w. True) (small_step s w)" for s w
    by (simp add: answers_def small_step_def split: prod.splits option.splits)
  then show ?thesis
    by (simp add: sqlite_statements_answer_def column_answers_def small_sqlite_def small_finalize_def small_reset_def small_bind_def)
       (simp add: answers_def covers_def split_beta)
qed

lemma small_binds: "sqlite_binds small_sqlite small_live small_obs sd_data"
  by (simp add: sqlite_binds_def api_binds_def small_sqlite_def small_bind_def only_stmt_def small_obs_def)

lemma small_executes: "sqlite_executes small_sqlite 0 small_live small_obs sd_data small_sem"
proof -
  have "ensures (small_step s w) (\<lambda>(rc, w').
        (\<forall>q. q \<noteq> s \<longrightarrow> small_obs w' q = small_obs w q) \<and> so_sql (small_obs w' s) = so_sql (small_obs w s) \<and>
        (case so_rows (small_obs w s) of
           None \<Rightarrow>
             (case small_sem (so_sql (small_obs w s)) (so_args (small_obs w s)) (sd_data w) of (rows, d) \<Rightarrow>
                if rc = SQLITE_ROW then sd_data w' = d \<and> rows \<noteq> [] \<and> so_rows (small_obs w' s) = Some rows
                else if rc = SQLITE_DONE then sd_data w' = d \<and> rows = [] \<and> so_rows (small_obs w' s) = Some [] else sd_data w' = sd_data w)
         | Some [] \<Rightarrow> True
         | Some (row # rows) \<Rightarrow> sd_data w' = sd_data w \<and>
             (rc = SQLITE_ROW \<longrightarrow> rows \<noteq> [] \<and> so_rows (small_obs w' s) = Some rows) \<and>
             (rc = SQLITE_DONE \<longrightarrow> rows = [] \<and> so_rows (small_obs w' s) = Some [])))" for s w
    by (cases "ss_rows (sd_stmts w s)") (auto simp: small_step_def small_obs_def small_sem_def split: if_splits prod.splits list.splits)
  then show ?thesis unfolding sqlite_executes_def
    by (auto simp: small_sqlite_def small_prepare_def small_finalize_def small_reset_def only_stmt_def small_live_def small_obs_def Let_def)
qed

lemma small_current: "current small_obs w s i = Some c \<Longrightarrow> \<exists>u. c = Cell_Int u"
  by (auto simp: current_def small_obs_def split: option.splits list.splits if_splits)

lemma small_reads: "sqlite_reads small_sqlite small_live small_obs sd_data"
proof -
  have "current small_obs w s i \<noteq> Some (Cell_Real u)" "current small_obs w s i \<noteq> Some (Cell_Text t)" "current small_obs w s i \<noteq> Some (Cell_Blob t)"
    for w s i u t using small_current by fastforce+
  then show ?thesis
    by (auto simp: sqlite_reads_def small_sqlite_def small_cell_def reads_def only_stmt_def demo_int_def)
qed

interpretation small_total: total_driver "g_sqlite3_driver small_sqlite" small_live 0 "\<lambda>w. True"
  by (rule sqlite_total_driver [OF small_opens small_keeps small_connection small_answers])

interpretation small_engine: sql_engine "g_sqlite3_driver small_sqlite" small_live 0 small_obs sd_data small_sem
  by (rule sqlite_sql_engine [OF small_opens small_keeps small_binds small_executes small_reads])

section \<open>Its tables\<close>

definition session_keys :: "small_data \<Rightarrow> 32 word set" where
  "session_keys d = set (fst d)"

lemma small_table: "sessions_table small_sem session_keys"
proof -
  have "small_sem ''SELECT COUNT(*) FROM \"sessions\"'' a d = ([[Cell_Int (word_of_nat (card (session_keys d)))]], d)" for a d
    by (simp add: small_sem_def small_run_def length_remdups_card_conv session_keys_def)
  moreover have "small_sem ''SELECT COUNT(*) FROM \"sessions\" WHERE \"id\" = ?'' a d = ([[Cell_Int (if k \<in> session_keys d then 1 else 0)]], d)"
    if "a 1 = Some (Cell_Int (scast k))" for a d k
    using that by (simp add: small_sem_def small_run_def int_arg_def run_sessions_def run_item_def ucast_scast session_keys_def)
  moreover have "session_keys (snd (small_sem
      ''INSERT INTO \"sessions\" (\"id\",\"token\") VALUES (?,?) ON CONFLICT(\"id\") DO UPDATE SET \"token\"=excluded.\"token\"'' a d)) =
      insert k (session_keys d)"
    if "a 1 = Some (Cell_Int (scast k))" for a d k
    using that by (auto simp: small_sem_def small_run_def int_arg_def run_sessions_def run_item_def ucast_scast session_keys_def)
  ultimately show ?thesis unfolding sessions_table_def by blast
qed

lemma small_deletes: "deletes_remove drv small_sem session_keys"
  unfolding deletes_remove_def
proof (intro allI)
  fix c a d
  have "\<exists>t. delete_sql drv sessions_schema (Some c) = ''DELETE'' @ t"
    by (simp add: delete_sql_def query_def sql_text.simps)
  then obtain t where "delete_sql drv sessions_schema (Some c) = ''DELETE'' @ t" by blast
  then show "session_keys (snd (small_sem (delete_sql drv sessions_schema (Some c)) a d)) \<subseteq> session_keys d"
    by (auto simp: small_sem_def small_run_def run_sessions_def session_keys_def split: option.splits prod.splits)
qed

lemma strip_prefix_append [simp]: "strip_prefix p (p @ s) = Some s"
  by (simp add: strip_prefix_def)

lemma strip_others [simp]:
  "strip_prefix ''SAVEPOINT '' (''RELEASE SAVEPOINT '' @ s) = None" "strip_prefix ''SAVEPOINT '' (''ROLLBACK TO SAVEPOINT '' @ s) = None"
  "strip_prefix ''RELEASE SAVEPOINT '' (''ROLLBACK TO SAVEPOINT '' @ s) = None"
  by (simp_all add: strip_prefix_def)

lemma newest_named: "n \<notin> fst ` set newer \<Longrightarrow> dropWhile (\<lambda>e. fst e \<noteq> n) (newer @ (n, d) # older) = (n, d) # older"
  by (induction newer) auto

lemma small_txn_database: "txn_database (g_sqlite3_driver small_sqlite) 0 sd_data sd_saved"
proof -
  have E: "drv_exec (g_sqlite3_driver small_sqlite) 0 sql w = mapped (small_exec 0 sql w)" for sql w
    by (simp add: sqlite_thin_ops small_sqlite_def)
  show ?thesis unfolding txn_database_def E command_effect_def
    by (auto simp: small_exec_def mapped_def newest_named simp del: append.simps)
qed

lemma small_levels: "sqlite_levels small_sqlite 0 sd_data sd_saved"
proof -
  have "ensures (small_step s w) (\<lambda>(rc, w'). sd_saved w' = sd_saved w)" for s w
    by (auto simp: small_step_def split: option.splits prod.splits)
  then show ?thesis
    by (simp add: sqlite_levels_def api_same_def small_sqlite_def small_prepare_def small_finalize_def small_reset_def small_bind_def
      small_exec_def same_db_def Let_def ensures_def split_beta)
qed

interpretation small_batch: batch_driver "g_sqlite3_driver small_sqlite" 0 sd_data sd_saved
  by (rule sqlite_batch_driver [OF small_txn_database small_levels])

section \<open>A handle on it\<close>

definition small_db0 :: small_db where
  "small_db0 = \<lparr>sd_stmts = (\<lambda>_. \<lparr>ss_sql = [], ss_args = (\<lambda>_. None), ss_rows = None\<rparr>), sd_open = [], sd_next = 1, sd_data = ([], []), sd_saved = []\<rparr>"

definition no_cache :: SqlRDBStmtCache where
  "no_cache = fst (snd (the (c2sql_internal_cache_init 0 [])))"

lemma no_cache_rep: "represents no_cache []" "capacity no_cache = 0"
  using cache_init_refines [of 0 "[]"] by (auto simp: no_cache_def)

definition small_handle :: "small_db SqlRDBHandle" where
  "small_handle = (new_handle (g_sqlite3_driver small_sqlite) (Some 0) demo_mutex no_cache)
     \<lparr>config := DEFAULT_CONFIG\<lparr>stmt_cache_size := 0\<rparr>,
      registry := \<lparr>reg_entries = [sessions_schema, demo_pair], reg_capacity = 8, reg_block = 1\<rparr>\<rparr>"

lemma small_registered: "registered small_handle ''sessions'' = Some sessions_schema" "registered small_handle ''item'' = Some demo_pair"
  by code_simp+

lemma demo_pair_ok: "schema_ok demo_pair"
  by code_simp

lemma small_registry: "registry_ok (registry small_handle)"
  using generated_schemas_ok(2) demo_pair_ok by (simp add: small_handle_def registry_ok_def sessions_schema_def schema_of_def demo_pair_def)

lemma small_ready_with: "engine_ready (g_sqlite3_driver small_sqlite) 0 small_live small_obs small_handle (small_db0\<lparr>sd_data := d\<rparr>) {}"
proof -
  have "holds_sql small_live small_obs small_handle (small_db0\<lparr>sd_data := d\<rparr>) {} {}"
    using no_cache_rep(1) by (intro holds_sqlI [of _ "[]"]) (simp_all add: small_handle_def new_handle_def small_live_def small_db0_def)
  moreover note small_registry
  moreover have "mutex_idle (mutex small_handle)" by code_simp
  ultimately show ?thesis
    by (simp add: engine_ready_def small_handle_def new_handle_def c2sql_handle_valid_def)
qed

lemma small_ready: "engine_ready (g_sqlite3_driver small_sqlite) 0 small_live small_obs small_handle small_db0 {}"
  using small_ready_with [of "sd_data small_db0"] by simp

definition small_heap :: cond_heap where
  "small_heap = \<lparr>ch_nodes = Map.empty, ch_next = 1, ch_mem = []\<rparr>"

definition session_bytes :: "32 word \<Rightarrow> char list" where
  "session_bytes k = le_bytes 4 k @ replicate 64 NUL"

lemma small_open: "open_handle (g_sqlite3_driver small_sqlite) 0 small_live (small_handle, small_db0, {})"
proof -
  have "handle_ok (new_handle (g_sqlite3_driver small_sqlite) (Some 0) demo_mutex no_cache)"
    by (rule new_handle_ok [OF _ no_cache_rep(1), of "[]" _ "[]"]) (simp add: demo_mutex_def c2sql_internal_mutex_init_def)
  then have "handle_ok small_handle" using small_registry by (simp add: handle_ok_def small_handle_def new_handle_def)
  moreover have "holds small_live small_handle small_db0 {}" using small_ready by (auto simp: engine_ready_def intro: holds_sql_holds)
  ultimately show ?thesis by (simp add: open_handle_def) (simp add: small_handle_def new_handle_def logger_quiet_def)
qed

lemma small_client: "client_ok (g_sqlite3_driver small_sqlite) 0 (\<lambda>w. True) small_live (small_handle, small_db0, [], [])"
  using small_open by (simp add: client_ok_def)

lemma small_mutex: "mutex small_handle = \<lparr>mtx_threadsafe = True, mtx_locked = False\<rparr>" "c2sql_handle_valid (Some small_handle)"
  by (code_simp, simp add: small_handle_def new_handle_def c2sql_handle_valid_def)

text \<open>An item is stored and found.\<close>

definition item_cond :: "SqlRDBCondition option" where
  "item_cond = Some (COND_LEAF ''id'' SQL_OP_EQ (CV_int 5))"

lemma item_texts:
  "select_sql (g_sqlite3_driver small_sqlite) demo_pair item_cond = ''SELECT \"id\",\"qty\" FROM \"item\" WHERE \"id\" = ?''"
  "write_sql (g_sqlite3_driver small_sqlite) demo_pair =
     ''INSERT INTO \"item\" (\"id\",\"qty\") VALUES (?,?) ON CONFLICT(\"id\") DO UPDATE SET \"qty\"=excluded.\"qty\"''"
  by code_simp+

lemma item_cells: "row_cells (\<lambda>_. False) 0 (sch_cols demo_pair) demo_item = [Cell_Int 5, Cell_Int 6]" "cond_cells item_cond = [Cell_Int 5]"
  by code_simp+

lemma item_stores: "stores small_sem (g_sqlite3_driver small_sqlite) demo_pair item_cond (row_cells (\<lambda>_. False) 0 (sch_cols demo_pair) demo_item)"
  unfolding stores_def item_texts item_cells
  by (auto simp: small_sem_def small_run_def int_arg_def run_sessions_def run_item_def less_Suc_eq all_conj_distrib)

lemma item_struct: "struct_ok (sch_cols demo_pair) demo_item" "writable (sch_cols demo_pair) demo_item None (\<lambda>_. False)"
proof -
  have "length demo_item = 16" by code_simp
  then show "struct_ok (sch_cols demo_pair) demo_item" "writable (sch_cols demo_pair) demo_item None (\<lambda>_. False)"
    by (auto simp: struct_ok_def writable_def demo_pair_def member_ok_def terminated_def pairwise_insert disjoint_cols_def
      c2sql_internal_null_bit_get_def)
qed

section \<open>PostgreSQL\<close>

lemma demo_pg_client: "client_ok (g_postgres_driver demo_pq) 0 (pg_usable 0) pg_live (demo_pg_handle, demo_pg_world, [], [])"
  using demo_pg_open by (simp add: client_ok_def pg_usable_def demo_pg_world_def)

interpretation pg_total: total_driver "g_postgres_driver demo_pq" pg_live 0 "pg_usable 0"
  by (rule pg_total_driver) (simp add: libpq_lengths_def demo_pq_def)

end
