(* ===== verification/Small_Runs.thy ===== *)
theory Small_Runs
  imports Small_Database
begin

text \<open>
  Calls executed step by step on the small SQLite: a struct written and read back, and a guarded write
  of a session. The handle has its statement cache switched off, so every statement is prepared and
  finalized by the call that uses it.
\<close>

section \<open>The driver on the small database\<close>

definition on_small :: "small_db SqlRDBHandle \<Rightarrow> bool" where
  "on_small h \<longleftrightarrow> driver h = Some (g_sqlite3_driver small_sqlite) \<and> driver_ctx h = Some 0 \<and> capacity (cache h) = 0"

definition prepared :: "string \<Rightarrow> small_db \<Rightarrow> small_db" where
  "prepared sql w = (set_stmt_at (sd_next w) \<lparr>ss_sql = sql, ss_args = (\<lambda>_. None), ss_rows = None\<rparr> w)
     \<lparr>sd_open := sd_next w # sd_open w, sd_next := Suc (sd_next w)\<rparr>"

definition small_bound :: "ptr \<Rightarrow> int \<Rightarrow> cell \<Rightarrow> small_db \<Rightarrow> small_db" where
  "small_bound s i c w = set_stmt_at s ((sd_stmts w s)\<lparr>ss_args := (ss_args (sd_stmts w s))(i \<mapsto> c)\<rparr>) w"

lemma small_ops:
  "drv_dialect (g_sqlite3_driver small_sqlite) = C2SQL_DIALECT_SQLITE"
  "drv_prepare (g_sqlite3_driver small_sqlite) 0 sql w = Some (SQL_RDB_OK, Some (sd_next w), prepared sql w)"
  "drv_bind_int64 (g_sqlite3_driver small_sqlite) s i v w = Some (SQL_RDB_OK, small_bound s i (Cell_Int v) w)"
  "drv_bind_int32 (g_sqlite3_driver small_sqlite) s i v2 w = Some (SQL_RDB_OK, small_bound s i (Cell_Int (scast v2)) w)"
  "drv_step (g_sqlite3_driver small_sqlite) s w = do { (rc, w) \<leftarrow> small_step s w; Some (SQL_RDB_OK, rc = SQLITE_ROW, w) }"
  "drv_finalize (g_sqlite3_driver small_sqlite) s w = Some (SQL_RDB_OK, w\<lparr>sd_open := filter (\<lambda>p. p \<noteq> s) (sd_open w)\<rparr>)"
  "drv_column_int64 (g_sqlite3_driver small_sqlite) s i w = Some (SQL_RDB_OK, demo_int (small_cell s i w), w)"
  "drv_column_isnull (g_sqlite3_driver small_sqlite) s i w = Some (SQL_RDB_OK, small_cell s i w = Cell_Null, w)"
proof -
  show "drv_step (g_sqlite3_driver small_sqlite) s w = do { (rc, w) \<leftarrow> small_step s w; Some (SQL_RDB_OK, rc = SQLITE_ROW, w) }"
    by (simp add: sqlite_thin_ops sqlite_step_def small_sqlite_def small_step_def split: option.splits prod.splits)
qed (simp_all add: sqlite_thin_ops sqlite_prepare_def sqlite_column_int64_def small_sqlite_def small_prepare_def small_bind_def small_finalize_def
    mapped_def prepared_def small_bound_def Let_def)

lemma small_build:
  assumes "on_small h" and "c2sql_internal_qb_build spec [] = Some (SQL_RDB_OK, Some sql, k, [])"
  shows "build_and_get h spec w [] = Some (SQL_RDB_OK, Some (sd_next w, True), h, prepared sql w, [])"
  using assms
  by (simp add: build_and_get_def get_or_prepare_def c2sql_internal_cache_get_def on_small_def small_ops Let_def)

section \<open>An item written and read\<close>

lemma item_builds:
  "c2sql_internal_qb_build (query (write_op demo_pair) demo_pair None None C2SQL_DIALECT_SQLITE) [] =
     Some (SQL_RDB_OK, Some (write_sql (g_sqlite3_driver small_sqlite) demo_pair), 2, [])"
  "c2sql_internal_qb_build (query C2SQL_QB_SELECT demo_pair item_cond None C2SQL_DIALECT_SQLITE) [] =
     Some (SQL_RDB_OK, Some (select_sql (g_sqlite3_driver small_sqlite) demo_pair item_cond), 1, [])"
  unfolding item_texts by code_simp+

lemma small_on: "on_small (small_handle\<lparr>mutex := mx\<rparr>)" "on_small small_handle"
  using no_cache_rep(2) by (simp_all add: on_small_def small_handle_def new_handle_def)

lemma with_schema_registered: "registered h name = Some schema \<Longrightarrow> with_schema h fname name out body = body schema"
  by (auto simp: with_schema_def registered_def split: option.splits)

lemma small_locked:
  assumes "mutex h = \<lparr>mtx_threadsafe = True, mtx_locked = False\<rparr>"
  shows "locked h body = do { (r, g, s) \<leftarrow> body (h\<lparr>mutex := \<lparr>mtx_threadsafe = True, mtx_locked = True\<rparr>\<rparr>); g \<leftarrow> unlock_handle g; Some (r, g, s) }"
  using assms by (simp add: locked_def lock_handle_def c2sql_internal_mutex_lock_def)

lemma small_driver: "driver small_handle = Some (g_sqlite3_driver small_sqlite)" "registered (small_handle\<lparr>mutex := mx\<rparr>) name = registered small_handle name"
  by (simp_all add: small_handle_def new_handle_def registered_def c2sql_internal_schema_lookup_def c2sql_handle_valid_def schema_at_def)

lemma item_members: "at_offset demo_item 0 = Some demo_item" "\<exists>b. at_offset demo_item 8 = Some b \<and> read_bytes b 0 8 = Some (le_bytes 8 (6 :: 64 word))"
  "read_bytes demo_item 0 8 = Some (le_bytes 8 (5 :: 64 word))"
  by (simp_all add: at_offset_def read_bytes_def demo_item_def)

lemma item_binds:
  "bind_cols (g_sqlite3_driver small_sqlite) s 0 (sch_cols demo_pair) demo_item None w =
     Some (SQL_RDB_OK, small_bound s 2 (Cell_Int 6) (small_bound s 1 (Cell_Int 5) w))"
  using item_members by (auto simp: demo_pair_def bind_one_def c2sql_internal_null_bit_get_def small_ops le_word_le_bytes)

lemma small_next: "sd_stmts (prepared sql w) (sd_next w) = \<lparr>ss_sql = sql, ss_args = (\<lambda>_. None), ss_rows = None\<rparr>" "sd_data (prepared sql w) = sd_data w"
  by (simp_all add: prepared_def)

lemma small_bound_fields: "ss_sql (sd_stmts (small_bound s i c w) s) = ss_sql (sd_stmts w s)" "ss_rows (sd_stmts (small_bound s i c w) s) = ss_rows (sd_stmts w s)"
  "ss_args (sd_stmts (small_bound s i c w) s) = (ss_args (sd_stmts w s))(i \<mapsto> c)" "sd_data (small_bound s i c w) = sd_data w"
  by (simp_all add: small_bound_def)

lemma small_mutex_same: "small_handle\<lparr>mutex := \<lparr>mtx_threadsafe = True, mtx_locked = False\<rparr>\<rparr> = small_handle"
  by (simp add: small_mutex(1) [symmetric])

lemmas small_call = small_registered small_mutex small_locked with_schema_registered small_driver small_ops small_step_def small_bound_fields small_next
  release_cached_stmt_def unlock_handle_def c2sql_internal_mutex_unlock_def small_mutex_same

lemma small_write_item:
  "\<exists>w. SqlRDBWrite small_handle (Some ''item'') (Some demo_item) None small_db0 [] = Some (SQL_RDB_OK, small_handle, w, []) \<and> sd_data w = ([], [(5, 6)])"
proof -
  have run: "small_run (write_sql (g_sqlite3_driver small_sqlite) demo_pair) [1 \<mapsto> Cell_Int 5, 2 \<mapsto> Cell_Int 6] (sd_data small_db0) = ([], [], [(5, 6)])"
    by (simp add: item_texts small_run_def int_arg_def run_sessions_def run_item_def small_db0_def)
  show ?thesis
    by (simp add: SqlRDBWrite_def small_call small_build [OF small_on(1) item_builds(1)] c2sql_internal_tm_bind_row_def item_binds run)
qed

lemma small_cells: "ss_rows (sd_stmts w s) = Some [[a, b]] \<Longrightarrow> small_cell s 0 w = Cell_Int a \<and> small_cell s 1 w = Cell_Int b"
  by (simp add: small_cell_def current_def small_obs_def)

lemma item_row_read:
  assumes "ss_rows (sd_stmts w s) = Some [[5, 6]]"
  shows "c2sql_internal_tm_read_row (g_sqlite3_driver small_sqlite) s demo_pair (Some (replicate 16 NUL)) None w = Some (SQL_RDB_OK, Some demo_item, None, w)"
  using small_cells [OF assms]
  by (simp add: c2sql_internal_tm_read_row_def demo_pair_def small_ops read_one_def demo_int_def write_bytes_def demo_item_def eval_nat_numeral)

lemma small_read_item:
  assumes "sd_data w = ([], [(5, 6)])"
  shows "\<exists>b nm w'. SqlRDBRead small_handle (Some ''item'') item_cond (Some (replicate 16 NUL)) None None w [] = Some (SQL_RDB_OK, small_handle, Some b, nm, w', [])"
proof -
  have run: "small_run (select_sql (g_sqlite3_driver small_sqlite) demo_pair item_cond) [1 \<mapsto> Cell_Int 5] (sd_data w) = ([[5, 6]], [], [(5, 6)])"
    by (simp add: item_texts small_run_def int_arg_def run_sessions_def run_item_def assms)
  have bind: "bind_cond_from (g_sqlite3_driver small_sqlite) s item_cond 1 w = Some (SQL_RDB_OK, small_bound s 1 (Cell_Int 5) w)" for s w
    by (simp add: item_cond_def bind_cond_from_def small_ops)
  have cols: "length (sch_cols demo_pair) = 2" "row_extent (sch_cols demo_pair) = 16" "length demo_item = 16"
    by (simp_all add: demo_pair_def row_extent_def demo_item_def)
  have many: "multirow_default (config (small_handle\<lparr>mutex := mx\<rparr>)) \<noteq> 1" for mx by (simp add: small_handle_def new_handle_def DEFAULT_CONFIG_def)
  show ?thesis
    by (simp add: SqlRDBRead_def small_call small_build [OF small_on(1) item_builds(2)] bind run many read_single_def cols
      item_row_read write_bytes_def merge_null_map_def)
qed

text \<open>The same row through an iterator.\<close>

lemma small_iterate:
  assumes "sd_data w = ([], [(5, 6)])"
  shows "\<exists>it w1 out w2. SqlRDBReadMany small_handle (Some ''item'') item_cond True w [] = Some (SQL_RDB_OK, small_handle, Some it, w1, []) \<and>
    fetch_rows it small_handle [(replicate 16 NUL, None), (replicate 16 NUL, None)] w1 =
      Some ([(SQL_RDB_OK, Some demo_item)] @ [(SQL_RDB_ERR_NOT_FOUND, out)], small_handle, w2)"
proof -
  let ?text = "select_sql (g_sqlite3_driver small_sqlite) demo_pair item_cond"
  let ?w1 = "small_bound (sd_next w) 1 (Cell_Int 5) (prepared ?text w)" and ?it = "\<lparr>raw_stmt = sd_next w, it_schema = (Suc 0, Suc 0)\<rparr>"
  have run: "small_run ?text [1 \<mapsto> Cell_Int 5] (sd_data w) = ([[5, 6]], [], [(5, 6)])"
    by (simp add: item_texts small_run_def int_arg_def run_sessions_def run_item_def assms)
  have bind: "bind_cond_from (g_sqlite3_driver small_sqlite) s item_cond 1 w = Some (SQL_RDB_OK, small_bound s 1 (Cell_Int 5) w)" for s w
    by (simp add: item_cond_def bind_cond_from_def small_ops)
  have sp: "c2sql_internal_schema_lookup (small_handle\<lparr>mutex := mx\<rparr>) (Some ''item'') = Some (Suc 0, Suc 0)"
    "schema_at (registry small_handle) (Suc 0, Suc 0) = Some demo_pair" "driver_ctx small_handle = Some 0" for mx
    by (simp_all add: small_handle_def new_handle_def c2sql_internal_schema_lookup_def c2sql_handle_valid_def schema_at_def
      sessions_schema_def schema_of_def demo_pair_def nth_opt_def)
  have "SqlRDBReadMany small_handle (Some ''item'') item_cond True w [] = Some (SQL_RDB_OK, small_handle, Some ?it, ?w1, [])"
    by (simp add: SqlRDBReadMany_def small_call build_and_prepare_def item_builds(2) bind sp)
  moreover have "\<exists>out w2. fetch_rows ?it small_handle [(replicate 16 NUL, None), (replicate 16 NUL, None)] ?w1 =
      Some ([(SQL_RDB_OK, Some demo_item)] @ [(SQL_RDB_ERR_NOT_FOUND, out)], small_handle, w2)"
    by (simp add: SqlRDBStmtNext_def small_call run sp item_row_read)
  ultimately show ?thesis by blast
qed

section \<open>Two items of which the second fails\<close>

lemma small_commands:
  "drv_begin (g_sqlite3_driver small_sqlite) 0 w = mapped (small_exec 0 ''BEGIN'' w)"
  "drv_commit (g_sqlite3_driver small_sqlite) 0 w = mapped (small_exec 0 ''COMMIT'' w)"
  "drv_rollback (g_sqlite3_driver small_sqlite) 0 w = mapped (small_exec 0 ''ROLLBACK'' w)"
  "drv_reset (g_sqlite3_driver small_sqlite) s w = mapped (small_reset s w)"
  by (simp_all add: sqlite_thin_ops small_sqlite_def)

lemma two_items:
  "at_offset (demo_item @ demo_item) 16 = Some demo_item" "at_offset (demo_item @ demo_item) 0 = Some (demo_item @ demo_item)"
  "read_bytes (demo_item @ demo_item) 0 8 = Some (le_bytes 8 (5 :: 64 word))"
  "\<exists>b. at_offset (demo_item @ demo_item) 8 = Some b \<and> read_bytes b 0 8 = Some (le_bytes 8 (6 :: 64 word))"
  by (simp_all add: at_offset_def read_bytes_def demo_item_def)

lemma first_item_binds:
  "bind_cols (g_sqlite3_driver small_sqlite) s 0 (sch_cols demo_pair) (demo_item @ demo_item) (Some [0, 1]) w =
     Some (SQL_RDB_OK, small_bound s 2 (Cell_Int 6) (small_bound s 1 (Cell_Int 5) w))"
  using two_items by (auto simp: demo_pair_def bind_one_def c2sql_internal_null_bit_get_def nth_opt_def small_ops le_word_le_bytes)

lemma second_item_null:
  "bind_cols (g_sqlite3_driver small_sqlite) s 0 (sch_cols demo_pair) demo_item (Some [1]) w = Some (SQL_RDB_ERR_NOT_NULL_VIOLATION, w)"
  by (simp add: demo_pair_def c2sql_internal_null_bit_get_def nth_opt_def SQL_COL_FLAG_NULLABLE_def)

lemma second_item_fails:
  "\<exists>w'. write_rows (g_sqlite3_driver small_sqlite) s demo_pair (demo_item @ demo_item) 16 (Some [0, 1]) 0 2 w =
     Some (SQL_RDB_ERR_NOT_NULL_VIOLATION, w') \<and> sd_saved w' = sd_saved w"
proof -
  have one: "SQL_RDB_NULL_BITMAP_BYTES (length (sch_cols demo_pair)) = 1" by (simp add: SQL_RDB_NULL_BITMAP_BYTES_def demo_pair_def)
  show ?thesis
    by (simp add: numeral_2_eq_2 one two_items c2sql_internal_tm_bind_row_def first_item_binds second_item_null small_ops small_step_def
      small_commands small_reset_def mapped_def small_bound_def split_beta split: option.splits)
qed

lemma small_batch_fails:
  "\<exists>w. SqlRDBWriteMany small_handle (Some ''item'') (Some (demo_item @ demo_item)) 2 16 (Some [0, 1]) small_db0 [] =
     Some (SQL_RDB_ERR_NOT_NULL_VIOLATION, small_handle, w, [])"
proof -
  have "txn_depth (txn (small_handle\<lparr>mutex := mx\<rparr>)) = 0" "driver_ctx (small_handle\<lparr>mutex := mx\<rparr>) = Some 0" for mx
    by (simp_all add: small_handle_def new_handle_def)
  moreover have "sd_saved (prepared sql small_db0) = []" for sql by (simp add: prepared_def small_db0_def)
  ultimately show ?thesis
    using second_item_fails [of "sd_next small_db0" "(prepared (write_sql (g_sqlite3_driver small_sqlite) demo_pair) small_db0)
        \<lparr>sd_saved := [('''', sd_data small_db0)]\<rparr>"]
    by (auto simp: SqlRDBWriteMany_def small_call small_build [OF small_on(1) item_builds(1)] small_commands small_exec_def mapped_def)
qed

section \<open>A session within the maximum\<close>

lemma small_bind_text: "drv_bind_text (g_sqlite3_driver small_sqlite) s i (Some mem) n w = Some (SQL_RDB_OK, small_bound s i (text_cell mem n) w)"
  by (simp add: sqlite_thin_ops small_sqlite_def small_bind_def mapped_def small_bound_def)

lemma sessions_builds:
  "c2sql_internal_qb_build (query C2SQL_QB_COUNT sessions_schema None None C2SQL_DIALECT_SQLITE) [] =
     Some (SQL_RDB_OK, Some ''SELECT COUNT(*) FROM \"sessions\"'', 0, [])"
  "c2sql_internal_qb_build (query C2SQL_QB_COUNT sessions_schema (Some (COND_LEAF ''id'' SQL_OP_EQ (CV_int v))) None C2SQL_DIALECT_SQLITE) [] =
     Some (SQL_RDB_OK, Some ''SELECT COUNT(*) FROM \"sessions\" WHERE \"id\" = ?'', 1, [])"
  "c2sql_internal_qb_build (query (write_op sessions_schema) sessions_schema None None C2SQL_DIALECT_SQLITE) [] =
     Some (SQL_RDB_OK, Some ''INSERT INTO \"sessions\" (\"id\",\"token\") VALUES (?,?) ON CONFLICT(\"id\") DO UPDATE SET \"token\"=excluded.\"token\"'', 2, [])"
  by code_simp+

lemma small_count:
  assumes "c2sql_internal_qb_build (query C2SQL_QB_COUNT sessions_schema cond None C2SQL_DIALECT_SQLITE) [] = Some (SQL_RDB_OK, Some sql, k, [])"
    and "\<And>s w. bind_cond_from (g_sqlite3_driver small_sqlite) s cond 1 w = Some (SQL_RDB_OK, w2 s w)"
    and "\<And>s w. ss_sql (sd_stmts (w2 s w) s) = ss_sql (sd_stmts w s) \<and> ss_rows (sd_stmts (w2 s w) s) = ss_rows (sd_stmts w s) \<and> sd_data (w2 s w) = sd_data w"
    and "small_run sql (ss_args (sd_stmts (w2 (sd_next w) (prepared sql w)) (sd_next w))) (sd_data w) = ([[0]], sd_data w)"
  shows "\<exists>w'. SqlRDBCount small_handle (Some ''sessions'') cond (Some 0) w [] = Some (SQL_RDB_OK, small_handle, Some 0, w', []) \<and> sd_data w' = sd_data w"
  using assms by (simp add: SqlRDBCount_def small_call small_build [OF small_on(1) assms(1)] small_cell_def current_def small_obs_def demo_int_def)

lemma small_count_all:
  "\<exists>w. SqlRDBCount small_handle (Some ''sessions'') None (Some 0) small_db0 [] = Some (SQL_RDB_OK, small_handle, Some 0, w, []) \<and>
     sd_data w = ([], [])"
  using small_count [OF sessions_builds(1), of "\<lambda>s w. w" small_db0] by (auto simp: bind_cond_from_def small_run_def small_db0_def)

lemma session_row_binds:
  "bind_cols (g_sqlite3_driver small_sqlite) s 0 (sch_cols sessions_schema) (session_bytes k) None w =
     Some (SQL_RDB_OK, small_bound s 2 (Cell_Text []) (small_bound s 1 (Cell_Int (scast k)) w))"
proof -
  have "col_offset (hd (sch_cols sessions_schema)) = 0" "at_offset (session_bytes k) 4 = Some (replicate 64 NUL)"
    "at_offset (session_bytes k) 0 = Some (session_bytes k)" "read_bytes (session_bytes k) 0 4 = Some (le_bytes 4 k)"
    "bounded_strlen (replicate 64 NUL) 64 = Some 0"
    by (simp_all add: session_cols SESSIONS_COLS_def owned_column_def generated_layouts at_offset_def read_bytes_def session_bytes_def eval_nat_numeral)
  moreover have "sch_cols sessions_schema =
    [\<lparr>col_name = ''id'', col_type = SQL_TYPE_INT32, col_offset = 0, col_size = 4, col_flags = SQL_COL_FLAG_PRIMARY_KEY\<rparr>,
     \<lparr>col_name = ''token'', col_type = SQL_TYPE_TEXT, col_offset = 4, col_size = 64, col_flags = 0\<rparr>]"
     by (simp add: session_cols SESSIONS_COLS_def owned_column_def generated_layouts generated_layouts [unfolded One_nat_def]) (simp add: Session_def c_int32_def c_chars_def)
  ultimately show ?thesis
    by (simp add: bind_one_def c2sql_internal_null_bit_get_def small_ops small_bind_text text_cell_def le_word_le_bytes INT_MAX_def)
qed

lemma small_guarded:
  "\<exists>w H'. WriteSessionsGuarded small_handle (Some (session_bytes 4)) None small_db0 [] small_heap = Some (SQL_RDB_OK, small_handle, w, [], H') \<and>
     sd_data w = ([4], [])"
proof -
  let ?c = "COND_LEAF ''id'' SQL_OP_EQ (CV_int 4)"
  obtain w1 where c1: "SqlRDBCount small_handle (Some ''sessions'') None (Some 0) small_db0 [] = Some (SQL_RDB_OK, small_handle, Some 0, w1, [])"
    "sd_data w1 = ([], [])" using small_count_all by blast
  obtain w2 where c2: "SqlRDBCount small_handle (Some ''sessions'') (Some ?c) (Some 0) w1 [] = Some (SQL_RDB_OK, small_handle, Some 0, w2, [])"
    "sd_data w2 = ([], [])"
    using small_count [OF sessions_builds(2), of 4 "\<lambda>s. small_bound s 1 (Cell_Int 4)" w1] c1(2)
    by (auto simp: bind_cond_from_def small_ops small_bound_fields small_next small_run_def int_arg_def run_sessions_def run_item_def)
  have run: "small_run ''INSERT INTO \"sessions\" (\"id\",\"token\") VALUES (?,?) ON CONFLICT(\"id\") DO UPDATE SET \"token\"=excluded.\"token\"''
      [1 \<mapsto> Cell_Int 4, 2 \<mapsto> Cell_Text []] (sd_data w2) = ([], [4], [])"
    by (simp add: small_run_def int_arg_def run_sessions_def run_item_def c2(2))
  obtain w3 where w: "SqlRDBWrite small_handle (Some ''sessions'') (Some (session_bytes 4)) None w2 [] = Some (SQL_RDB_OK, small_handle, w3, [])" "sd_data w3 = ([4], [])"
    using run by (simp add: SqlRDBWrite_def small_call small_build [OF small_on(1) sessions_builds(3)] c2sql_internal_tm_bind_row_def session_row_binds)
  have id: "read_bytes (session_bytes 4) 0 4 = Some (le_bytes 4 (4 :: 32 word))" by (simp add: read_bytes_def session_bytes_def)
  have pk: "SqlRDBCondInt (Some ''id'') 1 4 small_heap = (Some 1, \<lparr>ch_nodes = [1 \<mapsto> NODE_LEAF ''id'' SQL_OP_EQ (CV_int 4)], ch_next = 2, ch_mem = []\<rparr>)"
    by (simp add: SqlRDBCondInt_def SqlRDBOp_of_int_def store_node_def alloc_node_def small_heap_def)
  show ?thesis using c1(1) c2(1) w
    by (simp add: WriteSessionsGuarded_def generated_layouts id pk le_word_le_bytes read_cond.simps SqlRDBCondFree.simps free_node_def SESSIONS_MAX_RECORDS_def Let_def)
qed

end
