(* ===== verification/Spec2Isabelle.thy ===== *)
theory Spec2Isabelle
  imports Small_Runs
begin

text \<open>
  Verification of libc2sql, a C library that stores and loads C structs in SQLite or PostgreSQL
  tables. Paths are relative to \<^verbatim>\<open>src/\<close>, the repository root; the theorems C1 to C40 of this theory are the
  properties of the library, in the order of their importance; the sections below group them by
  subject. The other theories hold the model and its lemmas.

  \<^bold>\<open>The program.\<close> An application opens a handle (\<^verbatim>\<open>SqlRDBInit\<close>), registers struct layouts
  (\<^verbatim>\<open>SqlRDBRegisterStruct\<close>), which creates or checks the table behind each of them, and then
  writes, reads, counts and deletes rows, reads and writes single BLOB columns and brackets calls in
  nested transactions. Every row call looks the struct up in the schema registry, generates SQL text in
  the query builder (for reads and deletes from a condition tree built by the application), gets a
  prepared statement from the statement cache or the driver, binds the struct's members or the
  condition's values with the type mapping, steps the statement and gives it back. The drivers are
  tables of function pointers over sqlite3 and libpq.

  \<^bold>\<open>Conventions of the model.\<close>
  \<^item> A function that can have undefined behaviour in C (an access outside an object, a null or dangling
    pointer, a driver call that is undefined) or can fail to return is a function into \<open>'a option\<close>:
    \<open>None\<close> is either of the two. A theorem that a call returns is stated as \<open>\<exists>\<dots>. f x = Some \<dots>\<close>.
    Loops that need not end are \<^verbatim>\<open>partial_function (option)\<close>, so no loop has fuel; the one fuel
    argument is that of the reference parser of C17, where any fuel above the size of the tree is
    proved to be enough.
  \<^item> Allocation is an oracle: \<open>mem\<close> is the list of the outcomes of the coming allocations, and the
    empty list means that all of them succeed. Every failing allocation of the source is a branch.
  \<^item> Error codes are the values of \<open>SqlRDBResult\<close>; memory is a list of bytes (\<open>char\<close>); pointers to heap
    objects are natural numbers that index a heap (a map), with the next free address kept beside it.
    Integers that can wrap are words: 64-bit sizes and hashes in the cache, 32- and 64-bit column
    values; doubles are their 64-bit patterns. Lengths of C strings and arrays are natural numbers: an
    object in memory is shorter than the address space.
  \<^item> Internal functions take the pointers their callers never pass as NULL (the specification and schema
    of the query builder, the cache, driver and schema of the type mapping) as present: their NULL checks
    are not modelled. NULL arguments of the public functions are. A call on an iterator takes the handle
    the iterator points to as an argument.
  \<^item> The outside world of a driver is a type \<open>'w\<close> that every driver call takes and returns. A handle holds the
    driver it was opened with (\<open>SqlRDBDriver\<close>, the record of \<^verbatim>\<open>src/db_driver.h\<close>). The functions of
    sqlite3 and libpq are parameters: records of functions on an abstract world.
  \<^item> The mutex of a handle is modelled as its flag, so that a path which returns without unlocking, or
    unlocks twice, is visible. A call is a function; interleavings are step relations over the parts of
    the calls (\<open>thread_step\<close>, \<open>closers_step\<close>), and C4 relates the two.
  \<^item> What a database does with SQL text is a parameter too: \<open>sem\<close> maps a text, its bound values and the
    data to the rows it returns and the new data. The properties that need it name what SQL prescribes
    for the statements at hand as a hypothesis (\<open>stores\<close>, \<open>sessions_table\<close>, \<open>txn_database\<close>).
    Two simplifications of sqlite3 remain in such hypotheses: a successful prepare is taken to open a
    statement for every text (the library prepares no empty one), and \<open>sqlite_executes\<close> has a failing step
    leave the data, so that an automatic rollback is covered in C7 only.

  \<^bold>\<open>Theories and sources.\<close>
  \<^item> \<^verbatim>\<open>C2sql_Prelude\<close>: the generic definitions (allocation, byte memory, decimal numbers) and lemmas.
  \<^item> \<^verbatim>\<open>C2sql_Types\<close>: \<^verbatim>\<open>include/c2sql.h\<close>, \<^verbatim>\<open>src/db_driver.h\<close>, \<^verbatim>\<open>src/error_ctx.c\<close>,
    \<^verbatim>\<open>src/logger.c\<close>, \<^verbatim>\<open>src/mutex.c\<close>.
  \<^item> \<^verbatim>\<open>Condition_Ast\<close>: \<^verbatim>\<open>src/condition_ast.c\<close>, on an explicit heap of nodes.
  \<^item> \<^verbatim>\<open>Query_Builder\<close>: \<^verbatim>\<open>src/query_builder.c\<close>, the buffer with its capacity and the nine statement
    kinds, with the reference texts \<open>sql_text\<close>. \<^verbatim>\<open>Query_Text\<close> and \<^verbatim>\<open>Query_Params\<close> prove
    properties of those texts.
  \<^item> \<^verbatim>\<open>Stmt_Cache\<close>: \<^verbatim>\<open>src/stmt_cache.c\<close>, hash chains and the LRU list as linked heap entries.
    \<^verbatim>\<open>Cache_Refinement\<close> gives the representation invariant and the refinement of a bounded list,
    \<^verbatim>\<open>Cache_Trace\<close> lifts it to histories.
  \<^item> \<^verbatim>\<open>Schema_Registry\<close>: \<^verbatim>\<open>src/schema_registry.c\<close>; \<^verbatim>\<open>Registry_Safety\<close> shows that a registered schema
    meets the preconditions of the query builder.
  \<^item> \<^verbatim>\<open>Type_Mapping\<close>: \<^verbatim>\<open>src/type_mapping.c\<close> and \<^verbatim>\<open>src/type_mapping.h\<close>.
  \<^item> \<^verbatim>\<open>Handle\<close>: \<^verbatim>\<open>src/handle_internal.h\<close>, \<^verbatim>\<open>src/txn_manager.h\<close>.
  \<^item> \<^verbatim>\<open>Transactions\<close>, \<^verbatim>\<open>Crud\<close>, \<^verbatim>\<open>Blob_Field\<close>, \<^verbatim>\<open>Lifecycle\<close>: the functions of
    \<^verbatim>\<open>src/c2sql.c\<close>, one definition each. \<^verbatim>\<open>Crud_Correct\<close> is about what reads give back.
  \<^item> \<^verbatim>\<open>Migration\<close>: \<^verbatim>\<open>src/migration.c\<close> and \<^verbatim>\<open>SqlRDBRegisterStruct\<close>;
    \<^verbatim>\<open>Migration_Correct\<close> and \<^verbatim>\<open>Migration_Stmts\<close> prove what it decides and that it leaks no
    statement.
  \<^item> \<^verbatim>\<open>Sqlite_Driver\<close>, \<^verbatim>\<open>Postgres_Driver\<close>: \<^verbatim>\<open>src/sqlite_driver.c\<close> and
    \<^verbatim>\<open>src/postgres_driver.c\<close>; \<^verbatim>\<open>Postgres_Rows\<close> is about the encoding of rows.
  \<^item> \<^verbatim>\<open>Stmt_Lifecycle\<close>, \<^verbatim>\<open>Stmt_Ownership\<close>, \<^verbatim>\<open>Sessions\<close>, \<^verbatim>\<open>Service\<close>: the composition. \<open>api_step\<close> is one row,
    iterator, blob or transaction call, \<open>service_step\<close> adds configuration, logging and registration;
    the invariants hold in every reachable state.
  \<^item> \<^verbatim>\<open>Total_Calls\<close>, \<^verbatim>\<open>Client\<close>: every call returns on a driver that answers; \<open>perform\<close> and
    \<open>client_steps\<close> are a client that makes any sequence of calls. \<^verbatim>\<open>Sqlite_Total\<close> and
    \<^verbatim>\<open>Postgres_Total\<close> show that the two drivers answer.
  \<^item> \<^verbatim>\<open>Threads\<close>, \<^verbatim>\<open>Close_Race\<close>: threads that share a handle (\<^verbatim>\<open>src/mutex.c\<close> and the
    parts of the calls before, under and after the lock), and threads in \<^verbatim>\<open>SqlRDBClose\<close>.
  \<^item> \<^verbatim>\<open>Nested_Transactions\<close>: what the transaction calls do to the data of a database with savepoints;
    \<^verbatim>\<open>Batch_Write\<close> and \<^verbatim>\<open>Sqlite_Batch\<close> add the transaction of \<^verbatim>\<open>SqlRDBWriteMany\<close>.
  \<^item> \<^verbatim>\<open>Engine\<close>, \<^verbatim>\<open>Engine_Read\<close>, \<^verbatim>\<open>Engine_Iter\<close>, \<^verbatim>\<open>Sqlite_Engine\<close>: what the row and iterator calls do to the data of an
    engine that executes statements, and that the SQLite driver over sqlite3 is such an engine.
  \<^item> \<^verbatim>\<open>Generated\<close>: \<^verbatim>\<open>generated/persons_schema.c\<close>, \<^verbatim>\<open>generated/sessions_schema.c\<close> and
    their headers, with the layout of the structs.
  \<^item> \<^verbatim>\<open>Examples\<close>, \<^verbatim>\<open>Small_Database\<close>, \<^verbatim>\<open>Small_Runs\<close>: concrete drivers, handles, schemas and
    conditions for the instances in this theory, among them a small SQLite that executes statements and
    transactions and satisfies everything asked of sqlite3.

  \<^bold>\<open>Interfaces.\<close> \<open>text_emitter\<close> and \<open>statement_builder\<close> are what the parts of a statement promise the
  query builder; they are interpreted on the literal, condition and WHERE emitters. \<open>stmt_store\<close> is
  what the cache promises its clients, interpreted on the linked structure. \<open>stmt_driver\<close> is the
  contract of a driver whose open statements can be observed: \<^verbatim>\<open>prepare\<close> opens exactly the statement
  it returns, \<^verbatim>\<open>finalize\<close> closes exactly its argument, nothing else opens or closes one. The
  PostgreSQL driver meets it by its own code (\<open>pg_stmts\<close>); the SQLite driver meets it when the sqlite3
  functions open and close statements as documented, which C11 has as hypotheses. \<open>sql_txn_driver\<close> is the contract of a
  driver whose transaction functions run SQL commands, interpreted for both drivers; \<open>batch_driver\<close> extends it by which functions may change data. \<open>total_driver\<close>
  extends \<open>stmt_driver\<close>: the functions return on an open connection and open statements. \<open>sql_engine\<close>
  extends \<open>stmt_driver\<close> by what binding, stepping and reading columns do to the statement and the data. These three hold
  for the SQLite driver under documented behaviour of sqlite3 (\<open>sqlite_total_driver\<close>,
  \<open>sqlite_batch_driver\<close>, \<open>sqlite_sql_engine\<close>) and are interpreted on it over the small database; \<open>total_driver\<close> holds for the
  PostgreSQL driver when libpq reports lengths correctly.

  \<^bold>\<open>What is shown.\<close>
  \<^item> Generated SQL and conditions (C2, C23, C22, C17, C21, C24): the text and parameter count of
    every statement, independence of values, the round trip through a parser, condition trees freed
    exactly once, values bound in the order of their placeholders.
  \<^item> Statement cache (C3, C12, C25): refinement of a bounded LRU list, no statement lost or finalized
    twice, resizing; also destruction and the bucket count.
  \<^item> Registry (C26, C27, C28): exact acceptance and errors, invariant, lookup after registration.
  \<^item> Type mapping and PostgreSQL encoding (C30, C18, C31, C32, C33).
  \<^item> Transactions (C19, C20, C5, C7): refinement of the driver commands, the depth, and the data a rollback
    restores, of nested transactions and of a failed batch write; also the SQL both drivers send.
  \<^item> Whole sessions (C10, C11, C8, C9, \<open>init_opens_handle\<close>, C34, C15): statement ownership, every call returns, opening,
    closing and registering.
  \<^item> Migration (C35, C37) and the caller's outputs (C36, C40).
  \<^item> Threads (C4, C14, C16) and where thread safety fails (C38, C39).
  \<^item> The data (C1, C6, \<open>count_reports_engine\<close>) and the generated units (C29, C13).

  \<^bold>\<open>Bounds.\<close> The cache theorems take a capacity of at most \<open>2 ^ 62\<close> (beyond \<open>2 ^ 63\<close> the bucket count does
  not return, \<open>next_pow2_hangs\<close>), the PostgreSQL parameter scan takes fewer than \<open>2 ^ 31\<close> parameters, because the
  code counts them in an \<^verbatim>\<open>int\<close>.

  \<^bold>\<open>Not modelled.\<close> The inside of sqlite3 and libpq, which are parameters with documented behaviour as
  named hypotheses; for PostgreSQL no theorem says what the server does with a row statement. The
  PostgreSQL notice processor, which discards messages. Calls that take no mutex while others run,
  other than \<^verbatim>\<open>SqlRDBClose\<close>: \<^verbatim>\<open>SqlRDBLastError\<close> during another call is a data race in C.
  An iterator used after its handle was closed. Logging, registration and opening in the client and thread models: they are steps of \<open>service_step\<close>
  only. The Python code generator under \<^verbatim>\<open>tools/\<close> (its two generated units are modelled), the example
  and test programs, which call the library and print, and the build files.
\<close>

section \<open>Generated SQL\<close>

text \<open>
  C2. For every operation and every specification whose operand is present and whose names use
  identifier characters, the query builder returns: the intended SQL text with the number of its
  parameters, or the unknown-column error, or out of memory, and in the last two cases no text. With
  enough memory the outcome is determined. In particular no append ever writes outside the buffer.
\<close>

theorem builder_returns_text:
  assumes "spec_ok (qs_op spec) spec" and "spec_idents spec"
  shows "\<exists>r sql k m'. c2sql_internal_qb_build spec m = Some (r, sql, k, m') \<and>
           (r = qb_result (qs_op spec) spec \<or> r = SQL_RDB_ERR_NO_MEMORY) \<and>
           (r = SQL_RDB_OK \<longrightarrow> sql = Some (sql_text (qs_op spec) spec) \<and> k = bind_total (qs_op spec) spec) \<and>
           (r \<noteq> SQL_RDB_OK \<longrightarrow> sql = None) \<and> (m = [] \<longrightarrow> r = qb_result (qs_op spec) spec \<and> m' = [])"
  by (rule qb_build_sql [OF assms])

theorem builder_returns_text_witness:
  "c2sql_internal_qb_build (demo_select C2SQL_DIALECT_POSTGRES) [] =
     Some (SQL_RDB_OK, Some ''SELECT \"id\",\"name\" FROM \"person\" WHERE (\"id\" >= $1 AND \"name\" != $2)'', 2, [])"
proof -
  have "qb_result (qs_op (demo_select C2SQL_DIALECT_POSTGRES)) (demo_select C2SQL_DIALECT_POSTGRES) = SQL_RDB_OK"
    "sql_text (qs_op (demo_select C2SQL_DIALECT_POSTGRES)) (demo_select C2SQL_DIALECT_POSTGRES) =
       ''SELECT \"id\",\"name\" FROM \"person\" WHERE (\"id\" >= $1 AND \"name\" != $2)''"
    "bind_total (qs_op (demo_select C2SQL_DIALECT_POSTGRES)) (demo_select C2SQL_DIALECT_POSTGRES) = 2"
    by code_simp+
  then show ?thesis using builder_returns_text [OF demo_select_ok, of C2SQL_DIALECT_POSTGRES "[]"] by auto
qed

text \<open>
  C23. In the SQLite dialect the text the builder returns contains exactly as many question marks as
  the parameter count it returns beside it.
\<close>

theorem sqlite_placeholders_match:
  assumes "spec_ok (qs_op spec) spec" and "spec_idents spec" and "qs_dialect spec = C2SQL_DIALECT_SQLITE"
    and "c2sql_internal_qb_build spec m = Some (SQL_RDB_OK, Some sql, k, m')"
  shows "count_list sql (CHR ''?'') = k"
  using qb_build_OK_D [OF assms(1,2,4)] sql_text_placeholders [OF assms(2,1) _ assms(3)] by simp

theorem sqlite_placeholders_match_witness:
  "count_list ''SELECT \"id\",\"name\" FROM \"person\" WHERE (\"id\" >= ? AND \"name\" != ?)'' (CHR ''?'') = 2"
proof -
  have "c2sql_internal_qb_build (demo_select C2SQL_DIALECT_SQLITE) [] =
      Some (SQL_RDB_OK, Some ''SELECT \"id\",\"name\" FROM \"person\" WHERE (\"id\" >= ? AND \"name\" != ?)'', 2, [])"
    by code_simp
  from sqlite_placeholders_match [OF demo_select_ok _ this] show ?thesis by (simp add: demo_select_def query_def)
qed

text \<open>
  C22. The generated text does not depend on any value of the condition: the builder returns the same
  result, text and parameter count when every value is replaced by 0, under the same allocations. User
  data reaches the database through bound parameters only.
\<close>

theorem builder_ignores_values:
  "c2sql_internal_qb_build (spec\<lparr>qs_cond := map_option erase_values cond\<rparr>) m =
   c2sql_internal_qb_build (spec\<lparr>qs_cond := cond\<rparr>) m"
  by (rule qb_build_erase)

text \<open>
  C17. In either dialect the WHERE clause of a generated SELECT on a registered schema determines its
  condition: a reference parser recovers the tree with its columns and operators and consumes the whole
  text, unless a part of the condition is \<^verbatim>\<open>COND_ALL\<close>. Below an AND or OR that kind prints as
  nothing, and then the parser finds no condition in the clause. (A condition that is
  \<^verbatim>\<open>COND_ALL\<close> as a whole has no WHERE clause.)
\<close>

theorem where_clause_parses_back:
  assumes "schema_ok s" and "c \<noteq> COND_ALL"
    and "c2sql_internal_qb_build (query C2SQL_QB_SELECT s (Some c) None d) m = Some (SQL_RDB_OK, Some sql, k, m')"
  shows "\<exists>pre clause. sql = pre @ '' WHERE '' @ clause \<and>
    (\<forall>fuel > size c. parse_cond d fuel clause = (if all_free c then Some (shape_of c, []) else None))"
proof -
  let ?spec = "query C2SQL_QB_SELECT s (Some c) None d"
  have op: "qs_op ?spec = C2SQL_QB_SELECT" "qs_schema ?spec = s" "qs_cond ?spec = Some c" "qs_dialect ?spec = d"
    by (simp_all add: query_def)
  have b: "qb_result C2SQL_QB_SELECT ?spec = SQL_RDB_OK" "sql = sql_text C2SQL_QB_SELECT ?spec"
    using qb_build_OK_D [OF _ query_idents [OF assms(1)] assms(3)] by (simp_all add: op)
  have "set (cond_columns c) \<subseteq> col_name ` set (sch_cols s)"
    using b(1) assms(2) validated_columns [of c s] by (auto simp: where_result_def op)
  then have "ident_chars col" if "col \<in> set (cond_columns c)" for col
    using that schema_ok_idents [OF assms(1)] by (auto simp: schema_idents_def list_all_iff)
  then have "\<forall>col \<in> set (cond_columns c). DQ \<notin> set col" using ident_chars_special(4) by blast
  from parse_cond_print [OF this _ assms(2), where s = "[]" and d = d and k = 0]
  have "\<forall>fuel > size c. parse_cond d fuel (sql_cond d c 0) = (if all_free c then Some (shape_of c, []) else None)" by simp
  moreover have "\<exists>pre. sql = pre @ '' WHERE '' @ sql_cond d c 0"
    using assms(2) by (auto simp: b(2) op sql_where_def)
  ultimately show ?thesis by blast
qed

theorem where_clause_parses_back_witness:
  "\<exists>pre clause. ''SELECT \"id\",\"name\" FROM \"person\" WHERE (\"id\" >= $1 AND \"name\" != $2)'' = pre @ '' WHERE '' @ clause \<and>
     parse_cond C2SQL_DIALECT_POSTGRES (Suc (size demo_cond)) clause = Some (Sh_and (Sh_leaf ''id'' SQL_OP_GE) (Sh_leaf ''name'' SQL_OP_NE), [])"
proof -
  have run: "c2sql_internal_qb_build (query C2SQL_QB_SELECT demo_schema (Some demo_cond) None C2SQL_DIALECT_POSTGRES) [] =
      Some (SQL_RDB_OK, Some ''SELECT \"id\",\"name\" FROM \"person\" WHERE (\"id\" >= $1 AND \"name\" != $2)'', 2, [])"
    by code_simp
  have c: "all_free demo_cond" "shape_of demo_cond = Sh_and (Sh_leaf ''id'' SQL_OP_GE) (Sh_leaf ''name'' SQL_OP_NE)" "demo_cond \<noteq> COND_ALL"
    by (simp_all add: demo_cond_def)
  from where_clause_parses_back [OF demo_schema_ok c(3) run] obtain pre clause where
    "''SELECT \"id\",\"name\" FROM \"person\" WHERE (\"id\" >= $1 AND \"name\" != $2)'' = pre @ '' WHERE '' @ clause"
    and p: "\<And>fuel. size demo_cond < fuel \<Longrightarrow> parse_cond C2SQL_DIALECT_POSTGRES fuel clause = Some (shape_of demo_cond, [])" using c(1) by metis
  then show ?thesis using p [of "Suc (size demo_cond)"] c(2) by (intro exI [of _ pre] exI [of _ clause]) simp
qed

section \<open>Conditions\<close>

text \<open>
  C21. A condition built by any nesting of the constructors represents the intended tree in nodes of its
  own, and \<^verbatim>\<open>SqlRDBCondFree\<close> returns and releases exactly those nodes: the heap is what it was
  before the condition was built. In particular no node is freed twice.
\<close>

theorem condition_free_restores_heap:
  assumes "cond_heap_ok H" and "build_expr e H = (Some p, H')"
  shows "built H (tree_of e) p H' \<and> SqlRDBCondFree (Some p) (ch_nodes H') = Some (ch_nodes H)"
  using build_expr_built [OF assms] built_free by blast

theorem condition_free_restores_heap_witness:
  "\<exists>p H'. build_expr (E_And (E_Int ''id'' 1 5) E_All) \<lparr>ch_nodes = (\<lambda>_. None), ch_next = 1, ch_mem = []\<rparr> = (Some p, H') \<and>
     SqlRDBCondFree (Some p) (ch_nodes H') = Some (\<lambda>_. None)"
proof -
  let ?H = "\<lparr>ch_nodes = (\<lambda>_. None), ch_next = 1, ch_mem = []\<rparr>" and ?e = "E_And (E_Int ''id'' 1 5) E_All"
  have "cond_heap_ok ?H" by (simp add: cond_heap_ok_def)
  moreover obtain p H' where "build_expr ?e ?H = (Some p, H')" using build_expr_total [of ?H ?e] by auto
  ultimately show ?thesis using condition_free_restores_heap [of ?H ?e p H'] by auto
qed

text \<open>
  C24. Binding a condition binds its values one after the other in the order of its leaves, from the
  given index on, up to the first failure; there are as many as the leaves the builder counts.
\<close>

theorem condition_values_in_order:
  "bind_cond_values drv stmt c idx w = bind_seq drv stmt (cond_values c) idx w \<and> length (cond_values c) = leaf_count c"
  by (simp add: bind_cond_values_seq length_cond_values)

section \<open>The statement cache\<close>

text \<open>
  C3. From a freshly initialised cache, any sequence of lookups and stores on the hash table with its
  linked LRU list gives the answers of the same sequence on an LRU list of at most the capacity, and
  finalizes the statements that list drops, in the same order.
\<close>

theorem cache_history_refines_lru:
  assumes "unat cap \<le> 2 ^ 62" and "c2sql_internal_cache_init cap m = Some (SQL_RDB_OK, c, m0)"
    and "lru_run (unat cap) ops [] m0 = (rs, dead, es, m1)"
  shows "\<exists>c'. cache_run drv ops c w m0 = do { w \<leftarrow> finalize_all drv dead w; Some (rs, c', w, m1) } \<and>
           represents c' es \<and> length es \<le> unat cap"
proof -
  have "represents c []" "capacity c = cap" using cache_init_refines [OF assms(1), of m] assms(2) by auto
  then show ?thesis using cache_run_refines [of c "[]" ops m0 rs dead es m1 drv w] lru_run_bounded [OF _ assms(3)] assms(3) by simp
qed

theorem cache_history_refines_lru_witness:
  "\<exists>c'. cache_run (None :: unit SqlRDBDriver option) [Cache_Put ''a'' 1, Cache_Put ''b'' 2, Cache_Get ''a'', Cache_Get ''b'']
       (fst (snd (the (c2sql_internal_cache_init 1 [])))) () [] =
     Some ([(SQL_RDB_OK, None), (SQL_RDB_OK, None), (SQL_RDB_ERR_NOT_FOUND, None), (SQL_RDB_OK, Some 2)], c', (), []) \<and>
     represents c' [(''b'', 2)]"
proof -
  have "map_option (\<lambda>(r, c, m). (r, m)) (c2sql_internal_cache_init 1 []) = Some (SQL_RDB_OK, [])" by code_simp
  then obtain c where c: "c2sql_internal_cache_init 1 [] = Some (SQL_RDB_OK, c, [])" by auto
  have "lru_run (unat (1 :: 64 word)) [Cache_Put ''a'' 1, Cache_Put ''b'' 2, Cache_Get ''a'', Cache_Get ''b''] [] [] =
      ([(SQL_RDB_OK, None), (SQL_RDB_OK, None), (SQL_RDB_ERR_NOT_FOUND, None), (SQL_RDB_OK, Some 2)], [1], [(''b'', 2)], [])"
    by code_simp
  from cache_history_refines_lru [OF _ c this, of "None :: unit SqlRDBDriver option" "()"] show ?thesis
    by (simp add: c finalize_if_def)
qed

text \<open>
  C12. Statements are neither leaked nor finalized twice: after any sequence of calls that returns, each
  statement handed to the cache was finalized exactly once or is held by exactly one entry.
\<close>

theorem cache_conserves_statements:
  assumes "unat cap \<le> 2 ^ 62" and "c2sql_internal_cache_init cap m = Some (SQL_RDB_OK, c, m0)"
    and "cache_run drv ops c w m0 = Some (rs, c', w', m1)"
  shows "\<exists>dead es. finalize_all drv dead w = Some w' \<and> represents c' es \<and> mset dead + mset (map snd es) = mset (stored ops)"
proof -
  have c: "represents c []" "capacity c = cap" using cache_init_refines [OF assms(1), of m] assms(2) by auto
  obtain rs0 dead es m2 where l: "lru_run (unat cap) ops [] m0 = (rs0, dead, es, m2)" by (metis prod_cases4)
  obtain c2 where r: "cache_run drv ops c w m0 = do { w \<leftarrow> finalize_all drv dead w; Some (rs0, c2, w, m2) }" "represents c2 es"
    using cache_run_refines [OF c(1), unfolded c(2), OF l, of drv w] by blast
  have "finalize_all drv dead w = Some w'" "c2 = c'" using assms(3) unfolding r(1) by (simp_all add: bind_Some_iff)
  moreover have "mset dead + mset (map snd es) = mset (stored ops)" using lru_run_conserves [OF _ l] by simp
  ultimately show ?thesis using r(2) by blast
qed

theorem cache_conserves_statements_witness:
  "\<exists>dead es c'. finalize_all (None :: unit SqlRDBDriver option) dead () = Some () \<and> represents c' es \<and>
     mset dead + mset (map snd es) = {#1, 2, 3#}"
proof -
  let ?ops = "[Cache_Put ''a'' 1, Cache_Put ''b'' 2, Cache_Put ''a'' 3]"
  have "map_option (\<lambda>(r, c, m). (r, m)) (c2sql_internal_cache_init 1 []) = Some (SQL_RDB_OK, [])" by code_simp
  then obtain c where c: "c2sql_internal_cache_init 1 [] = Some (SQL_RDB_OK, c, [])" by auto
  have "map_option (\<lambda>(rs, c, w, m). rs) (cache_run (None :: unit SqlRDBDriver option) ?ops
      (fst (snd (the (c2sql_internal_cache_init 1 [])))) () []) = Some [(SQL_RDB_OK, None), (SQL_RDB_OK, None), (SQL_RDB_OK, None)]"
    by code_simp
  then obtain rs c' m where run: "cache_run (None :: unit SqlRDBDriver option) ?ops c () [] = Some (rs, c', (), m)" by (auto simp: c)
  have "{#1, 2, 3#} = mset (stored ?ops)" by simp
  with cache_conserves_statements [OF _ c run] show ?thesis by fastforce
qed

text \<open>
  C25. Changing the capacity finalizes the least recently used statements beyond it and keeps the others
  in order. When the new bucket table cannot be allocated the old capacity stays, but the entries
  beyond the requested one are gone.
\<close>

theorem cache_rebuild_truncates:
  assumes "represents c es" and "unat cap \<le> 2 ^ 62"
  shows "\<exists>c' r m'. c2sql_internal_cache_rebuild c cap drv w m =
             do { w \<leftarrow> finalize_all drv (rev (map snd (drop (unat cap) es))) w; Some (r, c', w, m') } \<and>
           represents c' (take (unat cap) es) \<and>
           (r = SQL_RDB_OK \<and> capacity c' = cap \<or>
            r = SQL_RDB_ERR_NO_MEMORY \<and> capacity c' = capacity c \<and> \<not> fst (alloc m))"
  by (rule cache_rebuild_refines [OF assms])

theorem cache_rebuild_truncates_witness:
  "\<exists>c' r m'. c2sql_internal_cache_rebuild demo_cache 1 (None :: unit SqlRDBDriver option) () [] = Some (r, c', (), m') \<and>
     represents c' [] \<and> r = SQL_RDB_OK \<and> capacity c' = 1"
  using cache_rebuild_truncates [OF demo_cache_rep(1), of 1 "None :: unit SqlRDBDriver option" "()" "[]"] by auto

text \<open>
  Destroying the cache finalizes every statement it holds exactly once, from the most recently used
  on, frees every entry and leaves an empty, disabled cache.
\<close>

theorem cache_destroy_finalizes_all:
  assumes "represents c es"
  shows "\<exists>c'. c2sql_internal_cache_destroy c drv w = do { w \<leftarrow> finalize_all drv (map snd es) w; Some (c', w) } \<and>
           nodes c' = Map.empty \<and> represents c' [] \<and> capacity c' = 0"
  by (rule cache_destroy_refines [OF assms])

theorem cache_destroy_finalizes_all_witness:
  "\<exists>c'. c2sql_internal_cache_destroy demo_cache (None :: unit SqlRDBDriver option) () = Some (c', ()) \<and> nodes c' = Map.empty"
  using cache_destroy_finalizes_all [OF demo_cache_rep(1), of "None :: unit SqlRDBDriver option" "()"] by auto

text \<open>
  The bucket count is the least power of two that is not below the wanted number, for every wanted
  number up to 2 to the 63.
\<close>

theorem next_pow2_is_least:
  assumes "unat n \<le> 2 ^ 63"
  shows "\<exists>j \<le> 63. next_pow2_at_least n = Some (2 ^ j) \<and> unat n \<le> 2 ^ j \<and> (\<forall>i. unat n \<le> 2 ^ i \<longrightarrow> j \<le> i)"
  by (rule next_pow2_least [OF assms])

theorem next_pow2_is_least_witness:
  "\<exists>j \<le> 63. next_pow2_at_least 100 = Some (2 ^ j) \<and> 100 \<le> (2::nat) ^ j \<and> (\<forall>i. 100 \<le> (2::nat) ^ i \<longrightarrow> j \<le> i)"
  using next_pow2_is_least [of 100] by simp

text \<open>
  Above 2 to the 63 the shifted value wraps to 0 and the loop never returns: a caller that asks for
  such a cache size hangs in \<^verbatim>\<open>SqlRDBSetConfig\<close>.
\<close>

theorem next_pow2_hangs:
  assumes "2 ^ 63 < unat n"
  shows "next_pow2_at_least n = None"
  by (rule next_pow2_diverges [OF assms])

theorem next_pow2_hangs_witness: "next_pow2_at_least (2 ^ 63 + 1) = None"
  by (rule next_pow2_hangs) simp

section \<open>The schema registry\<close>

text \<open>
  C26. Registration decides exactly the acceptable arguments: on success the arguments are acceptable
  and a copy of the schema is the only change to the entries; on failure the entries are as before, the
  error context holds the code, and acceptable arguments are refused only for want of memory. With
  enough memory acceptable arguments succeed.
\<close>

theorem register_accepts_exactly:
  assumes "c2sql_handle_valid (Some h)" and "n \<le> length cols" and "n \<noteq> 0"
    and "length (reg_entries (registry h)) \<le> reg_capacity (registry h)"
  shows "\<exists>r h' m'. c2sql_internal_schema_register h (Some name) (Some cols) n m = Some (r, h', m') \<and>
           mutex h' = mutex h \<and> length (reg_entries (registry h')) \<le> reg_capacity (registry h') \<and>
           (if r = SQL_RDB_OK
            then register_args_ok (registry h) name (take n cols) \<and>
                 reg_entries (registry h') = reg_entries (registry h) @ [schema_of name (take n cols)]
            else reg_entries (registry h') = reg_entries (registry h) \<and> err_code (error h') = r \<and>
                 (register_args_ok (registry h) name (take n cols) \<longrightarrow> r = SQL_RDB_ERR_NO_MEMORY)) \<and>
           (register_args_ok (registry h) name (take n cols) \<and> m = [] \<longrightarrow> r = SQL_RDB_OK)"
  by (rule schema_register_cases [OF assms])

theorem register_accepts_exactly_witness:
  "\<exists>h' m'. c2sql_internal_schema_register (demo_handle (\<lambda>_. []) SQLITE_OK) (Some ''person'') (Some demo_args) 2 [] =
       Some (SQL_RDB_OK, h', m') \<and> reg_entries (registry h') = [demo_schema]"
proof -
  let ?h = "demo_handle (\<lambda>_. []) SQLITE_OK"
  have ok: "c2sql_handle_valid (Some ?h)" using demo_handle_ok by (auto simp: handle_ok_def c2sql_handle_valid_def)
  have reg: "registry ?h = \<lparr>reg_entries = [], reg_capacity = 0, reg_block = 0\<rparr>"
    by (simp add: demo_handle_def new_handle_def c2sql_internal_schema_registry_init_def)
  have args: "register_args_ok (registry ?h) ''person'' (take 2 demo_args)" "schema_of ''person'' (take 2 demo_args) = demo_schema"
    "2 \<le> length demo_args"
    unfolding reg by code_simp+
  from register_accepts_exactly [OF ok args(3), of "''person''" "[]"] obtain r h' m' where
    "c2sql_internal_schema_register ?h (Some ''person'') (Some demo_args) 2 [] = Some (r, h', m')" "r = SQL_RDB_OK"
    "reg_entries (registry h') = reg_entries (registry ?h) @ [schema_of ''person'' (take 2 demo_args)]"
    using args(1) by (auto simp: reg split: if_splits)
  then show ?thesis using args(2) reg by auto
qed

text \<open>
  C27. The registry stays well formed: entries within the capacity, names distinct, every schema with
  valid distinct column names, the right member sizes and the index of its first key column. Both
  operations that change it keep this, on every path.
\<close>

theorem registry_stays_well_formed:
  assumes "registry_ok (registry h)" and "c2sql_handle_valid (Some h)" and "n \<le> length cols"
  shows "ensures (c2sql_internal_schema_register h name (Some cols) n m) (\<lambda>(r, h', m'). registry_ok (registry h')) \<and>
         registry_ok (registry (snd (c2sql_internal_schema_unregister h (Some gone))))"
proof
  show "ensures (c2sql_internal_schema_register h name (Some cols) n m) (\<lambda>(r, h', m'). registry_ok (registry h'))"
    using registry_ok_register [OF assms] by (auto intro!: ensuresI)
  have "distinct (map sch_name (reg_entries (registry h)))" using assms(1) by (simp add: registry_ok_def)
  from schema_unregister_filter [OF assms(2) this, of gone]
  show "registry_ok (registry (snd (c2sql_internal_schema_unregister h (Some gone))))"
    using assms(1) by (auto simp: registry_ok_def distinct_map_filter list_all_iff intro: order_trans [OF length_filter_le])
qed

theorem registry_stays_well_formed_witness:
  "registry_ok (registry (snd (c2sql_internal_schema_unregister (demo_registered (\<lambda>_. []) SQLITE_OK) (Some ''person''))))"
  by (rule registry_stays_well_formed [where n = 2 and cols = demo_args, THEN conjunct2, OF demo_registered_ok]) code_simp

text \<open>
  C28. After a successful registration the new name is found and leads to a copy of the schema, every
  other name is found exactly if it was before and leads to the same schema, and removing the new name
  again restores the entries.
\<close>

theorem register_then_lookup:
  assumes "registry_ok (registry h)" and "c2sql_handle_valid (Some h)" and "n \<le> length cols" and "n \<noteq> 0"
    and "c2sql_internal_schema_register h (Some name) (Some cols) n m = Some (SQL_RDB_OK, h', m')"
  shows "registered h' name = Some (schema_of name (take n cols)) \<and>
         (\<forall>other. other \<noteq> name \<longrightarrow> registered h' other = registered h other) \<and>
         reg_entries (registry (snd (c2sql_internal_schema_unregister h' (Some name)))) = reg_entries (registry h)"
  by (rule registered_after_register [OF assms])

theorem register_then_lookup_witness:
  "\<exists>h'. registered (h' :: demo_db SqlRDBHandle) ''person'' = Some demo_schema \<and> registered h' ''other'' = None"
proof -
  let ?h = "demo_handle (\<lambda>_. []) SQLITE_OK"
  have v: "c2sql_handle_valid (Some ?h)" "registry_ok (registry ?h)"
    using demo_handle_ok by (auto simp: handle_ok_def c2sql_handle_valid_def)
  have s: "schema_of ''person'' (take 2 demo_args) = demo_schema" "2 \<le> length demo_args" by code_simp+
  have "map_option (\<lambda>(r, h', m'). r) (c2sql_internal_schema_register ?h (Some ''person'') (Some demo_args) 2 []) = Some SQL_RDB_OK"
    by code_simp
  then obtain h' m' where "c2sql_internal_schema_register ?h (Some ''person'') (Some demo_args) 2 [] = Some (SQL_RDB_OK, h', m')" by auto
  from register_then_lookup [OF v(2,1) s(2) _ this]
  have "registered h' ''person'' = Some demo_schema" "registered h' ''other'' = registered ?h ''other''" unfolding s(1) by simp_all
  moreover have "registered ?h ''other'' = None" by code_simp
  ultimately show ?thesis by (intro exI [of _ h']) simp
qed

text \<open>
  The name check accepts exactly the names of 1 to 128 letters, digits and underscores that do not
  start with a digit and are not a reserved word in any case.
\<close>

theorem identifier_check_exact: "identifier_valid (Some s) \<longleftrightarrow> sql_identifier s"
  by (rule identifier_valid_iff)

text \<open>
  For every schema in a well-formed registry the builder handles the write the library issues for
  it (an upsert when it has a key, an insert otherwise): it returns the statement with one parameter per
  column, or out of memory and no text; with enough memory it succeeds.
\<close>

theorem registered_write_builds:
  assumes "registry_ok reg" and "s \<in> set (reg_entries reg)"
  shows "\<exists>r sql k m'. c2sql_internal_qb_build (query (write_op s) s None None d) m = Some (r, sql, k, m') \<and>
           (r = SQL_RDB_OK \<and> sql = Some (sql_text (write_op s) (query (write_op s) s None None d)) \<and> k = length (sch_cols s) \<or>
            r = SQL_RDB_ERR_NO_MEMORY \<and> sql = None) \<and> (m = [] \<longrightarrow> r = SQL_RDB_OK)"
proof -
  have ok: "schema_ok s" using assms by (auto simp: registry_ok_def list_all_iff)
  have op: "qs_op (query (write_op s) s None None d) = write_op s" by (simp add: query_def)
  have res: "qb_result (write_op s) (query (write_op s) s None None d) = SQL_RDB_OK"
    "bind_total (write_op s) (query (write_op s) s None None d) = length (sch_cols s)"
    by (simp_all add: write_op_def query_def)
  show ?thesis using qb_build_sql [of "query (write_op s) s None None d" m] schema_ok_write [OF ok, of d]
      query_idents [OF ok, of "write_op s" None None d] unfolding op res by auto
qed

theorem registered_write_builds_witness:
  "\<exists>sql m'. c2sql_internal_qb_build (query (write_op demo_schema) demo_schema None None C2SQL_DIALECT_POSTGRES) [] =
     Some (SQL_RDB_OK, sql, 2, m')"
  using registered_write_builds [of "registry (demo_registered (\<lambda>_. []) SQLITE_OK)" demo_schema C2SQL_DIALECT_POSTGRES "[]"]
    demo_registered_ok by (auto simp: demo_registered_def demo_schema_def demo_cols_def)

section \<open>Rows and null bitmaps\<close>

text \<open>
  C30. In a null bitmap of the size the header prescribes for \<open>n\<close> columns, setting the bit of a
  column is within the array, keeps its length, and changes what is read for that column only.
\<close>

theorem null_bit_set_then_get:
  assumes "length bs = SQL_RDB_NULL_BITMAP_BYTES n" and "i < n" and "j < n"
  shows "\<exists>bs'. c2sql_internal_null_bit_set (Some bs) i = Some (Some bs') \<and> length bs' = length bs \<and>
           c2sql_internal_null_bit_get (Some bs') j = (if j = i then Some True else c2sql_internal_null_bit_get (Some bs) j) \<and>
           c2sql_internal_null_bit_get (Some bs) j \<noteq> None"
proof -
  have in_range: "i div 8 < length bs" "j div 8 < length bs" using bitmap_bytes_enough assms by auto
  then obtain bs' where "c2sql_internal_null_bit_set (Some bs) i = Some (Some bs')" "length bs' = length bs"
    by (auto simp: c2sql_internal_null_bit_set_def index_bits nth_opt_def)
  then show ?thesis using null_bit_get_set [OF _ in_range(2)] null_bit_get_bit [OF in_range(2)] by auto
qed

theorem null_bit_set_then_get_witness:
  "\<exists>bs'. c2sql_internal_null_bit_set (Some [0, 0]) 9 = Some (Some bs') \<and> c2sql_internal_null_bit_get (Some bs') 9 = Some True"
  using null_bit_set_then_get [of "[0, 0]" 10 9 9] by (auto simp: SQL_RDB_NULL_BITMAP_BYTES_def)

text \<open>
  C18. Reading a row back restores it: when the driver serves, for every column, the value the member of
  the source struct stands for (or NULL), reading writes a struct in which every member that is not NULL
  stands for the same value, adds exactly the NULL bits to the map, and leaves the memory outside the
  columns alone. The members lie apart, within the struct, with the sizes of their types, and texts are
  terminated.
\<close>

theorem read_row_restores:
  assumes "\<forall>k < length (sch_cols schema). serves drv stmt w k (if nulls k then Cell_Null else column_cell (sch_cols schema ! k) src)"
    and "\<forall>col \<in> set (sch_cols schema). member_ok (length src) col \<and> terminated src col"
    and "pairwise disjoint_cols (set (sch_cols schema))" and "distinct (sch_cols schema)"
    and "length dst = length src" and "map_fits (length (sch_cols schema)) nm"
  shows "\<exists>dst' nm'. c2sql_internal_tm_read_row drv stmt schema (Some dst) nm w = Some (SQL_RDB_OK, Some dst', nm', w) \<and>
           length dst' = length src \<and> null_bits_added nulls 0 (length (sch_cols schema)) nm nm' \<and>
           (\<forall>k < length (sch_cols schema). \<not> nulls k \<longrightarrow>
              column_cell (sch_cols schema ! k) dst' = column_cell (sch_cols schema ! k) src) \<and>
           (\<forall>d. (\<forall>c \<in> set (sch_cols schema). disjoint_cols c d) \<and> member_ok (length src) d \<longrightarrow> column_cell d dst' = column_cell d dst)"
  using read_cols_restores [of "sch_cols schema" drv stmt w 0 nulls src dst "length (sch_cols schema)" nm False] assms
  by (auto simp: c2sql_internal_tm_read_row_def)

theorem read_row_restores_witness:
  "\<exists>dst' nm'. c2sql_internal_tm_read_row (g_sqlite3_driver (demo_sqlite demo_rows SQLITE_OK)) 1 demo_schema
       (Some (replicate 12 (CHR ''z''))) (Some [0]) demo_stepped = Some (SQL_RDB_OK, Some dst', nm', demo_stepped) \<and>
     column_cell (demo_cols ! 0) dst' = Cell_Int 5 \<and> null_bits_added (\<lambda>k. k = 1) 0 2 (Some [0]) nm'"
proof -
  let ?drv = "g_sqlite3_driver (demo_sqlite demo_rows SQLITE_OK)" and ?nulls = "\<lambda>k. k = (1::nat)"
  have cols: "sch_cols demo_schema = demo_cols" "length demo_cols = 2" "set demo_cols = {demo_cols ! 0, demo_cols ! 1}" "distinct demo_cols"
    by (simp_all add: demo_schema_def demo_cols_def insert_commute)
  have cell: "column_cell (demo_cols ! 0) demo_row = Cell_Int 5" by code_simp
  have serves: "serves ?drv 1 demo_stepped k (if ?nulls k then Cell_Null else column_cell (demo_cols ! k) demo_row)" if "k < 2" for k
    using that cell by (auto simp: less_2_cases_iff serves_def demo_serves simp del: One_nat_def)
  have m: "\<forall>col \<in> set demo_cols. member_ok (length demo_row) col \<and> terminated demo_row col"
    by (simp add: demo_cols_def demo_row_def member_ok_def terminated_def region_def INT_MAX_def)
  have d: "pairwise disjoint_cols (set demo_cols)"
    unfolding cols(3) by (auto simp: pairwise_def disjoint_cols_def demo_cols_def)
  have "length (replicate 12 (CHR ''z'')) = length demo_row" "map_fits 2 (Some [0])" by code_simp+
  then show ?thesis using read_row_restores [of demo_schema ?drv 1 demo_stepped ?nulls demo_row "replicate 12 (CHR ''z'')" "Some [0]"]
      serves m d cell by (fastforce simp: cols)
qed

section \<open>Transactions\<close>

text \<open>
  C19. Every transaction call on an open handle does what the driver command for the current depth does,
  returns its result, and moves the depth by one exactly when it succeeds: \<^verbatim>\<open>BEGIN\<close> at depth
  0, a savepoint above, refusal at the limit of 16, and the matching commit, release or rollback. The
  handle stays usable and nothing else of it changes; the mutex is free again on every path.
\<close>

theorem transaction_calls_refine:
  assumes "tx_ready h" and "driver h = Some drv" and "driver_ctx h = Some ctx"
    and "tx_command drv ctx oper (txn_depth (txn h)) w = Some (r, w')"
  shows "\<exists>h'. tx_run oper h w = Some (r, h', w') \<and> tx_ready h' \<and> same_but_tx h h' \<and>
           txn_depth (txn h') = tx_depth_after oper (txn_depth (txn h)) r"
  by (rule tx_run_refines [OF assms])

theorem transaction_calls_refine_witness:
  "\<exists>h'. SqlRDBCommitTx (demo_handle (\<lambda>_. []) SQLITE_OK) demo_db0 = Some (SQL_RDB_ERR_NO_ACTIVE_TX, h', demo_db0) \<and>
     txn_depth (txn h') = 0"
proof -
  let ?h = "demo_handle (\<lambda>_. []) SQLITE_OK"
  have "tx_ready ?h" by (rule handle_ok_ready [OF demo_handle_ok]) simp
  moreover have "txn_depth (txn ?h) = 0" by (simp add: demo_handle_def new_handle_def)
  ultimately show ?thesis
    using transaction_calls_refine [of ?h "g_sqlite3_driver (demo_sqlite (\<lambda>_. []) SQLITE_OK)" 0 Tx_Commit demo_db0 SQL_RDB_ERR_NO_ACTIVE_TX demo_db0]
    by auto
qed

text \<open>
  C20. Over any sequence of transaction calls the depth stays between 0 and 16 and equals the number of
  successful begins minus the number of successful commits and rollbacks, and the savepoint slots in
  use hold the names of their depths.
\<close>

theorem transaction_depth_invariant:
  assumes "tx_reach h w tr h' w'" and "tx_ready h"
  shows "tx_ready h' \<and> txn_ok (txn h') \<and> same_but_tx h h' \<and> txn_depth (txn h') = tx_depth_of (txn_depth (txn h)) tr"
  using tx_reach_ready [OF assms] by (simp add: tx_ready_def)

theorem transaction_depth_invariant_witness:
  "\<exists>h' w'. tx_reach (demo_handle (\<lambda>_. []) SQLITE_OK) demo_db0 [(Tx_Begin, SQL_RDB_OK)] h' w' \<and> txn_depth (txn h') = 1"
proof -
  let ?h = "demo_handle (\<lambda>_. []) SQLITE_OK"
  have "map_option (\<lambda>(r, h', w'). r) (tx_run Tx_Begin ?h demo_db0) = Some SQL_RDB_OK" by code_simp
  then obtain h' w' where "tx_run Tx_Begin ?h demo_db0 = Some (SQL_RDB_OK, h', w')" by auto
  from tx_step [OF tx_start this] have reach: "tx_reach ?h demo_db0 [(Tx_Begin, SQL_RDB_OK)] h' w'" by simp
  have "tx_ready ?h" by (rule handle_ok_ready [OF demo_handle_ok]) simp
  from transaction_depth_invariant [OF reach this] reach show ?thesis
    by (auto simp: tx_depth_of_def demo_handle_def new_handle_def)
qed

text \<open>
  On SQLite a legal transaction call runs exactly its SQL commands in order, up to the first that
  fails: the savepoint of depth \<open>k\<close> is \<^verbatim>\<open>sp_k\<close>, a nested rollback is a rollback to it followed
  by its release, and no command is cut off by the driver's buffer.
\<close>

theorem sqlite_transaction_sql:
  assumes "tx_ready h" and "driver h = Some (g_sqlite3_driver api)" and "driver_ctx h = Some ctx"
    and "tx_legal oper (txn_depth (txn h))"
    and "exec_all (g_sqlite3_driver api) ctx (tx_sql oper (txn_depth (txn h))) w = Some (r, w')"
  shows "\<exists>h'. tx_run oper h w = Some (r, h', w') \<and> tx_ready h' \<and> same_but_tx h h' \<and>
           txn_depth (txn h') = tx_depth_after oper (txn_depth (txn h)) r"
  by (rule sqlite_txn.tx_run_sql [OF assms])

theorem sqlite_transaction_sql_witness:
  "\<exists>h'. SqlRDBBeginTx (demo_handle (\<lambda>_. []) SQLITE_OK) demo_db0 = Some (SQL_RDB_OK, h', demo_db0\<lparr>db_log := [''BEGIN'']\<rparr>) \<and>
     txn_depth (txn h') = 1"
proof -
  let ?h = "demo_handle (\<lambda>_. []) SQLITE_OK" and ?d = "g_sqlite3_driver (demo_sqlite (\<lambda>_. []) SQLITE_OK)"
  have "tx_ready ?h" by (rule handle_ok_ready [OF demo_handle_ok]) simp
  moreover have d0: "txn_depth (txn ?h) = 0" by (simp add: demo_handle_def new_handle_def)
  moreover have "exec_all ?d 0 (tx_sql Tx_Begin 0) demo_db0 = Some (SQL_RDB_OK, demo_db0\<lparr>db_log := [''BEGIN'']\<rparr>)"
    by (simp add: g_sqlite3_driver_def sqlite_exec_def mapped_def demo_sqlite_def demo_db0_def)
  moreover have "tx_legal Tx_Begin 0" by (simp add: tx_legal_def C2SQL_MAX_TX_DEPTH_def)
  ultimately show ?thesis using sqlite_transaction_sql [of ?h "demo_sqlite (\<lambda>_. []) SQLITE_OK" 0 Tx_Begin demo_db0] by auto
qed

section \<open>The PostgreSQL driver\<close>

text \<open>
  On PostgreSQL a legal transaction call runs exactly the same SQL commands.
\<close>

theorem postgres_transaction_sql:
  assumes "tx_ready h" and "driver h = Some (g_postgres_driver pq)" and "driver_ctx h = Some ctx"
    and "tx_legal oper (txn_depth (txn h))"
    and "exec_all (g_postgres_driver pq) ctx (tx_sql oper (txn_depth (txn h))) w = Some (r, w')"
  shows "\<exists>h'. tx_run oper h w = Some (r, h', w') \<and> tx_ready h' \<and> same_but_tx h h' \<and>
           txn_depth (txn h') = tx_depth_after oper (txn_depth (txn h)) r"
  by (rule pg_txn.tx_run_sql [OF assms])

theorem postgres_transaction_sql_witness:
  "\<exists>h'. SqlRDBBeginTx demo_pg_handle demo_pg_world = Some (SQL_RDB_OK, h', demo_pg_world\<lparr>pg_lib := [''BEGIN'']\<rparr>) \<and>
     txn_depth (txn h') = 1"
proof -
  have "tx_ready demo_pg_handle" by (rule handle_ok_ready [OF demo_pg_handle_ok]) simp
  moreover have d0: "txn_depth (txn demo_pg_handle) = 0" by (simp add: demo_pg_handle_def new_handle_def)
  moreover have "exec_all (g_postgres_driver demo_pq) 0 (tx_sql Tx_Begin 0) demo_pg_world =
      Some (SQL_RDB_OK, demo_pg_world\<lparr>pg_lib := [''BEGIN'']\<rparr>)"
    by (simp add: g_postgres_driver_def pg_exec_def demo_pq_def demo_pg_world_def Let_def set_ctx_def changes_of_def)
  moreover have "tx_legal Tx_Begin 0" by (simp add: tx_legal_def C2SQL_MAX_TX_DEPTH_def)
  ultimately show ?thesis using postgres_transaction_sql [of demo_pg_handle demo_pq 0 Tx_Begin demo_pg_world] by auto
qed

text \<open>
  C31. The driver's scan of the statement text finds exactly the number of parameters the library binds,
  for every text the builder generates in the PostgreSQL dialect (with fewer than 2 to the 31
  parameters), so every bind index is within the parameter arrays.
\<close>

theorem postgres_counts_parameters:
  assumes "spec_ok (qs_op spec) spec" and "spec_idents spec" and "qs_dialect spec = C2SQL_DIALECT_POSTGRES"
    and "c2sql_internal_qb_build spec m = Some (SQL_RDB_OK, Some sql, k, m')" and "k < 2 ^ 31"
  shows "pg_count_params sql = Some (int k)"
  using qb_build_OK_D [OF assms(1,2,4)] pg_count_sql_text [OF assms(2,1) _ assms(3)] assms(5) by simp

theorem postgres_counts_parameters_witness:
  "pg_count_params ''SELECT \"id\",\"name\" FROM \"person\" WHERE (\"id\" >= $1 AND \"name\" != $2)'' = Some 2"
proof -
  have "c2sql_internal_qb_build (demo_select C2SQL_DIALECT_POSTGRES) [] =
      Some (SQL_RDB_OK, Some ''SELECT \"id\",\"name\" FROM \"person\" WHERE (\"id\" >= $1 AND \"name\" != $2)'', 2, [])"
    by code_simp
  from postgres_counts_parameters [OF demo_select_ok _ this] show ?thesis by (simp add: demo_select_def query_def)
qed

text \<open>
  C32. Binding a struct fills the parameter arrays of the statement with the encoding of every member, in
  column order: numbers and texts as text, blobs in binary with the \<^verbatim>\<open>bytea\<close> type, NULL where
  the map says so.
\<close>

theorem postgres_binds_row:
  assumes "pg_stmts w stmt = Some s" and "pg_mem w = []" and "length (ps_params s) = length (sch_cols schema)"
    and "\<forall>c \<in> set (sch_cols schema). member_ok (length row) c \<and> col_size c < 2 ^ 31"
    and "\<forall>k < length (sch_cols schema). c2sql_internal_null_bit_get nm k = Some (nulls k) \<and>
           (nulls k \<longrightarrow> has_flag (sch_cols schema ! k) SQL_COL_FLAG_NULLABLE)"
  shows "c2sql_internal_tm_bind_row (g_postgres_driver pq) stmt schema (Some row) nm w =
    Some (SQL_RDB_OK, set_stmt stmt (s\<lparr>ps_params := map (pg_encode pq) (row_cells nulls 0 (sch_cols schema) row)\<rparr>) w)"
  by (rule pg_bind_row [OF assms])

theorem postgres_binds_row_witness:
  "\<exists>s. c2sql_internal_tm_bind_row (g_postgres_driver demo_pq) 1 demo_schema (Some demo_row) (Some [2]) (set_stmt 1 demo_pg_stmt demo_pg_world) =
     Some (SQL_RDB_OK, set_stmt 1 s (set_stmt 1 demo_pg_stmt demo_pg_world)) \<and>
     map pv_value (ps_params s) = [Some [CHR ''5'', NUL], None]"
proof -
  let ?w = "set_stmt 1 demo_pg_stmt demo_pg_world" and ?nulls = "\<lambda>k. k = (1::nat)"
  have m: "\<forall>c \<in> set (sch_cols demo_schema). member_ok (length demo_row) c \<and> col_size c < 2 ^ 31"
    by (simp add: demo_schema_def demo_cols_def demo_row_def member_ok_def INT_MAX_def)
  have "c2sql_internal_null_bit_get (Some [2]) 0 = Some False" "c2sql_internal_null_bit_get (Some [2]) 1 = Some True"
    "has_flag (sch_cols demo_schema ! 1) SQL_COL_FLAG_NULLABLE" by code_simp+
  then have n: "\<forall>k < length (sch_cols demo_schema). c2sql_internal_null_bit_get (Some [2]) k = Some (?nulls k) \<and>
      (?nulls k \<longrightarrow> has_flag (sch_cols demo_schema ! k) SQL_COL_FLAG_NULLABLE)"
    by (auto simp: demo_schema_def demo_cols_def less_Suc_eq)
  have "map pv_value (map (pg_encode demo_pq) (row_cells ?nulls 0 (sch_cols demo_schema) demo_row)) = [Some [CHR ''5'', NUL], None]"
    by code_simp
  then show ?thesis
    using postgres_binds_row [OF _ _ _ m n, where w = ?w and stmt = 1 and s = demo_pg_stmt and pq = demo_pq]
    by (intro exI [of _ "demo_pg_stmt\<lparr>ps_params := map (pg_encode demo_pq) (row_cells ?nulls 0 (sch_cols demo_schema) demo_row)\<rparr>"])
      (simp add: demo_pg_stmt_def demo_schema_def demo_cols_def demo_pg_world_def set_stmt_def)
qed

text \<open>
  C33. On PostgreSQL an integer survives the trip through the driver. It is bound to a parameter of a
  statement that gives the parameter back as decimal text in column \<open>j\<close>; after a step that delivers a
  row, reading that column returns the same value, for all 64-bit and all 32-bit integers.
\<close>

theorem integer_text_round_trip:
  assumes "returns_param pq (ps_sql s) (nat (i - 1)) j" and "pg_stmts w stmt = Some s" and "\<not> ps_executed s"
  shows "(pg_bind_int64 stmt i v w = Some (SQL_RDB_OK, w1) \<longrightarrow> pg_step pq stmt w1 = Some (SQL_RDB_OK, True, w2) \<longrightarrow>
           pg_column_int64 pq stmt j w2 = Some (SQL_RDB_OK, v, w2)) \<and>
         (pg_bind_int32 stmt i u w = Some (SQL_RDB_OK, w1) \<longrightarrow> pg_step pq stmt w1 = Some (SQL_RDB_OK, True, w2) \<longrightarrow>
           pg_column_int32 pq stmt j w2 = Some (SQL_RDB_OK, u, w2))"
  using int64_returns [OF assms] int32_returns [OF assms] by blast

theorem integer_text_round_trip_witness:
  "\<exists>w1 w2. pg_bind_int64 1 1 (-5) echo_world = Some (SQL_RDB_OK, w1) \<and> pg_step echo_pq 1 w1 = Some (SQL_RDB_OK, True, w2) \<and>
     pg_column_int64 echo_pq 1 0 w2 = Some (SQL_RDB_OK, -5, w2)"
proof -
  have "map_option (\<lambda>(r, b, w). (r, b)) (do { (r, w) \<leftarrow> pg_bind_int64 1 1 (-5) echo_world; if r \<noteq> SQL_RDB_OK then None else pg_step echo_pq 1 w }) =
      Some (SQL_RDB_OK, True)" by code_simp
  then obtain w1 w2 where run: "pg_bind_int64 1 1 (-5) echo_world = Some (SQL_RDB_OK, w1)" "pg_step echo_pq 1 w1 = Some (SQL_RDB_OK, True, w2)"
    by (auto simp: bind_Some_iff split: if_splits)
  have "returns_param echo_pq (ps_sql demo_pg_stmt) (nat (1 - 1)) 0" using echo_returns by simp
  moreover have "pg_stmts echo_world 1 = Some demo_pg_stmt" "\<not> ps_executed demo_pg_stmt" by (simp_all add: echo_world_def demo_pg_stmt_def)
  ultimately show ?thesis using integer_text_round_trip [of echo_pq demo_pg_stmt 1 0 echo_world 1 "-5" w1 w2] run by blast
qed

section \<open>Statement ownership over the life of a handle\<close>

text \<open>
  C10. On PostgreSQL, after any sequence of API calls on an open handle (row operations, iterators,
  blob fields, transactions, registration, configuration, logger), whatever their results, every open
  statement of the driver is held by exactly one cache entry or by exactly one iterator of the caller,
  and the handle is in a sound state: free mutex, consistent cache, registry and transaction state.
\<close>

theorem postgres_statement_ownership:
  assumes "service pg_live (h, w, F) (h', w', F')" and "open_handle (g_postgres_driver pq) ctx pg_live (h, w, F)"
  shows "handle_ok h' \<and> (\<exists>es. represents (cache h') es \<and> distinct (map snd es) \<and>
           pg_live w' = set (map snd es) \<union> F' \<and> set (map snd es) \<inter> F' = {})"
  using stmt_driver.service_open [OF pg_stmts.stmt_driver_axioms assms] by (simp add: open_handle_def holds_def)

theorem postgres_statement_ownership_witness:
  "\<exists>h' w'. service pg_live (demo_pg_handle, demo_pg_world, {}) (h', w', {}) \<and> txn_depth (txn h') = 1 \<and> handle_ok h'"
proof -
  have "map_option (\<lambda>(r, h', w'). txn_depth (txn h')) (tx_run Tx_Begin demo_pg_handle demo_pg_world) = Some 1" by code_simp
  then obtain r h' w' where run: "tx_run Tx_Begin demo_pg_handle demo_pg_world = Some (r, h', w')" "txn_depth (txn h') = 1" by auto
  have "service pg_live (demo_pg_handle, demo_pg_world, {}) (h', w', {})" by (intro r_into_rtranclp sv_api st_tx) (rule run(1))
  from this postgres_statement_ownership [OF this demo_pg_open] run(2) show ?thesis by blast
qed

text \<open>
  C11. The same on SQLite, for a library that opens a new statement on a successful prepare, closes it on
  finalize and does so in no other call.
\<close>

theorem sqlite_statement_ownership:
  assumes "sqlite_opens api live" and "sqlite_keeps api live"
    and "service live (h, w, F) (h', w', F')" and "open_handle (g_sqlite3_driver api) ctx live (h, w, F)"
  shows "handle_ok h' \<and> (\<exists>es. represents (cache h') es \<and> distinct (map snd es) \<and>
           live w' = set (map snd es) \<union> F' \<and> set (map snd es) \<inter> F' = {})"
  using stmt_driver.service_open [OF sqlite_stmt_driver [OF assms(1,2)] assms(3,4)] by (simp add: open_handle_def holds_def)

theorem sqlite_statement_ownership_witness:
  "\<exists>h' w' es. service demo_live (demo_handle demo_tables SQLITE_OK, demo_db0, {}) (h', w', {}) \<and>
     map sch_name (reg_entries (registry h')) = [''person''] \<and> represents (cache h') es \<and> demo_live w' = set (map snd es)"
proof -
  let ?h = "demo_handle demo_tables SQLITE_OK"
  have "map_option (\<lambda>(r, h, w, m). map sch_name (reg_entries (registry h)))
      (SqlRDBRegisterStruct ?h (Some ''person'') (Some demo_args) 2 demo_db0 []) = Some [''person'']" by code_simp
  then obtain r h' w' m' where run: "SqlRDBRegisterStruct ?h (Some ''person'') (Some demo_args) 2 demo_db0 [] = Some (r, h', w', m')"
    "map sch_name (reg_entries (registry h')) = [''person'']" by auto
  have "2 \<le> length demo_args" by code_simp
  then have s: "service demo_live (?h, demo_db0, {}) (h', w', {})"
    using sv_register [OF _ run(1), of demo_live "{}"] by (intro r_into_rtranclp) simp
  from sqlite_statement_ownership [OF demo_sqlite_opens demo_sqlite_keeps s demo_open]
  obtain es where "represents (cache h') es" "demo_live w' = set (map snd es)" by auto
  with s run(2) show ?thesis by (intro exI conjI)
qed

text \<open>
  No row operation, iterator call, blob call or transaction call changes the configuration, the
  driver, the connection, the registry or the logger, and each of them returns with the mutex as it
  found it, on every path; so no sequence of them can dead-lock on the handle's mutex.
\<close>

theorem calls_keep_connection:
  assumes "session (h, w, F) (h', w', F')" and "mutex_idle (mutex h)"
  shows "magic h' = magic h \<and> config h' = config h \<and> driver h' = driver h \<and> driver_ctx h' = driver_ctx h \<and>
         registry h' = registry h \<and> logger h' = logger h \<and> mutex h' = mutex h"
  using session_same [OF assms] by (simp add: same_connection_def)

theorem calls_keep_connection_witness:
  "\<exists>h' w'. session (demo_registered (\<lambda>_. []) SQLITE_OK, demo_db0, {}) (h', w', {1}) \<and>
     mutex h' = mutex (demo_registered (\<lambda>_. []) SQLITE_OK)"
proof -
  let ?h = "demo_registered (\<lambda>_. []) SQLITE_OK"
  have "map_option (\<lambda>(r, h, it, w, m). map_option raw_stmt it) (SqlRDBReadMany ?h (Some ''person'') None True demo_db0 []) = Some (Some 1)"
    by code_simp
  then obtain r h' x w' m' where run: "SqlRDBReadMany ?h (Some ''person'') None True demo_db0 [] = Some (r, h', Some x, w', m')" "raw_stmt x = 1"
    by auto
  from st_read_many [OF run(1), of "{}"] have s: "session (?h, demo_db0, {}) (h', w', {1})" using run(2) by auto
  have "mutex_idle (mutex ?h)" by code_simp
  from calls_keep_connection [OF s this] s show ?thesis by blast
qed

section \<open>Opening, configuring and closing\<close>

text \<open>
  \<^verbatim>\<open>SqlRDBInit\<close> keeps the table of live handles consistent on every path. It returns a null
  handle and leaves the handles as they were, or a new pointer to one freshly initialised handle: the
  driver selected for the connection string, the connection that driver opened, an empty cache of 64
  statements, no schema and no transaction.
\<close>

theorem init_opens_handle:
  assumes "process_ok P" and "SqlRDBInit be dsn w P = Some (r, w', P')"
  shows "process_ok P' \<and>
     (case r of None \<Rightarrow> handles P' = handles P \<and> g_live_handles P' = g_live_handles P
      | Some p \<Rightarrow> p \<notin> dom (handles P) \<and> g_live_handles P' = g_live_handles P @ [p] \<and>
          (\<exists>drv ctx mx c. opened be dsn w w' drv ctx \<and> handles P' = (handles P)(p \<mapsto> new_handle drv ctx mx c) \<and>
             represents c [] \<and> capacity c = 64 \<and> mutex_sound mx))"
  using ensuresD [OF Init_post [OF assms(1)] assms(2)] by (simp add: init_post_def)

theorem init_opens_handle_witness:
  "\<exists>w' P'. SqlRDBInit (demo_backends (\<lambda>_. []) SQLITE_OK) (Some ''x.db'') demo_db0 demo_process = Some (Some 7, w', P') \<and>
     process_ok P' \<and> g_live_handles P' = [7]"
proof -
  have "map_option (\<lambda>(r, w, P). r) (SqlRDBInit (demo_backends (\<lambda>_. []) SQLITE_OK) (Some ''x.db'') demo_db0 demo_process) = Some (Some 7)"
    by code_simp
  then obtain w' P' where run: "SqlRDBInit (demo_backends (\<lambda>_. []) SQLITE_OK) (Some ''x.db'') demo_db0 demo_process = Some (Some 7, w', P')"
    by auto
  from init_opens_handle [OF demo_process_ok run] run show ?thesis by (auto simp: demo_process_def)
qed

text \<open>
  C34. \<^verbatim>\<open>SqlRDBClose\<close> on a live handle succeeds, frees exactly that handle and keeps the table
  of live handles consistent; closing the same pointer again is refused without touching anything.
\<close>

theorem close_frees_once:
  assumes "process_ok P" and "p \<in> set (g_live_handles P)" and "SqlRDBClose (Some p) w P = Some (r, w', P')"
  shows "r = SQL_RDB_OK \<and> process_ok P' \<and> handles P' = (handles P)(p := None) \<and>
         set (g_live_handles P') = set (g_live_handles P) - {p} \<and>
         SqlRDBClose (Some p) v P' = Some (SQL_RDB_ERR_INVALID_HANDLE, v, P')"
  using Close_frees [OF assms] Close_invalid [of "Some p" P' v] by (simp add: live_contains_def)

theorem close_frees_once_witness:
  "\<exists>w' P'. SqlRDBClose (Some 7) demo_db0 (demo_process_with 7 (demo_handle (\<lambda>_. []) SQLITE_OK)) = Some (SQL_RDB_OK, w', P') \<and>
     SqlRDBClose (Some 7) w' P' = Some (SQL_RDB_ERR_INVALID_HANDLE, w', P')"
proof -
  let ?P = "demo_process_with 7 (demo_handle (\<lambda>_. []) SQLITE_OK)"
  have "map_option (\<lambda>(r, w, P). r) (SqlRDBClose (Some 7) demo_db0 ?P) = Some SQL_RDB_OK" by code_simp
  then obtain w' P' where run: "SqlRDBClose (Some 7) demo_db0 ?P = Some (SQL_RDB_OK, w', P')" by auto
  have "process_ok ?P" by (rule demo_process_with_ok [OF demo_handle_ok])
  moreover have "7 \<in> set (g_live_handles ?P)" by (simp add: demo_process_with_def)
  ultimately show ?thesis using close_frees_once [OF _ _ run, of w'] run by blast
qed

text \<open>
  Closing a PostgreSQL handle after any sequence of calls finalizes every statement the library
  holds: the statements still open afterwards are exactly those of the iterators the caller has not
  freed.
\<close>

theorem close_finalizes_statements:
  assumes "service pg_live (h0, w0, F0) (h, w, F)" and "open_handle (g_postgres_driver pq) ctx pg_live (h0, w0, F0)"
    and "p \<in> set (g_live_handles P)" and "handles P p = Some h" and "SqlRDBClose (Some p) w P = Some (r, w', P')"
  shows "pg_live w' = F"
  using ensuresD [OF stmt_driver.service_close [OF pg_stmts.stmt_driver_axioms assms(1-4)] assms(5)] by simp

theorem close_finalizes_statements_witness:
  "\<exists>r w' P'. SqlRDBClose (Some 7) demo_pg_world (demo_process_with 7 demo_pg_handle) = Some (r, w', P') \<and> pg_live w' = {}"
proof -
  let ?P = "demo_process_with 7 demo_pg_handle"
  have "map_option (\<lambda>(r, w, P). r) (SqlRDBClose (Some 7) demo_pg_world ?P) = Some SQL_RDB_OK" by code_simp
  then obtain r w' P' where run: "SqlRDBClose (Some 7) demo_pg_world ?P = Some (r, w', P')" by auto
  have "7 \<in> set (g_live_handles ?P)" "handles ?P 7 = Some demo_pg_handle" by (auto simp: demo_process_with_def)
  from close_finalizes_statements [OF rtranclp.rtrancl_refl demo_pg_open this run] run show ?thesis by blast
qed

text \<open>
  Changing the configuration succeeds with exactly the new configuration, or reports exhausted memory
  and keeps the old one; either way the handle stays sound and its schemas and transaction are untouched.
\<close>

theorem set_config_all_or_nothing:
  assumes "handle_ok h" and "unat (stmt_cache_size cfg) \<le> 2 ^ 62" and "SqlRDBSetConfig h (Some cfg) w m = Some (r, h', w', m')"
  shows "handle_ok h' \<and> config h' = (if r = SQL_RDB_OK then cfg else config h) \<and>
         (r = SQL_RDB_OK \<or> r = SQL_RDB_ERR_NO_MEMORY) \<and> txn h' = txn h \<and> registry h' = registry h"
  using ensuresD [OF SetConfig_post [OF assms(1,2)] assms(3)] by simp

theorem set_config_all_or_nothing_witness:
  "\<exists>r h' w' m'. SqlRDBSetConfig (demo_handle (\<lambda>_. []) SQLITE_OK) (Some (DEFAULT_CONFIG\<lparr>stmt_cache_size := 2\<rparr>)) demo_db0 [] =
     Some (r, h', w', m') \<and> r = SQL_RDB_OK \<and> stmt_cache_size (config h') = 2 \<and> handle_ok h'"
proof -
  let ?h = "demo_handle (\<lambda>_. []) SQLITE_OK" and ?cfg = "DEFAULT_CONFIG\<lparr>stmt_cache_size := 2\<rparr>"
  have "map_option (\<lambda>(r, h, w, m). r) (SqlRDBSetConfig ?h (Some ?cfg) demo_db0 []) = Some SQL_RDB_OK" by code_simp
  then obtain h' w' m' where run: "SqlRDBSetConfig ?h (Some ?cfg) demo_db0 [] = Some (SQL_RDB_OK, h', w', m')" by auto
  have "unat (stmt_cache_size ?cfg) \<le> 2 ^ 62" by simp
  from set_config_all_or_nothing [OF demo_handle_ok this run] run show ?thesis by auto
qed

section \<open>Registration and migration\<close>

text \<open>
  C15. \<^verbatim>\<open>SqlRDBRegisterStruct\<close> is all or nothing: on success exactly the new schema was added, and
  the library has read the table's columns from the database, after creating the table and possibly
  adding columns, and found that they match; on any failure the schemas are as before. Nothing else of
  the handle changes but the error context.
\<close>

theorem register_struct_all_or_nothing:
  assumes "handle_ok h" and "n \<le> length cols" and "SqlRDBRegisterStruct h name (Some cols) n w m = Some (r, h', w', m')"
  shows "registry_only h h' \<and> registry_ok (registry h') \<and>
     (if r = SQL_RDB_OK
      then \<exists>t. name = Some t \<and> reg_entries (registry h') = reg_entries (registry h) @ [schema_of t (take n cols)] \<and>
             (\<exists>g. driver g = driver h \<and> driver_ctx g = driver_ctx h \<and> table_matches g (schema_of t (take n cols)) w w')
      else reg_entries (registry h') = reg_entries (registry h))"
  by (rule RegisterStruct_post [OF assms])

theorem register_struct_all_or_nothing_witness:
  "\<exists>h' w' m' g. SqlRDBRegisterStruct (demo_handle demo_tables SQLITE_OK) (Some ''person'') (Some demo_args) 2 demo_db0 [] =
     Some (SQL_RDB_OK, h', w', m') \<and> reg_entries (registry h') = [demo_schema] \<and> table_matches g demo_schema demo_db0 w'"
proof -
  let ?h = "demo_handle demo_tables SQLITE_OK"
  have "map_option (\<lambda>(r, h, w, m). r) (SqlRDBRegisterStruct ?h (Some ''person'') (Some demo_args) 2 demo_db0 []) = Some SQL_RDB_OK"
    by code_simp
  then obtain h' w' m' where run: "SqlRDBRegisterStruct ?h (Some ''person'') (Some demo_args) 2 demo_db0 [] = Some (SQL_RDB_OK, h', w', m')"
    by auto
  have "2 \<le> length demo_args" "schema_of ''person'' (take 2 demo_args) = demo_schema" by code_simp+
  moreover have "reg_entries (registry ?h) = []"
    by (simp add: demo_handle_def new_handle_def c2sql_internal_schema_registry_init_def)
  ultimately show ?thesis using register_struct_all_or_nothing [OF demo_handle_ok _ run] run by auto
qed

text \<open>
  C35. Without automatic migration the comparison of the registered columns with those of the database
  always returns, runs no command, and accepts exactly the tables that have the same number of columns,
  each with the name, type class, NOT NULL and key flag of its counterpart and UNIQUE where asked for;
  every other table is a schema mismatch.
\<close>

theorem comparison_decides:
  assumes "\<not> auto_migrate (config h)"
  shows "\<exists>r h'. sync_columns h schema db_cols w m = Some (r, h', w, m) \<and> only_error h h' \<and>
           r = (if list_all2 column_matches (sch_cols schema) db_cols then SQL_RDB_OK else SQL_RDB_ERR_SCHEMA_MISMATCH)"
  by (rule sync_columns_decides [OF assms])

theorem comparison_decides_witness:
  "\<exists>r h'. sync_columns (demo_handle (\<lambda>_. []) SQLITE_OK) demo_schema [] demo_db0 [] = Some (r, h', demo_db0, []) \<and>
     r = SQL_RDB_ERR_SCHEMA_MISMATCH"
  using comparison_decides [of "demo_handle (\<lambda>_. []) SQLITE_OK" demo_schema "[]" demo_db0 "[]"]
  by (auto simp: demo_handle_def new_handle_def DEFAULT_CONFIG_def demo_schema_def demo_cols_def)

text \<open>
  C37. The scan for the STRICT keyword after the closing parenthesis returns on every text of words,
  blanks, tabs, newlines and commas.
\<close>

theorem strict_scan_returns:
  assumes "list_all (\<lambda>c. is_separator c \<or> ident_char c) s"
  shows "\<exists>b. strict_scan s = Some b"
  using strict_scan_total [OF assms] by auto

theorem strict_scan_returns_witness: "\<exists>b. strict_scan '' WITHOUT ROWID, STRICT'' = Some b"
  by (rule strict_scan_returns) code_simp

text \<open>
  At any other character with at least five more after it the scan makes no progress and never
  returns, for example at a comment that follows the closing parenthesis.
\<close>

theorem strict_scan_hangs:
  assumes "\<not> is_separator c" and "\<not> ident_char c" and "5 \<le> length cs"
  shows "strict_scan (c # cs) = None"
  by (rule strict_scan_stuck [OF assms])

theorem strict_scan_hangs_witness: "strict_scan ''/* v1 */ STRICT'' = None"
  by (rule strict_scan_hangs) code_simp+

section \<open>Row operations\<close>

text \<open>
  C36. A single-row read that does not deliver a row leaves the caller's struct and null map exactly as
  they were, whatever went wrong, also when the second row is what went wrong.
\<close>

theorem failed_read_leaves_buffers:
  assumes "\<not> allows_many h opts" and "SqlRDBRead h name cond row nm opts w m = Some (r, h', row', nm', w', m')"
    and "r \<noteq> SQL_RDB_OK" and "r \<noteq> SQL_RDB_WARN_TRUNCATED"
  shows "row' = row \<and> nm' = nm"
  using ensuresD [OF Read_untouched [OF assms(1)] assms(2)] assms(3,4) by (simp add: row_delivered_def)

theorem failed_read_leaves_buffers_witness:
  "\<exists>r h' row' nm' w' m'. SqlRDBRead (demo_items SQLITE_OK) (Some ''item'') None (Some demo_item) None None demo_db0 [] =
     Some (r, h', row', nm', w', m') \<and> r = SQL_RDB_ERR_NOT_FOUND \<and> row' = Some demo_item"
proof -
  let ?run = "SqlRDBRead (demo_items SQLITE_OK) (Some ''item'') None (Some demo_item) None None demo_db0 []"
  have "map_option (\<lambda>(r, h', row', nm', w', m'). r) ?run = Some SQL_RDB_ERR_NOT_FOUND" by code_simp
  then obtain h' row' nm' w' m' where run: "?run = Some (SQL_RDB_ERR_NOT_FOUND, h', row', nm', w', m')" by auto
  have "\<not> allows_many (demo_items SQLITE_OK) None" by code_simp
  from failed_read_leaves_buffers [OF this run] run show ?thesis by auto
qed

text \<open>
  \<^verbatim>\<open>SqlRDBReadBlobField\<close> writes its output parameters exactly when it succeeds, so a failed call
  leaves the caller nothing to free.
\<close>

theorem blob_buffer_iff_success:
  assumes "SqlRDBReadBlobField h name key col ob ol w m = Some (r, h', out, w', m')"
  shows "(out \<noteq> None) = (r = SQL_RDB_OK)"
  using ensuresD [OF ReadBlobField_publishes assms] by (simp add: publishes_def)

theorem blob_buffer_iff_success_witness:
  "\<exists>r h' out w' m'. SqlRDBReadBlobField (demo_items SQLITE_OK) (Some ''item'') None (Some ''qty'') True True demo_db0 [] =
     Some (r, h', out, w', m') \<and> out = None"
proof -
  let ?run = "SqlRDBReadBlobField (demo_items SQLITE_OK) (Some ''item'') None (Some ''qty'') True True demo_db0 []"
  have "map_option (\<lambda>(r, h', out, w', m'). r = SQL_RDB_OK) ?run = Some False" by code_simp
  then obtain r h' out w' m' where run: "?run = Some (r, h', out, w', m')" "r \<noteq> SQL_RDB_OK" by auto
  have "out = None" using blob_buffer_iff_success [OF run(1)] run(2) by blast
  then show ?thesis using run(1) by blast
qed

text \<open>
  C40. \<^verbatim>\<open>SqlRDBWriteMany\<close> does not look at the result of its commit: whatever the commit of the
  driver reports, for every handle, batch and state, the call does and returns the same. In particular
  it reports success when all rows were accepted and the commit failed.
\<close>

theorem write_many_ignores_commit_code:
  assumes "driver h = Some drv"
  shows "SqlRDBWriteMany (h\<lparr>driver := Some (recode_commit f drv)\<rparr>) name rows n stride nms w m =
    map_option (\<lambda>(r, h', w', m'). (r, h'\<lparr>driver := Some (recode_commit f drv)\<rparr>, w', m')) (SqlRDBWriteMany h name rows n stride nms w m)"
  unfolding WriteMany_recode [OF assms] by (cases "SqlRDBWriteMany h name rows n stride nms w m") auto

theorem write_many_ignores_commit_code_witness:
  "let drv = recode_commit (\<lambda>_. SQL_RDB_ERR_DRIVER) (g_sqlite3_driver (demo_sqlite (\<lambda>_. []) SQLITE_OK)) in
   map_option fst (SqlRDBWriteMany ((demo_items SQLITE_OK)\<lparr>driver := Some drv\<rparr>) (Some ''item'') (Some demo_item) 1 16 None demo_db0 []) = Some SQL_RDB_OK \<and>
   map_option fst (drv_commit drv 0 demo_db0) = Some SQL_RDB_ERR_DRIVER"
proof -
  let ?drv = "g_sqlite3_driver (demo_sqlite (\<lambda>_. []) SQLITE_OK)"
  have d: "driver (demo_items SQLITE_OK) = Some ?drv" by (simp add: demo_items_def demo_handle_def new_handle_def)
  have "map_option fst (SqlRDBWriteMany (demo_items SQLITE_OK) (Some ''item'') (Some demo_item) 1 16 None demo_db0 []) = Some SQL_RDB_OK" by code_simp
  moreover have "map_option fst (drv_commit (recode_commit (\<lambda>_. SQL_RDB_ERR_DRIVER) ?drv) 0 demo_db0) = Some SQL_RDB_ERR_DRIVER" by code_simp
  ultimately show ?thesis
    unfolding Let_def write_many_ignores_commit_code [OF d] by (auto simp: option.map_comp)
qed

section \<open>Clients\<close>

text \<open>
  C8. On SQLite no call of a client is ever undefined or fails to return: after any sequence of
  row, iterator, blob, transaction and configuration calls whose arguments describe real objects, the
  next such call returns a result and leaves the handle sound, whatever SQLite answers, as long as its
  functions return on open connections and statements.
\<close>

theorem sqlite_client_never_stuck:
  assumes "sqlite_opens api live" and "sqlite_keeps api live" and "sqlite_connection_answers api db usable"
    and "sqlite_statements_answer api live usable" and "client_ok (g_sqlite3_driver api) db usable live s"
    and "client_steps s tr s1" and "request_ok q s1"
  shows "\<exists>r s2. perform q s1 = Some (r, s2) \<and> client_ok (g_sqlite3_driver api) db usable live s2"
proof -
  note T = sqlite_total_driver [OF assms(1-4)]
  show ?thesis by (rule total_driver.perform_total [OF T total_driver.client_steps_ok [OF T assms(6,5)] assms(7)])
qed

theorem sqlite_client_never_stuck_witness:
  "\<exists>r s2. perform (Rq_Count (Some ''sessions'') None (Some 0)) (small_handle, small_db0, [], []) = Some (r, s2) \<and>
     client_ok (g_sqlite3_driver small_sqlite) 0 (\<lambda>w. True) small_live s2"
proof -
  have "request_ok (Rq_Count (Some ''sessions'') None (Some 0)) (small_handle, small_db0, [], [])"
    by (simp add: cond_safe_def cond_count_def)
  from sqlite_client_never_stuck [OF small_opens small_keeps small_connection small_answers small_client cl_start this]
  show ?thesis .
qed

text \<open>
  C9. The same on PostgreSQL, where all the driver relies on is that libpq reports the length of
  a value correctly. At any point the handle can be closed: the close returns OK, frees the handle and
  leaves open exactly the statements of the iterators the client has not freed.
\<close>

theorem postgres_client_never_stuck:
  assumes "libpq_lengths pq" and "client_ok (g_postgres_driver pq) ctx (pg_usable ctx) pg_live s"
    and "client_steps s tr (h, w, its, m)"
  shows "(\<forall>q. request_ok q (h, w, its, m) \<longrightarrow> (\<exists>r s2. perform q (h, w, its, m) = Some (r, s2))) \<and>
    (\<forall>P p. p \<in> set (g_live_handles P) \<longrightarrow> handles P p = Some h \<longrightarrow>
       (\<exists>w' P'. SqlRDBClose (Some p) w P = Some (SQL_RDB_OK, w', P') \<and> pg_live w' = raw_stmt ` set its \<and> handles P' p = None))"
proof -
  note T = pg_total_driver [OF assms(1), of ctx]
  have ok: "client_ok (g_postgres_driver pq) ctx (pg_usable ctx) pg_live (h, w, its, m)"
    by (rule total_driver.client_steps_ok [OF T assms(3,2)])
  show ?thesis using total_driver.perform_total [OF T ok] total_driver.client_close [OF T ok] by (fastforce simp: delivers_def)
qed

theorem postgres_client_never_stuck_witness:
  "\<exists>w' P'. SqlRDBClose (Some 7) demo_pg_world (demo_process_with 7 demo_pg_handle) = Some (SQL_RDB_OK, w', P') \<and> pg_live w' = {}"
proof -
  have "libpq_lengths demo_pq" by (simp add: libpq_lengths_def demo_pq_def)
  from postgres_client_never_stuck [OF this demo_pg_client cl_start]
  show ?thesis by (auto simp: demo_process_with_def dest!: spec [of _ "demo_process_with 7 demo_pg_handle"])
qed

section \<open>Threads\<close>

text \<open>
  C4. Threads that share a handle with thread safety on behave as one client: whatever way the steps of
  their calls interleave (checks before the lock, lock, work, unlock), at most one thread is at work,
  and the results they get and the state they leave are those of the same calls made one after the
  other in the order in which they completed. No call may change the \<^verbatim>\<open>threadsafe\<close> setting meanwhile.
\<close>

theorem threads_serialise:
  assumes "threads_run allowed (s, \<lambda>_. Ph_Idle) tr (s', ph)" and "mtx_threadsafe (client_mutex s)" and "\<not> mtx_locked (client_mutex s)"
    and "\<And>q. allowed q \<Longrightarrow> keeps_switch True q"
  shows "client_steps s tr (put_locked False s') \<and> (\<forall>t u. inside (ph t) \<longrightarrow> inside (ph u) \<longrightarrow> t = u)"
  using threads_serial [OF assms(1) exclusive_start [OF assms(2,3)] assms(4)] assms(3)
  by (simp add: settled_def exclusive_def)

theorem threads_serialise_witness:
  "\<exists>ph s'. threads_run (keeps_switch True) ((small_handle, small_db0, [], []), \<lambda>_. Ph_Idle)
       [(Rq_Tx Tx_Commit, SQL_RDB_ERR_NO_ACTIVE_TX)] (s', ph) \<and> ph 1 = Ph_Blocked (Rq_Tx Tx_Rollback) \<and>
     client_steps (small_handle, small_db0, [], []) [(Rq_Tx Tx_Commit, SQL_RDB_ERR_NO_ACTIVE_TX)] (put_locked False s')"
proof -
  let ?s = "(small_handle, small_db0, [], [])" and ?q = "Rq_Tx Tx_Commit" and ?p = "Rq_Tx Tx_Rollback"
  let ?i = "\<lambda>_ :: nat. Ph_Idle"
  have e: "early ?q ?s = None" "early ?p ?s = None" using small_mutex(2) by simp_all
  have run: "perform ?q ?s = Some (SQL_RDB_ERR_NO_ACTIVE_TX, ?s)"
  proof -
    have "txn_depth (txn small_handle) = 0" by code_simp
    then show ?thesis using small_mutex
      by (simp add: SqlRDBCommitTx_def locked_def lock_handle_def unlock_handle_def c2sql_internal_mutex_lock_def
        c2sql_internal_mutex_unlock_def)
  qed
  have mx: "mtx_threadsafe (client_mutex ?s)" "\<not> mtx_locked (client_mutex ?s)" by (simp_all add: client_mutex_def small_mutex)
  have k: "keeps_switch True ?q" "keeps_switch True ?p" by (simp_all add: keeps_switch_def)
  let ?ph = "?i(0 := Ph_Run ?q ?s, 1 := Ph_Blocked ?p)"
  have "threads_run (keeps_switch True) (?s, ?i) [] (put_locked True ?s, ?ph)"
    by (rule contended_run) (use e k mx in simp_all)
  moreover have "thread_step (keeps_switch True) (put_locked True ?s, ?ph) [(?q, SQL_RDB_ERR_NO_ACTIVE_TX)]
      (put_locked (mtx_locked (client_mutex (put_locked True ?s))) ?s, ?ph(0 := Ph_Unlock ?q))"
    by (rule th_publish [OF _ run]) simp
  ultimately have R: "threads_run (keeps_switch True) (?s, ?i) [(?q, SQL_RDB_ERR_NO_ACTIVE_TX)] (put_locked True ?s, ?ph(0 := Ph_Unlock ?q))"
    using tr_step by fastforce
  from threads_serialise [OF this mx] have "client_steps ?s [(?q, SQL_RDB_ERR_NO_ACTIVE_TX)] (put_locked False (put_locked True ?s))" by simp
  with R show ?thesis by (intro exI [of _ "?ph(0 := Ph_Unlock ?q)"] exI [of _ "put_locked True ?s"]) simp
qed

text \<open>
  C14. Calls under way end. Threads share a handle on any driver whose functions return on an open
  connection (\<open>total_driver\<close>, which both drivers meet); thread safety is on and stays on. In any state
  they reach, let the arguments of the calls that wait for the mutex be valid, and let no call free an
  iterator while another call on an iterator is under way. Then, once no new calls are started and in
  whatever order the threads are scheduled: as long as a call has not ended some thread can take a
  step, and after at most four steps per thread all calls have ended.
\<close>

theorem threads_calls_end:
  assumes "total_driver drv live ctx usable" and "client_ok drv ctx usable live s"
    and "mtx_threadsafe (client_mutex s)" and "\<not> mtx_locked (client_mutex s)"
    and "threads_run allowed (s, \<lambda>_. Ph_Idle) tr S" and "\<And>q. allowed q \<Longrightarrow> keeps_switch True q"
    and "pending_ok S" and "\<And>u. n \<le> u \<Longrightarrow> snd S u = Ph_Idle" and "(finish_step ^^ k) S S'"
  shows "k \<le> 4 * n \<and> (all_idle S' \<or> (\<exists>S2. finish_step S' S2))"
proof -
  have S: "exclusive S" "client_steps s tr (settled S)"
    using threads_serial [OF assms(5) exclusive_start [OF assms(3,4)] assms(6)] assms(4) by (simp_all add: settled_def)
  have "client_ok drv ctx usable live (settled S)"
    by (rule total_driver.client_steps_ok [OF assms(1) S(2) assms(2)])
  from total_driver.finish_run [OF assms(1,9) S(1) this assms(7)] show ?thesis
    using work_left_run [OF assms(9), of n, OF assms(8)] work_left_bound [of n S] by simp
qed

theorem threads_calls_end_witness:
  "\<exists>S2. finish_step (put_locked True (demo_pg_handle, demo_pg_world, [], []),
     (\<lambda>_. Ph_Idle)(0 := Ph_Run (Rq_Tx Tx_Begin) (demo_pg_handle, demo_pg_world, [], []), 1 := Ph_Blocked (Rq_Tx Tx_Commit))) S2"
proof -
  let ?s = "(demo_pg_handle, demo_pg_world, [], [])" and ?q = "Rq_Tx Tx_Begin" and ?p = "Rq_Tx Tx_Commit"
  let ?ph = "(\<lambda>_ :: nat. Ph_Idle)(0 := Ph_Run ?q ?s, 1 := Ph_Blocked ?p)"
  have lengths: "libpq_lengths demo_pq" by (simp add: libpq_lengths_def demo_pq_def)
  have m: "mutex demo_pg_handle = \<lparr>mtx_threadsafe = True, mtx_locked = False\<rparr>" by code_simp
  have mx: "mtx_threadsafe (client_mutex ?s)" "\<not> mtx_locked (client_mutex ?s)" by (simp_all add: client_mutex_def m)
  have "c2sql_handle_valid (Some demo_pg_handle)" by code_simp
  then have e: "early ?q ?s = None" "early ?p ?s = None" by simp_all
  have k: "keeps_switch True ?q" "keeps_switch True ?p" by (simp_all add: keeps_switch_def)
  have run: "threads_run (keeps_switch True) (?s, \<lambda>_. Ph_Idle) [] (put_locked True ?s, ?ph)"
    by (rule contended_run) (use e k mx in simp_all)
  have pend: "pending_ok (put_locked True ?s, ?ph)" using e by (auto simp: pending_ok_def split: if_splits)
  have idle: "\<And>u. 2 \<le> u \<Longrightarrow> snd (put_locked True ?s, ?ph) u = Ph_Idle" by simp
  have busy: "\<not> all_idle (put_locked True ?s, ?ph)" by (auto simp: all_idle_def)
  have "(finish_step ^^ 0) (put_locked True ?s, ?ph) (put_locked True ?s, ?ph)" by simp
  from threads_calls_end [where n = 2, OF pg_total_driver [OF lengths] demo_pg_client mx run _ pend idle this]
  show ?thesis using busy by blast
qed

text \<open>
  C38. Switching thread safety off strands a waiting thread. A thread that changes the
  \<^verbatim>\<open>threadsafe\<close> setting to off returns OK without releasing the mutex it holds, because the unlock
  tests the new setting; a thread that was blocked in the lock by then stays blocked through every
  further step of any thread, until some call switches the setting on again.
\<close>

theorem switch_off_strands_waiter:
  assumes "c2sql_handle_valid (Some h)" and "mutex h = \<lparr>mtx_threadsafe = True, mtx_locked = False\<rparr>" and "threadsafe (config h)"
    and "unat (stmt_cache_size (config h)) \<le> 2 ^ 62" and "early q (h, w, its, m) = None" and "keeps_switch False q"
  shows "\<exists>S. threads_run (\<lambda>_. True) ((h, w, its, m), \<lambda>_. Ph_Idle) [(Rq_Config ((config h)\<lparr>threadsafe := False\<rparr>), SQL_RDB_OK)] S \<and>
           (\<forall>tr S'. threads_run (keeps_switch False) S tr S' \<longrightarrow> snd S' 1 = Ph_Blocked q)"
proof -
  obtain S where S: "threads_run (\<lambda>_. True) ((h, w, its, m), \<lambda>_. Ph_Idle) [(Rq_Config ((config h)\<lparr>threadsafe := False\<rparr>), SQL_RDB_OK)] S"
    "switched_off S" "snd S 1 = Ph_Blocked q" using switch_off_reached [OF assms] by blast
  then show ?thesis using switched_off_run [OF _ S(2) _ S(3)] by blast
qed

theorem switch_off_strands_waiter_witness:
  "\<exists>S. threads_run (\<lambda>_. True) ((small_handle, small_db0, [], []), \<lambda>_. Ph_Idle)
       [(Rq_Config ((config small_handle)\<lparr>threadsafe := False\<rparr>), SQL_RDB_OK)] S \<and>
     (\<forall>tr S'. threads_run (keeps_switch False) S tr S' \<longrightarrow> snd S' 1 = Ph_Blocked (Rq_Tx Tx_Begin))"
proof -
  have "stmt_cache_size (config small_handle) = 0" by code_simp
  then have c: "threadsafe (config small_handle)" "unat (stmt_cache_size (config small_handle)) \<le> 2 ^ 62" by (code_simp, simp)
  have "early (Rq_Tx Tx_Begin) (small_handle, small_db0, [], []) = None" "keeps_switch False (Rq_Tx Tx_Begin)"
    using small_mutex(2) by (simp_all add: keeps_switch_def)
  from switch_off_strands_waiter [OF small_mutex(2,1) c this] show ?thesis .
qed

text \<open>
  C16. Threads that close different pointers at the same time do not disturb one another: in no
  interleaving does one of them read a freed handle, and when all have returned each got the result it
  gets alone, exactly the closed handles are gone from the table and freed, and every other handle is
  unchanged.
\<close>

theorem closes_do_not_interfere:
  assumes "process_ok P0" and "distinct_targets target" and "(closers_step target)\<^sup>*\<^sup>* (w0, P0, \<lambda>_. Cl_Test) (w, P, pcs)"
  shows "\<not> use_after_free target (w, P, pcs) \<and>
    ((\<forall>t p. target t = Some p \<longrightarrow> (\<exists>r. pcs t = Cl_Done r)) \<longrightarrow>
       (\<forall>t p. target t = Some p \<longrightarrow>
          pcs t = Cl_Done (if p \<in> set (g_live_handles P0) then SQL_RDB_OK else SQL_RDB_ERR_INVALID_HANDLE)) \<and>
       set (g_live_handles P) = set (g_live_handles P0) - {p. \<exists>t. target t = Some p} \<and>
       handles P = handles P0 |` (- {p. \<exists>t. target t = Some p}))"
proof -
  have I: "closing target P0 (w, P, pcs)" by (rule closing_run [OF assms(3) closing_start [OF assms(1)] assms(1,2)])
  show ?thesis
  proof (intro conjI impI)
    show "\<not> use_after_free target (w, P, pcs)" by (rule closing_safe [OF I assms(1,2)])
    assume "\<forall>t p. target t = Some p \<longrightarrow> (\<exists>r. pcs t = Cl_Done r)"
    then obtain res where res: "\<And>t p. target t = Some p \<Longrightarrow> pcs t = Cl_Done (res t)" by metis
    note F = closing_finished [OF I assms(1,2) res]
    show "\<forall>t p. target t = Some p \<longrightarrow>
        pcs t = Cl_Done (if p \<in> set (g_live_handles P0) then SQL_RDB_OK else SQL_RDB_ERR_INVALID_HANDLE)" using F(1) res by simp
    show "set (g_live_handles P) = set (g_live_handles P0) - {p. \<exists>t. target t = Some p}" by (rule F(2))
    show "handles P = handles P0 |` (- {p. \<exists>t. target t = Some p})" by (rule F(3))
  qed
qed

theorem closes_do_not_interfere_witness:
  "\<exists>w P pcs. (closers_step [0 \<mapsto> 7, 1 \<mapsto> 8])\<^sup>*\<^sup>* (demo_pg_world, demo_process_with 7 demo_pg_handle, \<lambda>_. Cl_Test) (w, P, pcs) \<and>
     pcs 0 = Cl_Done SQL_RDB_OK \<and> pcs 1 = Cl_Done SQL_RDB_ERR_INVALID_HANDLE \<and> g_live_handles P = []"
proof -
  let ?P = "demo_process_with 7 demo_pg_handle" and ?t = "[0 \<mapsto> 7, 1 \<mapsto> 8] :: nat \<rightharpoonup> ptr" and ?i = "\<lambda>_ :: nat. Cl_Test"
  have ok: "process_ok ?P" by (rule demo_process_with_ok) (use demo_pg_open in \<open>simp add: open_handle_def\<close>)
  have d: "distinct_targets ?t" by (auto simp: distinct_targets_def split: if_splits)
  have "map_option (\<lambda>(r, w, P). r) (SqlRDBClose (Some 7) demo_pg_world ?P) = Some SQL_RDB_OK" by code_simp
  then obtain w P where c: "SqlRDBClose (Some 7) demo_pg_world ?P = Some (SQL_RDB_OK, w, P)" by auto
  have b: "close_run 1 (?t 1) (?i 1) demo_pg_world ?P = Some (Cl_Done SQL_RDB_ERR_INVALID_HANDLE, demo_pg_world, ?P)"
    by (simp add: live_contains_def demo_process_with_def)
  have a: "close_run 6 (?t 0) ((?i(1 := Cl_Done SQL_RDB_ERR_INVALID_HANDLE)) 0) demo_pg_world ?P = Some (Cl_Done SQL_RDB_OK, w, P)"
    using c close_alone [of "Some 7" demo_pg_world ?P] by simp
  have run: "(closers_step ?t)\<^sup>*\<^sup>* (demo_pg_world, ?P, ?i)
      (w, P, ?i(1 := Cl_Done SQL_RDB_ERR_INVALID_HANDLE, 0 := Cl_Done SQL_RDB_OK))"
    by (rule rtranclp_trans [OF close_run_steps [where target = ?t and t = 1 and pcs = ?i, OF b]
      close_run_steps [where target = ?t and t = 0 and pcs = "?i(1 := Cl_Done SQL_RDB_ERR_INVALID_HANDLE)", OF a]])
  from closes_do_not_interfere [OF ok d run] have "set (g_live_handles P) = set (g_live_handles ?P) - {p. \<exists>t. ?t t = Some p}" by auto
  moreover have "7 \<in> {p. \<exists>t. ?t t = Some p}" by auto
  ultimately have "set (g_live_handles P) = {}" by (auto simp: demo_process_with_def)
  with run show ?thesis by (intro exI [of _ w] exI [of _ P] exI [of _ "?i(1 := Cl_Done SQL_RDB_ERR_INVALID_HANDLE, 0 := Cl_Done SQL_RDB_OK)"]) simp
qed

text \<open>
  C39. Two threads that close the same pointer at the same time can free the handle under one another:
  for every live handle whose close returns when run alone there is an interleaving in which one thread
  has returned OK and freed the handle, and the next step of the other is the write of the magic field
  to it, because the close does not look at the result of the removal from the table.
\<close>

theorem concurrent_close_race:
  assumes "process_ok P" and "p \<in> set (g_live_handles P)" and "target 0 = Some p" and "target 1 = Some p"
    and "SqlRDBClose (Some p) w P = Some (r, w', P')"
  shows "\<exists>S. (closers_step target)\<^sup>*\<^sup>* (w, P, \<lambda>_. Cl_Test) S \<and> write_after_free target S"
proof -
  obtain h where h: "handles P p = Some h" using assms(1,2) by (auto simp: process_ok_def)
  have "magic h = SQL_RDB_HANDLE_MAGIC" using assms(1) ranI [of "handles P" p, OF h] by (auto simp: process_ok_def handle_ok_def)
  then show ?thesis using close_race [OF h _ assms(2-4)] Close_frees(1) [OF assms(1,2,5)] assms(5) by blast
qed

theorem concurrent_close_race_witness:
  "\<exists>S. (closers_step (\<lambda>_. Some 7))\<^sup>*\<^sup>* (demo_pg_world, demo_process_with 7 demo_pg_handle, \<lambda>_. Cl_Test) S \<and>
     write_after_free (\<lambda>_. Some 7) S"
proof -
  let ?P = "demo_process_with 7 demo_pg_handle"
  have ok: "process_ok ?P" by (rule demo_process_with_ok) (use demo_pg_open in \<open>simp add: open_handle_def\<close>)
  have "map_option (\<lambda>(r, w, P). r) (SqlRDBClose (Some 7) demo_pg_world ?P) = Some SQL_RDB_OK" by code_simp
  then obtain w P where c: "SqlRDBClose (Some 7) demo_pg_world ?P = Some (SQL_RDB_OK, w, P)" by auto
  have "7 \<in> set (g_live_handles ?P)" by (simp add: demo_process_with_def)
  from concurrent_close_race [OF ok this refl refl c] show ?thesis .
qed

section \<open>The data behind the calls\<close>

text \<open>
  C1. What is written is read back. After a successful write of a struct, a successful single-row read
  with a condition that names that row restores every member that was not marked NULL, through the
  generated statements, the statement cache, the bound values and the columns of the driver, for an
  SQLite that executes statements as documented and for which the upsert of a row followed by the
  select gives that row.
\<close>

theorem write_then_read_restores:
  assumes "sqlite_opens api live" and "sqlite_keeps api live" and "sqlite_binds api live obs data"
    and "sqlite_executes api db live obs data sem" and "sqlite_reads api live obs data"
    and "engine_ready (g_sqlite3_driver api) db live obs h w F" and "registered h name = Some schema"
    and "writable (sch_cols schema) src nm nulls" and "cond_fits cond" and "\<not> allows_many h opts" and "struct_ok (sch_cols schema) buf"
    and "stores sem (g_sqlite3_driver api) schema cond (row_cells nulls 0 (sch_cols schema) src)"
    and "SqlRDBWrite h (Some name) (Some src) nm w m = Some (SQL_RDB_OK, h1, w1, m1)"
    and "SqlRDBRead h1 (Some name) cond (Some buf) nm1 opts w1 m1 = Some (SQL_RDB_OK, h2, buf', nm2, w2, m2)"
  shows "\<exists>b. buf' = Some b \<and> length b = length buf \<and>
    (\<forall>k < length (sch_cols schema). \<not> nulls k \<longrightarrow> column_cell (sch_cols schema ! k) b = column_cell (sch_cols schema ! k) src)"
  by (rule sql_engine.write_then_read [OF sqlite_sql_engine [OF assms(1-5)] assms(6-14)])

theorem write_then_read_restores_witness:
  "\<exists>h1 w1 m1 h2 b nm2 w2 m2. SqlRDBWrite small_handle (Some ''item'') (Some demo_item) None small_db0 [] = Some (SQL_RDB_OK, h1, w1, m1) \<and>
     SqlRDBRead h1 (Some ''item'') item_cond (Some (replicate 16 NUL)) None None w1 m1 = Some (SQL_RDB_OK, h2, Some b, nm2, w2, m2) \<and>
     map (\<lambda>c. column_cell c b) (sch_cols demo_pair) = [Cell_Int 5, Cell_Int 6]"
proof -
  let ?buf = "replicate 16 NUL"
  obtain w1 where wr: "SqlRDBWrite small_handle (Some ''item'') (Some demo_item) None small_db0 [] = Some (SQL_RDB_OK, small_handle, w1, [])"
    and "sd_data w1 = ([], [(5, 6)])" using small_write_item by blast
  then obtain buf' nm2 w2 where
    rd: "SqlRDBRead small_handle (Some ''item'') item_cond (Some ?buf) None None w1 [] = Some (SQL_RDB_OK, small_handle, buf', nm2, w2, [])"
    using small_read_item by blast
  have len: "length demo_item = length ?buf" by code_simp
  have fits: "cond_fits item_cond" by code_simp
  have one: "\<not> allows_many small_handle None" by (simp add: allows_many_def small_handle_def DEFAULT_CONFIG_def)
  have st: "struct_ok (sch_cols demo_pair) ?buf" using item_struct(1) len by (simp add: struct_ok_def)
  from write_then_read_restores [OF small_opens small_keeps small_binds small_executes small_reads small_ready small_registered(2)
    item_struct(2) fits one st item_stores wr rd] obtain b where b: "buf' = Some b"
    "\<forall>k < length (sch_cols demo_pair). column_cell (sch_cols demo_pair ! k) b = column_cell (sch_cols demo_pair ! k) demo_item" by auto
  have "map (\<lambda>c. column_cell c b) (sch_cols demo_pair) = map (\<lambda>c. column_cell c demo_item) (sch_cols demo_pair)"
    using b(2) by (simp add: list_eq_iff_nth_eq)
  moreover have "map (\<lambda>c. column_cell c demo_item) (sch_cols demo_pair) = [Cell_Int 5, Cell_Int 6]" by code_simp
  ultimately show ?thesis using wr rd b(1) by auto
qed

text \<open>
  C6. A client that opens an iterator and fetches until it reports the end gets exactly the rows of its
  query: the generated statement was run once with the values of the condition, there were as many
  successful fetches as rows, and the buffer of the \<open>k\<close>-th one holds the \<open>k\<close>-th row when its values
  have the types of the columns.
\<close>

theorem iteration_delivers_rows:
  assumes "sqlite_opens api live" and "sqlite_keeps api live" and "sqlite_binds api live obs data"
    and "sqlite_executes api db live obs data sem" and "sqlite_reads api live obs data"
    and "engine_ready (g_sqlite3_driver api) db live obs h w F" and "registered h name = Some schema" and "cond_fits cond"
    and "\<forall>(buf, nm) \<in> set bufs. struct_ok (sch_cols schema) buf"
    and "SqlRDBReadMany h (Some name) cond True w m = Some (SQL_RDB_OK, h1, Some it, w1, m1)"
    and "fetch_rows it h1 bufs w1 = Some (outs @ [(SQL_RDB_ERR_NOT_FOUND, out)], h2, w2)"
  shows "\<exists>rows. ran_with sem (select_sql (g_sqlite3_driver api) schema cond) (cond_cells cond) (data w) rows (data w2) \<and>
    length outs = length rows \<and> (\<forall>k < length rows. fst (outs ! k) = SQL_RDB_OK \<and>
      (row_fits (sch_cols schema) (rows ! k) \<longrightarrow> (\<exists>b. snd (outs ! k) = Some b \<and> row_held (sch_cols schema) (rows ! k) b)))"
  by (rule sql_engine.iteration_rows [OF sqlite_sql_engine [OF assms(1-5)] assms(6-8) sqlite_end_is_own assms(9-11)])

theorem iteration_delivers_rows_witness:
  "\<exists>w it w1 out w2 rows. sd_data w = ([], [(5, 6)]) \<and>
     SqlRDBReadMany small_handle (Some ''item'') item_cond True w [] = Some (SQL_RDB_OK, small_handle, Some it, w1, []) \<and>
     fetch_rows it small_handle [(replicate 16 NUL, None), (replicate 16 NUL, None)] w1 =
       Some ([(SQL_RDB_OK, Some demo_item)] @ [(SQL_RDB_ERR_NOT_FOUND, out)], small_handle, w2) \<and>
     length rows = 1 \<and> ran_with small_sem (select_sql (g_sqlite3_driver small_sqlite) demo_pair item_cond) (cond_cells item_cond)
       (sd_data w) rows (sd_data w2)"
proof -
  let ?w = "small_db0\<lparr>sd_data := ([], [(5, 6)])\<rparr>"
  obtain it w1 out w2 where it: "SqlRDBReadMany small_handle (Some ''item'') item_cond True ?w [] = Some (SQL_RDB_OK, small_handle, Some it, w1, [])"
    "fetch_rows it small_handle [(replicate 16 NUL, None), (replicate 16 NUL, None)] w1 =
       Some ([(SQL_RDB_OK, Some demo_item)] @ [(SQL_RDB_ERR_NOT_FOUND, out)], small_handle, w2)"
    using small_iterate [of ?w] by auto
  have fits: "cond_fits item_cond" by code_simp
  have "length demo_item = 16" by code_simp
  then have "struct_ok (sch_cols demo_pair) (replicate 16 NUL)" using item_struct(1) by (simp add: struct_ok_def)
  then have bufs: "\<forall>(buf, nm) \<in> set [(replicate 16 NUL, None), (replicate 16 NUL, None)]. struct_ok (sch_cols demo_pair) buf" by simp
  from iteration_delivers_rows [OF small_opens small_keeps small_binds small_executes small_reads small_ready_with small_registered(2) fits bufs it]
  obtain rows where "ran_with small_sem (select_sql (g_sqlite3_driver small_sqlite) demo_pair item_cond) (cond_cells item_cond)
      (sd_data ?w) rows (sd_data w2)" "length rows = 1" by auto
  then show ?thesis using it by (intro exI [of _ ?w] exI [of _ it] exI [of _ w1] exI [of _ out] exI [of _ w2] exI [of _ rows]) simp
qed

text \<open>
  A count runs exactly its generated statement, with the values of its condition as parameters, or
  fails and changes nothing; when it succeeds it reports the first column of the first row.
\<close>

theorem count_reports_engine:
  assumes "sqlite_opens api live" and "sqlite_keeps api live" and "sqlite_binds api live obs data"
    and "sqlite_executes api db live obs data sem" and "sqlite_reads api live obs data"
    and "engine_ready (g_sqlite3_driver api) db live obs h w F" and "registered h name = Some schema" and "cond_fits cond"
    and "SqlRDBCount h (Some name) cond (Some old) w m = Some (r, h', out, w', m')"
  shows "executed sem (count_sql (g_sqlite3_driver api) schema cond) (cond_cells cond) r (data w) (data w') (\<lambda>rows. reported rows old out)"
  using ensuresD [OF sql_engine.Count_engine [OF sqlite_sql_engine [OF assms(1-5)] assms(6-8)] assms(9)] by simp

theorem count_reports_engine_witness:
  "\<exists>out w'. SqlRDBCount small_handle (Some ''sessions'') None (Some 0) small_db0 [] = Some (SQL_RDB_OK, small_handle, out, w', []) \<and>
     reported [[Cell_Int 0]] 0 out \<and> out = Some 0"
proof -
  obtain out w' where run: "SqlRDBCount small_handle (Some ''sessions'') None (Some 0) small_db0 [] = Some (SQL_RDB_OK, small_handle, out, w', [])"
    using small_count_all by blast
  have fits: "cond_fits None" by (simp add: cond_fits_def)
  have sql: "count_sql (g_sqlite3_driver small_sqlite) sessions_schema None = ''SELECT COUNT(*) FROM \"sessions\"''" by code_simp
  from count_reports_engine [OF small_opens small_keeps small_binds small_executes small_reads small_ready small_registered(1) fits run]
  obtain a rows where "small_sem ''SELECT COUNT(*) FROM \"sessions\"'' a (sd_data small_db0) = (rows, sd_data w')" "reported rows 0 out"
    by (auto simp: executed_def ran_with_def sql)
  moreover have "small_sem ''SELECT COUNT(*) FROM \"sessions\"'' a (sd_data small_db0) = ([[Cell_Int 0]], sd_data small_db0)" for a
    by (simp add: small_sem_def small_run_def small_db0_def)
  ultimately have "reported [[Cell_Int 0]] 0 out" by simp
  then show ?thesis using run by (auto simp: reported_def)
qed

text \<open>
  C7. A batch write outside a transaction fails as a whole. If \<^verbatim>\<open>SqlRDBWriteMany\<close> reports
  anything but success, at whichever row and for whichever reason, the data are those before the call,
  and in every case no transaction is left open. SQLite is assumed to implement the transaction commands as
  documented, with a \<^verbatim>\<open>COMMIT\<close> and \<^verbatim>\<open>ROLLBACK\<close> that succeed inside a transaction, and to
  change the data in \<^verbatim>\<open>sqlite3_step\<close> only, where a failing step may roll the transaction back on its
  own.
\<close>

theorem write_many_rolls_back:
  assumes "txn_database (g_sqlite3_driver api) db data saved" and "sqlite_levels api db data saved"
    and "driver h = Some (g_sqlite3_driver api)" and "driver_ctx h = Some db" and "txn_depth (txn h) = 0" and "saved w = []"
    and "\<And>v. saved v \<noteq> [] \<Longrightarrow> ensures (drv_exec (g_sqlite3_driver api) db ''COMMIT'' v) (\<lambda>(r, v'). r = SQL_RDB_OK)"
    and "\<And>v. saved v \<noteq> [] \<Longrightarrow> ensures (drv_exec (g_sqlite3_driver api) db ''ROLLBACK'' v) (\<lambda>(r, v'). r = SQL_RDB_OK)"
    and "SqlRDBWriteMany h name rows n stride nms w m = Some (r, h', w', m')"
  shows "saved w' = [] \<and> (r \<noteq> SQL_RDB_OK \<longrightarrow> data w' = data w)"
  by (rule batch_driver.WriteMany_all_or_nothing [OF sqlite_batch_driver [OF assms(1,2)] assms(3-)])

theorem write_many_rolls_back_witness:
  "\<exists>w. SqlRDBWriteMany small_handle (Some ''item'') (Some (demo_item @ demo_item)) 2 16 (Some [0, 1]) small_db0 [] =
     Some (SQL_RDB_ERR_NOT_NULL_VIOLATION, small_handle, w, []) \<and> sd_saved w = [] \<and> sd_data w = ([], [])"
proof -
  obtain w where run: "SqlRDBWriteMany small_handle (Some ''item'') (Some (demo_item @ demo_item)) 2 16 (Some [0, 1]) small_db0 [] =
      Some (SQL_RDB_ERR_NOT_NULL_VIOLATION, small_handle, w, [])" using small_batch_fails by blast
  have h: "driver_ctx small_handle = Some 0" "txn_depth (txn small_handle) = 0" "sd_saved small_db0 = []" "sd_data small_db0 = ([], [])"
    by (simp_all add: small_handle_def new_handle_def small_db0_def)
  have works: "ensures (drv_exec (g_sqlite3_driver small_sqlite) 0 ''COMMIT'' v) (\<lambda>(r, v'). r = SQL_RDB_OK)"
    "ensures (drv_exec (g_sqlite3_driver small_sqlite) 0 ''ROLLBACK'' v) (\<lambda>(r, v'). r = SQL_RDB_OK)" if "sd_saved v \<noteq> []" for v
    using that by (simp_all add: sqlite_thin_ops small_sqlite_def small_exec_def mapped_def)
  from write_many_rolls_back [OF small_txn_database small_levels small_driver(1) h(1-3) works run] h(4) run show ?thesis by auto
qed

text \<open>
  C5. Nested transactions bracket the data. Between a successful begin and the commit or rollback that
  ends it, whatever nested transactions and row calls are made and whichever of them fail, a rollback
  restores the data of the moment of the begin and a commit keeps the data of the moment; both give
  back the copies saved by the enclosing levels. SQLite is assumed to implement the six commands
  \<^verbatim>\<open>BEGIN\<close> to \<^verbatim>\<open>RELEASE SAVEPOINT\<close> as documented, and the row calls to open or close
  no savepoint.
\<close>

theorem transactions_restore_data:
  assumes "txn_database (g_sqlite3_driver api) db data saved" and "tx_ready h" and "driver h = Some (g_sqlite3_driver api)"
    and "driver_ctx h = Some db" and "level_ok saved h w" and "tx_run Tx_Begin h w = Some (SQL_RDB_OK, h1, w1)"
    and "tx_work saved (txn_depth (txn h) + 1) (h1, w1) (h2, w2)" and "txn_depth (txn h2) = txn_depth (txn h) + 1"
    and "tx_run oper h2 w2 = Some (SQL_RDB_OK, h3, w3)" and "oper = Tx_Commit \<or> oper = Tx_Rollback"
  shows "data w3 = (if oper = Tx_Rollback then data w else data w2) \<and> map snd (saved w3) = map snd (saved w) \<and>
         txn_depth (txn h3) = txn_depth (txn h)"
  by (rule sql_txn_driver.bracket_restores [OF sqlite_txn.sql_txn_driver_axioms assms])

theorem transactions_restore_data_witness:
  "\<exists>h1 w1 h3 w3. tx_run Tx_Begin small_handle small_db0 = Some (SQL_RDB_OK, h1, w1) \<and>
     tx_run Tx_Rollback h1 (w1\<lparr>sd_data := ([7], [])\<rparr>) = Some (SQL_RDB_OK, h3, w3) \<and> sd_data w3 = ([], [])"
proof -
  have "map_option fst (do { (r, h, w) \<leftarrow> tx_run Tx_Begin small_handle small_db0;
      if r \<noteq> SQL_RDB_OK then None else tx_run Tx_Rollback h (w\<lparr>sd_data := ([7], [])\<rparr>) }) = Some SQL_RDB_OK" by code_simp
  then obtain h1 w1 h3 w3 where b: "tx_run Tx_Begin small_handle small_db0 = Some (SQL_RDB_OK, h1, w1)"
    and e: "tx_run Tx_Rollback h1 (w1\<lparr>sd_data := ([7], [])\<rparr>) = Some (SQL_RDB_OK, h3, w3)"
    by (auto simp: bind_Some_iff split: if_splits)
  have h: "tx_ready small_handle" "driver small_handle = Some (g_sqlite3_driver small_sqlite)" "driver_ctx small_handle = Some 0"
    "level_ok sd_saved small_handle small_db0" "txn_depth (txn small_handle) = 0"
    using small_ready small_open
    by (simp_all add: tx_ready_def engine_ready_def open_handle_def handle_ok_def level_ok_def)
       (simp_all add: small_handle_def new_handle_def small_db0_def)
  from sql_txn_driver.tx_run_nested [OF sqlite_txn.sql_txn_driver_axioms h(1-3) small_txn_database h(4) b] have d: "txn_depth (txn h1) = 1" using h(5) by simp
  have "tx_work sd_saved 1 (h1, w1) (h1, w1\<lparr>sd_data := ([7], [])\<rparr>)"
    by (rule tw_rows [OF tw_start]) (use d in \<open>simp_all add: keeps_handle_def\<close>)
  with transactions_restore_data [OF small_txn_database h(1-4) b _ _ e] d h(5) have "sd_data w3 = sd_data small_db0" by simp
  then show ?thesis using b e by (auto simp: small_db0_def)
qed

section \<open>Generated code\<close>

text \<open>
  C29. The generated table of \<^verbatim>\<open>persons\<close> describes its struct. After
  \<^verbatim>\<open>RegisterPersons\<close> has succeeded, binding the bytes of a \<^verbatim>\<open>Person\<close> with any driver
  passes each member to the bind function of its type, in the order of the parameters: the identifier
  as a 32-bit integer, the name as a text of its length, the score as a double or, when the null map
  marks it, as NULL. The bytes are in the layout of the x86-64 ABI.
\<close>

theorem person_members_bound:
  assumes "handle_ok h" and "RegisterPersons h w m = Some (SQL_RDB_OK, h', w', m')" and "holds_person row p" and "marks_score nm p"
  shows "\<exists>schema text. registered h' ''persons'' = Some schema \<and> take (length (p_name p)) text = p_name p \<and>
    c2sql_internal_tm_bind_row drv s schema (Some row) nm v = bind_person drv s p text v"
proof (intro exI conjI)
  show "registered h' ''persons'' = Some (schema_of ''persons'' PERSONS_COLS)" using generated_register(1) [OF assms(1,2)] by simp
qed (rule person_binds [OF assms(3,4)])+

theorem person_members_bound_witness:
  "\<exists>h' w' m' schema text. RegisterPersons (demo_handle persons_tables SQLITE_OK) demo_db0 [] = Some (SQL_RDB_OK, h', w', m') \<and>
     registered h' ''persons'' = Some schema \<and> take 3 text = ''Ann'' \<and>
     c2sql_internal_tm_bind_row (g_sqlite3_driver small_sqlite) 1 schema
       (Some (le_bytes 4 (9 :: 32 word) @ ''Ann'' @ replicate 29 NUL @ replicate 12 (CHR ''x''))) (Some [4]) small_db0 =
     bind_person (g_sqlite3_driver small_sqlite) 1 \<lparr>p_id = 9, p_name = ''Ann'', p_score = None\<rparr> text small_db0"
proof -
  let ?row = "le_bytes 4 (9 :: 32 word) @ ''Ann'' @ replicate 29 NUL @ replicate 12 (CHR ''x'')" and ?p = "\<lparr>p_id = 9, p_name = ''Ann'', p_score = None\<rparr>"
  have "map_option fst (RegisterPersons (demo_handle persons_tables SQLITE_OK) demo_db0 []) = Some SQL_RDB_OK" by code_simp
  then obtain h' w' m' where run: "RegisterPersons (demo_handle persons_tables SQLITE_OK) demo_db0 [] = Some (SQL_RDB_OK, h', w', m')" by auto
  have "holds_person ?row ?p" by (simp add: holds_person_def le_word_le_bytes)
  moreover have "marks_score (Some [4]) ?p" by (simp add: marks_score_def c2sql_internal_null_bit_get_def nth_opt_def)
  ultimately have "\<exists>schema text. registered h' ''persons'' = Some schema \<and> take (length (p_name ?p)) text = p_name ?p \<and>
     c2sql_internal_tm_bind_row (g_sqlite3_driver small_sqlite) 1 schema (Some ?row) (Some [4]) small_db0 =
     bind_person (g_sqlite3_driver small_sqlite) 1 ?p text small_db0"
    by (rule person_members_bound [OF demo_handle_ok run])
  then obtain schema t where "registered h' ''persons'' = Some schema" "take 3 t = ''Ann''"
    "c2sql_internal_tm_bind_row (g_sqlite3_driver small_sqlite) 1 schema (Some ?row) (Some [4]) small_db0 =
     bind_person (g_sqlite3_driver small_sqlite) 1 ?p t small_db0" by (auto simp: eval_nat_numeral)
  with run show ?thesis by blast
qed

text \<open>
  C13. The generated guarded write keeps the table \<^verbatim>\<open>sessions\<close> within its maximum of three
  records: after any sequence of guarded writes, deletes and counts of one caller, whatever fails, the
  number of identifiers in the table is at most the maximum, and every condition node the writes
  allocated is freed. SQLite is assumed to execute the statements of the guard as SQL prescribes.
\<close>

theorem sessions_capacity:
  assumes "sqlite_opens api live" and "sqlite_keeps api live" and "sqlite_binds api live obs data"
    and "sqlite_executes api db live obs data sem" and "sqlite_reads api live obs data"
    and "engine_ready (g_sqlite3_driver api) db live obs h w F" and "registered h ''sessions'' = Some sessions_schema"
    and "sessions_table sem keys" and "deletes_remove (g_sqlite3_driver api) sem keys" and "cond_heap_ok H"
    and "card (keys (data w)) \<le> SESSIONS_MAX_RECORDS" and "guarded_run (h, w, H) (h', w', H')"
  shows "card (keys (data w')) \<le> SESSIONS_MAX_RECORDS \<and> ch_nodes H' = ch_nodes H"
proof -
  have "drv_dialect (g_sqlite3_driver api) = C2SQL_DIALECT_SQLITE" by (simp add: g_sqlite3_driver_def)
  from sql_engine.guarded_run_capacity [OF sqlite_sql_engine [OF assms(1-5)] assms(12) refl refl assms(6) this assms(7-11)]
  show ?thesis by simp
qed

theorem sessions_capacity_witness:
  "\<exists>r h' w' m' H'. WriteSessionsGuarded small_handle (Some (session_bytes 4)) None small_db0 [] small_heap = Some (r, h', w', m', H') \<and>
     r = SQL_RDB_OK \<and> session_keys (sd_data w') = {4} \<and> card (session_keys (sd_data w')) \<le> 3 \<and> ch_nodes H' = Map.empty"
proof -
  obtain h' w' m' H' where run:
    "WriteSessionsGuarded small_handle (Some (session_bytes 4)) None small_db0 [] small_heap = Some (SQL_RDB_OK, h', w', m', H')"
    and data: "sd_data w' = ([4], [])" using small_guarded by blast
  have row: "session_row (session_bytes 4) None"
    by (simp add: session_row_def session_bytes_def generated_layouts c2sql_internal_null_bit_get_def)
  have heap: "cond_heap_ok small_heap" by (simp add: small_heap_def cond_heap_ok_def)
  have few: "card (session_keys (sd_data small_db0)) \<le> SESSIONS_MAX_RECORDS" by (simp add: small_db0_def session_keys_def)
  from sessions_capacity [OF small_opens small_keeps small_binds small_executes small_reads small_ready small_registered(1) small_table
    small_deletes heap few gr_write [OF gr_start row run]] show ?thesis using run data by (auto simp: SESSIONS_MAX_RECORDS_def small_heap_def session_keys_def)
qed

end
